(* ===== verification/Prelude.thy ===== *)
theory Prelude
  imports Main "HOL-Library.Word" "HOL-Library.Monad_Syntax"
begin

text \<open>
  What every component of the development shares: the machine integer types of the C code, the
  collections of lemmas the component proofs draw on, block copies between byte arrays (memcpy),
  C strings, and the big-endian byte order of the wire format.
\<close>

unbundle bit_operations_syntax

type_synonym byte = "8 word"
type_synonym u8 = "8 word"
type_synonym u16 = "16 word"
type_synonym u32 = "32 word"
type_synonym u64 = "64 word"
type_synonym i32 = "32 word"

text \<open>
  \<^term>\<open>i32\<close> is the C type int (and int32_t): the same 32 bits, read with \<^const>\<open>sint\<close>.
\<close>

named_theorems codec_intros "rules that compose writers and readers of the wire format"


section \<open>Assertions\<close>

text \<open>
  In the models that use the option monad, \<^const>\<open>None\<close> is a failed assertion, which aborts the
  program, or an access outside the memory of an object.
\<close>

definition assertC :: "bool \<Rightarrow> unit option" where
  "assertC c = (if c then Some () else None)"

lemma assertC_True [simp]: "c \<Longrightarrow> assertC c = Some ()"
  by (simp add: assertC_def)

lemma assertC_False [simp]: "\<not> c \<Longrightarrow> assertC c = None"
  by (simp add: assertC_def)


section \<open>Block copies\<close>

text \<open>
  \<^term>\<open>memcpy_at off xs mem\<close> is the array \<^term>\<open>mem\<close> after \<^verbatim>\<open>memcpy(&mem[off], xs, n)\<close> for a block
  \<^term>\<open>xs\<close> of n elements that lies inside the array.
\<close>

definition memcpy_at :: "nat \<Rightarrow> 'a list \<Rightarrow> 'a list \<Rightarrow> 'a list" where
  "memcpy_at off xs mem = take off mem @ xs @ drop (off + length xs) mem"

lemma length_memcpy_at [simp]:
  "off + length xs \<le> length mem \<Longrightarrow> length (memcpy_at off xs mem) = length mem"
  by (simp add: memcpy_at_def)

lemma take_memcpy_at:
  "off + length xs \<le> length mem \<Longrightarrow> take (off + length xs) (memcpy_at off xs mem) = take off mem @ xs"
  by (simp add: memcpy_at_def)

lemma drop_memcpy_at:
  "off + length xs \<le> length mem \<Longrightarrow>
    drop (off + length xs) (memcpy_at off xs mem) = drop (off + length xs) mem"
  by (simp add: memcpy_at_def)

lemma nth_memcpy_at:
  assumes "off + length xs \<le> length mem" and "i < length mem"
  shows "memcpy_at off xs mem ! i =
    (if off \<le> i \<and> i < off + length xs then xs ! (i - off) else mem ! i)"
  using assms by (auto simp: memcpy_at_def nth_append min_def)

lemma memcpy_at_Nil [simp]: "memcpy_at off [] mem = mem"
  by (simp add: memcpy_at_def)

text \<open>xrealloc keeps the old bytes and zero-fills what it adds.\<close>

definition xrealloc :: "byte list \<Rightarrow> nat \<Rightarrow> byte list" where
  "xrealloc mem n = take n mem @ replicate (n - length mem) 0"

lemma length_xrealloc [simp]: "length (xrealloc mem n) = n"
  by (simp add: xrealloc_def)

lemma take_xrealloc:
  "k \<le> length mem \<Longrightarrow> k \<le> n \<Longrightarrow> take k (xrealloc mem n) = take k mem"
  by (simp add: xrealloc_def min_def)


section \<open>C strings\<close>

text \<open>
  A \<^verbatim>\<open>char *\<close> is NULL or points to an array of bytes. \<^verbatim>\<open>strlen\<close> counts the bytes before the first
  NUL; an array without one is read past its end, which is \<^const>\<open>None\<close> here.
\<close>

type_synonym cptr = "byte list option"

definition strlen :: "byte list \<Rightarrow> nat option" where
  "strlen m = (if 0 \<in> set m then Some (length (takeWhile (\<lambda>c. c \<noteq> 0) m)) else None)"

text \<open>An array that holds exactly one string: text without NUL, then the terminator.\<close>

definition tight_cstr :: "byte list \<Rightarrow> bool" where
  "tight_cstr m \<longleftrightarrow> m \<noteq> [] \<and> last m = 0 \<and> 0 \<notin> set (butlast m)"

lemma tight_cstrE:
  assumes "tight_cstr m"
  obtains s where "m = s @ [0]" and "0 \<notin> set s"
  using assms by (metis append_butlast_last_id tight_cstr_def)

lemma strlen_tight: "tight_cstr m \<Longrightarrow> strlen m = Some (length m - 1)"
proof (erule tight_cstrE)
  fix s :: "byte list"
  assume m: "m = s @ [0]" and s: "0 \<notin> set s"
  have "takeWhile (\<lambda>c. c \<noteq> 0) (s @ [0]) = s"
    using s by (subst takeWhile_append2) auto
  then show "strlen m = Some (length m - 1)" by (simp add: strlen_def m)
qed

text \<open>A read of \<^term>\<open>n\<close> bytes through a pointer; \<^const>\<open>None\<close> is an access outside the array.\<close>

definition read_mem :: "cptr \<Rightarrow> nat \<Rightarrow> byte list option" where
  "read_mem p n = (case p of None \<Rightarrow> None | Some m \<Rightarrow> if n \<le> length m then Some (take n m) else None)"


section \<open>Network byte order\<close>

text \<open>
  The bytes of an n-byte integer in network order, most significant first, and back: what
  \<^verbatim>\<open>htonl\<close> followed by \<^verbatim>\<open>memcpy\<close> leaves in the buffer, and \<^verbatim>\<open>memcpy\<close> followed by \<^verbatim>\<open>ntohl\<close> reads.
\<close>

fun be_bytes :: "nat \<Rightarrow> 'a::len word \<Rightarrow> byte list" where
  "be_bytes 0 w = []"
| "be_bytes (Suc n) w = ucast (drop_bit (8 * n) w) # be_bytes n w"

definition be_word :: "byte list \<Rightarrow> 'a::len word" where
  "be_word bs = foldl (\<lambda>a b. push_bit 8 a OR ucast b) 0 bs"

lemma be_bytes_numeral:
  "be_bytes (numeral k) w = ucast (drop_bit (8 * pred_numeral k) w) # be_bytes (pred_numeral k) w"
  by (simp add: numeral_eq_Suc)

lemma length_be_bytes [simp]: "length (be_bytes n w) = n"
  by (induction n) auto

lemma be_word_step:
  fixes a w :: "'a::len word"
  shows "push_bit (8 * n) (push_bit 8 a OR ucast (ucast (drop_bit (8 * n) w) :: byte))
      OR take_bit (8 * n) w
    = push_bit (8 * Suc n) a OR take_bit (8 * Suc n) w"
  by (rule bit_word_eqI)
    (auto simp: bit_or_iff bit_push_bit_iff bit_ucast_iff bit_drop_bit_eq bit_take_bit_iff
      possible_bit_word add.commute dest: bit_imp_le_length)

lemma foldl_be_bytes:
  fixes a w :: "'a::len word"
  shows "foldl (\<lambda>a b. push_bit 8 a OR ucast b) a (be_bytes n w) = push_bit (8 * n) a OR take_bit (8 * n) w"
proof (induction n arbitrary: a)
  case 0
  then show ?case by simp
next
  case (Suc n)
  show ?case
    unfolding be_bytes.simps foldl.simps Suc.IH by (rule be_word_step)
qed

lemma be_word_be_bytes [simp]:
  fixes w :: "'a::len word"
  assumes "LENGTH('a) \<le> 8 * n"
  shows "be_word (be_bytes n w) = w"
proof -
  have "take_bit (8 * n) w = w"
    by (rule bit_word_eqI) (use assms in \<open>auto simp: bit_take_bit_iff\<close>)
  then show ?thesis by (simp add: be_word_def foldl_be_bytes)
qed

end
