(* ===== verification/Pack.thy ===== *)
theory Pack
  imports Prelude
begin

text \<open>
  The wire buffer of \<^verbatim>\<open>src/src/common/pack.c\<close> and \<^verbatim>\<open>pack.h\<close>: a growing byte array with a read and
  write position, and the routines that store and fetch integers, memory blocks, strings and
  arrays in network byte order.  First the code, then the contract of a writer and of a reader,
  the locale \<open>codec\<close> of a matching pair, and its interpretations on the code's pairs.
\<close>


section \<open>The buffer\<close>

definition BUF_MAGIC :: u32 where "BUF_MAGIC = 0x42554545"
definition BUF_SIZE :: u32 where "BUF_SIZE = 16 * 1024"
definition MAX_BUF_SIZE :: u32 where "MAX_BUF_SIZE = 0xffff0000"

text \<open>
  The field \<^verbatim>\<open>head\<close> of the C structure points to allocated memory; here it is that memory, so its
  length is what is allocated, and \<open>bsize\<close> is the C field \<^verbatim>\<open>size\<close>.
\<close>

record slurm_buf =
  magic :: u32
  head :: "byte list"
  bsize :: u32
  processed :: u32

text \<open>
  The outcome of a routine on a buffer: it returns (for an unpack routine: \<^verbatim>\<open>SLURM_SUCCESS\<close> and
  the value stored through the out parameter), it returns \<^verbatim>\<open>SLURM_ERROR\<close>, or it has touched memory
  outside an allocated object, which C leaves undefined.  The buffer is part of the first two,
  because callers may go on with it after an error.
\<close>

datatype 'a res = Ok 'a slurm_buf | Err slurm_buf | Fault

type_synonym 'a M = "slurm_buf \<Rightarrow> 'a res"

definition ret :: "'a \<Rightarrow> 'a M" where
  "ret x b = Ok x b"

definition fail :: "'a M" where
  "fail b = Err b"

definition fault :: "'a M" where
  "fault b = Fault"

text \<open>
  Sequencing.  An \<^const>\<open>Err\<close> skips the rest, as the \<^verbatim>\<open>goto unpack_error\<close> of the \<^verbatim>\<open>safe_unpack\<close> macros does.
\<close>

definition bindM :: "'a M \<Rightarrow> ('a \<Rightarrow> 'b M) \<Rightarrow> 'b M" where
  "bindM m f b = (case m b of Ok x b' \<Rightarrow> f x b' | Err b' \<Rightarrow> Err b' | Fault \<Rightarrow> Fault)"

definition thenM :: "'a M \<Rightarrow> 'b M \<Rightarrow> 'b M" where
  "thenM m n = bindM m (\<lambda>_. n)"

text \<open>
  \<^verbatim>\<open>assert(buf->magic == BUF_MAGIC)\<close>, which the string routines and every \<^verbatim>\<open>safe_\<close> macro start with.
  An assertion that fails aborts the program; that is a \<^const>\<open>Fault\<close> too.
\<close>

definition checked :: "'a M \<Rightarrow> 'a M" where
  "checked m b = (if magic b = BUF_MAGIC then m b else Fault)"

definition create_buf :: "byte list \<Rightarrow> i32 \<Rightarrow> slurm_buf option" where
  "create_buf data sz =
     (if MAX_BUF_SIZE < sz then None
      else Some \<lparr>magic = BUF_MAGIC, head = data, bsize = sz, processed = 0\<rparr>)"

definition init_buf :: "i32 \<Rightarrow> slurm_buf option" where
  "init_buf sz =
     (if MAX_BUF_SIZE < sz then None
      else let sz = (if sint sz \<le> 0 then BUF_SIZE else sz) in
        Some \<lparr>magic = BUF_MAGIC, head = replicate (unat sz) 0, bsize = sz, processed = 0\<rparr>)"

text \<open>
  \<^verbatim>\<open>xmalloc\<close> asserts that the size fits an \<^verbatim>\<open>int\<close>, and the program is aborted when it does not; the memory it
  returns is the value that the caller stores there.
\<close>

definition INT_MAX :: nat where "INT_MAX = 2147483647"

definition xmalloc :: "nat \<Rightarrow> unit M" where
  "xmalloc n = (if n \<le> INT_MAX then ret () else fault)"

text \<open>
  The two statements by which every routine enlarges the buffer.  \<^verbatim>\<open>xrealloc\<close> clears what it adds, with the number of
  these bytes converted to \<^verbatim>\<open>int\<close>: from 2 GiB on it is negative, and the \<^verbatim>\<open>memset\<close> runs over everything.  The old
  size is kept in an \<^verbatim>\<open>int\<close> too and is negative from 2 GiB on: then nothing is cleared.
\<close>

definition clears_too_much :: "u32 \<Rightarrow> u32 \<Rightarrow> bool" where
  "clears_too_much old_size newsize \<longleftrightarrow> unat old_size \<le> INT_MAX \<and> unat old_size + INT_MAX < unat newsize"

definition enlarge :: "u32 \<Rightarrow> slurm_buf \<Rightarrow> slurm_buf" where
  "enlarge k b = b\<lparr>bsize := bsize b + k, head := xrealloc (head b) (unat (bsize b + k))\<rparr>"

definition grow_buf :: "i32 \<Rightarrow> slurm_buf \<Rightarrow> slurm_buf option" where
  "grow_buf sz b =
     (if MAX_BUF_SIZE - sz < bsize b then Some b
      else if clears_too_much (bsize b) (bsize b + sz) then None
      else Some (enlarge sz b))"

definition xfer_buf_data :: "slurm_buf \<Rightarrow> byte list" where
  "xfer_buf_data b = head b"

definition remaining_buf :: "slurm_buf \<Rightarrow> u32" where
  "remaining_buf b = bsize b - processed b"

definition set_buf_offset :: "u32 \<Rightarrow> slurm_buf \<Rightarrow> slurm_buf" where
  "set_buf_offset v b = b\<lparr>processed := v\<rparr>"


section \<open>Stores and loads at the current position\<close>

definition put_bytes :: "byte list \<Rightarrow> unit M" where
  "put_bytes bs b =
     (if unat (processed b) + length bs \<le> length (head b)
      then Ok () (b\<lparr>head := memcpy_at (unat (processed b)) bs (head b),
                    processed := processed b + of_nat (length bs)\<rparr>)
      else Fault)"

definition get_bytes :: "nat \<Rightarrow> byte list M" where
  "get_bytes n b =
     (if unat (processed b) + n \<le> length (head b)
      then Ok (take n (drop (unat (processed b)) (head b))) (b\<lparr>processed := processed b + of_nat n\<rparr>)
      else Fault)"

text \<open>
  The guard at the head of each scalar routine: make room for \<open>n\<close> bytes, or give up
  (\<^const>\<open>None\<close>) when the buffer would pass \<^const>\<open>MAX_BUF_SIZE\<close>.
\<close>

definition reserve :: "nat \<Rightarrow> slurm_buf \<Rightarrow> slurm_buf option" where
  "reserve n b =
     (if unat (remaining_buf b) < n then
        if MAX_BUF_SIZE - BUF_SIZE < bsize b then None else Some (enlarge BUF_SIZE b)
      else Some b)"

definition pack_scalar :: "byte list \<Rightarrow> unit M" where
  "pack_scalar bs b = (case reserve (length bs) b of None \<Rightarrow> Ok () b | Some b' \<Rightarrow> put_bytes bs b')"

definition unpack_scalar :: "nat \<Rightarrow> byte list M" where
  "unpack_scalar n b = (if unat (remaining_buf b) < n then Err b else get_bytes n b)"

definition pack_time :: "u64 \<Rightarrow> unit M" where
  "pack_time val = pack_scalar (be_bytes 8 val)"

definition unpack_time :: "u64 M" where
  "unpack_time = bindM (unpack_scalar 8) (\<lambda>n64. ret (be_word n64))"

definition pack64 :: "u64 \<Rightarrow> unit M" where
  "pack64 val = pack_scalar (be_bytes 8 val)"

definition unpack64 :: "u64 M" where
  "unpack64 = bindM (unpack_scalar 8) (\<lambda>nl. ret (be_word nl))"

definition pack32 :: "u32 \<Rightarrow> unit M" where
  "pack32 val = pack_scalar (be_bytes 4 val)"

definition unpack32 :: "u32 M" where
  "unpack32 = bindM (unpack_scalar 4) (\<lambda>nl. ret (be_word nl))"

definition pack16 :: "u16 \<Rightarrow> unit M" where
  "pack16 val = pack_scalar (be_bytes 2 val)"

definition unpack16 :: "u16 M" where
  "unpack16 = bindM (unpack_scalar 2) (\<lambda>ns. ret (be_word ns))"

definition pack8 :: "u8 \<Rightarrow> unit M" where
  "pack8 val = pack_scalar [val]"

definition unpack8 :: "u8 M" where
  "unpack8 = bindM (unpack_scalar 1) (\<lambda>bs. ret (be_word bs))"


section \<open>Memory blocks and strings\<close>

text \<open>
  The guard of \<^verbatim>\<open>packmem\<close> is computed in 32 bits and the one against the room left in \<^verbatim>\<open>size_t\<close>.
\<close>

definition packmem_copy :: "cptr \<Rightarrow> u32 \<Rightarrow> unit M" where
  "packmem_copy valp size_val =
     thenM (put_bytes (be_bytes 4 size_val))
       (if size_val = 0 then ret ()
        else case read_mem valp (unat size_val) of None \<Rightarrow> fault | Some bs \<Rightarrow> put_bytes bs)"

definition packmem :: "cptr \<Rightarrow> u32 \<Rightarrow> unit M" where
  "packmem valp size_val b =
     (if unat (remaining_buf b) < 4 + unat size_val then
        if MAX_BUF_SIZE - size_val - BUF_SIZE < bsize b then Ok () b
        else if clears_too_much (bsize b) (bsize b + (size_val + BUF_SIZE)) then Fault
        else packmem_copy valp size_val (enlarge (size_val + BUF_SIZE) b)
      else packmem_copy valp size_val b)"

definition packstr :: "cptr \<Rightarrow> unit M" where
  "packstr str =
     checked (case str of
        None \<Rightarrow> packmem None 0
      | Some m \<Rightarrow> (case strlen m of None \<Rightarrow> fault | Some n \<Rightarrow> packmem str (of_nat n + 1)))"

definition packnull :: "unit M" where
  "packnull = checked (packmem None 0)"

text \<open>
  The body that the four unpack routines for blocks share: the size, the check that the block is there, the memory for
  it, then the block itself.
\<close>

definition room_for :: "nat \<Rightarrow> unit M" where
  "room_for n b = (if unat (remaining_buf b) < n then Err b else Ok () b)"

definition unpack_block :: "(nat \<Rightarrow> unit M) \<Rightarrow> (u32 \<times> byte list) M" where
  "unpack_block alloc =
     bindM (unpack_scalar 4) (\<lambda>ns.
       let size_val = be_word ns in
       if size_val = 0 then ret (0, [])
       else bindM (room_for (unat size_val)) (\<lambda>_.
            bindM (alloc (unat size_val)) (\<lambda>_.
            bindM (get_bytes (unat size_val)) (\<lambda>bs. ret (size_val, bs)))))"

definition unpackmem_ptr :: "(cptr \<times> u32) M" where
  "unpackmem_ptr =
     bindM (unpack_block (\<lambda>_. ret ())) (\<lambda>(n, bs). ret (if n = 0 then None else Some bs, n))"

definition unpackmem_xmalloc :: "(cptr \<times> u32) M" where
  "unpackmem_xmalloc =
     bindM (unpack_block xmalloc) (\<lambda>(n, bs). ret (if n = 0 then None else Some bs, n))"

definition unpackmem_malloc :: "(cptr \<times> u32) M" where
  "unpackmem_malloc =
     bindM (unpack_block (\<lambda>_. ret ())) (\<lambda>(n, bs). ret (if n = 0 then None else Some bs, n))"

text \<open>\<^verbatim>\<open>unpackmem\<close> copies into an array of the caller, which must be large enough.\<close>

definition unpackmem :: "byte list \<Rightarrow> (byte list \<times> u32) M" where
  "unpackmem dst =
     bindM (unpack_block (\<lambda>_. ret ())) (\<lambda>(n, bs).
       if n = 0 then if dst = [] then fault else ret (dst[0 := 0], 0)
       else if length dst < unat n then fault
       else ret (memcpy_at 0 bs dst, n))"

definition packmem_array :: "cptr \<Rightarrow> u32 \<Rightarrow> unit M" where
  "packmem_array valp size_val b =
     (let copy = (case read_mem valp (unat size_val) of None \<Rightarrow> fault | Some bs \<Rightarrow> put_bytes bs) in
      if remaining_buf b < size_val then
        if MAX_BUF_SIZE - size_val - BUF_SIZE < bsize b then Ok () b
        else if clears_too_much (bsize b) (bsize b + (size_val + BUF_SIZE)) then Fault
        else copy (enlarge (size_val + BUF_SIZE) b)
      else copy b)"

text \<open>The flag of the result is the return code: true for \<^verbatim>\<open>SLURM_SUCCESS\<close>.\<close>

definition unpackmem_array :: "byte list \<Rightarrow> u32 \<Rightarrow> (byte list \<times> bool) M" where
  "unpackmem_array dst size_valp b =
     (if size_valp \<le> remaining_buf b then
        if length dst < unat size_valp then Fault
        else bindM (get_bytes (unat size_valp)) (\<lambda>bs. ret (memcpy_at 0 bs dst, True)) b
      else if dst = [] then Fault
      else Ok (dst[0 := 0], False) b)"


section \<open>Arrays\<close>

fun pack_each :: "('a \<Rightarrow> unit M) \<Rightarrow> 'a list \<Rightarrow> unit M" where
  "pack_each pk [] = ret ()"
| "pack_each pk (x # xs) = thenM (pk x) (pack_each pk xs)"

fun unpack_n :: "'a M \<Rightarrow> nat \<Rightarrow> 'a list M" where
  "unpack_n unpk 0 = ret []"
| "unpack_n unpk (Suc n) = bindM unpk (\<lambda>x. bindM (unpack_n unpk n) (\<lambda>xs. ret (x # xs)))"

text \<open>Reading element \<open>i\<close> of an array that holds fewer is a fault, as in the C loops.\<close>

definition array_prefix :: "'a list \<Rightarrow> u32 \<Rightarrow> 'a list option" where
  "array_prefix xs n = (if unat n \<le> length xs then Some (take (unat n) xs) else None)"

definition pack16_array :: "u16 list \<Rightarrow> u32 \<Rightarrow> unit M" where
  "pack16_array valp size_val =
     thenM (pack32 size_val)
       (case array_prefix valp size_val of None \<Rightarrow> fault | Some vs \<Rightarrow> pack_each pack16 vs)"

definition unpack16_array :: "(u16 list \<times> u32) M" where
  "unpack16_array = bindM unpack32 (\<lambda>n. bindM (xmalloc (unat n * 2)) (\<lambda>_. bindM (unpack_n unpack16 (unat n)) (\<lambda>vs. ret (vs, n))))"

definition pack32_array :: "u32 list \<Rightarrow> u32 \<Rightarrow> unit M" where
  "pack32_array valp size_val =
     thenM (pack32 size_val)
       (case array_prefix valp size_val of None \<Rightarrow> fault | Some vs \<Rightarrow> pack_each pack32 vs)"

definition unpack32_array :: "(u32 list \<times> u32) M" where
  "unpack32_array = bindM unpack32 (\<lambda>n. bindM (xmalloc (unat n * 4)) (\<lambda>_. bindM (unpack_n unpack32 (unat n)) (\<lambda>vs. ret (vs, n))))"

definition packstr_array :: "cptr list \<Rightarrow> u32 \<Rightarrow> unit M" where
  "packstr_array valp size_val b =
     (case reserve 4 b of
        None \<Rightarrow> Ok () b
      | Some b' \<Rightarrow>
          thenM (put_bytes (be_bytes 4 size_val))
            (case array_prefix valp size_val of None \<Rightarrow> fault | Some vs \<Rightarrow> pack_each packstr vs) b')"

text \<open>
  \<^verbatim>\<open>unpackstr_array\<close> allocates one element more than the size it reads, for a NULL at the end, so the array it returns
  is NULL when the size is 0 and ends with NULL otherwise.  The number of elements is computed in 32 bits: for the largest
  size it is 0, and the first string is stored behind the array, which has no element.  Eight bytes each, from
  \<^verbatim>\<open>2 ^ 28\<close> elements on \<^verbatim>\<open>xmalloc\<close> aborts.
\<close>

definition unpack_ptr :: "cptr M" where
  "unpack_ptr = bindM unpackmem_xmalloc (\<lambda>(p, _). ret p)"

fun unpack_into :: "nat \<Rightarrow> nat \<Rightarrow> cptr list M" where
  "unpack_into cells 0 = ret []"
| "unpack_into cells (Suc n) =
     bindM unpack_ptr (\<lambda>p.
       if cells = 0 then fault else bindM (unpack_into (cells - 1) n) (\<lambda>ps. ret (p # ps)))"

definition unpackstr_array :: "(cptr list option \<times> u32) M" where
  "unpackstr_array =
     bindM (unpack_scalar 4) (\<lambda>ns.
       let size_val = be_word ns; cells = unat (size_val + 1) in
       if size_val = 0 then ret (None, 0)
       else bindM (xmalloc (8 * cells)) (\<lambda>_.
            bindM (unpack_into cells (unat size_val)) (\<lambda>vs. ret (Some (vs @ [None]), size_val))))"

text \<open>The \<^verbatim>\<open>safe_unpack\<close> macros: the magic cookie is checked, and an error leaves for \<^verbatim>\<open>unpack_error\<close>.\<close>

definition safe_unpack_time :: "u64 M" where
  "safe_unpack_time = checked unpack_time"

definition safe_unpack64 :: "u64 M" where
  "safe_unpack64 = checked unpack64"

definition safe_unpack32 :: "u32 M" where
  "safe_unpack32 = checked unpack32"

definition safe_unpack16 :: "u16 M" where
  "safe_unpack16 = checked unpack16"

definition safe_unpack8 :: "u8 M" where
  "safe_unpack8 = checked unpack8"

definition safe_unpackmem_xmalloc :: "(cptr \<times> u32) M" where
  "safe_unpackmem_xmalloc = checked unpackmem_xmalloc"

text \<open>
  \<^verbatim>\<open>safe_unpackstr_xmalloc(&p, &tmp, buffer)\<close> is the same macro; its callers drop the size.
\<close>

definition safe_unpackstr_xmalloc :: "cptr M" where
  "safe_unpackstr_xmalloc = bindM safe_unpackmem_xmalloc (\<lambda>(p, _). ret p)"


section \<open>Well-formed buffers\<close>

definition wf_buf :: "slurm_buf \<Rightarrow> bool" where
  "wf_buf b \<longleftrightarrow> magic b = BUF_MAGIC \<and> length (head b) = unat (bsize b) \<and>
     unat (processed b) \<le> unat (bsize b) \<and> unat (bsize b) \<le> 0xffff0000"

definition written :: "slurm_buf \<Rightarrow> byte list" where
  "written b = take (unat (processed b)) (head b)"

definition to_come :: "slurm_buf \<Rightarrow> byte list" where
  "to_come b = drop (unat (processed b)) (head b)"

lemma unat_BUF_SIZE [simp]: "unat BUF_SIZE = 16384"
  by (simp add: BUF_SIZE_def)

lemma unat_MAX_BUF_SIZE [simp]: "unat MAX_BUF_SIZE = 0xffff0000"
  by (simp add: MAX_BUF_SIZE_def)

lemma unat_remaining_buf: "wf_buf b \<Longrightarrow> unat (remaining_buf b) = unat (bsize b) - unat (processed b)"
  by (simp add: wf_buf_def remaining_buf_def unat_sub word_le_nat_alt)

lemma length_to_come: "wf_buf b \<Longrightarrow> length (to_come b) = unat (remaining_buf b)"
  by (simp add: unat_remaining_buf) (simp add: wf_buf_def to_come_def)

lemma length_written: "wf_buf b \<Longrightarrow> length (written b) = unat (processed b)"
  by (simp add: wf_buf_def written_def)

lemma wf_init_buf: "init_buf sz = Some b \<Longrightarrow> wf_buf b"
  by (auto simp: init_buf_def wf_buf_def Let_def word_less_nat_alt split: if_splits)

lemma written_init_buf: "init_buf sz = Some b \<Longrightarrow> written b = []"
  by (auto simp: init_buf_def written_def Let_def split: if_splits)

lemma wf_create_buf:
  "create_buf data sz = Some b \<Longrightarrow> length data = unat sz \<Longrightarrow> wf_buf b \<and> to_come b = data"
  by (auto simp: create_buf_def wf_buf_def to_come_def word_less_nat_alt split: if_splits)

lemma unat_add_bound:
  fixes a :: "'a::len word"
  assumes "unat a + n < 2 ^ LENGTH('a)"
  shows "unat (a + of_nat n) = unat a + n"
proof -
  have "unat (of_nat n :: 'a word) = n"
    using assms by (simp add: unat_of_nat take_bit_nat_eq_self)
  then show ?thesis
    using assms by (subst unat_add_lem [THEN iffD1]) auto
qed

text \<open>Moving the read position over \<open>n\<close> bytes.\<close>

definition skip :: "nat \<Rightarrow> slurm_buf \<Rightarrow> slurm_buf" where
  "skip n b = b\<lparr>processed := processed b + of_nat n\<rparr>"

lemma skip_0 [simp]: "skip 0 b = b"
  by (simp add: skip_def)

lemma skip_skip [simp]: "skip n (skip m b) = skip (m + n) b"
  by (simp add: skip_def add.assoc)

lemma processed_skip:
  assumes "wf_buf b" and "n \<le> length (to_come b)"
  shows "unat (processed (skip n b)) = unat (processed b) + n"
proof -
  have "unat (processed b) + n < 2 ^ LENGTH(32)"
    using assms by (auto simp: wf_buf_def to_come_def)
  then show ?thesis unfolding skip_def by (simp add: unat_add_bound)
qed

lemma wf_skip: "wf_buf b \<Longrightarrow> n \<le> length (to_come b) \<Longrightarrow> wf_buf (skip n b)"
  using processed_skip [of b n] by (auto simp: wf_buf_def to_come_def skip_def)

lemma to_come_skip:
  "wf_buf b \<Longrightarrow> n \<le> length (to_come b) \<Longrightarrow> to_come (skip n b) = drop n (to_come b)"
  using processed_skip [of b n] by (simp add: to_come_def add.commute) (simp add: skip_def)

lemma put_bytes_wf:
  assumes "wf_buf b" and "length bs \<le> length (to_come b)"
  obtains b' where "put_bytes bs b = Ok () b'" and "wf_buf b'" and "written b' = written b @ bs"
    and "bsize b' = bsize b"
proof
  let ?b = "b\<lparr>head := memcpy_at (unat (processed b)) bs (head b),
              processed := processed b + of_nat (length bs)\<rparr>"
  have le: "unat (processed b) + length bs \<le> length (head b)"
    using assms by (auto simp: wf_buf_def to_come_def)
  have p: "unat (processed b + of_nat (length bs)) = unat (processed b) + length bs"
    using processed_skip [OF assms] by (simp add: skip_def)
  show "put_bytes bs b = Ok () ?b" using le by (simp add: put_bytes_def)
  show "wf_buf ?b" using assms(1) le p by (simp add: wf_buf_def)
  show "written ?b = written b @ bs" using le p by (simp add: written_def take_memcpy_at)
  show "bsize ?b = bsize b" by simp
qed

lemma get_bytes_wf:
  "wf_buf b \<Longrightarrow> n \<le> length (to_come b) \<Longrightarrow> get_bytes n b = Ok (take n (to_come b)) (skip n b)"
  by (auto simp: get_bytes_def wf_buf_def to_come_def skip_def)

lemma enlarge_wf:
  assumes "wf_buf b" and "unat (bsize b) + unat k \<le> 0xffff0000"
  shows "wf_buf (enlarge k b)" and "written (enlarge k b) = written b"
    and "processed (enlarge k b) = processed b"
    and "unat (bsize (enlarge k b)) = unat (bsize b) + unat k"
proof -
  have u: "unat (bsize b + k) = unat (bsize b) + unat k"
    using assms(2) by (subst unat_add_lem [THEN iffD1]) auto
  show "unat (bsize (enlarge k b)) = unat (bsize b) + unat k"
    using u by (simp add: enlarge_def)
  show "wf_buf (enlarge k b)"
    using assms u by (simp add: wf_buf_def enlarge_def)
  show "written (enlarge k b) = written b"
    using assms u by (simp add: wf_buf_def written_def enlarge_def take_xrealloc)
  show "processed (enlarge k b) = processed b"
    by (simp add: enlarge_def)
qed


section \<open>Contracts of writers and readers\<close>

text \<open>
  \<open>writes m bs k\<close>: from a well-formed buffer whose position is at least \<open>k\<close> bytes below the largest
  size a buffer may still grow from, \<open>m\<close> succeeds and appends exactly \<open>bs\<close>.
\<close>

definition pack_limit :: nat where
  "pack_limit = 0xffff0000 - 16384"

definition writes :: "unit M \<Rightarrow> byte list \<Rightarrow> nat \<Rightarrow> bool" where
  "writes m bs k \<longleftrightarrow>
     (\<forall>b. wf_buf b \<longrightarrow> unat (processed b) + k \<le> pack_limit \<longrightarrow>
       (\<exists>b'. m b = Ok () b' \<and> wf_buf b' \<and> written b' = written b @ bs))"

text \<open>\<open>reads m x bs\<close>: on a buffer whose rest starts with \<open>bs\<close>, \<open>m\<close> returns \<open>x\<close> and moves over \<open>bs\<close>.\<close>

definition reads :: "'a M \<Rightarrow> 'a \<Rightarrow> byte list \<Rightarrow> bool" where
  "reads m x bs \<longleftrightarrow>
     (\<forall>b rest. wf_buf b \<longrightarrow> to_come b = bs @ rest \<longrightarrow> m b = Ok x (skip (length bs) b))"

text \<open>
  \<open>reader m\<close>: on any well-formed buffer with less than 2 GiB to come, whatever its contents, \<open>m\<close> stays inside the
  memory of the buffer, and only the read position changes, forward.  For a longer block \<^verbatim>\<open>xmalloc\<close> aborts.
\<close>

definition moved :: "slurm_buf \<Rightarrow> slurm_buf \<Rightarrow> bool" where
  "moved b b' \<longleftrightarrow> (\<exists>n \<le> length (to_come b). b' = skip n b)"

definition legible :: "slurm_buf \<Rightarrow> bool" where
  "legible b \<longleftrightarrow> wf_buf b \<and> length (to_come b) \<le> INT_MAX"

definition reader :: "'a M \<Rightarrow> bool" where
  "reader m \<longleftrightarrow>
     (\<forall>b. legible b \<longrightarrow>
       (case m b of Ok _ b' \<Rightarrow> moved b b' | Err b' \<Rightarrow> moved b b' | Fault \<Rightarrow> False))"

text \<open>\<open>writer m\<close>: on any well-formed buffer \<open>m\<close> stays inside memory, returns and keeps it well-formed.\<close>

definition writer :: "unit M \<Rightarrow> bool" where
  "writer m \<longleftrightarrow> (\<forall>b. wf_buf b \<longrightarrow> (\<exists>b'. m b = Ok () b' \<and> wf_buf b'))"

lemma moved_refl [simp, intro]: "moved b b"
  unfolding moved_def by (rule exI [of _ 0]) simp

lemma moved_wf: "moved b b' \<Longrightarrow> wf_buf b \<Longrightarrow> wf_buf b'"
  by (auto simp: moved_def intro: wf_skip)

lemma moved_legible: "moved b b' \<Longrightarrow> legible b \<Longrightarrow> legible b'"
  by (auto simp: legible_def moved_def to_come_skip intro: wf_skip)

lemma moved_trans: "moved b b' \<Longrightarrow> moved b' b'' \<Longrightarrow> wf_buf b \<Longrightarrow> moved b b''"
  unfolding moved_def by (auto simp: to_come_skip) (metis le_diff_conv2 add.commute)

lemma moved_skip: "n \<le> length (to_come b) \<Longrightarrow> moved b (skip n b)"
  by (auto simp: moved_def)

lemma moved_head: "moved b b' \<Longrightarrow> head b' = head b"
  by (auto simp: moved_def skip_def)

subsection \<open>Composition rules\<close>

lemma writes_ret [codec_intros]: "writes (ret ()) [] 0"
  by (auto simp: writes_def ret_def)

lemma writes_thenM [codec_intros]:
  assumes m: "writes m bs k" and n: "writes n cs l" and le: "length bs \<le> k"
  shows "writes (thenM m n) (bs @ cs) (k + l)"
  unfolding writes_def
proof (intro allI impI)
  fix b
  assume wf: "wf_buf b" and room: "unat (processed b) + (k + l) \<le> pack_limit"
  from m wf room obtain b1 where b1: "m b = Ok () b1" "wf_buf b1" "written b1 = written b @ bs"
    unfolding writes_def by (metis add.assoc add_leD1)
  then have "unat (processed b1) = unat (processed b) + length bs"
    using wf by (metis length_append length_written)
  with room le have "unat (processed b1) + l \<le> pack_limit" by simp
  with n b1(2) obtain b2 where "n b1 = Ok () b2" "wf_buf b2" "written b2 = written b1 @ cs"
    unfolding writes_def by blast
  with b1 show "\<exists>b'. thenM m n b = Ok () b' \<and> wf_buf b' \<and> written b' = written b @ bs @ cs"
    by (simp add: thenM_def bindM_def)
qed

lemma writes_checked: "writes m bs k \<Longrightarrow> writes (checked m) bs k"
  by (simp add: writes_def checked_def wf_buf_def)

lemma writes_budget: "writes m bs k \<Longrightarrow> k \<le> l \<Longrightarrow> writes m bs l"
  by (fastforce simp: writes_def)

lemma writer_ret: "writer (ret ())"
  by (simp add: writer_def ret_def)

lemma writer_thenM: "writer m \<Longrightarrow> writer n \<Longrightarrow> writer (thenM m n)"
  by (fastforce simp: writer_def thenM_def bindM_def)

lemma writer_checked: "writer m \<Longrightarrow> writer (checked m)"
  by (simp add: writer_def checked_def wf_buf_def)

lemma reads_ret [codec_intros]: "reads (ret x) x []"
  by (simp add: reads_def ret_def)

lemma reads_bindM [codec_intros]:
  assumes m: "reads m x bs" and f: "reads (f x) y cs"
  shows "reads (bindM m f) y (bs @ cs)"
  unfolding reads_def
proof (intro allI impI)
  fix b rest
  assume wf: "wf_buf b" and un: "to_come b = (bs @ cs) @ rest"
  have le: "length bs \<le> length (to_come b)" by (simp add: un)
  have "m b = Ok x (skip (length bs) b)" using m wf un by (simp add: reads_def)
  moreover have "f x (skip (length bs) b) = Ok y (skip (length cs) (skip (length bs) b))"
    using f wf_skip [OF wf le] un by (simp add: reads_def to_come_skip [OF wf le])
  ultimately show "bindM m f b = Ok y (skip (length (bs @ cs)) b)"
    by (simp add: bindM_def)
qed

lemma reads_map: "reads m x bs \<Longrightarrow> f x = y \<Longrightarrow> reads (bindM m (\<lambda>x. ret (f x))) y bs"
  using reads_bindM [OF _ reads_ret] by fastforce

lemma reads_checked: "reads m x bs \<Longrightarrow> reads (checked m) x bs"
  by (simp add: reads_def checked_def wf_buf_def)

lemma reader_ret [codec_intros]: "reader (ret x)"
  by (simp add: reader_def ret_def)

lemma reader_bindM [codec_intros]:
  assumes "reader m" and "\<And>x. reader (f x)"
  shows "reader (bindM m f)"
  unfolding reader_def
proof (intro allI impI)
  fix b
  assume leg: "legible b"
  then have wf: "wf_buf b" by (simp add: legible_def)
  from assms(1) leg have m: "case m b of Ok _ b' \<Rightarrow> moved b b' | Err b' \<Rightarrow> moved b b' | Fault \<Rightarrow> False"
    by (simp add: reader_def)
  show "case bindM m f b of Ok _ b' \<Rightarrow> moved b b' | Err b' \<Rightarrow> moved b b' | Fault \<Rightarrow> False"
  proof (cases "m b")
    case (Ok x b1)
    with m have mv: "moved b b1" by simp
    then have "legible b1" using leg by (rule moved_legible)
    with assms(2) [of x] have
      "case f x b1 of Ok _ b' \<Rightarrow> moved b1 b' | Err b' \<Rightarrow> moved b1 b' | Fault \<Rightarrow> False"
      by (simp add: reader_def)
    then show ?thesis using Ok mv wf
      by (auto simp: bindM_def split: res.splits intro: moved_trans)
  qed (use m in \<open>auto simp: bindM_def\<close>)
qed

lemma reader_checked [codec_intros]: "reader m \<Longrightarrow> reader (checked m)"
  by (simp add: reader_def checked_def legible_def wf_buf_def)

lemma xmalloc_fits [simp]: "n \<le> INT_MAX \<Longrightarrow> xmalloc n = ret ()"
  by (simp add: xmalloc_def)

lemma bindM_ret [simp]: "bindM (ret x) f = f x"
  by (simp add: fun_eq_iff bindM_def ret_def)


text \<open>
  What one routine writes the other reads: after \<open>m\<close>, going back to where it started and running
  \<open>r\<close> gives the value and ends where \<open>m\<close> ended.
\<close>

lemma writes_then_reads:
  assumes m: "writes m bs k" and r: "reads r x bs" and "wf_buf b"
    and room: "unat (processed b) + k \<le> pack_limit"
  shows "\<exists>b'. m b = Ok () b' \<and> wf_buf b' \<and> written b' = written b @ bs \<and>
    r (set_buf_offset (processed b) b') = Ok x b'"
proof -
  from assms obtain b' where b': "m b = Ok () b'" "wf_buf b'" "written b' = written b @ bs"
    unfolding writes_def by blast
  let ?r = "set_buf_offset (processed b) b'"
  have len: "unat (processed b') = unat (processed b) + length bs"
    using b' \<open>wf_buf b\<close> by (metis length_append length_written)
  have wf: "wf_buf ?r" using b'(2) len by (simp add: wf_buf_def set_buf_offset_def)
  have "head b' = (written b @ bs) @ to_come b'"
    unfolding b'(3) [symmetric] by (simp add: written_def to_come_def)
  then have "to_come ?r = bs @ to_come b'"
    using length_written [OF \<open>wf_buf b\<close>]
    by (subst to_come_def) (simp add: set_buf_offset_def append_eq_conv_conj)
  then have "r ?r = Ok x (skip (length bs) ?r)"
    using r wf by (auto simp: reads_def)
  moreover have "processed b + of_nat (length bs) = processed b'"
    by (metis len of_nat_add of_nat_unat ucast_id)
  then have "skip (length bs) ?r = b'"
    by (simp add: skip_def set_buf_offset_def)
  ultimately show ?thesis using b' by auto
qed

subsection \<open>The interface: a matching pair of routines\<close>

text \<open>
  A codec is a pack routine and an unpack routine that agree on the bytes \<open>enc x\<close> of every value
  \<open>x\<close> that \<open>okv\<close> admits, together with the room \<open>budget x\<close> that packing may ask for.
\<close>

locale codec =
  fixes pk :: "'a \<Rightarrow> unit M"
    and unpk :: "'a M"
    and enc :: "'a \<Rightarrow> byte list"
    and budget :: "'a \<Rightarrow> nat"
    and okv :: "'a \<Rightarrow> bool"
  assumes pk_writes: "okv x \<Longrightarrow> writes (pk x) (enc x) (budget x)"
    and enc_budget: "okv x \<Longrightarrow> length (enc x) \<le> budget x"
    and unpk_reads: "okv x \<Longrightarrow> reads unpk x (enc x)"
begin

lemma each_writes:
  "list_all okv xs \<Longrightarrow> writes (pack_each pk xs) (concat (map enc xs)) (sum_list (map budget xs))"
  by (induction xs) (auto intro!: writes_ret writes_thenM pk_writes enc_budget)

lemma each_budget: "list_all okv xs \<Longrightarrow> length (concat (map enc xs)) \<le> sum_list (map budget xs)"
  by (induction xs) (auto intro: add_mono enc_budget)

lemma n_reads: "list_all okv xs \<Longrightarrow> reads (unpack_n unpk (length xs)) xs (concat (map enc xs))"
proof (induction xs)
  case Nil
  then show ?case by (simp add: reads_ret)
next
  case (Cons x xs)
  then have "reads (bindM (unpack_n unpk (length xs)) (\<lambda>xs. ret (x # xs))) (x # xs) (concat (map enc xs))"
    by (intro reads_map) auto
  with Cons.prems show ?case by (auto intro: reads_bindM unpk_reads)
qed

text \<open>Packing and then unpacking from where packing started gives the value back.\<close>

lemma roundtrip:
  "wf_buf b \<Longrightarrow> okv x \<Longrightarrow> unat (processed b) + budget x \<le> pack_limit \<Longrightarrow>
    \<exists>b'. pk x b = Ok () b' \<and> wf_buf b' \<and> written b' = written b @ enc x \<and>
      unpk (set_buf_offset (processed b) b') = Ok x b'"
  by (rule writes_then_reads [OF pk_writes unpk_reads])

end

text \<open>Most unpack routines are also safe on arbitrary bytes.\<close>

locale safe_codec = codec +
  assumes unpk_reader: "reader unpk"
begin

lemma n_reader: "reader (unpack_n unpk n)"
  by (induction n) (auto intro!: codec_intros unpk_reader)

end

text \<open>Scalars also have a fixed width, and a shorter rest is refused without moving.\<close>

locale codec_fixed = safe_codec +
  fixes width :: nat
  assumes enc_width: "length (enc x) = width"
    and short_err: "wf_buf b \<Longrightarrow> length (to_come b) < width \<Longrightarrow> unpk b = Err b"
begin

lemma each_width: "length (concat (map enc xs)) = width * length xs"
  by (induction xs) (auto simp: enc_width)

text \<open>An array that claims more elements than the rest of the buffer holds is refused.\<close>

lemma n_short:
  "wf_buf b \<Longrightarrow> list_all okv xs \<Longrightarrow> to_come b = concat (map enc xs) @ rest \<Longrightarrow>
    length rest < width \<Longrightarrow> length xs < k \<Longrightarrow> \<exists>b'. unpack_n unpk k b = Err b'"
proof (induction xs arbitrary: b k)
  case Nil
  then obtain j where "k = Suc j" by (cases k) auto
  with Nil show ?case by (simp add: bindM_def short_err)
next
  case (Cons x xs)
  then obtain j where k: "k = Suc j" "length xs < j" by (cases k) auto
  have le: "length (enc x) \<le> length (to_come b)" using Cons.prems(3) by simp
  have x: "unpk b = Ok x (skip (length (enc x)) b)"
    using Cons.prems unpk_reads [of x] by (auto simp: reads_def)
  from Cons.prems have "to_come (skip (length (enc x)) b) = concat (map enc xs) @ rest"
    by (simp add: to_come_skip)
  with Cons.IH [OF wf_skip [OF Cons.prems(1) le]] Cons.prems(2,4) k(2) obtain b' where
    "unpack_n unpk j (skip (length (enc x)) b) = Err b'"
    by auto
  then show ?case using x k by (simp add: bindM_def)
qed

end


section \<open>The code's routines meet the contracts\<close>

subsection \<open>Scalars\<close>

lemma reserve_wf:
  assumes "wf_buf b" and "n \<le> 16384"
  shows "(case reserve n b of
      None \<Rightarrow> pack_limit < unat (processed b) + n
    | Some b' \<Rightarrow> wf_buf b' \<and> written b' = written b \<and> n \<le> length (to_come b'))"
proof (cases "unat (remaining_buf b) < n")
  case False
  then show ?thesis using assms by (simp add: reserve_def length_to_come)
next
  case True
  then have lt: "unat (bsize b) < unat (processed b) + n"
    using assms(1) by (simp add: unat_remaining_buf)
  have m: "unat (MAX_BUF_SIZE - BUF_SIZE) = pack_limit"
    by (simp add: MAX_BUF_SIZE_def BUF_SIZE_def pack_limit_def)
  show ?thesis
  proof (cases "MAX_BUF_SIZE - BUF_SIZE < bsize b")
    case True
    then have "pack_limit < unat (bsize b)" by (simp add: word_less_nat_alt m)
    with True lt \<open>unat (remaining_buf b) < n\<close> show ?thesis by (simp add: reserve_def)
  next
    case False
    then have "unat (bsize b) + unat BUF_SIZE \<le> 0xffff0000"
      by (simp add: word_less_nat_alt m pack_limit_def)
    note e = enlarge_wf [OF assms(1) this]
    have "n \<le> length (to_come (enlarge BUF_SIZE b))"
      using e assms by (auto simp: length_to_come unat_remaining_buf wf_buf_def)
    with False True e show ?thesis by (simp add: reserve_def)
  qed
qed

lemma pack_scalar_writes:
  assumes "length bs \<le> 16384"
  shows "writes (pack_scalar bs) bs (length bs)"
  unfolding writes_def
proof (intro allI impI)
  fix b
  assume wf: "wf_buf b" and room: "unat (processed b) + length bs \<le> pack_limit"
  from reserve_wf [OF wf assms] room obtain b1 where b1: "reserve (length bs) b = Some b1"
    "wf_buf b1" "written b1 = written b" "length bs \<le> length (to_come b1)"
    by (auto split: option.splits)
  from put_bytes_wf [OF b1(2,4)] b1(1,3)
  show "\<exists>b'. pack_scalar bs b = Ok () b' \<and> wf_buf b' \<and> written b' = written b @ bs"
    unfolding pack_scalar_def by (metis option.simps(5))
qed

lemma pack_scalar_writer:
  assumes "length bs \<le> 16384"
  shows "writer (pack_scalar bs)"
  unfolding writer_def
proof (intro allI impI)
  fix b
  assume wf: "wf_buf b"
  show "\<exists>b'. pack_scalar bs b = Ok () b' \<and> wf_buf b'"
  proof (cases "reserve (length bs) b")
    case None
    then show ?thesis using wf by (simp add: pack_scalar_def)
  next
    case (Some b1)
    with reserve_wf [OF wf assms] have "wf_buf b1" "length bs \<le> length (to_come b1)" by auto
    then show ?thesis using Some put_bytes_wf unfolding pack_scalar_def by (metis option.simps(5))
  qed
qed

lemma unpack_scalar_reads: "reads (unpack_scalar (length bs)) bs bs"
  unfolding reads_def
proof (intro allI impI)
  fix b rest
  assume "wf_buf b" and "to_come b = bs @ rest"
  then show "unpack_scalar (length bs) b = Ok bs (skip (length bs) b)"
    using length_to_come [of b] by (simp add: unpack_scalar_def get_bytes_wf)
qed

lemma unpack_scalar_reader [codec_intros]: "reader (unpack_scalar n)"
  by (auto simp: reader_def legible_def unpack_scalar_def length_to_come [symmetric] get_bytes_wf intro!: moved_skip)

lemma unpack_scalar_short: "wf_buf b \<Longrightarrow> length (to_come b) < n \<Longrightarrow> unpack_scalar n b = Err b"
  by (simp add: unpack_scalar_def length_to_come)

lemmas scalar_defs =
  pack_time_def unpack_time_def pack64_def unpack64_def pack32_def unpack32_def
  pack16_def unpack16_def pack8_def unpack8_def

lemma scalar_codec:
  fixes enc :: "'a \<Rightarrow> byte list"
  assumes "\<And>x. pk x = pack_scalar (enc x)" and "unpk = bindM (unpack_scalar n) (\<lambda>bs. ret (dec bs))"
    and "\<And>x. length (enc x) = n" and "\<And>x. dec (enc x) = x" and "n \<le> 16384"
  shows "codec_fixed pk unpk enc (\<lambda>_. n) (\<lambda>_. True) n"
proof
  fix x :: 'a
  show "writes (pk x) (enc x) n" using pack_scalar_writes [of "enc x"] assms by simp
  show "length (enc x) \<le> n" using assms by simp
  have "reads (unpack_scalar n) (enc x) (enc x)" using unpack_scalar_reads [of "enc x"] assms(3) by simp
  then show "reads unpk x (enc x)" unfolding assms(2) by (rule reads_map) (rule assms(4))
  show "reader unpk" unfolding assms(2) by (intro codec_intros)
  show "length (enc x) = n" by (rule assms(3))
next
  fix b
  assume "wf_buf b" and "length (to_come b) < n"
  then show "unpk b = Err b" by (simp add: assms(2) bindM_def unpack_scalar_short)
qed

interpretation ct: codec_fixed pack_time unpack_time "be_bytes 8" "\<lambda>_. 8" "\<lambda>_. True" 8
  by (rule scalar_codec) (auto simp: scalar_defs)

interpretation c64: codec_fixed pack64 unpack64 "be_bytes 8" "\<lambda>_. 8" "\<lambda>_. True" 8
  by (rule scalar_codec) (auto simp: scalar_defs)

interpretation c32: codec_fixed pack32 unpack32 "be_bytes 4" "\<lambda>_. 4" "\<lambda>_. True" 4
  by (rule scalar_codec) (auto simp: scalar_defs)

interpretation c16: codec_fixed pack16 unpack16 "be_bytes 2" "\<lambda>_. 2" "\<lambda>_. True" 2
  by (rule scalar_codec) (auto simp: scalar_defs)

interpretation c8: codec_fixed pack8 unpack8 "\<lambda>v. [v]" "\<lambda>_. 1" "\<lambda>_. True" 1
  by (rule scalar_codec) (auto simp: scalar_defs be_word_def)


subsection \<open>Memory blocks\<close>

lemma put_bytes_writer:
  "wf_buf b \<Longrightarrow> length bs \<le> length (to_come b) \<Longrightarrow>
    \<exists>b'. put_bytes bs b = Ok () b' \<and> wf_buf b' \<and> written b' = written b @ bs"
  using put_bytes_wf by metis

lemma put_two:
  assumes "wf_buf b" and "length bs + length cs \<le> length (to_come b)"
  shows "\<exists>b'. thenM (put_bytes bs) (put_bytes cs) b = Ok () b' \<and> wf_buf b' \<and>
    written b' = written b @ bs @ cs"
proof -
  from assms obtain b1 where b1: "put_bytes bs b = Ok () b1" "wf_buf b1" "written b1 = written b @ bs"
    "bsize b1 = bsize b" by (auto elim: put_bytes_wf [of b bs])
  then have "unat (processed b1) = unat (processed b) + length bs"
    using assms(1) by (metis length_append length_written)
  then have "length cs \<le> length (to_come b1)"
    using assms b1(2,4) by (simp add: length_to_come unat_remaining_buf)
  from put_bytes_writer [OF b1(2) this] b1 show ?thesis
    by (auto simp: thenM_def bindM_def)
qed

text \<open>A pointer that may be read for \<open>n\<close> bytes; NULL will do when there is nothing to read.\<close>

definition readable :: "cptr \<Rightarrow> u32 \<Rightarrow> bool" where
  "readable p n \<longleftrightarrow> n = 0 \<or> read_mem p (unat n) \<noteq> None"

definition block_of :: "cptr \<Rightarrow> u32 \<Rightarrow> byte list" where
  "block_of p n = (if n = 0 then [] else case read_mem p (unat n) of None \<Rightarrow> [] | Some bs \<Rightarrow> bs)"

lemma length_block_of: "readable p n \<Longrightarrow> length (block_of p n) = unat n"
  by (auto simp: readable_def block_of_def read_mem_def split: option.splits if_splits)

lemma packmem_copy_ok:
  assumes "wf_buf b" and "readable p n" and "4 + unat n \<le> length (to_come b)"
  shows "\<exists>b'. packmem_copy p n b = Ok () b' \<and> wf_buf b' \<and>
    written b' = written b @ be_bytes 4 n @ block_of p n"
proof (cases "n = 0")
  case True
  have "length (be_bytes 4 n) \<le> length (to_come b)" using assms(3) by simp
  from put_bytes_writer [OF assms(1) this] True show ?thesis
    by (auto simp: packmem_copy_def thenM_def bindM_def ret_def block_of_def)
next
  case False
  with assms(2) obtain bs where bs: "read_mem p (unat n) = Some bs"
    by (auto simp: readable_def)
  then have blk: "block_of p n = bs" using False by (simp add: block_of_def)
  have "length (be_bytes 4 n) + length bs \<le> length (to_come b)"
    using assms(3) length_block_of [OF assms(2)] blk by simp
  from put_two [OF assms(1) this] show ?thesis
    using False bs blk by (simp add: packmem_copy_def)
qed

lemma clears_little: "unat new \<le> unat old + INT_MAX \<Longrightarrow> \<not> clears_too_much old new"
  by (simp add: clears_too_much_def)

lemma packmem_cases:
  assumes "wf_buf b" and "readable p n" and n: "unat n + 16384 \<le> INT_MAX"
  shows "(packmem p n b = Ok () b \<and> pack_limit < unat (processed b) + 4 + 2 * unat n) \<or>
    (\<exists>b'. packmem p n b = Ok () b' \<and> wf_buf b' \<and> written b' = written b @ be_bytes 4 n @ block_of p n)"
proof (cases "unat (remaining_buf b) < 4 + unat n")
  case False
  then show ?thesis using packmem_copy_ok [OF assms(1,2)] assms(1)
    by (simp add: packmem_def length_to_come)
next
  case True
  then have lt: "unat (bsize b) < unat (processed b) + 4 + unat n"
    using assms(1) by (auto simp: unat_remaining_buf wf_buf_def)
  have lim: "unat (MAX_BUF_SIZE - n - BUF_SIZE) = pack_limit - unat n"
    using n by (simp add: pack_limit_def INT_MAX_def unat_sub word_le_nat_alt)
  show ?thesis
  proof (cases "MAX_BUF_SIZE - n - BUF_SIZE < bsize b")
    case True
    with lt \<open>unat (remaining_buf b) < 4 + unat n\<close> show ?thesis
      by (auto simp: packmem_def word_less_nat_alt lim)
  next
    case False
    have k: "unat (n + BUF_SIZE) = unat n + 16384"
      using n by (subst unat_add_lem [THEN iffD1]) (auto simp: INT_MAX_def)
    from False have "unat (bsize b) + unat (n + BUF_SIZE) \<le> 0xffff0000"
      using n by (simp add: word_less_nat_alt lim k pack_limit_def INT_MAX_def)
    note e = enlarge_wf [OF assms(1) this]
    have c: "\<not> clears_too_much (bsize b) (bsize b + (n + BUF_SIZE))"
      using e(4) k n by (intro clears_little) (simp add: enlarge_def)
    have "4 + unat n \<le> length (to_come (enlarge (n + BUF_SIZE) b))"
      using e k assms(1) by (auto simp: length_to_come unat_remaining_buf wf_buf_def)
    from packmem_copy_ok [OF e(1) assms(2) this] False \<open>unat (remaining_buf b) < 4 + unat n\<close> c show ?thesis
      by (simp add: packmem_def e)
  qed
qed

lemma packmem_writes:
  assumes "readable p n"
  shows "writes (packmem p n) (be_bytes 4 n @ block_of p n) (4 + 2 * unat n)"
  unfolding writes_def
proof (intro allI impI)
  fix b
  assume b: "wf_buf b" "unat (processed b) + (4 + 2 * unat n) \<le> pack_limit"
  then have "unat n + 16384 \<le> INT_MAX" by (simp add: pack_limit_def INT_MAX_def)
  with packmem_cases [OF _ assms] b show
    "\<exists>b'. packmem p n b = Ok () b' \<and> wf_buf b' \<and> written b' = written b @ be_bytes 4 n @ block_of p n"
    by force
qed

lemma packmem_writer: "readable p n \<Longrightarrow> unat n + 16384 \<le> INT_MAX \<Longrightarrow> writer (packmem p n)"
  using packmem_cases by (fastforce simp: writer_def)

lemma room_get: "bindM (room_for n) (\<lambda>_. get_bytes n) = unpack_scalar n"
  by (simp add: fun_eq_iff bindM_def room_for_def unpack_scalar_def)

lemma bindM_assoc: "bindM (bindM m f) g = bindM m (\<lambda>x. bindM (f x) g)"
  by (simp add: fun_eq_iff bindM_def split: res.splits)

lemma unpack_block_reads:
  assumes "length bs = unat n" and a: "alloc (unat n) = ret ()"
  shows "reads (unpack_block alloc) (n, bs) (be_bytes 4 n @ bs)"
  unfolding unpack_block_def
proof (rule reads_bindM)
  show "reads (unpack_scalar 4) (be_bytes 4 n) (be_bytes 4 n)"
    using unpack_scalar_reads [of "be_bytes 4 n"] by simp
  have "reads (bindM (unpack_scalar (unat n)) (\<lambda>bs. ret (n, bs))) (n, bs) bs"
    using unpack_scalar_reads [of bs] assms(1) by (intro reads_map) auto
  with assms(1) show "reads (let size_val = be_word (be_bytes 4 n) in if size_val = 0 then ret (0, [])
      else bindM (room_for (unat size_val)) (\<lambda>_. bindM (alloc (unat size_val)) (\<lambda>_.
           bindM (get_bytes (unat size_val)) (\<lambda>bs. ret (size_val, bs))))) (n, bs) bs"
    by (auto simp: Let_def reads_ret a room_get [symmetric] bindM_assoc)
qed

lemma xmalloc_block_reader: "reader (bindM (room_for n) (\<lambda>_. bindM (xmalloc n) (\<lambda>_. get_bytes n)))"
  by (auto simp: reader_def legible_def bindM_def room_for_def xmalloc_def ret_def fault_def length_to_come [symmetric] get_bytes_wf
      intro!: moved_skip)

lemma unpack_block_reader: "reader (unpack_block xmalloc)"
proof -
  have "reader (bindM (room_for n) (\<lambda>_. bindM (xmalloc n) (\<lambda>_. bindM (get_bytes n) (\<lambda>bs. ret (v, bs)))))" for n and v :: u32
    using reader_bindM [OF xmalloc_block_reader [of n] reader_ret, of "\<lambda>bs. (v, bs)"] by (simp add: bindM_assoc)
  then show ?thesis unfolding unpack_block_def Let_def by (auto intro!: codec_intros)
qed

lemma unpackmem_xmalloc_reads:
  "length bs = unat n \<Longrightarrow> unat n \<le> INT_MAX \<Longrightarrow>
    reads unpackmem_xmalloc (if n = 0 then None else Some bs, n) (be_bytes 4 n @ bs)"
  unfolding unpackmem_xmalloc_def
  using reads_map [OF unpack_block_reads [of bs n xmalloc], where f = "\<lambda>(n, bs). (if n = 0 then None else Some bs, n)"]
  by (cases "n = 0") (simp_all add: case_prod_unfold)

lemma unpackmem_xmalloc_reader [codec_intros]: "reader unpackmem_xmalloc"
  unfolding unpackmem_xmalloc_def by (auto intro!: codec_intros unpack_block_reader)

lemma unpack_ptr_reader [codec_intros]: "reader unpack_ptr"
  unfolding unpack_ptr_def by (auto intro!: codec_intros)

definition mem_ok :: "cptr \<times> u32 \<Rightarrow> bool" where
  "mem_ok v = (case fst v of None \<Rightarrow> snd v = 0 | Some m \<Rightarrow> snd v \<noteq> 0 \<and> length m = unat (snd v) \<and> length m \<le> INT_MAX)"

definition mem_enc :: "cptr \<times> u32 \<Rightarrow> byte list" where
  "mem_enc v = be_bytes 4 (snd v) @ block_of (fst v) (snd v)"

lemma mem_ok_readable: "mem_ok (p, n) \<Longrightarrow> readable p n"
  by (auto simp: mem_ok_def readable_def read_mem_def split: option.splits)

lemma mem_ok_block: "mem_ok (p, n) \<Longrightarrow> (if n = 0 then None else Some (block_of p n)) = p"
  by (auto simp: mem_ok_def block_of_def read_mem_def split: option.splits if_splits)

interpretation cmem: safe_codec "\<lambda>v. packmem (fst v) (snd v)" unpackmem_xmalloc mem_enc
  "\<lambda>v. 4 + 2 * unat (snd v)" mem_ok
proof
  fix v :: "cptr \<times> u32"
  assume ok: "mem_ok v"
  then have r: "readable (fst v) (snd v)" using mem_ok_readable by (metis prod.collapse)
  show "writes (packmem (fst v) (snd v)) (mem_enc v) (4 + 2 * unat (snd v))"
    unfolding mem_enc_def by (rule packmem_writes) (rule r)
  show "length (mem_enc v) \<le> 4 + 2 * unat (snd v)"
    by (simp add: mem_enc_def length_block_of [OF r])
  have "unat (snd v) \<le> INT_MAX" using ok by (auto simp: mem_ok_def split: option.splits)
  then show "reads unpackmem_xmalloc v (mem_enc v)"
    using unpackmem_xmalloc_reads [OF length_block_of [OF r]] mem_ok_block [of "fst v" "snd v"] ok
    by (simp add: mem_enc_def)
qed (rule unpackmem_xmalloc_reader)


subsection \<open>Strings\<close>

definition str_ok :: "cptr \<Rightarrow> bool" where
  "str_ok p = (case p of None \<Rightarrow> True | Some m \<Rightarrow> tight_cstr m \<and> length m \<le> INT_MAX)"

definition str_len :: "cptr \<Rightarrow> u32" where
  "str_len p = (case p of None \<Rightarrow> 0 | Some m \<Rightarrow> of_nat (length m))"

lemma str_ok_mem: "str_ok p \<Longrightarrow> mem_ok (p, str_len p)"
  by (auto simp: str_ok_def mem_ok_def str_len_def tight_cstr_def INT_MAX_def unat_of_nat take_bit_nat_eq_self
      word_of_nat_eq_0_iff dest: dvd_imp_le split: option.splits)

lemma packstr_packmem: "str_ok p \<Longrightarrow> packstr p = checked (packmem p (str_len p))"
proof (cases p)
  case (Some m)
  assume "str_ok p"
  with Some have t: "tight_cstr m" by (simp add: str_ok_def)
  then have "of_nat (length m - 1) + 1 = (of_nat (length m) :: u32)"
    by (auto elim: tight_cstrE)
  then show ?thesis by (simp add: packstr_def Some strlen_tight [OF t] str_len_def)
qed (simp add: packstr_def str_len_def)

definition str_enc :: "cptr \<Rightarrow> byte list" where
  "str_enc p = mem_enc (p, str_len p)"

definition str_budget :: "cptr \<Rightarrow> nat" where
  "str_budget p = 4 + 2 * unat (str_len p)"

lemma packstr_writes: "str_ok p \<Longrightarrow> writes (packstr p) (str_enc p) (str_budget p)"
  using cmem.pk_writes [OF str_ok_mem]
  by (simp add: packstr_packmem writes_checked str_enc_def str_budget_def)

lemma str_enc_budget: "str_ok p \<Longrightarrow> length (str_enc p) \<le> str_budget p"
  using cmem.enc_budget [OF str_ok_mem] by (simp add: str_enc_def str_budget_def)

lemma unpack_ptr_reads:
  "str_ok p \<Longrightarrow> reads unpack_ptr p (str_enc p)"
  unfolding unpack_ptr_def using reads_map [OF cmem.unpk_reads [OF str_ok_mem], where f = fst]
  by (simp add: case_prod_unfold str_enc_def)

lemma safe_str_reads: "str_ok p \<Longrightarrow> reads safe_unpackstr_xmalloc p (str_enc p)"
  using reads_map [OF reads_checked [OF cmem.unpk_reads [OF str_ok_mem]], where f = fst]
  by (simp add: case_prod_unfold str_enc_def safe_unpackstr_xmalloc_def safe_unpackmem_xmalloc_def)

interpretation cstr: safe_codec packstr unpack_ptr str_enc str_budget str_ok
  by unfold_locales
    (auto intro: packstr_writes str_enc_budget unpack_ptr_reads intro!: codec_intros)

interpretation cstrs: safe_codec packstr safe_unpackstr_xmalloc str_enc str_budget str_ok
  by unfold_locales
    (auto simp: safe_unpackstr_xmalloc_def safe_unpackmem_xmalloc_def
      intro: packstr_writes str_enc_budget
      intro!: codec_intros safe_str_reads [unfolded safe_unpackstr_xmalloc_def safe_unpackmem_xmalloc_def])


subsection \<open>Arrays\<close>

context codec
begin

lemma counted_writes:
  assumes "list_all okv xs" and "unat n = length xs"
  shows "writes (thenM (pack32 n) (case array_prefix xs n of None \<Rightarrow> fault | Some vs \<Rightarrow> pack_each pk vs))
    (be_bytes 4 n @ concat (map enc xs)) (4 + sum_list (map budget xs))"
  using assms
  by (auto simp: array_prefix_def intro!: writes_thenM c32.pk_writes each_writes)

lemma counted_reads:
  assumes "list_all okv xs" and "unat n = length xs" and "unat n * k \<le> INT_MAX"
  shows "reads (bindM unpack32 (\<lambda>n. bindM (xmalloc (unat n * k)) (\<lambda>_. bindM (unpack_n unpk (unat n)) (\<lambda>vs. ret (vs, n))))) (xs, n)
    (be_bytes 4 n @ concat (map enc xs))"
proof (rule reads_bindM [OF c32.unpk_reads [OF TrueI]])
  show "reads (bindM (xmalloc (unat n * k)) (\<lambda>_. bindM (unpack_n unpk (unat n)) (\<lambda>vs. ret (vs, n)))) (xs, n) (concat (map enc xs))"
    using assms by (simp only: xmalloc_fits bindM_ret) (intro reads_map, simp_all add: n_reads)
qed

end

text \<open>An array value is its elements with their count, below a limit; the count is what goes over the wire.\<close>

definition arr_ok :: "nat \<Rightarrow> ('a \<Rightarrow> bool) \<Rightarrow> 'a list \<times> u32 \<Rightarrow> bool" where
  "arr_ok lim okv v \<longleftrightarrow> list_all okv (fst v) \<and> unat (snd v) = length (fst v) \<and> length (fst v) < lim"

definition arr_enc :: "('a \<Rightarrow> byte list) \<Rightarrow> 'a list \<times> u32 \<Rightarrow> byte list" where
  "arr_enc enc v = be_bytes 4 (snd v) @ concat (map enc (fst v))"

interpretation c16a: codec "\<lambda>v. pack16_array (fst v) (snd v)" unpack16_array
  "arr_enc (be_bytes 2)" "\<lambda>v. 4 + 2 * length (fst v)" "arr_ok (2 ^ 30) (\<lambda>_. True)"
proof
  fix v :: "u16 list \<times> u32"
  assume ok: "arr_ok (2 ^ 30) (\<lambda>_. True) v"
  show "writes (pack16_array (fst v) (snd v)) (arr_enc (be_bytes 2) v) (4 + 2 * length (fst v))"
    using c16.counted_writes [of "fst v" "snd v"] ok
    by (simp add: pack16_array_def arr_enc_def arr_ok_def sum_list_triv mult.commute)
  show "length (arr_enc (be_bytes 2) v) \<le> 4 + 2 * length (fst v)"
    by (simp add: arr_enc_def c16.each_width)
  show "reads unpack16_array v (arr_enc (be_bytes 2) v)"
    using c16.counted_reads [of "fst v" "snd v" 2] ok
    by (simp add: unpack16_array_def arr_enc_def arr_ok_def INT_MAX_def)
qed

interpretation c32a: codec "\<lambda>v. pack32_array (fst v) (snd v)" unpack32_array
  "arr_enc (be_bytes 4)" "\<lambda>v. 4 + 4 * length (fst v)" "arr_ok (2 ^ 29) (\<lambda>_. True)"
proof
  fix v :: "u32 list \<times> u32"
  assume ok: "arr_ok (2 ^ 29) (\<lambda>_. True) v"
  show "writes (pack32_array (fst v) (snd v)) (arr_enc (be_bytes 4) v) (4 + 4 * length (fst v))"
    using c32.counted_writes [of "fst v" "snd v"] ok
    by (simp add: pack32_array_def arr_enc_def arr_ok_def sum_list_triv mult.commute)
  show "length (arr_enc (be_bytes 4) v) \<le> 4 + 4 * length (fst v)"
    by (simp add: arr_enc_def c32.each_width)
  show "reads unpack32_array v (arr_enc (be_bytes 4) v)"
    using c32.counted_reads [of "fst v" "snd v" 4] ok
    by (simp add: unpack32_array_def arr_enc_def arr_ok_def INT_MAX_def)
qed

lemma packstr_array_writes:
  assumes "list_all str_ok vs" and "unat n = length vs"
  shows "writes (packstr_array vs n) (arr_enc str_enc (vs, n)) (4 + sum_list (map str_budget vs))"
  unfolding writes_def
proof (intro allI impI)
  fix b
  assume wf: "wf_buf b" and room: "unat (processed b) + (4 + sum_list (map str_budget vs)) \<le> pack_limit"
  from reserve_wf [OF wf, of 4] room obtain b1 where b1: "reserve 4 b = Some b1" "wf_buf b1"
    "written b1 = written b" "4 \<le> length (to_come b1)"
    by (auto split: option.splits)
  have p1: "unat (processed b1) = unat (processed b)"
    using b1 wf by (metis length_written)
  from b1(4) have "length (be_bytes 4 n) \<le> length (to_come b1)" by simp
  from put_bytes_writer [OF b1(2) this] obtain b2 where b2: "put_bytes (be_bytes 4 n) b1 = Ok () b2"
    "wf_buf b2" "written b2 = written b1 @ be_bytes 4 n" by blast
  then have "unat (processed b2) = unat (processed b) + 4"
    using b1(2) p1 by (metis length_append length_be_bytes length_written)
  with room have "unat (processed b2) + sum_list (map str_budget vs) \<le> pack_limit" by simp
  with cstr.each_writes [OF assms(1)] b2(2) obtain b3 where "pack_each packstr vs b2 = Ok () b3"
    "wf_buf b3" "written b3 = written b2 @ concat (map str_enc vs)"
    unfolding writes_def by blast
  with b1 b2 show "\<exists>b'. packstr_array vs n b = Ok () b' \<and> wf_buf b' \<and>
      written b' = written b @ arr_enc str_enc (vs, n)"
    using assms(2) by (simp add: packstr_array_def thenM_def bindM_def arr_enc_def array_prefix_def)
qed

text \<open>What \<^verbatim>\<open>unpackstr_array\<close> hands back for an array: NULL, or the strings and a final NULL.\<close>

definition null_terminated :: "cptr list \<Rightarrow> cptr list option" where
  "null_terminated vs = (if vs = [] then None else Some (vs @ [None]))"

lemma unpack_into_n: "n \<le> cells \<Longrightarrow> unpack_into cells n = unpack_n unpack_ptr n"
  by (induction cells n rule: unpack_into.induct) (auto simp: fun_eq_iff bindM_def split: res.splits)

lemma cells_max: "cells \<noteq> (0 :: u32) \<Longrightarrow> unat (cells - 1) = unat cells - 1"
  by (simp add: unat_sub word_le_nat_alt unat_gt_0 Suc_leI)

lemma array_cells:
  fixes n :: u32
  shows "unat n + 1 < 2 ^ 32 \<Longrightarrow> unat (n + 1) = unat n + 1" and "unat n + 1 = 2 ^ 32 \<Longrightarrow> unat (n + 1) = 0"
proof -
  show "unat n + 1 < 2 ^ 32 \<Longrightarrow> unat (n + 1) = unat n + 1" using unat_add_bound [of n 1] by simp
  assume "unat n + 1 = 2 ^ 32"
  then show "unat (n + 1) = 0" by (simp add: unat_word_ariths)
qed

lemma unpackstr_array_reads:
  assumes "list_all str_ok vs" and "unat n = length vs" and "length vs < 2 ^ 28 - 1"
  shows "reads unpackstr_array (null_terminated vs, n) (arr_enc str_enc (vs, n))"
  unfolding unpackstr_array_def arr_enc_def fst_conv snd_conv
proof (rule reads_bindM)
  show "reads (unpack_scalar 4) (be_bytes 4 n) (be_bytes 4 n)"
    using unpack_scalar_reads [of "be_bytes 4 n"] by simp
  have c: "unat (n + 1) = unat n + 1" using assms by (intro array_cells(1)) simp
  have a: "xmalloc (8 * unat (n + 1)) = ret ()" unfolding c using assms by (intro xmalloc_fits) (simp add: INT_MAX_def)
  show "reads (let size_val = be_word (be_bytes 4 n); cells = unat (size_val + 1) in if size_val = 0 then ret (None, 0)
      else bindM (xmalloc (8 * cells)) (\<lambda>_. bindM (unpack_into cells (unat size_val)) (\<lambda>vs. ret (Some (vs @ [None]), size_val))))
    (null_terminated vs, n) (concat (map str_enc vs))"
  proof (cases "n = 0")
    case True
    then show ?thesis using assms by (simp add: null_terminated_def reads_ret)
  next
    case False
    then have "vs \<noteq> []" using assms(2) by (auto simp: unat_eq_zero)
    then have "reads (bindM (unpack_n unpack_ptr (length vs)) (\<lambda>vs. ret (Some (vs @ [None]), n))) (null_terminated vs, n) (concat (map str_enc vs))"
      by (intro reads_map [OF cstr.n_reads [OF assms(1)]]) (simp add: null_terminated_def)
    moreover have "unpack_into (unat (n + 1)) (unat n) = unpack_n unpack_ptr (length vs)" using assms(2) c by (simp add: unpack_into_n)
    ultimately show ?thesis using False by (simp add: Let_def a del: xmalloc_fits)
  qed
qed

interpretation cstra: codec "\<lambda>v. packstr_array (fst v) (snd v)"
  "bindM unpackstr_array (\<lambda>(p, n). ret (case p of None \<Rightarrow> [] | Some vs \<Rightarrow> butlast vs, n))"
  "arr_enc str_enc" "\<lambda>v. 4 + sum_list (map str_budget (fst v))" "arr_ok (2 ^ 28 - 1) str_ok"
proof
  fix v :: "cptr list \<times> u32"
  assume ok: "arr_ok (2 ^ 28 - 1) str_ok v"
  show "writes (packstr_array (fst v) (snd v)) (arr_enc str_enc v) (4 + sum_list (map str_budget (fst v)))"
    using packstr_array_writes [of "fst v" "snd v"] ok by (simp add: arr_ok_def)
  show "length (arr_enc str_enc v) \<le> 4 + sum_list (map str_budget (fst v))"
    using cstr.each_budget [of "fst v"] ok by (simp add: arr_enc_def arr_ok_def)
  have "reads unpackstr_array (null_terminated (fst v), snd v) (arr_enc str_enc v)"
    using unpackstr_array_reads [of "fst v" "snd v"] ok by (simp add: arr_ok_def)
  from reads_map [OF this, where f = "\<lambda>(p, n). (case p of None \<Rightarrow> [] | Some vs \<Rightarrow> butlast vs, n)"]
  show "reads (bindM unpackstr_array (\<lambda>(p, n). ret (case p of None \<Rightarrow> [] | Some vs \<Rightarrow> butlast vs, n)))
      v (arr_enc str_enc v)"
    by (cases v; cases "fst v = []") (simp_all add: case_prod_unfold null_terminated_def)
qed


section \<open>Properties\<close>

text \<open>A fresh buffer, for the instances below.\<close>

definition fresh_buf :: slurm_buf where
  "fresh_buf = \<lparr>magic = BUF_MAGIC, head = replicate 16384 0, bsize = BUF_SIZE, processed = 0\<rparr>"

lemma init_fresh: "init_buf 0 = Some fresh_buf"
  by (simp add: init_buf_def fresh_buf_def)

lemma wf_fresh [simp]: "wf_buf fresh_buf"
  using init_fresh by (rule wf_init_buf)

lemma fresh_fields [simp]: "processed fresh_buf = 0" "written fresh_buf = []" "bsize fresh_buf = BUF_SIZE"
  by (simp_all add: fresh_buf_def written_def)

text \<open>
  C1: An array of C strings (some of them NULL) packed by \<^verbatim>\<open>packstr_array\<close> is read back by
  \<^verbatim>\<open>unpackstr_array\<close> string for string, with the count, with the terminating NULL pointer added, and the read
  position ends exactly where the write position was; bytes written before are untouched.
\<close>

theorem packstr_array_roundtrip:
  assumes "wf_buf b" and "list_all str_ok vs" and "unat n = length vs" and "length vs < 2 ^ 28 - 1"
    and "unat (processed b) + 4 + sum_list (map str_budget vs) \<le> pack_limit"
  shows "\<exists>b'. packstr_array vs n b = Ok () b' \<and> wf_buf b' \<and> (\<exists>bs. written b' = written b @ bs) \<and>
    unpackstr_array (set_buf_offset (processed b) b') = Ok (null_terminated vs, n) b'"
  using writes_then_reads [OF packstr_array_writes unpackstr_array_reads, OF assms(2,3,2,3,4,1)] assms(5)
  by (auto simp: add.assoc)

theorem packstr_array_roundtrip_witness:
  "\<exists>b'. packstr_array [Some [72, 105, 0], None] 2 fresh_buf = Ok () b' \<and> wf_buf b' \<and>
    (\<exists>bs. written b' = written fresh_buf @ bs) \<and>
    unpackstr_array (set_buf_offset (processed fresh_buf) b') =
      Ok (null_terminated [Some [72, 105, 0], None], 2) b'"
proof (rule packstr_array_roundtrip)
  show "list_all str_ok [Some [72, 105, 0], None]"
    by (simp add: str_ok_def tight_cstr_def INT_MAX_def)
  show "unat (processed fresh_buf) + 4 + sum_list (map str_budget [Some [72, 105, 0], None]) \<le> pack_limit"
    by (simp add: str_budget_def str_len_def pack_limit_def)
qed simp_all

lemma unpack_into_reader: "n \<le> cells \<Longrightarrow> reader (unpack_into cells n)"
  by (simp only: unpack_into_n cstr.n_reader)

lemma unpack_into_none:
  assumes "legible b" and "0 < n"
  shows "case unpack_into 0 n b of Ok _ b' \<Rightarrow> False | Err b' \<Rightarrow> moved b b' | Fault \<Rightarrow> True"
proof -
  obtain k where k: "n = Suc k" using assms(2) by (cases n) simp_all
  have "case unpack_ptr b of Ok _ b' \<Rightarrow> moved b b' | Err b' \<Rightarrow> moved b b' | Fault \<Rightarrow> False"
    using unpack_ptr_reader assms(1) by (simp add: reader_def)
  then show ?thesis by (cases "unpack_ptr b") (simp_all add: k bindM_def fault_def)
qed

text \<open>What comes behind the number of strings, in the three cases of that number.\<close>

definition strings_behind :: "u32 \<Rightarrow> (cptr list option \<times> u32) M" where
  "strings_behind n =
     (if n = 0 then ret (None, 0)
      else bindM (xmalloc (8 * unat (n + 1))) (\<lambda>_. bindM (unpack_into (unat (n + 1)) (unat n)) (\<lambda>vs. ret (Some (vs @ [None]), n))))"

lemma unat_u32: "unat (w :: u32) < 2 ^ 32"
  using unsigned_less [of w] by simp

lemma strings_behind_cases:
  assumes "legible b"
  shows "case strings_behind n b of Ok _ b' \<Rightarrow> moved b b' | Err b' \<Rightarrow> moved b b' | Fault \<Rightarrow> 2 ^ 28 - 1 \<le> unat n"
    and "2 ^ 28 - 1 \<le> unat n \<Longrightarrow> unat n < 2 ^ 32 - 1 \<Longrightarrow> strings_behind n b = Fault"
proof -
  have u: "unat n < 2 ^ 32" by (rule unat_u32)
  show big: "strings_behind n b = Fault" if "2 ^ 28 - 1 \<le> unat n" "unat n < 2 ^ 32 - 1"
  proof -
    have "unat (n + 1) = unat n + 1" using that by (intro array_cells(1)) simp
    moreover have "n \<noteq> 0" using that(1) by auto
    ultimately show ?thesis
      using that(1) by (simp add: strings_behind_def bindM_def xmalloc_def fault_def INT_MAX_def)
  qed
  consider "n = 0" | "n \<noteq> 0" "unat n < 2 ^ 28 - 1" | "2 ^ 28 - 1 \<le> unat n" "unat n < 2 ^ 32 - 1" | "unat n = 2 ^ 32 - 1"
    using u by linarith
  then show "case strings_behind n b of Ok _ b' \<Rightarrow> moved b b' | Err b' \<Rightarrow> moved b b' | Fault \<Rightarrow> 2 ^ 28 - 1 \<le> unat n"
  proof cases
    case 1
    then show ?thesis by (simp add: strings_behind_def ret_def)
  next
    case 2
    then have c: "unat (n + 1) = unat n + 1" by (intro array_cells(1)) simp
    have x: "xmalloc (8 * unat (n + 1)) = ret ()" unfolding c using 2(2) by (intro xmalloc_fits) (simp add: INT_MAX_def)
    have "reader (strings_behind n)"
      unfolding strings_behind_def x bindM_ret using 2(1) c by (auto intro!: codec_intros unpack_into_reader)
    then show ?thesis using assms by (auto simp: reader_def split: res.splits)
  next
    case 3
    then show ?thesis using big by simp
  next
    case 4
    then have c: "unat (n + 1) = 0" by (intro array_cells(2)) simp
    have "n \<noteq> 0" "0 < unat n" using 4 by auto
    then show ?thesis
      using unpack_into_none [OF assms, of "unat n"] 4 unfolding strings_behind_def c mult_0_right
      by (cases "unpack_into 0 (unat n) b") (simp_all add: bindM_def)
  qed
qed

lemma unpackstr_array_behind:
  "wf_buf b \<Longrightarrow> unpackstr_array b = (if unat (remaining_buf b) < 4 then Err b else strings_behind (be_word (take 4 (to_come b))) (skip 4 b))"
  by (simp add: unpackstr_array_def strings_behind_def Let_def bindM_def unpack_scalar_def get_bytes_wf length_to_come)

lemma moved_inside:
  assumes "wf_buf b" and "moved b b'"
  shows "wf_buf b' \<and> head b' = head b \<and> bsize b' = bsize b \<and> processed b \<le> processed b'"
proof -
  from assms(2) obtain n where n: "n \<le> length (to_come b)" "b' = skip n b" by (auto simp: moved_def)
  have "processed b \<le> processed b'"
    using processed_skip [OF assms(1) n(1)] by (simp add: n(2) word_le_nat_alt)
  moreover have "head b' = head b" "bsize b' = bsize b" by (simp_all add: n(2) skip_def)
  ultimately show ?thesis using wf_skip [OF assms(1) n(1)] n(2) by simp
qed


definition greedy_buf :: slurm_buf where
  "greedy_buf = \<lparr>magic = BUF_MAGIC, head = [16, 0, 0, 0], bsize = 4, processed = 0\<rparr>"


text \<open>
  A message that announces more 32-bit array elements than the rest of the buffer holds, but fewer than \<^verbatim>\<open>2 ^ 29\<close>, makes
  \<^verbatim>\<open>unpack32_array\<close> return \<^verbatim>\<open>SLURM_ERROR\<close>; it neither reads past the end nor returns a partial array.
\<close>

theorem unpack32_array_truncated:
  fixes n :: u32 and vs :: "u32 list"
  assumes "wf_buf b" and "to_come b = be_bytes 4 n @ concat (map (be_bytes 4) vs) @ rest"
    and "length rest < 4" and "length vs < unat n" and "unat n < 2 ^ 29"
  shows "\<exists>b'. unpack32_array b = Err b'"
proof -
  let ?b = "skip 4 b"
  have le: "4 \<le> length (to_come b)" by (simp add: assms(2))
  have "unpack32 b = Ok n ?b"
    using c32.unpk_reads [of n] assms(1,2) by (auto simp: reads_def)
  moreover have "to_come ?b = concat (map (be_bytes 4) vs) @ rest"
    using to_come_skip [OF assms(1) le] assms(2) by simp
  then obtain b' where "unpack_n unpack32 (unat n) ?b = Err b'"
    using c32.n_short [OF wf_skip [OF assms(1) le], of vs rest "unat n"] assms(3,4)
    by (auto simp: list_all_iff)
  moreover have "xmalloc (unat n * 4) = ret ()" using assms(5) by (intro xmalloc_fits) (simp add: INT_MAX_def)
  ultimately show ?thesis by (simp add: unpack32_array_def bindM_def ret_def)
qed

theorem unpack32_array_truncated_witness:
  "\<exists>b'. unpack32_array \<lparr>magic = BUF_MAGIC, head = [0, 0, 0, 2, 0, 0, 0, 7, 9], bsize = 9, processed = 0\<rparr> = Err b'"
proof (rule unpack32_array_truncated [where n = 2 and vs = "[7]" and rest = "[9]"])
  show "to_come \<lparr>magic = BUF_MAGIC, head = [0, 0, 0, 2, 0, 0, 0, 7, 9], bsize = 9, processed = 0\<rparr>
      = be_bytes 4 (2 :: u32) @ concat (map (be_bytes 4) [7 :: u32]) @ [9]"
    by (simp add: to_come_def be_bytes_numeral)
qed (simp_all add: wf_buf_def)

text \<open>
  Packing a block is all or nothing: either the length and the whole block are appended, or, only
  when the buffer cannot grow any further, the buffer is exactly what it was. Nothing tells the caller which.
\<close>

theorem packmem_all_or_nothing:
  assumes "wf_buf b" and "readable valp size_val" and "unat size_val + 16384 \<le> INT_MAX"
  shows "(packmem valp size_val b = Ok () b \<and> pack_limit < unat (processed b) + 4 + 2 * unat size_val) \<or>
    (\<exists>b'. packmem valp size_val b = Ok () b' \<and> wf_buf b' \<and>
      written b' = written b @ be_bytes 4 size_val @ block_of valp size_val)"
  using assms by (rule packmem_cases)

theorem packmem_all_or_nothing_witness:
  "(packmem (Some [1, 2]) 2 fresh_buf = Ok () fresh_buf \<and> pack_limit < unat (processed fresh_buf) + 4 + 2 * unat (2 :: u32)) \<or>
    (\<exists>b'. packmem (Some [1, 2]) 2 fresh_buf = Ok () b' \<and> wf_buf b' \<and>
      written b' = written fresh_buf @ be_bytes 4 (2 :: u32) @ block_of (Some [1, 2]) 2)"
  by (rule packmem_all_or_nothing) (simp_all add: readable_def read_mem_def INT_MAX_def)

lemma clears_or_short:
  fixes size_val :: u32
  assumes "wf_buf b" and "pack_limit < unat size_val" and "\<not> clears_too_much (bsize b) (bsize b + (size_val + BUF_SIZE))"
  shows "unat (bsize b + (size_val + BUF_SIZE)) < 4 + unat size_val"
proof -
  have s: "unat size_val < 2 ^ 32" "unat (bsize b) \<le> 0xffff0000" using unat_u32 [of size_val] assms(1) by (simp_all add: wf_buf_def)
  have sum: "unat (bsize b + (size_val + BUF_SIZE)) = (unat (bsize b) + unat size_val + 16384) mod 2 ^ 32"
    by (simp add: unat_word_ariths mod_simps add.assoc)
  consider "unat (bsize b) + unat size_val + 16384 < 2 ^ 32" | "2 ^ 32 \<le> unat (bsize b) + unat size_val + 16384" by linarith
  then show ?thesis
  proof cases
    case 1
    then have n: "unat (bsize b + (size_val + BUF_SIZE)) = unat (bsize b) + unat size_val + 16384" unfolding sum by simp
    have "clears_too_much (bsize b) (bsize b + (size_val + BUF_SIZE))"
      using 1 assms(2) unfolding clears_too_much_def n INT_MAX_def pack_limit_def by simp
    then show ?thesis using assms(3) by simp
  next
    case 2
    have "(unat (bsize b) + unat size_val + 16384) mod 2 ^ 32 = unat (bsize b) + unat size_val + 16384 - 2 ^ 32"
      using 2 s by (subst mod_if) (simp add: mod_less)
    then show ?thesis unfolding sum using s by simp
  qed
qed

lemma packmem_copy_short:
  assumes "length (head b) < 4 + unat n" and "n \<noteq> 0" and "length (head b) < 2 ^ 32"
  shows "packmem_copy p n b = Fault"
proof (cases "unat (processed b) + 4 \<le> length (head b)")
  case False
  then show ?thesis by (simp add: packmem_copy_def thenM_def bindM_def put_bytes_def)
next
  case True
  let ?b = "b\<lparr>head := memcpy_at (unat (processed b)) (be_bytes 4 n) (head b), processed := processed b + 4\<rparr>"
  have p: "put_bytes (be_bytes 4 n) b = Ok () ?b" using True by (simp add: put_bytes_def)
  have "unat (processed b + 4) = unat (processed b) + 4" using True assms(3) unat_add_bound [of "processed b" 4] by simp
  then have no: "put_bytes bs ?b = Fault" if "length bs = unat n" for bs
    using assms(1) that True by (simp add: put_bytes_def)
  show ?thesis
    using assms(2) no by (auto simp: packmem_copy_def thenM_def bindM_def p fault_def read_mem_def split: option.splits)
qed

text \<open>
  C38: The size guard of \<^verbatim>\<open>packmem\<close> is computed in 32 bits and wraps around for a block within 80 KiB of 4 GiB, a size that it
  ought to refuse for every buffer.  When the block is larger than the room left, it is taken unless the wrapped guard
  happens to hold, and the enlarging or the copy runs outside the memory of the buffer.
\<close>

theorem packmem_guard_wraps:
  assumes "wf_buf b" and "pack_limit < unat size_val" and "unat (remaining_buf b) < 4 + unat size_val"
  shows "packmem valp size_val b = (if unat (bsize b) + unat size_val \<le> 2 ^ 32 + pack_limit then Fault else Ok () b)"
proof -
  have s: "unat size_val < 2 ^ 32" by (rule unat_u32)
  have "MAX_BUF_SIZE - size_val - BUF_SIZE = of_nat (pack_limit + (2 ^ 32 - unat size_val))"
    using s by (simp add: pack_limit_def MAX_BUF_SIZE_def BUF_SIZE_def of_nat_diff)
  moreover have "pack_limit + (2 ^ 32 - unat size_val) < 2 ^ 32" using assms(2) s by simp
  ultimately have "unat (MAX_BUF_SIZE - size_val - BUF_SIZE) = pack_limit + (2 ^ 32 - unat size_val)"
    by (simp only: unat_of_nat) (simp add: take_bit_nat_eq_self)
  then have g: "MAX_BUF_SIZE - size_val - BUF_SIZE < bsize b \<longleftrightarrow> \<not> unat (bsize b) + unat size_val \<le> 2 ^ 32 + pack_limit"
    using s by (auto simp: word_less_nat_alt)
  have "packmem_copy valp size_val (enlarge (size_val + BUF_SIZE) b) = Fault" if "\<not> clears_too_much (bsize b) (bsize b + (size_val + BUF_SIZE))"
    using clears_or_short [OF assms(1,2) that] assms(2) unat_u32 [of "bsize b + (size_val + BUF_SIZE)"]
    by (intro packmem_copy_short) (auto simp: enlarge_def)
  then show ?thesis using assms(3) g by (simp add: packmem_def)
qed

theorem packmem_guard_wraps_witness:
  "packmem (Some (replicate 0xffffc000 1)) 0xffffc000 fresh_buf =
    (if unat (bsize fresh_buf) + unat (0xffffc000 :: u32) \<le> 2 ^ 32 + pack_limit then Fault else Ok () fresh_buf)"
  by (rule packmem_guard_wraps) (simp_all add: pack_limit_def remaining_buf_def)

end
