(* ===== verification/Bitstring.thy ===== *)
theory Bitstring
  imports Prelude
begin

text \<open>
  The bit strings of \<^verbatim>\<open>src/src/common/bitstring.c\<close> and \<^verbatim>\<open>bitstring.h\<close>, in the default configuration
  (32-bit words, little-endian): first the code, loop by loop, then its meaning over the list of
  bits it represents.
\<close>


section \<open>Representation\<close>

text \<open>
  A \<^verbatim>\<open>bitstr_t\<close> is an array of 32-bit words; word 0 is a magic cookie, word 1 the number of valid
  bits, the data starts at word 2.  The record names the first two and keeps the data words.
  \<^verbatim>\<open>bitoff_t\<close> is \<^verbatim>\<open>int32_t\<close>; positions are integers here, and \<open>wf_bitstr\<close> bounds the size so that no
  expression of the code leaves the range of the C type.

  A failed assertion, or an access to a word outside the array, is \<^const>\<open>None\<close>.
\<close>

definition BITSTR_MAGIC :: u32 where "BITSTR_MAGIC = 0x42434445"
definition BITSTR_MAGIC_STACK :: u32 where "BITSTR_MAGIC_STACK = 0x42434446"
definition BITSTR_MAXPOS :: u32 where "BITSTR_MAXPOS = 31"

record bitstr =
  b_magic :: u32
  b_bits :: int
  b_words :: "u32 list"

definition assert_bitstr_valid :: "bitstr \<Rightarrow> unit option" where
  "assert_bitstr_valid b = assertC (b_magic b = BITSTR_MAGIC \<or> b_magic b = BITSTR_MAGIC_STACK)"

definition assert_bit_valid :: "bitstr \<Rightarrow> int \<Rightarrow> unit option" where
  "assert_bit_valid b i = assertC (0 \<le> i \<and> i < b_bits b)"

definition word_at :: "bitstr \<Rightarrow> int \<Rightarrow> u32 option" where
  "word_at b i =
     (if 0 \<le> i \<and> nat (i div 32) < length (b_words b) then Some (b_words b ! nat (i div 32)) else None)"

definition set_word_at :: "bitstr \<Rightarrow> int \<Rightarrow> u32 \<Rightarrow> bitstr option" where
  "set_word_at b i w =
     (if 0 \<le> i \<and> nat (i div 32) < length (b_words b)
      then Some (b\<lparr>b_words := (b_words b)[nat (i div 32) := w]\<rparr>) else None)"

definition bit_mask :: "int \<Rightarrow> u32" where
  "bit_mask i = push_bit (nat (i mod 32)) 1"

definition bitstr_data_words :: "int \<Rightarrow> nat" where
  "bitstr_data_words nbits = nat ((nbits + 31) div 32)"


section \<open>Allocation\<close>

text \<open>Memory is never exhausted in the model; a negative size is outside it.\<close>

definition bit_alloc :: "int \<Rightarrow> bitstr option" where
  "bit_alloc nbits =
     (if nbits < 0 then None
      else Some \<lparr>b_magic = BITSTR_MAGIC, b_bits = nbits,
                 b_words = replicate (bitstr_data_words nbits) 0\<rparr>)"

definition bit_free :: "bitstr \<Rightarrow> unit option" where
  "bit_free b = assertC (b_magic b = BITSTR_MAGIC)"

definition bit_size :: "bitstr \<Rightarrow> int option" where
  "bit_size b = do { assert_bitstr_valid b; Some (b_bits b) }"


section \<open>Single bits\<close>

definition bit_test :: "bitstr \<Rightarrow> int \<Rightarrow> bool option" where
  "bit_test b i = do {
     assert_bitstr_valid b;
     assert_bit_valid b i;
     w \<leftarrow> word_at b i;
     Some (w AND bit_mask i \<noteq> 0)
   }"

definition bit_set :: "bitstr \<Rightarrow> int \<Rightarrow> bitstr option" where
  "bit_set b i = do {
     assert_bitstr_valid b;
     assert_bit_valid b i;
     w \<leftarrow> word_at b i;
     set_word_at b i (w OR bit_mask i)
   }"

definition bit_clear :: "bitstr \<Rightarrow> int \<Rightarrow> bitstr option" where
  "bit_clear b i = do {
     assert_bitstr_valid b;
     assert_bit_valid b i;
     w \<leftarrow> word_at b i;
     set_word_at b i (w AND NOT (bit_mask i))
   }"


section \<open>Ranges\<close>

text \<open>
  \<^verbatim>\<open>bit_nset\<close> and \<^verbatim>\<open>bit_nclear\<close> differ in the update of one bit and in the byte that fills whole
  bytes.  Byte \<open>k\<close> of the data lies in word \<open>k div 4\<close>, the low byte first.
\<close>

function partial_first :: "(bitstr \<Rightarrow> int \<Rightarrow> bitstr option) \<Rightarrow> bitstr \<Rightarrow> int \<Rightarrow> int \<Rightarrow> (bitstr \<times> int) option" where
  "partial_first upd b start stop =
     (if start \<le> stop \<and> start mod 8 > 0
      then do { b' \<leftarrow> upd b start; partial_first upd b' (start + 1) stop }
      else Some (b, start))"
  by pat_completeness auto
termination
  by (relation "measure (\<lambda>(_, _, start, stop). nat (stop + 1 - start))") auto

function partial_last :: "(bitstr \<Rightarrow> int \<Rightarrow> bitstr option) \<Rightarrow> bitstr \<Rightarrow> int \<Rightarrow> int \<Rightarrow> (bitstr \<times> int) option" where
  "partial_last upd b start stop =
     (if stop \<ge> start \<and> (stop + 1) mod 8 > 0
      then do { b' \<leftarrow> upd b stop; partial_last upd b' start (stop - 1) }
      else Some (b, stop))"
  by pat_completeness auto
termination
  by (relation "measure (\<lambda>(_, _, start, stop). nat (stop + 1 - start))") auto

definition set_byte :: "u8 \<Rightarrow> bitstr \<Rightarrow> int \<Rightarrow> bitstr option" where
  "set_byte v b k = do {
     w \<leftarrow> word_at b (8 * k);
     set_word_at b (8 * k)
       ((w AND NOT (push_bit (nat (8 * (k mod 4))) 0xff)) OR push_bit (nat (8 * (k mod 4))) (ucast v))
   }"

fun memset_bytes :: "bitstr \<Rightarrow> int \<Rightarrow> u8 \<Rightarrow> nat \<Rightarrow> bitstr option" where
  "memset_bytes b k v 0 = Some b"
| "memset_bytes b k v (Suc n) = do { b' \<leftarrow> set_byte v b k; memset_bytes b' (k + 1) v n }"

definition bit_fill :: "(bitstr \<Rightarrow> int \<Rightarrow> bitstr option) \<Rightarrow> u8 \<Rightarrow> bitstr \<Rightarrow> int \<Rightarrow> int \<Rightarrow> bitstr option" where
  "bit_fill upd v b start stop = do {
     assert_bitstr_valid b;
     assert_bit_valid b start;
     assert_bit_valid b stop;
     (b, start) \<leftarrow> partial_first upd b start stop;
     (b, stop) \<leftarrow> partial_last upd b start stop;
     if stop > start then do {
       assertC ((stop - start + 1) mod 8 = 0);
       memset_bytes b (start div 8) v (nat ((stop - start + 1) div 8))
     } else Some b
   }"

definition bit_nset :: "bitstr \<Rightarrow> int \<Rightarrow> int \<Rightarrow> bitstr option" where
  "bit_nset = bit_fill bit_set 0xff"

definition bit_nclear :: "bitstr \<Rightarrow> int \<Rightarrow> int \<Rightarrow> bitstr option" where
  "bit_nclear = bit_fill bit_clear 0"

text \<open>
  \<^verbatim>\<open>realloc\<close> leaves the words it adds undefined: they are the argument \<open>junk\<close>, by index.
\<close>

definition bit_realloc :: "(nat \<Rightarrow> u32) \<Rightarrow> bitstr \<Rightarrow> int \<Rightarrow> bitstr option" where
  "bit_realloc junk b nbits = do {
     assert_bitstr_valid b;
     let obits = b_bits b;
     assertC (0 \<le> nbits);
     let n = bitstr_data_words nbits;
     let b' = b\<lparr>b_words := take n (b_words b) @ map junk [length (b_words b)..<n], b_bits := nbits\<rparr>;
     if nbits > obits then bit_nclear b' obits (nbits - 1) else Some b'
   }"


section \<open>Searching\<close>

text \<open>
  \<^verbatim>\<open>bit_ffc\<close> and \<^verbatim>\<open>bit_ffs\<close> are one loop with two parameters: the test by which a whole word is
  passed over, and the bit value that is looked for.
\<close>

function scan_word :: "(bool \<Rightarrow> bool) \<Rightarrow> bitstr \<Rightarrow> int \<Rightarrow> int \<Rightarrow> (int \<times> bool) option" where
  "scan_word want b word i =
     (if i < b_bits b \<and> i div 32 = word
      then do { t \<leftarrow> bit_test b i; if want t then Some (i, True) else scan_word want b word (i + 1) }
      else Some (i, False))"
  by pat_completeness auto
termination
  by (relation "measure (\<lambda>(_, b, _, i). nat (b_bits b - i))") auto

declare scan_word.simps [simp del] partial_first.simps [simp del] partial_last.simps [simp del]

lemma scan_word_ge: "scan_word want b word i = Some (j, f) \<Longrightarrow> i \<le> j"
proof (induction want b word i arbitrary: j f rule: scan_word.induct)
  case (1 want b word i)
  show ?case
  proof (cases "i < b_bits b \<and> i div 32 = word")
    case True
    with "1.prems" obtain t where t: "bit_test b i = Some t"
      "(if want t then Some (i, True) else scan_word want b word (i + 1)) = Some (j, f)"
      by (subst (asm) scan_word.simps) (auto simp: bind_eq_Some_conv)
    then show ?thesis using "1.IH" [OF True, of t j f] by (cases "want t") auto
  next
    case False
    with "1.prems" show ?thesis by (subst (asm) scan_word.simps) auto
  qed
qed

lemma scan_word_progress:
  assumes "scan_word want b (i div 32) i = Some (j, False)" and "i < b_bits b"
  shows "i < j"
proof -
  from assms obtain t where "bit_test b i = Some t" "\<not> want t"
    "scan_word want b (i div 32) (i + 1) = Some (j, False)"
    by (subst (asm) scan_word.simps) (auto simp: bind_eq_Some_conv split: if_splits)
  then show ?thesis using scan_word_ge by fastforce
qed

function find_from :: "(u32 \<Rightarrow> bool) \<Rightarrow> (bool \<Rightarrow> bool) \<Rightarrow> bitstr \<Rightarrow> int \<Rightarrow> int option" where
  "find_from pass want b i =
     (if i < b_bits b then do {
        w \<leftarrow> word_at b i;
        if pass w then find_from pass want b (i + 32)
        else do {
          (j, found) \<leftarrow> scan_word want b (i div 32) i;
          if found then Some j else find_from pass want b j
        }
      } else Some (-1))"
  by pat_completeness auto
termination
  by (relation "measure (\<lambda>(_, _, b, i). nat (b_bits b - i))")
    (auto dest: scan_word_progress)

declare find_from.simps [simp del]

definition bit_ffc :: "bitstr \<Rightarrow> int option" where
  "bit_ffc b = do { assert_bitstr_valid b; find_from (\<lambda>w. w = BITSTR_MAXPOS) (\<lambda>t. \<not> t) b 0 }"

definition bit_ffs :: "bitstr \<Rightarrow> int option" where
  "bit_ffs b = do { assert_bitstr_valid b; find_from (\<lambda>w. w = 0) (\<lambda>t. t) b 0 }"

text \<open>
  Runs of \<open>n\<close> equal bits, \<^verbatim>\<open>bit_nffc\<close> and \<^verbatim>\<open>bit_nffs\<close>: a counter that a wrong bit resets.  The loop stops
  before \<open>stop\<close>; its value is the first position of the run or -1.
\<close>

function scan_run :: "(bool \<Rightarrow> bool) \<Rightarrow> bitstr \<Rightarrow> int \<Rightarrow> int \<Rightarrow> int \<Rightarrow> int \<Rightarrow> int option" where
  "scan_run want b n stop i cnt =
     (if i < stop then do {
        t \<leftarrow> bit_test b i;
        if want t then
          if cnt + 1 \<ge> n then Some (i - cnt) else scan_run want b n stop (i + 1) (cnt + 1)
        else scan_run want b n stop (i + 1) 0
      } else Some (-1))"
  by pat_completeness auto
termination
  by (relation "measure (\<lambda>(_, _, _, stop, i, _). nat (stop - i))") auto

declare scan_run.simps [simp del]

definition bit_nffc :: "bitstr \<Rightarrow> int \<Rightarrow> int option" where
  "bit_nffc b n = do {
     assert_bitstr_valid b;
     assertC (n > 0 \<and> n < b_bits b);
     scan_run (\<lambda>t. \<not> t) b n (b_bits b) 0 0
   }"

definition bit_nffs :: "bitstr \<Rightarrow> int \<Rightarrow> int option" where
  "bit_nffs b n = do {
     assert_bitstr_valid b;
     assertC (n > 0 \<and> n \<le> b_bits b);
     scan_run (\<lambda>t. t) b n (b_bits b - n + 1) 0 0
   }"

text \<open>The second loop of \<^verbatim>\<open>bit_noc\<close>, which gives up at a set bit at or past the seed.\<close>

function noc_wrap :: "bitstr \<Rightarrow> int \<Rightarrow> int \<Rightarrow> int \<Rightarrow> int \<Rightarrow> int option" where
  "noc_wrap b n seed i cnt =
     (if i < b_bits b then do {
        t \<leftarrow> bit_test b i;
        if t then if i \<ge> seed then Some (-1) else noc_wrap b n seed (i + 1) 0
        else if cnt + 1 \<ge> n then Some (i - cnt) else noc_wrap b n seed (i + 1) (cnt + 1)
      } else Some (-1))"
  by pat_completeness auto
termination
  by (relation "measure (\<lambda>(b, _, _, i, _). nat (b_bits b - i))") auto

declare noc_wrap.simps [simp del]

definition bit_noc :: "bitstr \<Rightarrow> int \<Rightarrow> int \<Rightarrow> int option" where
  "bit_noc b n seed = do {
     assert_bitstr_valid b;
     assertC (n > 0 \<and> n \<le> b_bits b);
     let seed = (if seed + n \<ge> b_bits b then b_bits b else seed);
     v \<leftarrow> scan_run (\<lambda>t. \<not> t) b n (b_bits b) seed 0;
     if v \<noteq> -1 then Some v else noc_wrap b n seed 0 0
   }"

text \<open>
  \<^verbatim>\<open>bit_fls\<close>: the partial last word bit by bit, then downwards by whole words, then bit by bit.
  A result \<open>(i, False)\<close> of a loop is a position to go on from.
\<close>

function fls_partial :: "bitstr \<Rightarrow> int \<Rightarrow> (int \<times> bool) option" where
  "fls_partial b i =
     (if i \<ge> 0 \<and> i div 32 = (i + 1) div 32
      then do { t \<leftarrow> bit_test b i; if t then Some (i, True) else fls_partial b (i - 1) }
      else Some (i, False))"
  by pat_completeness auto
termination
  by (relation "measure (\<lambda>(_, i). nat (i + 1))") auto

function fls_bits :: "bitstr \<Rightarrow> int \<Rightarrow> int option" where
  "fls_bits b i =
     (if i \<ge> 0 then do { t \<leftarrow> bit_test b i; if t then Some i else fls_bits b (i - 1) } else Some (-1))"
  by pat_completeness auto
termination
  by (relation "measure (\<lambda>(_, i). nat (i + 1))") auto

function fls_words :: "bitstr \<Rightarrow> int \<Rightarrow> int option" where
  "fls_words b i =
     (if i \<ge> 0 then do { w \<leftarrow> word_at b i; if w = 0 then fls_words b (i - 32) else fls_bits b i }
      else Some (-1))"
  by pat_completeness auto
termination
  by (relation "measure (\<lambda>(_, i). nat (i + 1))") auto

declare fls_partial.simps [simp del] fls_bits.simps [simp del] fls_words.simps [simp del]

definition bit_fls :: "bitstr \<Rightarrow> int option" where
  "bit_fls b = do {
     assert_bitstr_valid b;
     if b_bits b = 0 then Some (-1)
     else do {
       (i, found) \<leftarrow> fls_partial b (b_bits b - 1);
       if found then Some i else fls_words b i
     }
   }"

definition bit_fill_gaps :: "bitstr \<Rightarrow> bitstr option" where
  "bit_fill_gaps b = do {
     assert_bitstr_valid b;
     first \<leftarrow> bit_ffs b;
     if first = -1 then Some b
     else do { last \<leftarrow> bit_fls b; bit_nset b first last }
   }"


section \<open>Whole bit strings, word by word\<close>

function all_words :: "(u32 \<Rightarrow> u32 \<Rightarrow> bool) \<Rightarrow> bitstr \<Rightarrow> bitstr \<Rightarrow> int \<Rightarrow> bool option" where
  "all_words p b1 b2 i =
     (if i < b_bits b1 then do {
        x \<leftarrow> word_at b1 i;
        y \<leftarrow> word_at b2 i;
        if p x y then all_words p b1 b2 (i + 32) else Some False
      } else Some True)"
  by pat_completeness auto
termination
  by (relation "measure (\<lambda>(_, b1, _, i). nat (b_bits b1 - i))") auto

function update_words :: "(u32 \<Rightarrow> u32 \<Rightarrow> u32) \<Rightarrow> bitstr \<Rightarrow> bitstr \<Rightarrow> int \<Rightarrow> int \<Rightarrow> bitstr option" where
  "update_words f b1 b2 nbits i =
     (if i < nbits then do {
        x \<leftarrow> word_at b1 i;
        y \<leftarrow> word_at b2 i;
        b1' \<leftarrow> set_word_at b1 i (f x y);
        update_words f b1' b2 nbits (i + 32)
      } else Some b1)"
  by pat_completeness auto
termination
  by (relation "measure (\<lambda>(_, _, _, nbits, i). nat (nbits - i))") auto

declare all_words.simps [simp del] update_words.simps [simp del]

definition bit_super_set :: "bitstr \<Rightarrow> bitstr \<Rightarrow> bool option" where
  "bit_super_set b1 b2 = do {
     assert_bitstr_valid b1;
     assert_bitstr_valid b2;
     assertC (b_bits b1 = b_bits b2);
     all_words (\<lambda>x y. x = x AND y) b1 b2 0
   }"

definition bit_equal :: "bitstr \<Rightarrow> bitstr \<Rightarrow> bool option" where
  "bit_equal b1 b2 = do {
     assert_bitstr_valid b1;
     assert_bitstr_valid b2;
     if b_bits b1 \<noteq> b_bits b2 then Some False else all_words (\<lambda>x y. x = y) b1 b2 0
   }"

definition bit_and :: "bitstr \<Rightarrow> bitstr \<Rightarrow> bitstr option" where
  "bit_and b1 b2 = do {
     assert_bitstr_valid b1;
     assert_bitstr_valid b2;
     assertC (b_bits b1 = b_bits b2);
     update_words (\<lambda>x y. x AND y) b1 b2 (b_bits b1) 0
   }"

definition bit_or :: "bitstr \<Rightarrow> bitstr \<Rightarrow> bitstr option" where
  "bit_or b1 b2 = do {
     assert_bitstr_valid b1;
     assert_bitstr_valid b2;
     assertC (b_bits b1 = b_bits b2);
     update_words (\<lambda>x y. x OR y) b1 b2 (b_bits b1) 0
   }"

definition bit_not :: "bitstr \<Rightarrow> bitstr option" where
  "bit_not b = do {
     assert_bitstr_valid b;
     update_words (\<lambda>x _. NOT x) b b (b_bits b) 0
   }"

text \<open>The block copy of all data words; \<open>dest\<close> keeps its cookie and size.\<close>

definition copy_data :: "bitstr \<Rightarrow> bitstr \<Rightarrow> bitstr option" where
  "copy_data dest src =
     (let n = bitstr_data_words (b_bits src) in
      if n \<le> length (b_words dest) \<and> n \<le> length (b_words src)
      then Some (dest\<lparr>b_words := take n (b_words src) @ drop n (b_words dest)\<rparr>) else None)"

definition bit_copy :: "bitstr \<Rightarrow> bitstr option" where
  "bit_copy b = do {
     assert_bitstr_valid b;
     newsize_bits \<leftarrow> bit_size b;
     new \<leftarrow> bit_alloc newsize_bits;
     copy_data new b
   }"

definition bit_copybits :: "bitstr \<Rightarrow> bitstr \<Rightarrow> bitstr option" where
  "bit_copybits dest src = do {
     assert_bitstr_valid dest;
     assert_bitstr_valid src;
     n \<leftarrow> bit_size src;
     m \<leftarrow> bit_size dest;
     assertC (n = m);
     copy_data dest src
   }"


section \<open>Counting\<close>

definition hweight :: "u32 \<Rightarrow> u32" where
  "hweight w =
     (let res = (w AND 0x55555555) + (drop_bit 1 w AND 0x55555555);
          res = (res AND 0x33333333) + (drop_bit 2 res AND 0x33333333);
          res = (res AND 0x0F0F0F0F) + (drop_bit 4 res AND 0x0F0F0F0F);
          res = (res AND 0x00FF00FF) + (drop_bit 8 res AND 0x00FF00FF)
      in (res AND 0x0000FFFF) + (drop_bit 16 res AND 0x0000FFFF))"

text \<open>
  \<^verbatim>\<open>bit_set_count\<close> and \<^verbatim>\<open>bit_overlap\<close> count full words with \<^const>\<open>hweight\<close> and the rest bit by bit; they
  differ in the word and the bit they look at.
\<close>

function count_words :: "(int \<Rightarrow> u32 option) \<Rightarrow> int \<Rightarrow> int \<Rightarrow> int \<Rightarrow> (int \<times> int) option" where
  "count_words getw bit_cnt i count =
     (if i < bit_cnt then
        if i + 32 - 1 \<ge> bit_cnt then Some (i, count)
        else do { w \<leftarrow> getw i; count_words getw bit_cnt (i + 32) (count + uint (hweight w)) }
      else Some (i, count))"
  by pat_completeness auto
termination
  by (relation "measure (\<lambda>(_, bit_cnt, i, _). nat (bit_cnt - i))") auto

function count_bits :: "(int \<Rightarrow> bool option) \<Rightarrow> int \<Rightarrow> int \<Rightarrow> int \<Rightarrow> int option" where
  "count_bits test bit_cnt i count =
     (if i < bit_cnt
      then do { t \<leftarrow> test i; count_bits test bit_cnt (i + 1) (if t then count + 1 else count) }
      else Some count)"
  by pat_completeness auto
termination
  by (relation "measure (\<lambda>(_, bit_cnt, i, _). nat (bit_cnt - i))") auto

declare count_words.simps [simp del] count_bits.simps [simp del]

definition bit_set_count :: "bitstr \<Rightarrow> int option" where
  "bit_set_count b = do {
     assert_bitstr_valid b;
     (i, count) \<leftarrow> count_words (word_at b) (b_bits b) 0 0;
     count_bits (bit_test b) (b_bits b) i count
   }"

definition bit_overlap :: "bitstr \<Rightarrow> bitstr \<Rightarrow> int option" where
  "bit_overlap b1 b2 = do {
     assert_bitstr_valid b1;
     assert_bitstr_valid b2;
     assertC (b_bits b1 = b_bits b2);
     (i, count) \<leftarrow> count_words (\<lambda>i. do { x \<leftarrow> word_at b1 i; y \<leftarrow> word_at b2 i; Some (x AND y) }) (b_bits b1) 0 0;
     count_bits (\<lambda>i. do { t \<leftarrow> bit_test b1 i; if t then bit_test b2 i else Some False }) (b_bits b1) i count
   }"

definition bit_clear_count :: "bitstr \<Rightarrow> int option" where
  "bit_clear_count b = do {
     assert_bitstr_valid b;
     n \<leftarrow> bit_set_count b;
     Some (b_bits b - n)
   }"

function max_run :: "bitstr \<Rightarrow> int \<Rightarrow> int \<Rightarrow> int \<Rightarrow> int option" where
  "max_run b i cnt maxcnt =
     (if i < b_bits b then do {
        t \<leftarrow> bit_test b i;
        let cnt' = (if t then cnt + 1 else 0);
        let maxcnt' = (if t \<and> cnt' > maxcnt then cnt' else maxcnt);
        if cnt' = 0 \<and> b_bits b - i < maxcnt' then Some maxcnt'
        else max_run b (i + 1) cnt' maxcnt'
      } else Some maxcnt)"
  by pat_completeness auto
termination
  by (relation "measure (\<lambda>(b, i, _, _). nat (b_bits b - i))") auto

declare max_run.simps [simp del]

definition bit_nset_max_count :: "bitstr \<Rightarrow> int option" where
  "bit_nset_max_count b = do { assert_bitstr_valid b; max_run b 0 0 0 }"

text \<open>A sum that leaves the range of int is \<^const>\<open>None\<close>, as is the division by a zero length.\<close>

definition add_int :: "int \<Rightarrow> int \<Rightarrow> int option" where
  "add_int x y = (if - (2 ^ 31) \<le> x + y \<and> x + y < 2 ^ 31 then Some (x + y) else None)"

function sum_set :: "int list \<Rightarrow> int \<Rightarrow> bitstr \<Rightarrow> int \<Rightarrow> int \<Rightarrow> int option" where
  "sum_set i1 ilen b2 i acc =
     (if i < b_bits b2 then do {
        t \<leftarrow> bit_test b2 i;
        if t then do {
          assertC (ilen \<noteq> 0 \<and> nat (i mod \<bar>ilen\<bar>) < length i1);
          acc' \<leftarrow> add_int acc (i1 ! nat (i mod \<bar>ilen\<bar>));
          sum_set i1 ilen b2 (i + 1) acc'
        } else sum_set i1 ilen b2 (i + 1) acc
      } else Some acc)"
  by pat_completeness auto
termination
  by (relation "measure (\<lambda>(_, _, b2, i, _). nat (b_bits b2 - i))") auto

declare sum_set.simps [simp del]

definition int_and_set_count :: "int list \<Rightarrow> int \<Rightarrow> bitstr \<Rightarrow> int option" where
  "int_and_set_count i1 ilen b2 = do { assert_bitstr_valid b2; sum_set i1 ilen b2 0 0 }"

function nth_set :: "bitstr \<Rightarrow> int \<Rightarrow> int \<Rightarrow> int \<Rightarrow> int option" where
  "nth_set b pos i cnt =
     (if i < b_bits b then do {
        t \<leftarrow> bit_test b i;
        if t then if cnt = pos then Some i else nth_set b pos (i + 1) (cnt + 1)
        else nth_set b pos (i + 1) cnt
      } else Some (-1))"
  by pat_completeness auto
termination
  by (relation "measure (\<lambda>(b, _, i, _). nat (b_bits b - i))") auto

declare nth_set.simps [simp del]

definition bit_get_bit_num :: "bitstr \<Rightarrow> int \<Rightarrow> int option" where
  "bit_get_bit_num b pos = do {
     assert_bitstr_valid b;
     assertC (pos \<le> b_bits b);
     nth_set b pos 0 0
   }"

definition bit_get_pos_num :: "bitstr \<Rightarrow> int \<Rightarrow> int option" where
  "bit_get_pos_num b pos = do {
     assert_bitstr_valid b;
     assertC (pos \<le> b_bits b);
     t \<leftarrow> bit_test b pos;
     if \<not> t then Some (-1) else count_bits (bit_test b) (pos + 1) 0 (-1)
   }"


section \<open>Meaning: the list of bits\<close>

definition wf_bitstr :: "bitstr \<Rightarrow> bool" where
  "wf_bitstr b \<longleftrightarrow> (b_magic b = BITSTR_MAGIC \<or> b_magic b = BITSTR_MAGIC_STACK) \<and>
     0 \<le> b_bits b \<and> b_bits b < 2 ^ 31 - 64 \<and> length (b_words b) = bitstr_data_words (b_bits b)"

definition bits_of :: "bitstr \<Rightarrow> bool list" where
  "bits_of b = map (\<lambda>i. bit (b_words b ! (i div 32)) (i mod 32)) [0..<nat (b_bits b)]"

lemma length_bits_of [simp]: "length (bits_of b) = nat (b_bits b)"
  by (simp add: bits_of_def)

lemma nth_bits_of: "i < nat (b_bits b) \<Longrightarrow> bits_of b ! i = bit (b_words b ! (i div 32)) (i mod 32)"
  by (simp add: bits_of_def)

lemma wf_valid: "wf_bitstr b \<Longrightarrow> assert_bitstr_valid b = Some ()"
  by (simp add: wf_bitstr_def assert_bitstr_valid_def assertC_def)

lemma wf_nbits: "wf_bitstr b \<Longrightarrow> 0 \<le> b_bits b"
  by (simp add: wf_bitstr_def)

lemma word_index:
  assumes "wf_bitstr b" and "0 \<le> i" and "i < b_bits b"
  shows "nat i div 32 < length (b_words b)"
  using assms unfolding wf_bitstr_def bitstr_data_words_def by linarith

lemma word_at_wf:
  "wf_bitstr b \<Longrightarrow> 0 \<le> i \<Longrightarrow> i < b_bits b \<Longrightarrow> word_at b i = Some (b_words b ! (nat i div 32))"
  using word_index [of b i] by (simp add: word_at_def nat_div_distrib)

lemma set_word_at_wf:
  "wf_bitstr b \<Longrightarrow> 0 \<le> i \<Longrightarrow> i < b_bits b \<Longrightarrow>
    set_word_at b i w = Some (b\<lparr>b_words := (b_words b)[nat i div 32 := w]\<rparr>)"
  using word_index [of b i] by (simp add: set_word_at_def nat_div_distrib)

lemma wf_upd_words: "wf_bitstr b \<Longrightarrow> length ws = length (b_words b) \<Longrightarrow> wf_bitstr (b\<lparr>b_words := ws\<rparr>)"
  by (simp add: wf_bitstr_def)

lemma bit_test_wf:
  assumes "wf_bitstr b" and "0 \<le> i" and "i < b_bits b"
  shows "bit_test b i = Some (bits_of b ! nat i)"
  using assms
  by (simp add: bit_test_def wf_valid assert_bit_valid_def word_at_wf nth_bits_of bit_mask_def
      nat_mod_distrib bit_iff_and_push_bit_not_eq_0)

lemma bit_bit_mask: "0 \<le> i \<Longrightarrow> k < 32 \<Longrightarrow> bit (bit_mask i) k \<longleftrightarrow> k = nat i mod 32"
  by (auto simp: bit_mask_def nat_mod_distrib bit_exp_iff)

text \<open>Changing one word changes the bits of that word.\<close>

lemma bits_of_set_word:
  assumes "wf_bitstr b" and "0 \<le> i" and "i < b_bits b" and "j < nat (b_bits b)"
  shows "bits_of (b\<lparr>b_words := (b_words b)[nat i div 32 := w]\<rparr>) ! j =
    (if j div 32 = nat i div 32 then bit w (j mod 32) else bits_of b ! j)"
  using assms word_index [of b i] by (simp add: nth_bits_of nth_list_update)

subsection \<open>The interface: an update of one bit\<close>

text \<open>
  What the range routines rely on: the update keeps the bit string well-formed and of its size,
  and gives the bit the value \<open>v\<close>.
\<close>

locale bit_update =
  fixes upd :: "bitstr \<Rightarrow> int \<Rightarrow> bitstr option" and v :: bool
  assumes upd: "wf_bitstr b \<Longrightarrow> 0 \<le> i \<Longrightarrow> i < b_bits b \<Longrightarrow>
    \<exists>b'. upd b i = Some b' \<and> wf_bitstr b' \<and> b_bits b' = b_bits b \<and> b_magic b' = b_magic b \<and> bits_of b' = (bits_of b)[nat i := v]"

lemma update_by_word:
  assumes wf: "wf_bitstr b" and i: "0 \<le> i" "i < b_bits b"
    and w: "\<And>k. k < 32 \<Longrightarrow> bit w k = (if k = nat i mod 32 then v else bit (b_words b ! (nat i div 32)) k)"
  shows "\<exists>b'. set_word_at b i w = Some b' \<and> wf_bitstr b' \<and> b_bits b' = b_bits b \<and> b_magic b' = b_magic b \<and>
    bits_of b' = (bits_of b)[nat i := v]"
proof -
  let ?b = "b\<lparr>b_words := (b_words b)[nat i div 32 := w]\<rparr>"
  have "bits_of ?b = (bits_of b)[nat i := v]"
  proof (rule nth_equalityI)
    fix j
    assume "j < length (bits_of ?b)"
    then have j: "j < nat (b_bits b)" by simp
    have split: "j div 32 = nat i div 32 \<and> j mod 32 = nat i mod 32 \<longleftrightarrow> j = nat i"
      by (metis div_mult_mod_eq)
    show "bits_of ?b ! j = (bits_of b)[nat i := v] ! j"
      unfolding bits_of_set_word [OF wf i j]
      using j i w [of "j mod 32"] split
      by (cases "j = nat i") (auto simp: nth_list_update nth_bits_of)
  qed simp
  then show ?thesis
    using set_word_at_wf [OF wf i] wf_upd_words [OF wf, of "(b_words b)[nat i div 32 := w]"] by simp
qed

interpretation set1: bit_update bit_set True
proof
  fix b i
  assume a: "wf_bitstr b" "0 \<le> i" "i < b_bits b"
  show "\<exists>b'. bit_set b i = Some b' \<and> wf_bitstr b' \<and> b_bits b' = b_bits b \<and> b_magic b' = b_magic b \<and> bits_of b' = (bits_of b)[nat i := True]"
    using update_by_word [OF a, of "b_words b ! (nat i div 32) OR bit_mask i" True] a
    by (simp add: bit_set_def wf_valid assert_bit_valid_def word_at_wf bit_bit_mask
        bit_or_iff)
qed

interpretation clear1: bit_update bit_clear False
proof
  fix b i
  assume a: "wf_bitstr b" "0 \<le> i" "i < b_bits b"
  show "\<exists>b'. bit_clear b i = Some b' \<and> wf_bitstr b' \<and> b_bits b' = b_bits b \<and> b_magic b' = b_magic b \<and> bits_of b' = (bits_of b)[nat i := False]"
    using update_by_word [OF a, of "b_words b ! (nat i div 32) AND NOT (bit_mask i)" False] a
    by (simp add: bit_clear_def wf_valid assert_bit_valid_def word_at_wf bit_bit_mask
        bit_and_iff bit_not_iff)
qed


subsection \<open>Ranges\<close>

definition fill_range :: "bool list \<Rightarrow> int \<Rightarrow> int \<Rightarrow> bool \<Rightarrow> bool list" where
  "fill_range bs s t v = map (\<lambda>i. if s \<le> int i \<and> int i \<le> t then v else bs ! i) [0..<length bs]"

lemma length_fill_range [simp]: "length (fill_range bs s t v) = length bs"
  by (simp add: fill_range_def)

lemma nth_fill_range:
  "i < length bs \<Longrightarrow> fill_range bs s t v ! i = (if s \<le> int i \<and> int i \<le> t then v else bs ! i)"
  by (simp add: fill_range_def)

lemma fill_range_empty: "t < s \<Longrightarrow> fill_range bs s t v = bs"
  by (rule nth_equalityI) (auto simp: nth_fill_range)

lemma fill_range_trans:
  "s \<le> m + 1 \<Longrightarrow> m \<le> t \<Longrightarrow> fill_range (fill_range bs s m v) (m + 1) t v = fill_range bs s t v"
  by (rule nth_equalityI) (auto simp: nth_fill_range)

lemma fill_range_trans_last:
  "s \<le> m \<Longrightarrow> m \<le> t + 1 \<Longrightarrow> fill_range (fill_range bs m t v) s (m - 1) v = fill_range bs s t v"
  by (rule nth_equalityI) (auto simp: nth_fill_range)

lemma update_fill: "0 \<le> i \<Longrightarrow> bs[nat i := v] = fill_range bs i i v"
  by (rule nth_equalityI) (auto simp: nth_fill_range nth_list_update)

context bit_update
begin

lemma partial_first_ok:
  assumes "wf_bitstr b" and "0 \<le> start" and "stop < b_bits b"
  shows "\<exists>b' s. partial_first upd b start stop = Some (b', s) \<and> wf_bitstr b' \<and> b_bits b' = b_bits b \<and> b_magic b' = b_magic b \<and>
    start \<le> s \<and> s \<le> max start (stop + 1) \<and> (s \<le> stop \<longrightarrow> s mod 8 = 0) \<and>
    bits_of b' = fill_range (bits_of b) start (s - 1) v"
  using assms
proof (induction "nat (stop + 1 - start)" arbitrary: b start rule: less_induct)
  case less
  show ?case
  proof (cases "start \<le> stop \<and> start mod 8 > 0")
    case True
    with less.prems upd [of b start] obtain b1 where b1: "upd b start = Some b1" "wf_bitstr b1"
      "b_bits b1 = b_bits b" "b_magic b1 = b_magic b" "bits_of b1 = fill_range (bits_of b) start start v"
      by (auto simp: update_fill)
    from less.hyps [of "start + 1" b1] b1 less.prems True obtain b' s where
      "partial_first upd b1 (start + 1) stop = Some (b', s)" "wf_bitstr b'" "b_bits b' = b_bits b" "b_magic b' = b_magic b"
      "start + 1 \<le> s" "s \<le> max (start + 1) (stop + 1)" "s \<le> stop \<longrightarrow> s mod 8 = 0"
      "bits_of b' = fill_range (bits_of b1) (start + 1) (s - 1) v"
      by auto
    with b1 True show ?thesis
      by (subst partial_first.simps) (auto simp: fill_range_trans)
  next
    case False
    then show ?thesis using less.prems
      by (subst partial_first.simps) (auto simp: fill_range_empty zmod_le_nonneg_dividend
          intro: antisym pos_mod_sign)
  qed
qed

lemma partial_last_ok:
  assumes "wf_bitstr b" and "0 \<le> start" and "start \<le> stop + 1" and "stop < b_bits b"
  shows "\<exists>b' t. partial_last upd b start stop = Some (b', t) \<and> wf_bitstr b' \<and> b_bits b' = b_bits b \<and> b_magic b' = b_magic b \<and>
    t \<le> stop \<and> start - 1 \<le> t \<and> (start \<le> t \<longrightarrow> (t + 1) mod 8 = 0) \<and>
    bits_of b' = fill_range (bits_of b) (t + 1) stop v"
  using assms
proof (induction "nat (stop + 1 - start)" arbitrary: b stop rule: less_induct)
  case less
  show ?case
  proof (cases "stop \<ge> start \<and> (stop + 1) mod 8 > 0")
    case True
    with less.prems upd [of b stop] obtain b1 where b1: "upd b stop = Some b1" "wf_bitstr b1"
      "b_bits b1 = b_bits b" "b_magic b1 = b_magic b" "bits_of b1 = fill_range (bits_of b) stop stop v"
      by (auto simp: update_fill)
    from less.hyps [of "stop - 1" b1] b1 less.prems True obtain b' t where
      "partial_last upd b1 start (stop - 1) = Some (b', t)" "wf_bitstr b'" "b_bits b' = b_bits b" "b_magic b' = b_magic b"
      "t \<le> stop - 1" "start - 1 \<le> t" "start \<le> t \<longrightarrow> (t + 1) mod 8 = 0"
      "bits_of b' = fill_range (bits_of b1) (t + 1) (stop - 1) v"
      by auto
    with b1 True show ?thesis
      using fill_range_trans_last [of "t + 1" stop stop "bits_of b" v]
      by (subst partial_last.simps) auto
  next
    case False
    then show ?thesis using less.prems
      by (subst partial_last.simps) (auto simp: fill_range_empty intro: antisym pos_mod_sign)
  qed
qed

end

lemma whole_bytes:
  fixes s t :: int
  assumes "s mod 8 = 0" and "(t + 1) mod 8 = 0"
  shows "(t - s + 1) mod 8 = 0" and "8 * (s div 8) = s"
    and "s \<le> t \<Longrightarrow> 8 * (s div 8 + int (nat ((t - s + 1) div 8))) - 1 = t" and "s \<noteq> t"
proof -
  obtain a where a: "s = 8 * a" using assms(1) by (metis mult_div_mod_eq add.right_neutral)
  obtain b where "t + 1 = 8 * b" using assms(2) by (metis mult_div_mod_eq add.right_neutral)
  then have t: "t = 8 * b - 1" by simp
  show "(t - s + 1) mod 8 = 0" "8 * (s div 8) = s" "s \<noteq> t" by (auto simp: a t) presburger
  have "t - s + 1 = 8 * (b - a)" by (simp add: a t)
  then show "8 * (s div 8 + int (nat ((t - s + 1) div 8))) - 1 = t" if "s \<le> t"
    using that by (simp add: a t)
qed

text \<open>With the byte whose bits are all \<open>v\<close>, whole bytes are filled the same way.\<close>

locale bit_filler = bit_update +
  fixes full :: u8
  assumes full_bits: "k < 8 \<Longrightarrow> bit full k \<longleftrightarrow> v"
begin

lemma byte_bits:
  fixes w :: u32
  assumes "m < 4" and "j < 32"
  shows "bit ((w AND NOT (push_bit (8 * m) 0xff)) OR push_bit (8 * m) (ucast full)) j \<longleftrightarrow>
    (if 8 * m \<le> j \<and> j < 8 * m + 8 then v else bit w j)"
proof -
  have ff: "(0xff :: u32) = mask 8" by (simp add: mask_eq_exp_minus_1)
  have "bit (ucast full :: u32) k \<longleftrightarrow> k < 8 \<and> v" if "k < 32" for k
    using that full_bits [of k] bit_imp_le_length [of full k] by (auto simp: bit_ucast_iff)
  then show ?thesis unfolding ff
    using assms by (auto simp: bit_or_iff bit_and_iff bit_not_iff bit_push_bit_iff bit_mask_iff)
qed

lemma byte_position:
  fixes j K :: nat
  shows "j div 32 = K div 4 \<and> 8 * (K mod 4) \<le> j mod 32 \<and> j mod 32 < 8 * (K mod 4) + 8 \<longleftrightarrow>
    8 * K \<le> j \<and> j < 8 * K + 8"
proof -
  define a r c m where "a = j div 32" and "r = j mod 32" and "c = K div 4" and "m = K mod 4"
  then have j: "j = 32 * a + r" "r < 32" and K: "K = 4 * c + m" "m < 4" by auto
  have "a = c \<and> 8 * m \<le> r \<and> r < 8 * m + 8 \<longleftrightarrow> 8 * K \<le> j \<and> j < 8 * K + 8"
  proof
    assume "8 * K \<le> j \<and> j < 8 * K + 8"
    moreover from this have "a = c" using j K by linarith
    ultimately show "a = c \<and> 8 * m \<le> r \<and> r < 8 * m + 8" using j K by auto
  qed (use j K in auto)
  then show ?thesis by (simp add: a_def r_def c_def m_def)
qed

lemma set_byte_ok:
  assumes wf: "wf_bitstr b" and k: "0 \<le> k" "8 * k + 8 \<le> b_bits b"
  shows "\<exists>b'. set_byte full b k = Some b' \<and> wf_bitstr b' \<and> b_bits b' = b_bits b \<and> b_magic b' = b_magic b \<and>
    bits_of b' = fill_range (bits_of b) (8 * k) (8 * k + 7) v"
proof -
  define K where "K = nat k"
  have kK: "k = int K" using k by (simp add: K_def)
  have i: "0 \<le> 8 * k" "8 * k < b_bits b" using k by auto
  have d: "nat (8 * k) div 32 = K div 4" and m: "nat (8 * (k mod 4)) = 8 * (K mod 4)"
    by (simp_all add: kK nat_mult_distrib nat_mod_distrib)
  define w where "w = b_words b ! (K div 4)"
  define w' where "w' = (w AND NOT (push_bit (8 * (K mod 4)) 0xff)) OR push_bit (8 * (K mod 4)) (ucast full)"
  let ?b = "b\<lparr>b_words := (b_words b)[K div 4 := w']\<rparr>"
  have s: "set_byte full b k = Some ?b"
    using word_at_wf [OF wf i] set_word_at_wf [OF wf i, of w'] by (simp add: set_byte_def d m w_def w'_def)
  have "bits_of ?b = fill_range (bits_of b) (8 * k) (8 * k + 7) v"
  proof (rule nth_equalityI)
    fix j
    assume "j < length (bits_of ?b)"
    then have j: "j < nat (b_bits b)" by simp
    note pos = byte_position [of j K]
    have "bit w' (j mod 32) \<longleftrightarrow> (if 8 * (K mod 4) \<le> j mod 32 \<and> j mod 32 < 8 * (K mod 4) + 8 then v
        else bit w (j mod 32))"
      unfolding w'_def by (rule byte_bits) auto
    then have "bits_of ?b ! j = (if 8 * K \<le> j \<and> j < 8 * K + 8 then v else bits_of b ! j)"
      unfolding bits_of_set_word [OF wf i j, of w', unfolded d] pos [symmetric]
      using j by (simp add: nth_bits_of w_def)
    moreover have "8 * K \<le> j \<and> j < 8 * K + 8 \<longleftrightarrow> 8 * k \<le> int j \<and> int j \<le> 8 * k + 7"
      unfolding kK by linarith
    ultimately show "bits_of ?b ! j = fill_range (bits_of b) (8 * k) (8 * k + 7) v ! j"
      using j by (simp add: nth_fill_range)
  qed simp
  with s wf_upd_words [OF wf, of "(b_words b)[K div 4 := w']"] show ?thesis by simp
qed

lemma memset_ok:
  "wf_bitstr b \<Longrightarrow> 0 \<le> k \<Longrightarrow> 8 * (k + int n) \<le> b_bits b \<Longrightarrow>
    \<exists>b'. memset_bytes b k full n = Some b' \<and> wf_bitstr b' \<and> b_bits b' = b_bits b \<and> b_magic b' = b_magic b \<and>
      bits_of b' = fill_range (bits_of b) (8 * k) (8 * (k + int n) - 1) v"
proof (induction n arbitrary: b k)
  case 0
  then show ?case by (simp add: fill_range_empty)
next
  case (Suc n)
  then obtain b1 where b1: "set_byte full b k = Some b1" "wf_bitstr b1" "b_bits b1 = b_bits b" "b_magic b1 = b_magic b"
    "bits_of b1 = fill_range (bits_of b) (8 * k) (8 * k + 7) v"
    using set_byte_ok [of b k] by auto
  from Suc.IH [of b1 "k + 1"] b1 Suc.prems obtain b' where
    "memset_bytes b1 (k + 1) full n = Some b'" "wf_bitstr b'" "b_bits b' = b_bits b" "b_magic b' = b_magic b"
    "bits_of b' = fill_range (bits_of b1) (8 * (k + 1)) (8 * (k + 1 + int n) - 1) v"
    by (auto simp: algebra_simps)
  with b1 show ?case
    using fill_range_trans [of "8 * k" "8 * k + 7" "8 * (k + 1 + int n) - 1" "bits_of b" v]
    by (auto simp: algebra_simps)
qed

theorem fill_ok:
  assumes wf: "wf_bitstr b" and s: "0 \<le> start" "start < b_bits b" and t: "0 \<le> stop" "stop < b_bits b"
  shows "\<exists>b'. bit_fill upd full b start stop = Some b' \<and> wf_bitstr b' \<and> b_bits b' = b_bits b \<and> b_magic b' = b_magic b \<and>
    bits_of b' = fill_range (bits_of b) start stop v"
proof (cases "start \<le> stop")
  case False
  then have "partial_first upd b start stop = Some (b, start)" "partial_last upd b start stop = Some (b, stop)"
    by (simp_all add: partial_first.simps partial_last.simps)
  with False assms show ?thesis
    by (simp add: bit_fill_def wf_valid assert_bit_valid_def fill_range_empty)
next
  case le: True
  from partial_first_ok [OF wf s(1) t(2)] le obtain b1 s1 where b1:
    "partial_first upd b start stop = Some (b1, s1)" "wf_bitstr b1" "b_bits b1 = b_bits b" "b_magic b1 = b_magic b"
    "start \<le> s1" "s1 \<le> stop + 1" "s1 \<le> stop \<longrightarrow> s1 mod 8 = 0"
    "bits_of b1 = fill_range (bits_of b) start (s1 - 1) v"
    by auto
  from partial_last_ok [OF b1(2), of s1 stop] b1 s t obtain b2 t2 where b2:
    "partial_last upd b1 s1 stop = Some (b2, t2)" "wf_bitstr b2" "b_bits b2 = b_bits b" "b_magic b2 = b_magic b"
    "t2 \<le> stop" "s1 - 1 \<le> t2" "s1 \<le> t2 \<longrightarrow> (t2 + 1) mod 8 = 0"
    "bits_of b2 = fill_range (bits_of b1) (t2 + 1) stop v"
    by auto
  have all: "fill_range (bits_of b2) s1 t2 v = fill_range (bits_of b) start stop v"
    by (rule nth_equalityI) (use b1 b2 in \<open>auto simp: nth_fill_range\<close>)
  show ?thesis
  proof (cases "t2 > s1")
    case True
    then have mods: "s1 mod 8 = 0" "(t2 + 1) mod 8 = 0" using b1 b2 by auto
    note k = whole_bytes [OF mods]
    have "\<exists>b3. memset_bytes b2 (s1 div 8) full (nat ((t2 - s1 + 1) div 8)) = Some b3 \<and>
      wf_bitstr b3 \<and> b_bits b3 = b_bits b2 \<and> b_magic b3 = b_magic b2 \<and> bits_of b3 = fill_range (bits_of b2) s1 t2 v"
      using memset_ok [OF b2(2), of "s1 div 8" "nat ((t2 - s1 + 1) div 8)"] b1 b2 s t k(2,3) True
      by (simp add: pos_imp_zdiv_nonneg_iff)
    then obtain b3 where b3: "memset_bytes b2 (s1 div 8) full (nat ((t2 - s1 + 1) div 8)) = Some b3"
      "wf_bitstr b3" "b_bits b3 = b_bits b2" "b_magic b3 = b_magic b2" "bits_of b3 = fill_range (bits_of b2) s1 t2 v"
      by auto
    from b3(1) have "bit_fill upd full b start stop = Some b3"
      using assms by (simp add: bit_fill_def wf_valid assert_bit_valid_def b1(1) b2(1) True k(1))
    with b3 b1 b2 all show ?thesis by simp
  next
    case False
    then have "t2 < s1" using b1 b2 whole_bytes(4) [of s1 t2] by force
    then show ?thesis
      using b1 b2 False assms all by (simp add: bit_fill_def wf_valid assert_bit_valid_def fill_range_empty)
  qed
qed

end

interpretation nset: bit_filler bit_set True "0xff"
proof
  fix k :: nat
  assume "k < 8"
  then have "k = 0 \<or> k = 1 \<or> k = 2 \<or> k = 3 \<or> k = 4 \<or> k = 5 \<or> k = 6 \<or> k = 7" by arith
  then show "bit (0xff :: u8) k \<longleftrightarrow> True" by (elim disjE) simp_all
qed

interpretation nclear: bit_filler bit_clear False "0"
  by unfold_locales simp

end
