(* ===== verification/Bitsearch.thy ===== *)
theory Bitsearch
  imports Bitstring
begin

text \<open>
  What the searching routines of \<^verbatim>\<open>bitstring.c\<close> find: the first or last bit of a value, the first run
  of equal bits, the runs that are overlooked.  The loops are characterised once, by
  \<open>first_from\<close>, and the operations follow.
\<close>


section \<open>First positions\<close>

definition first_from :: "(int \<Rightarrow> bool) \<Rightarrow> int \<Rightarrow> int \<Rightarrow> int \<Rightarrow> bool" where
  "first_from P i n r \<longleftrightarrow>
     (r = -1 \<and> (\<forall>k. i \<le> k \<and> k < n \<longrightarrow> \<not> P k)) \<or>
     (i \<le> r \<and> r < n \<and> P r \<and> (\<forall>k. i \<le> k \<and> k < r \<longrightarrow> \<not> P k))"

lemma first_from_skip:
  "first_from P j n r \<Longrightarrow> i \<le> j \<Longrightarrow> (\<And>k. i \<le> k \<Longrightarrow> k < j \<Longrightarrow> k < n \<Longrightarrow> \<not> P k) \<Longrightarrow> first_from P i n r"
  unfolding first_from_def by (smt (verit))

lemma first_from_none: "n \<le> i \<Longrightarrow> first_from P i n (-1)"
  unfolding first_from_def by auto

lemma first_from_unique:
  "first_from P i n r \<Longrightarrow> first_from P i n s \<Longrightarrow> 0 \<le> i \<Longrightarrow> r = s"
  unfolding first_from_def by (metis linorder_neqE_linordered_idom)

text \<open>The reference: the position of the first \<open>v\<close> of a list, or -1.\<close>

definition first_bit :: "bool \<Rightarrow> bool list \<Rightarrow> int" where
  "first_bit v bs =
     (let n = length (takeWhile (\<lambda>x. x \<noteq> v) bs) in if n < length bs then int n else -1)"

lemma first_bit_from: "first_from (\<lambda>k. bs ! nat k = v) 0 (int (length bs)) (first_bit v bs)"
proof -
  let ?n = "length (takeWhile (\<lambda>x. x \<noteq> v) bs)"
  have before: "bs ! k \<noteq> v" if "k < ?n" for k
    using that nth_mem [of k "takeWhile (\<lambda>x. x \<noteq> v) bs"] by (auto simp: takeWhile_nth dest: set_takeWhileD)
  show ?thesis
  proof (cases "?n < length bs")
    case True
    then have "bs ! ?n = v" using nth_length_takeWhile by fastforce
    with True before show ?thesis by (auto simp: first_bit_def first_from_def Let_def nat_less_iff)
  next
    case False
    then have "?n = length bs" using length_takeWhile_le [of "\<lambda>x. x \<noteq> v" bs] by linarith
    with before show ?thesis by (auto simp: first_bit_def first_from_def)
  qed
qed

lemma first_bit_none: "v \<notin> set bs \<Longrightarrow> first_bit v bs = -1"
proof -
  assume "v \<notin> set bs"
  then have "takeWhile (\<lambda>x. x \<noteq> v) bs = bs" by (subst takeWhile_eq_all_conv) blast
  then show ?thesis unfolding first_bit_def Let_def by (simp only: less_irrefl if_False)
qed

lemma first_bit_unique:
  "first_from (\<lambda>k. bs ! nat k = v) 0 (int (length bs)) r \<Longrightarrow> r = first_bit v bs"
  using first_bit_from first_from_unique by blast

definition last_set :: "bool list \<Rightarrow> int" where
  "last_set bs = int (length (dropWhile Not (rev bs))) - 1"

lemma last_set_eq:
  assumes "r < int (length bs)" and "r = -1 \<or> 0 \<le> r \<and> bs ! nat r"
    and none: "\<And>k. r < int k \<Longrightarrow> k < length bs \<Longrightarrow> \<not> bs ! k"
  shows "last_set bs = r"
proof -
  define n where "n = nat (r + 1)"
  have n: "n \<le> length bs" "int n = r + 1" using assms by (auto simp: n_def)
  have split: "rev bs = rev (drop n bs) @ rev (take n bs)"
    by (metis append_take_drop_id rev_append)
  have "\<forall>x\<in>set (rev (drop n bs)). \<not> x"
    using none n by (auto simp: in_set_conv_nth)
  then have "dropWhile Not (rev bs) = dropWhile Not (rev (take n bs))"
    unfolding split by (subst dropWhile_append2) auto
  also have "\<dots> = rev (take n bs)"
  proof (cases n)
    case (Suc m)
    then have "bs ! m" using assms(2) n by (auto simp: nat_eq_iff)
    with Suc n show ?thesis by (simp add: take_Suc_conv_app_nth)
  qed simp
  finally show ?thesis using n by (simp add: last_set_def)
qed


section \<open>The loops\<close>

lemma all_from_Suc:
  fixes i j :: int
  shows "P i \<Longrightarrow> \<forall>k. i + 1 \<le> k \<and> k < j \<longrightarrow> P k \<Longrightarrow> \<forall>k. i \<le> k \<and> k < j \<longrightarrow> P k"
  by (metis add1_zle_eq order_le_less)

lemma scan_word_spec:
  assumes wf: "wf_bitstr b"
  shows "0 \<le> i \<Longrightarrow> \<exists>j f. scan_word want b word i = Some (j, f) \<and> i \<le> j \<and>
     (\<forall>k. i \<le> k \<and> k < j \<longrightarrow> k < b_bits b \<and> k div 32 = word \<and> \<not> want (bits_of b ! nat k)) \<and>
     (if f then j < b_bits b \<and> want (bits_of b ! nat j) else \<not> (j < b_bits b \<and> j div 32 = word))"
proof (induction "nat (b_bits b - i)" arbitrary: i rule: less_induct)
  case less
  show ?case
  proof (cases "i < b_bits b \<and> i div 32 = word \<and> \<not> want (bits_of b ! nat i)")
    case True
    define P where "P k \<longleftrightarrow> k < b_bits b \<and> k div 32 = word \<and> \<not> want (bits_of b ! nat k)" for k
    from True less.hyps [of "i + 1"] less.prems obtain j f where
      j: "scan_word want b word (i + 1) = Some (j, f)" "i + 1 \<le> j" "\<forall>k. i + 1 \<le> k \<and> k < j \<longrightarrow> P k"
      "if f then j < b_bits b \<and> want (bits_of b ! nat j) else \<not> (j < b_bits b \<and> j div 32 = word)"
      unfolding P_def by auto
    show ?thesis
      unfolding P_def [symmetric]
    proof (intro exI conjI)
      show "scan_word want b word i = Some (j, f)"
        using True less.prems j(1) by (subst scan_word.simps) (simp add: bit_test_wf [OF wf])
      show "\<forall>k. i \<le> k \<and> k < j \<longrightarrow> P k"
        by (rule all_from_Suc [OF _ j(3)]) (use True in \<open>simp add: P_def\<close>)
    qed (use j in simp_all)
  next
    case False
    define f where "f \<longleftrightarrow> i < b_bits b \<and> i div 32 = word"
    have "scan_word want b word i = Some (i, f)"
      using False less.prems by (subst scan_word.simps) (simp add: f_def bit_test_wf [OF wf])
    moreover have "if f then i < b_bits b \<and> want (bits_of b ! nat i) else \<not> (i < b_bits b \<and> i div 32 = word)"
      using False by (simp add: f_def)
    ultimately show ?thesis by (intro exI [of _ i] exI [of _ f]) auto
  qed
qed

lemma same_word:
  fixes i k :: int
  assumes "i mod 32 = 0" and "0 \<le> i" and "i \<le> k" and "k < i + 32"
  shows "nat k div 32 = nat i div 32"
proof -
  obtain a where a: "i = 32 * a" using assms(1) by (metis mult_div_mod_eq add.right_neutral)
  then have "k div 32 = a" "i div 32 = a" using assms by auto
  with assms(2,3) have "nat (k div 32) = nat (i div 32)" "0 \<le> k" by simp_all
  then show ?thesis using assms(2) by (simp add: nat_div_distrib)
qed

lemma word_boundary: "(j - 1) div 32 \<noteq> j div 32 \<Longrightarrow> j mod 32 = 0" for j :: int
proof (rule ccontr)
  assume *: "(j - 1) div 32 \<noteq> j div 32" "j mod 32 \<noteq> 0"
  define a r where "a = j div 32" and "r = j mod 32"
  then have "j = 32 * a + r" "0 < r" "r < 32"
    using *(2) pos_mod_sign [of 32 j] by (auto simp: order_less_le)
  then have "j - 1 = 32 * a + (r - 1)" "0 \<le> r - 1" "r - 1 < 32" by simp_all
  then have "(j - 1) div 32 = a" by (rule int_div_pos_eq)
  with *(1) show False by (simp add: a_def)
qed

lemma find_from_spec:
  assumes wf: "wf_bitstr b" and pass: "\<And>w k. w \<in> set (b_words b) \<Longrightarrow> pass w \<Longrightarrow> k < 32 \<Longrightarrow> \<not> want (bit w k)"
  shows "0 \<le> i \<Longrightarrow> i mod 32 = 0 \<or> b_bits b \<le> i \<Longrightarrow>
    \<exists>r. find_from pass want b i = Some r \<and> first_from (\<lambda>k. want (bits_of b ! nat k)) i (b_bits b) r"
proof (induction "nat (b_bits b - i)" arbitrary: i rule: less_induct)
  case less
  show ?case
  proof (cases "i < b_bits b")
    case False
    then show ?thesis by (subst find_from.simps) (simp add: first_from_none)
  next
    case True
    let ?w = "b_words b ! (nat i div 32)"
    have aligned: "i mod 32 = 0" using less.prems True by simp
    have w: "word_at b i = Some ?w" using word_at_wf [OF wf less.prems(1) True] .
    have step: "find_from pass want b i =
      (if pass ?w then find_from pass want b (i + 32)
       else do { (j, found) \<leftarrow> scan_word want b (i div 32) i;
                 if found then Some j else find_from pass want b j })"
      using True by (subst find_from.simps) (simp add: w)
    show ?thesis
    proof (cases "pass ?w")
      case p: True
      have mem: "?w \<in> set (b_words b)" using word_index [OF wf less.prems(1) True] by simp
      have "\<not> want (bits_of b ! nat k)" if k: "i \<le> k" "k < i + 32" "k < b_bits b" for k
      proof -
        have "nat k div 32 = nat i div 32"
          by (rule same_word [OF aligned less.prems(1) k(1,2)])
        then show ?thesis
          using pass [OF mem p, of "nat k mod 32"] k less.prems by (simp add: nth_bits_of)
      qed
      with less.hyps [of "i + 32"] True less.prems aligned p step show ?thesis
        by (auto elim!: first_from_skip)
    next
      case np: False
      from scan_word_spec [OF wf less.prems(1), of want "i div 32"] obtain j f where
        s: "scan_word want b (i div 32) i = Some (j, f)" "i \<le> j"
        and skip: "\<And>k. i \<le> k \<Longrightarrow> k < j \<Longrightarrow> k < b_bits b \<and> k div 32 = i div 32 \<and> \<not> want (bits_of b ! nat k)"
        and f: "if f then j < b_bits b \<and> want (bits_of b ! nat j) else \<not> (j < b_bits b \<and> j div 32 = i div 32)"
        by blast
      show ?thesis
      proof (cases f)
        case True
        with step np s skip f show ?thesis by (auto simp: first_from_def)
      next
        case False
        with f \<open>i < b_bits b\<close> s(2) have lt: "i < j" by (cases "i = j") auto
        have "j mod 32 = 0 \<or> b_bits b \<le> j"
        proof (rule disjCI)
          assume "\<not> b_bits b \<le> j"
          then have "j div 32 \<noteq> i div 32" using f False by simp
          moreover have "(j - 1) div 32 = i div 32" using skip [of "j - 1"] lt by simp
          ultimately show "j mod 32 = 0" using word_boundary [of j] by simp
        qed
        with less.hyps [of j] lt s less.prems \<open>i < b_bits b\<close> obtain r where
          "find_from pass want b j = Some r" "first_from (\<lambda>k. want (bits_of b ! nat k)) j (b_bits b) r"
          by auto
        with step np s skip False show ?thesis by (auto elim!: first_from_skip)
      qed
    qed
  qed
qed

text \<open>Runs: \<open>n\<close> wanted bits from position \<open>k\<close> on.\<close>

definition run_at :: "(bool \<Rightarrow> bool) \<Rightarrow> bool list \<Rightarrow> int \<Rightarrow> int \<Rightarrow> bool" where
  "run_at want bs n k \<longleftrightarrow> (\<forall>j. k \<le> j \<and> j < k + n \<longrightarrow> want (bs ! nat j))"

lemma run_at_0 [simp]: "run_at want bs 0 k"
  by (auto simp: run_at_def)

lemma run_at_extend:
  "run_at want bs m k \<Longrightarrow> want (bs ! nat (k + m)) \<Longrightarrow> run_at want bs (m + 1) k"
  unfolding run_at_def by (metis add.assoc add.commute order_less_le zless_add1_eq)

lemma no_run_through:
  "\<not> want (bs ! nat i) \<Longrightarrow> k \<le> i \<Longrightarrow> i < k + n \<Longrightarrow> \<not> run_at want bs n k"
  by (auto simp: run_at_def)

lemma scan_run_spec:
  assumes wf: "wf_bitstr b" and n: "0 < n" and stop: "stop \<le> b_bits b"
  shows "0 \<le> cnt \<Longrightarrow> cnt < n \<Longrightarrow> cnt \<le> i \<Longrightarrow> i \<le> stop \<Longrightarrow> run_at want (bits_of b) cnt (i - cnt) \<Longrightarrow>
    \<exists>r. scan_run want b n stop i cnt = Some r \<and>
      first_from (run_at want (bits_of b) n) (i - cnt) (stop - n + 1) r"
proof (induction "nat (stop - i)" arbitrary: i cnt rule: less_induct)
  case less
  show ?case
  proof (cases "i < stop")
    case False
    with less.prems show ?thesis by (subst scan_run.simps) (simp add: first_from_none)
  next
    case True
    have t: "bit_test b i = Some (bits_of b ! nat i)"
      using bit_test_wf [OF wf, of i] less.prems True stop by simp
    show ?thesis
    proof (cases "want (bits_of b ! nat i)")
      case w: True
      then have run: "run_at want (bits_of b) (cnt + 1) (i + 1 - (cnt + 1))"
        using run_at_extend [OF less.prems(5)] by simp
      show ?thesis
      proof (cases "cnt + 1 \<ge> n")
        case full: True
        then have "cnt + 1 = n" using less.prems by simp
        with run True t w show ?thesis
          by (subst scan_run.simps) (auto simp: first_from_def)
      next
        case False
        with less.hyps [of "i + 1" "cnt + 1"] less.prems True run t w show ?thesis
          by (subst scan_run.simps) simp
      qed
    next
      case nw: False
      have empty: "run_at want (bits_of b) 0 (i + 1 - 0)" by (auto simp: run_at_def)
      have "\<not> run_at want (bits_of b) n k" if "i - cnt \<le> k" "k < i + 1" for k
        using no_run_through [of want "bits_of b" i k n] nw that less.prems by linarith
      with less.hyps [of "i + 1" 0, OF _ _ _ _ _ empty] less.prems True t nw n show ?thesis
        by (subst scan_run.simps) (auto elim!: first_from_skip)
    qed
  qed
qed

text \<open>The second loop of \<^verbatim>\<open>bit_noc\<close>: it gives up only where no run can begin before it.\<close>

lemma noc_wrap_spec:
  assumes wf: "wf_bitstr b" and n: "0 < n" and seed: "0 \<le> seed"
    and late: "\<And>k. seed \<le> k \<Longrightarrow> k \<le> b_bits b - n \<Longrightarrow> \<not> run_at Not (bits_of b) n k"
  shows "0 \<le> cnt \<Longrightarrow> cnt < n \<Longrightarrow> cnt \<le> i \<Longrightarrow> i \<le> b_bits b \<Longrightarrow> run_at Not (bits_of b) cnt (i - cnt) \<Longrightarrow>
    \<exists>r. noc_wrap b n seed i cnt = Some r \<and>
      first_from (run_at Not (bits_of b) n) (i - cnt) (b_bits b - n + 1) r"
proof (induction "nat (b_bits b - i)" arbitrary: i cnt rule: less_induct)
  case less
  show ?case
  proof (cases "i < b_bits b")
    case False
    with less.prems show ?thesis by (subst noc_wrap.simps) (simp add: first_from_none)
  next
    case True
    have t: "bit_test b i = Some (bits_of b ! nat i)"
      using bit_test_wf [OF wf, of i] less.prems True by simp
    show ?thesis
    proof (cases "bits_of b ! nat i")
      case clear: False
      then have run: "run_at Not (bits_of b) (cnt + 1) (i + 1 - (cnt + 1))"
        using run_at_extend [OF less.prems(5)] by simp
      show ?thesis
      proof (cases "cnt + 1 \<ge> n")
        case full: True
        then have "cnt + 1 = n" using less.prems by simp
        with run True t clear show ?thesis
          by (subst noc_wrap.simps) (auto simp: first_from_def)
      next
        case False
        with less.hyps [of "i + 1" "cnt + 1"] less.prems True run t clear show ?thesis
          by (subst noc_wrap.simps) simp
      qed
    next
      case isset: True
      have none: "\<not> run_at Not (bits_of b) n k" if "i - cnt \<le> k" "k < i + 1" for k
        using no_run_through [of Not "bits_of b" i k n] isset that less.prems by linarith
      show ?thesis
      proof (cases "i \<ge> seed")
        case ge: True
        have "\<not> run_at Not (bits_of b) n k" if "i - cnt \<le> k" "k < b_bits b - n + 1" for k
          using none [of k] late [of k] that ge by (cases "k < i + 1") auto
        then have "first_from (run_at Not (bits_of b) n) (i - cnt) (b_bits b - n + 1) (-1)"
          by (auto simp: first_from_def)
        then show ?thesis using True t isset ge by (subst noc_wrap.simps) simp
      next
        case False
        have empty: "run_at Not (bits_of b) 0 (i + 1 - 0)" by simp
        with less.hyps [of "i + 1" 0, OF _ _ _ _ _ empty] less.prems True t isset n False none show ?thesis
          by (subst noc_wrap.simps) (auto elim!: first_from_skip)
      qed
    qed
  qed
qed

text \<open>The loops of \<^verbatim>\<open>bit_fls\<close> go down.\<close>

lemma fls_bits_spec:
  assumes wf: "wf_bitstr b"
  shows "-1 \<le> i \<Longrightarrow> i < b_bits b \<Longrightarrow> \<exists>r. fls_bits b i = Some r \<and> r \<le> i \<and>
     (r = -1 \<or> 0 \<le> r \<and> bits_of b ! nat r) \<and> (\<forall>k. r < k \<and> k \<le> i \<longrightarrow> \<not> bits_of b ! nat k)"
proof (induction "nat (i + 1)" arbitrary: i rule: less_induct)
  case less
  show ?case
  proof (cases "i \<ge> 0 \<and> \<not> bits_of b ! nat i")
    case True
    with less.hyps [of "i - 1"] less.prems obtain r where r: "fls_bits b (i - 1) = Some r" "r \<le> i - 1"
      "r = -1 \<or> 0 \<le> r \<and> bits_of b ! nat r" "\<forall>k. r < k \<and> k \<le> i - 1 \<longrightarrow> \<not> bits_of b ! nat k"
      by auto
    have "\<not> bits_of b ! nat k" if "r < k" "k \<le> i" for k
      using that r(4) True by (cases "k = i") auto
    moreover have "fls_bits b i = Some r"
      using True less.prems r(1) by (subst fls_bits.simps) (simp add: bit_test_wf [OF wf])
    ultimately show ?thesis using r by auto
  next
    case False
    then have "fls_bits b i = Some i"
      using less.prems by (subst fls_bits.simps) (auto simp: bit_test_wf [OF wf])
    with False less.prems show ?thesis by auto
  qed
qed

lemma fls_partial_spec:
  assumes wf: "wf_bitstr b"
  shows "-1 \<le> i \<Longrightarrow> i < b_bits b \<Longrightarrow> \<exists>r f. fls_partial b i = Some (r, f) \<and> -1 \<le> r \<and> r \<le> i \<and>
     (f \<longrightarrow> 0 \<le> r \<and> bits_of b ! nat r) \<and> (\<not> f \<longrightarrow> (r + 1) mod 32 = 0) \<and>
     (\<forall>k. r < k \<and> k \<le> i \<longrightarrow> \<not> bits_of b ! nat k)"
proof (induction "nat (i + 1)" arbitrary: i rule: less_induct)
  case less
  show ?case
  proof (cases "i \<ge> 0 \<and> i div 32 = (i + 1) div 32 \<and> \<not> bits_of b ! nat i")
    case True
    with less.hyps [of "i - 1"] less.prems obtain r f where r: "fls_partial b (i - 1) = Some (r, f)"
      "-1 \<le> r" "r \<le> i - 1" "f \<longrightarrow> 0 \<le> r \<and> bits_of b ! nat r" "\<not> f \<longrightarrow> (r + 1) mod 32 = 0"
      "\<forall>k. r < k \<and> k \<le> i - 1 \<longrightarrow> \<not> bits_of b ! nat k"
      by auto
    have "\<not> bits_of b ! nat k" if "r < k" "k \<le> i" for k
      using that r(6) True by (cases "k = i") auto
    moreover have "fls_partial b i = Some (r, f)"
      using True less.prems r(1) by (subst fls_partial.simps) (simp add: bit_test_wf [OF wf])
    ultimately show ?thesis using r by auto
  next
    case False
    define f where "f \<longleftrightarrow> i \<ge> 0 \<and> i div 32 = (i + 1) div 32"
    have "(i + 1) mod 32 = 0" if "\<not> f"
    proof (cases "i = -1")
      case False
      then show ?thesis using that less.prems word_boundary [of "i + 1"] by (simp add: f_def)
    qed simp
    moreover have "fls_partial b i = Some (i, f)"
      using False less.prems by (subst fls_partial.simps) (auto simp: f_def bit_test_wf [OF wf])
    ultimately show ?thesis using False less.prems by (auto simp: f_def)
  qed
qed

lemma fls_words_spec:
  assumes wf: "wf_bitstr b"
  shows "-1 \<le> i \<Longrightarrow> i < b_bits b \<Longrightarrow> (i + 1) mod 32 = 0 \<Longrightarrow> \<exists>r. fls_words b i = Some r \<and> r \<le> i \<and>
     (r = -1 \<or> 0 \<le> r \<and> bits_of b ! nat r) \<and> (\<forall>k. r < k \<and> k \<le> i \<longrightarrow> \<not> bits_of b ! nat k)"
proof (induction "nat (i + 1)" arbitrary: i rule: less_induct)
  case less
  show ?case
  proof (cases "i = -1")
    case True
    then show ?thesis by (subst fls_words.simps) auto
  next
    case False
    then have i: "0 \<le> i" using less.prems by simp
    note w = word_at_wf [OF wf i less.prems(2)]
    show ?thesis
    proof (cases "b_words b ! (nat i div 32) = 0")
      case zero: True
      define a where "a = (i + 1) div 32"
      then have a: "i = 32 * a - 1" using less.prems(3) mult_div_mod_eq [of 32 "i + 1"] by simp
      have clear: "\<not> bits_of b ! nat k" if "i - 32 < k" "k \<le> i" for k
      proof -
        have "nat k div 32 = nat i div 32"
          using same_word [of "i - 31" k] same_word [of "i - 31" i] that a i by auto
        then show ?thesis using zero that less.prems(2) i by (simp add: nth_bits_of)
      qed
      from less.hyps [of "i - 32"] i less.prems a obtain r where
        r: "fls_words b (i - 32) = Some r" "r \<le> i - 32" "r = -1 \<or> 0 \<le> r \<and> bits_of b ! nat r"
        "\<forall>k. r < k \<and> k \<le> i - 32 \<longrightarrow> \<not> bits_of b ! nat k"
        by auto
      then have "\<not> bits_of b ! nat k" if "r < k" "k \<le> i" for k
        using clear [of k] that by (cases "k \<le> i - 32") auto
      moreover have "fls_words b i = Some r" using r(1) w i zero by (subst fls_words.simps) simp
      ultimately show ?thesis using r(2,3) by auto
    next
      case nz: False
      then show ?thesis using fls_bits_spec [OF wf less.prems(1,2)] w i by (subst fls_words.simps) simp
    qed
  qed
qed


section \<open>What the operations find\<close>

lemma bits_of_from:
  "wf_bitstr b \<Longrightarrow> first_from (\<lambda>k. bits_of b ! nat k = v) 0 (b_bits b) r \<Longrightarrow> r = first_bit v (bits_of b)"
  by (rule first_bit_unique) (simp add: wf_nbits)

text \<open>\<^verbatim>\<open>bit_ffs\<close> returns the position of the first bit set, or -1 when no bit is set.\<close>

theorem bit_ffs_first:
  assumes "wf_bitstr b"
  shows "bit_ffs b = Some (first_bit True (bits_of b))"
proof -
  obtain r where "find_from (\<lambda>w. w = 0) (\<lambda>t. t) b 0 = Some r"
    "first_from (\<lambda>k. bits_of b ! nat k) 0 (b_bits b) r"
    using find_from_spec [OF assms, of "\<lambda>w. w = 0" "\<lambda>t. t" 0] by auto
  with bits_of_from [OF assms, of True] show ?thesis
    by (simp add: bit_ffs_def wf_valid [OF assms])
qed

text \<open>
  \<^verbatim>\<open>bit_fls\<close> returns the position of the last bit set, or -1 when no bit is set, whatever the
  alignment of the size to the words.
\<close>

theorem bit_fls_last:
  assumes wf: "wf_bitstr b"
  shows "bit_fls b = Some (last_set (bits_of b))"
proof (cases "b_bits b = 0")
  case True
  then show ?thesis by (simp add: bit_fls_def wf_valid [OF wf] last_set_def bits_of_def)
next
  case False
  then have n: "-1 \<le> b_bits b - 1" using wf_nbits [OF wf] by simp
  from fls_partial_spec [OF wf n] obtain r f where p: "fls_partial b (b_bits b - 1) = Some (r, f)"
    "-1 \<le> r" "r \<le> b_bits b - 1" "f \<longrightarrow> 0 \<le> r \<and> bits_of b ! nat r" "\<not> f \<longrightarrow> (r + 1) mod 32 = 0"
    "\<forall>k. r < k \<and> k \<le> b_bits b - 1 \<longrightarrow> \<not> bits_of b ! nat k"
    by auto
  obtain s where s: "(if f then Some r else fls_words b r) = Some s" "s \<le> r"
    "s = -1 \<or> 0 \<le> s \<and> bits_of b ! nat s" "\<forall>k. s < k \<and> k \<le> r \<longrightarrow> \<not> bits_of b ! nat k"
  proof (cases f)
    case True
    then show ?thesis using p(4) by (intro that [of r]) auto
  next
    case False
    then show ?thesis using fls_words_spec [OF wf p(2)] p(3,5) by (auto intro: that)
  qed
  have "\<not> bits_of b ! k" if "s < int k" "k < length (bits_of b)" for k
    using that spec [OF p(6), of "int k"] spec [OF s(4), of "int k"] by (cases "int k \<le> r") auto
  then have "last_set (bits_of b) = s"
    using s p(3) n by (intro last_set_eq) auto
  with s(1) p(1) False show ?thesis by (auto simp: bit_fls_def wf_valid [OF wf])
qed

text \<open>
  \<^verbatim>\<open>bit_fill_gaps\<close> sets exactly the bits from the first to the last one set, and changes nothing
  when no bit is set.
\<close>

theorem bit_fill_gaps_fills:
  assumes wf: "wf_bitstr b"
  shows "\<exists>b'. bit_fill_gaps b = Some b' \<and> wf_bitstr b' \<and> b_bits b' = b_bits b \<and> b_magic b' = b_magic b \<and>
    bits_of b' = (if True \<in> set (bits_of b)
      then fill_range (bits_of b) (first_bit True (bits_of b)) (last_set (bits_of b)) True
      else bits_of b)"
proof (cases "True \<in> set (bits_of b)")
  case False
  then have "first_bit True (bits_of b) = -1" by (rule first_bit_none)
  with False show ?thesis using wf by (simp add: bit_fill_gaps_def wf_valid bit_ffs_first)
next
  case True
  note first = first_bit_from [of "bits_of b" True]
  obtain k where k: "k < length (bits_of b)" "bits_of b ! k" using True by (auto simp: in_set_conv_nth)
  have "first_bit True (bits_of b) \<noteq> -1"
  proof
    assume "first_bit True (bits_of b) = -1"
    with first have none: "\<forall>j. 0 \<le> j \<and> j < int (length (bits_of b)) \<longrightarrow> bits_of b ! nat j \<noteq> True"
      unfolding first_from_def by (elim disjE conjE) simp_all
    from spec [OF none, of "int k"] k show False by (simp split: if_splits)
  qed
  moreover have "0 \<le> last_set (bits_of b)" "last_set (bits_of b) < b_bits b"
  proof -
    show "last_set (bits_of b) < b_bits b"
      using length_dropWhile_le [of Not "rev (bits_of b)"] wf_nbits [OF wf] by (simp add: last_set_def)
    have "dropWhile Not (rev (bits_of b)) \<noteq> []" using True by (auto simp: dropWhile_eq_Nil_conv)
    then show "0 \<le> last_set (bits_of b)"
      by (cases "dropWhile Not (rev (bits_of b))") (auto simp: last_set_def)
  qed
  ultimately show ?thesis
    using nset.fill_ok [OF wf, of "first_bit True (bits_of b)" "last_set (bits_of b)"] first True wf
    by (simp add: bit_fill_gaps_def wf_valid bit_ffs_first bit_fls_last bit_nset_def first_from_def wf_nbits)
qed

text \<open>
  \<^verbatim>\<open>bit_ffc\<close> returns the first clear bit, or -1 when there is none, provided no data word has exactly
  the value 31: the test for a word to pass over compares with \<^verbatim>\<open>BITSTR_MAXPOS\<close>, the largest position
  in a word.
\<close>

theorem bit_ffc_first:
  assumes wf: "wf_bitstr b" and "31 \<notin> set (b_words b)"
  shows "bit_ffc b = Some (first_bit False (bits_of b))"
proof -
  obtain r where "find_from (\<lambda>w. w = BITSTR_MAXPOS) (\<lambda>t. \<not> t) b 0 = Some r"
    "first_from (\<lambda>k. \<not> bits_of b ! nat k) 0 (b_bits b) r"
    using find_from_spec [OF wf, of "\<lambda>w. w = BITSTR_MAXPOS" "\<lambda>t. \<not> t" 0] assms
    by (auto simp: BITSTR_MAXPOS_def)
  with bits_of_from [OF wf, of False] show ?thesis
    by (simp add: bit_ffc_def wf_valid [OF wf])
qed

text \<open>
  A string whose only word has the value 31 is reported as having no clear bit, although
  bit 5 is clear.
\<close>

theorem bit_ffc_overlooks:
  assumes "b_bits b = n" and "0 < n" and "n \<le> 32" and "b_words b = [31]" and "b_magic b = BITSTR_MAGIC"
  shows "wf_bitstr b \<and> bit_ffc b = Some (-1) \<and> (5 < n \<longrightarrow> bit_test b 5 = Some False)"
proof -
  have "bitstr_data_words n = 1" using assms by (simp add: bitstr_data_words_def)
  then have wf: "wf_bitstr b" using assms by (simp add: wf_bitstr_def)
  have "find_from (\<lambda>w. w = BITSTR_MAXPOS) (\<lambda>t. \<not> t) b 0 = Some (-1)"
    using assms by (subst find_from.simps, subst find_from.simps) (simp add: word_at_def BITSTR_MAXPOS_def)
  moreover have "bit_test b 5 = Some False" if "5 < n"
    using that bit_test_wf [OF wf, of 5] assms by (simp add: nth_bits_of)
  ultimately show ?thesis using wf by (simp add: bit_ffc_def wf_valid)
qed

text \<open>
  \<^verbatim>\<open>bit_nffc\<close> returns the start of the first run of \<open>n\<close> clear bits, or -1 when no run of that length
  lies in the string.
\<close>

theorem bit_nffc_first_run:
  assumes wf: "wf_bitstr b" and n: "0 < n" "n < b_bits b"
  shows "\<exists>r. bit_nffc b n = Some r \<and> first_from (run_at Not (bits_of b) n) 0 (b_bits b - n + 1) r"
proof -
  have "run_at (\<lambda>t. \<not> t) (bits_of b) 0 (0 - 0)" by simp
  from scan_run_spec [OF wf n(1) order_refl _ _ _ _ this] n show ?thesis
    by (simp add: bit_nffc_def wf_valid [OF wf])
qed

text \<open>
  \<^verbatim>\<open>bit_nffs\<close> returns the start of the first run of \<open>n\<close> set bits among those that end before the last
  \<open>n - 1\<close> positions of the string: its loop bound is meant for the start of a run and is applied to
  the position that is tested.
\<close>

theorem bit_nffs_early_run:
  assumes wf: "wf_bitstr b" and n: "0 < n" "n \<le> b_bits b"
  shows "\<exists>r. bit_nffs b n = Some r \<and>
    first_from (run_at (\<lambda>t. t) (bits_of b) n) 0 (b_bits b - n + 1 - n + 1) r"
proof -
  have "run_at (\<lambda>t. t) (bits_of b) 0 (0 - 0)" by simp
  from scan_run_spec [OF wf n(1) _ _ _ _ _ this, of "b_bits b - n + 1"] n show ?thesis
    by (simp add: bit_nffs_def wf_valid [OF wf])
qed

text \<open>In a string of \<open>n > 1\<close> bits, all of them set, \<^verbatim>\<open>bit_nffs\<close> reports no run of \<open>n\<close> set bits.\<close>

theorem bit_nffs_overlooks:
  assumes wf: "wf_bitstr b" and n: "1 < n" "b_bits b = n" and all: "False \<notin> set (bits_of b)"
  shows "run_at (\<lambda>t. t) (bits_of b) n 0 \<and> bit_nffs b n = Some (-1)"
proof -
  have "run_at (\<lambda>t. t) (bits_of b) 0 (0 - 0)" by simp
  from scan_run_spec [OF wf _ _ _ _ _ _ this, of n 1] n obtain r where
    "bit_nffs b n = Some r" "first_from (run_at (\<lambda>t. t) (bits_of b) n) 0 (1 - n + 1) r"
    by (auto simp: bit_nffs_def wf_valid [OF wf])
  moreover have "run_at (\<lambda>t. t) (bits_of b) n 0"
    using all n by (auto simp: run_at_def in_set_conv_nth)
  ultimately show ?thesis using n by (auto simp: first_from_def)
qed

text \<open>
  \<^verbatim>\<open>bit_noc\<close> finds a run of \<open>n\<close> clear bits whenever there is one.  It is the first one at or after the
  seed if the seed leaves room for one, and otherwise the first one of the string; -1 means that
  there is no such run at all.
\<close>

theorem bit_noc_finds:
  assumes wf: "wf_bitstr b" and n: "0 < n" "n \<le> b_bits b" and seed: "0 \<le> seed"
  shows "\<exists>r. bit_noc b n seed = Some r \<and>
    (let late = (if seed + n \<ge> b_bits b then b_bits b else seed) in
     (r \<noteq> -1 \<and> first_from (run_at Not (bits_of b) n) late (b_bits b - n + 1) r) \<or>
     (first_from (run_at Not (bits_of b) n) late (b_bits b - n + 1) (-1) \<and>
      first_from (run_at Not (bits_of b) n) 0 (b_bits b - n + 1) r))"
proof -
  define late where "late = (if seed + n \<ge> b_bits b then b_bits b else seed)"
  have late: "0 \<le> late" "late \<le> b_bits b" using seed n by (auto simp: late_def)
  have "run_at (\<lambda>t. \<not> t) (bits_of b) 0 (late - 0)" by simp
  from scan_run_spec [OF wf n(1) order_refl _ _ _ _ this] late n obtain v where
    v: "scan_run (\<lambda>t. \<not> t) b n (b_bits b) late 0 = Some v"
    "first_from (run_at Not (bits_of b) n) late (b_bits b - n + 1) v"
    by auto
  note c = bit_noc_def wf_valid [OF wf] n late_def [symmetric] v(1) Let_def
  show ?thesis
  proof (cases "v = -1")
    case False
    then have "bit_noc b n seed = Some v" by (simp add: c)
    with False v(2) show ?thesis unfolding late_def [symmetric] Let_def by blast
  next
    case True
    with v(2) late have none: "\<not> run_at Not (bits_of b) n k" if "late \<le> k" "k \<le> b_bits b - n" for k
      using that by (auto simp: first_from_def)
    have "run_at Not (bits_of b) 0 (0 - 0)" by simp
    from noc_wrap_spec [OF wf n(1) late(1) none _ _ _ _ this] n obtain r where
      "noc_wrap b n late 0 0 = Some r" "first_from (run_at Not (bits_of b) n) 0 (b_bits b - n + 1) r"
      by auto
    moreover from this(1) True have "bit_noc b n seed = Some r" by (simp add: c)
    ultimately show ?thesis using v(2) True unfolding late_def [symmetric] Let_def by blast
  qed
qed


section \<open>Concrete strings\<close>

text \<open>A string of 40 bits, with bits 4 to 7, 32 and 33 set.\<close>

definition forty :: bitstr where
  "forty = \<lparr>b_magic = BITSTR_MAGIC, b_bits = 40, b_words = [0xF0, 3]\<rparr>"

lemma wf_forty: "wf_bitstr forty"
  by (simp add: forty_def wf_bitstr_def bitstr_data_words_def)

lemma size_forty [simp]: "b_bits forty = 40"
  by (simp add: forty_def)

lemma bits_forty: "bits_of forty =
    [False, False, False, False, True, True, True, True, False, False, False, False, False, False, False, False,
     False, False, False, False, False, False, False, False, False, False, False, False, False, False, False, False,
     True, True, False, False, False, False, False, False]"
  by (simp add: bits_of_def forty_def upt_conv_Cons)

lemma bit_ffs_first_witness: "bit_ffs forty = Some 4"
  using bit_ffs_first [OF wf_forty] by (simp add: bits_forty first_bit_def)

lemma bit_fls_last_witness: "bit_fls forty = Some 33"
  using bit_fls_last [OF wf_forty] by (simp add: bits_forty last_set_def)

lemma bit_fill_gaps_fills_witness: "\<exists>b. bit_fill_gaps forty = Some b \<and> bits_of b ! 20 \<and> \<not> bits_of b ! 34"
  using bit_fill_gaps_fills [OF wf_forty]
  by (auto simp: bits_forty first_bit_def last_set_def fill_range_def)

lemma bit_ffc_first_witness: "bit_ffc forty = Some 0"
  using bit_ffc_first [OF wf_forty] by (simp add: bits_forty first_bit_def) (simp add: forty_def)

lemma bit_ffc_overlooks_witness:
  "bit_ffc \<lparr>b_magic = BITSTR_MAGIC, b_bits = 10, b_words = [31]\<rparr> = Some (-1)"
  using bit_ffc_overlooks [of "\<lparr>b_magic = BITSTR_MAGIC, b_bits = 10, b_words = [31]\<rparr>" 10] by simp

lemma bit_nffc_first_run_witness:
  "\<exists>r. bit_nffc forty 5 = Some r \<and> first_from (run_at Not (bits_of forty) 5) 0 36 r"
  using bit_nffc_first_run [OF wf_forty, of 5] by simp

lemma bit_nffs_early_run_witness:
  "\<exists>r. bit_nffs forty 2 = Some r \<and> first_from (run_at (\<lambda>t. t) (bits_of forty) 2) 0 38 r"
  using bit_nffs_early_run [OF wf_forty, of 2] by simp

lemma bit_nffs_overlooks_witness:
  "bit_nffs \<lparr>b_magic = BITSTR_MAGIC, b_bits = 2, b_words = [3]\<rparr> 2 = Some (-1)"
proof -
  let ?b = "\<lparr>b_magic = BITSTR_MAGIC, b_bits = 2, b_words = [3 :: u32]\<rparr>"
  have "wf_bitstr ?b" by (simp add: wf_bitstr_def bitstr_data_words_def)
  moreover have "bits_of ?b = [True, True]" by (simp add: bits_of_def upt_conv_Cons)
  ultimately show ?thesis using bit_nffs_overlooks [of ?b 2] by simp
qed

lemma bit_noc_finds_witness: "\<exists>r. bit_noc forty 3 30 = Some r"
  using bit_noc_finds [OF wf_forty, of 3 30] by auto

end
