(* ===== verification/Bitops.thy ===== *)
theory Bitops
  imports Bitsearch
begin

text \<open>
  The operations of \<^verbatim>\<open>bitstring.c\<close> on ranges and on whole strings: setting and clearing ranges,
  resizing, copying, the boolean operations, and the comparisons.  The comparisons look at whole
  words; they are about the bits only while the bits past the end of the string are zero, which
  \<open>clean\<close> says, which most operations keep and \<^verbatim>\<open>bit_not\<close> does not.
\<close>


section \<open>Ranges and sizes\<close>

text \<open>
  \<^verbatim>\<open>bit_nset\<close> sets exactly the bits from \<open>start\<close> to \<open>stop\<close>, by bits, then bytes, then bits.
\<close>

theorem bit_nset_range:
  assumes "wf_bitstr b" and "0 \<le> start" and "start < b_bits b" and "0 \<le> stop" and "stop < b_bits b"
  shows "\<exists>b'. bit_nset b start stop = Some b' \<and> wf_bitstr b' \<and> b_bits b' = b_bits b \<and> b_magic b' = b_magic b \<and>
    bits_of b' = fill_range (bits_of b) start stop True"
  unfolding bit_nset_def using assms by (rule nset.fill_ok)

text \<open>\<^verbatim>\<open>bit_nclear\<close> clears exactly the bits from \<open>start\<close> to \<open>stop\<close>.\<close>

theorem bit_nclear_range:
  assumes "wf_bitstr b" and "0 \<le> start" and "start < b_bits b" and "0 \<le> stop" and "stop < b_bits b"
  shows "\<exists>b'. bit_nclear b start stop = Some b' \<and> wf_bitstr b' \<and> b_bits b' = b_bits b \<and> b_magic b' = b_magic b \<and>
    bits_of b' = fill_range (bits_of b) start stop False"
  unfolding bit_nclear_def using assms by (rule nclear.fill_ok)

lemma wf_alloc: "0 \<le> n \<Longrightarrow> n < 2 ^ 31 - 64 \<Longrightarrow> \<exists>b. bit_alloc n = Some b \<and> wf_bitstr b \<and> b_bits b = n \<and>
    b_magic b = BITSTR_MAGIC \<and> bits_of b = replicate (nat n) False"
  by (auto simp: bit_alloc_def wf_bitstr_def bits_of_def bitstr_data_words_def intro!: nth_equalityI)

text \<open>
  C26: Resizing keeps the bits that fit and clears the bits it adds, whatever \<^verbatim>\<open>realloc\<close> leaves in the
  words it adds.
\<close>

theorem bit_realloc_keeps:
  assumes wf: "wf_bitstr b" and n: "0 \<le> n" "n < 2 ^ 31 - 64"
  shows "\<exists>b'. bit_realloc junk b n = Some b' \<and> wf_bitstr b' \<and> b_bits b' = n \<and>
    bits_of b' = take (nat n) (bits_of b) @ replicate (nat n - nat (b_bits b)) False"
proof -
  define k where "k = bitstr_data_words n"
  define c where "c = b\<lparr>b_words := take k (b_words b) @ map junk [length (b_words b)..<k], b_bits := n\<rparr>"
  have wfc: "wf_bitstr c" using wf n by (simp add: wf_bitstr_def c_def k_def)
  have bc: "b_bits c = n" by (simp add: c_def)
  have old: "bits_of c ! i = bits_of b ! i" if "i < nat n" "i < nat (b_bits b)" for i
  proof -
    have "i div 32 < length (b_words b)" using word_index [OF wf, of "int i"] that by simp
    moreover have "i div 32 < k" using word_index [OF wfc, of "int i"] that wfc bc by (simp add: wf_bitstr_def k_def)
    ultimately show ?thesis using that by (simp add: nth_bits_of bc) (simp add: c_def nth_append)
  qed
  have r: "bit_realloc junk b n = (if n > b_bits b then bit_nclear c (b_bits b) (n - 1) else Some c)"
    using n by (simp add: bit_realloc_def wf_valid [OF wf] c_def k_def Let_def)
  show ?thesis
  proof (cases "n > b_bits b")
    case False
    then have "bits_of c = take (nat n) (bits_of b) @ replicate (nat n - nat (b_bits b)) False"
      using old bc by (intro nth_equalityI) auto
    with r False wfc bc show ?thesis by simp
  next
    case True
    then obtain d where d: "bit_nclear c (b_bits b) (n - 1) = Some d" "wf_bitstr d" "b_bits d = n"
      "bits_of d = fill_range (bits_of c) (b_bits b) (n - 1) False"
      using nclear.fill_ok [OF wfc, of "b_bits b" "n - 1"] wf_nbits [OF wf] bc by (auto simp: bit_nclear_def)
    have "bits_of d = take (nat n) (bits_of b) @ replicate (nat n - nat (b_bits b)) False"
      unfolding d(4)
      using True old bc wf_nbits [OF wf] by (intro nth_equalityI) (auto simp: nth_fill_range nth_append)
    with r True d show ?thesis by simp
  qed
qed


section \<open>Word by word\<close>

text \<open>The bits past the end, in the last word, are zero.\<close>

definition clean :: "bitstr \<Rightarrow> bool" where
  "clean b \<longleftrightarrow> (\<forall>j < 32 * length (b_words b). nat (b_bits b) \<le> j \<longrightarrow> \<not> bit (b_words b ! (j div 32)) (j mod 32))"

lemma words_count: "wf_bitstr b \<Longrightarrow> i < length (b_words b) \<longleftrightarrow> 32 * int i < b_bits b"
  unfolding wf_bitstr_def bitstr_data_words_def by linarith

lemma update_words_spec:
  assumes wfb: "wf_bitstr b"
  shows "wf_bitstr a \<Longrightarrow> b_bits a = b_bits b \<Longrightarrow> \<exists>c. update_words f a b (b_bits b) (32 * int i) = Some c \<and>
    wf_bitstr c \<and> b_bits c = b_bits b \<and>
    (\<forall>k < length (b_words b). b_words c ! k = (if i \<le> k then f (b_words a ! k) (b_words b ! k) else b_words a ! k))"
proof (induction "length (b_words b) - i" arbitrary: i a rule: less_induct)
  case less
  show ?case
  proof (cases "32 * int i < b_bits b")
    case False
    then have "\<not> i < length (b_words b)" using words_count [OF wfb] by simp
    with False less.prems show ?thesis by (subst update_words.simps) auto
  next
    case True
    then have i: "i < length (b_words b)" using words_count [OF wfb] by simp
    let ?a = "a\<lparr>b_words := (b_words a)[i := f (b_words a ! i) (b_words b ! i)]\<rparr>"
    have wfa: "wf_bitstr ?a" using less.prems by (simp add: wf_upd_words)
    have len: "length (b_words a) = length (b_words b)" using less.prems wfb by (simp add: wf_bitstr_def)
    have at: "nat (32 * int i) div 32 = i" by (simp add: nat_mult_distrib)
    have "update_words f a b (b_bits b) (32 * int i) = update_words f ?a b (b_bits b) (32 * int (Suc i))"
      using True less.prems by (subst update_words.simps)
        (simp add: word_at_wf [OF wfb] word_at_wf [OF less.prems(1)] set_word_at_wf [OF less.prems(1)] at add.commute)
    moreover have "length (b_words b) - Suc i < length (b_words b) - i" using i by simp
    from less.hyps [OF this wfa] less.prems(2) obtain c where
      "update_words f ?a b (b_bits b) (32 * int (Suc i)) = Some c" "wf_bitstr c" "b_bits c = b_bits b"
      "\<forall>k < length (b_words b). b_words c ! k =
        (if Suc i \<le> k then f (b_words ?a ! k) (b_words b ! k) else b_words ?a ! k)"
      by auto
    ultimately show ?thesis using i len by (auto simp: nth_list_update Suc_le_eq)
  qed
qed

lemma update_all_words:
  assumes "wf_bitstr a" and "wf_bitstr b" and "b_bits a = b_bits b"
  shows "\<exists>c. update_words f a b (b_bits b) 0 = Some c \<and> wf_bitstr c \<and> b_bits c = b_bits b \<and>
    b_words c = map2 f (b_words a) (b_words b)"
proof -
  from update_words_spec [OF assms(2,1,3), of f 0] obtain c where
    c: "update_words f a b (b_bits b) 0 = Some c" "wf_bitstr c" "b_bits c = b_bits b"
    "\<forall>k < length (b_words b). b_words c ! k = f (b_words a ! k) (b_words b ! k)"
    by auto
  then have "length (b_words c) = length (b_words b)" "length (b_words a) = length (b_words b)"
    using assms by (simp_all add: wf_bitstr_def)
  with c show ?thesis by (auto intro!: nth_equalityI)
qed

lemma bits_of_map2:
  assumes "wf_bitstr a" and "wf_bitstr b" and "b_bits a = b_bits b" and "b_bits c = b_bits b"
    and c: "b_words c = map2 f (b_words a) (b_words b)"
    and f: "\<And>x y k. k < 32 \<Longrightarrow> bit (f x y) k = g (bit x k) (bit y k)"
  shows "bits_of c = map2 g (bits_of a) (bits_of b)"
proof (rule nth_equalityI)
  fix i
  assume "i < length (bits_of c)"
  then have i: "i < nat (b_bits b)" using assms(4) by simp
  then have "i div 32 < length (b_words a)" "i div 32 < length (b_words b)"
    using word_index [OF assms(1), of "int i"] word_index [OF assms(2), of "int i"] assms(3) by auto
  with i assms(3,4) show "bits_of c ! i = map2 g (bits_of a) (bits_of b) ! i"
    by (simp add: nth_bits_of c f)
qed (use assms in simp)

lemma wf_same_length: "wf_bitstr a \<Longrightarrow> wf_bitstr b \<Longrightarrow> b_bits a = b_bits b \<Longrightarrow> length (b_words a) = length (b_words b)"
  by (simp add: wf_bitstr_def)

lemma clean_map2:
  assumes "wf_bitstr a" and "wf_bitstr b" and "b_bits a = b_bits b" and "b_bits c = b_bits b"
    and c: "b_words c = map2 f (b_words a) (b_words b)"
    and f: "\<And>x y k. k < 32 \<Longrightarrow> \<not> bit x k \<Longrightarrow> \<not> bit y k \<Longrightarrow> \<not> bit (f x y) k"
    and "clean a" and "clean b"
  shows "clean c"
proof -
  note la = wf_same_length [OF assms(1-3)]
  then have l: "length (b_words a) = length (b_words b)" "length (b_words c) = length (b_words b)"
    by (simp_all add: c)
  have "\<not> bit (b_words c ! (j div 32)) (j mod 32)"
    if j: "j < 32 * length (b_words b)" "nat (b_bits b) \<le> j" for j
  proof -
    have "j div 32 < length (b_words b)" using j(1) by (simp add: less_mult_imp_div_less mult.commute)
    moreover have "\<not> bit (b_words a ! (j div 32)) (j mod 32)" "\<not> bit (b_words b ! (j div 32)) (j mod 32)"
      using assms(3,7,8) j l(1) by (simp_all add: clean_def)
    ultimately show ?thesis using f [of "j mod 32"] l by (simp add: c)
  qed
  then show ?thesis using l assms(4) by (simp add: clean_def)
qed

text \<open>\<^verbatim>\<open>bit_and\<close> intersects the two strings bit by bit and keeps the bits past the end zero.\<close>

theorem bit_and_intersects:
  assumes "wf_bitstr a" and "wf_bitstr b" and "b_bits a = b_bits b"
  shows "\<exists>c. bit_and a b = Some c \<and> wf_bitstr c \<and> bits_of c = map2 (\<and>) (bits_of a) (bits_of b) \<and>
    (clean a \<and> clean b \<longrightarrow> clean c)"
proof -
  obtain c where c: "update_words (\<lambda>x y. x AND y) a b (b_bits b) 0 = Some c" "wf_bitstr c" "b_bits c = b_bits b"
    "b_words c = map2 (AND) (b_words a) (b_words b)"
    using update_all_words [OF assms] by blast
  have "bits_of c = map2 (\<and>) (bits_of a) (bits_of b)"
    by (rule bits_of_map2 [OF assms c(3,4)]) (simp add: bit_and_iff)
  moreover have "clean a \<and> clean b \<longrightarrow> clean c"
    using clean_map2 [OF assms c(3,4)] by (auto simp: bit_and_iff)
  ultimately show ?thesis using c assms by (auto simp: bit_and_def wf_valid)
qed

text \<open>\<^verbatim>\<open>bit_or\<close> unites the two strings bit by bit and keeps the bits past the end zero.\<close>

theorem bit_or_unites:
  assumes "wf_bitstr a" and "wf_bitstr b" and "b_bits a = b_bits b"
  shows "\<exists>c. bit_or a b = Some c \<and> wf_bitstr c \<and> bits_of c = map2 (\<or>) (bits_of a) (bits_of b) \<and>
    (clean a \<and> clean b \<longrightarrow> clean c)"
proof -
  obtain c where c: "update_words (\<lambda>x y. x OR y) a b (b_bits b) 0 = Some c" "wf_bitstr c" "b_bits c = b_bits b"
    "b_words c = map2 (OR) (b_words a) (b_words b)"
    using update_all_words [OF assms] by blast
  have "bits_of c = map2 (\<or>) (bits_of a) (bits_of b)"
    by (rule bits_of_map2 [OF assms c(3,4)]) (simp add: bit_or_iff)
  moreover have "clean a \<and> clean b \<longrightarrow> clean c"
    using clean_map2 [OF assms c(3,4)] by (auto simp: bit_or_iff)
  ultimately show ?thesis using c assms by (auto simp: bit_or_def wf_valid)
qed

text \<open>\<^verbatim>\<open>bit_not\<close> complements every bit of the string.\<close>

theorem bit_not_complements:
  assumes wf: "wf_bitstr b"
  shows "\<exists>c. bit_not b = Some c \<and> wf_bitstr c \<and> bits_of c = map Not (bits_of b)"
proof -
  obtain c where c: "update_words (\<lambda>x _. NOT x) b b (b_bits b) 0 = Some c" "wf_bitstr c" "b_bits c = b_bits b"
    "b_words c = map2 (\<lambda>x _. NOT x) (b_words b) (b_words b)"
    using update_all_words [OF wf wf refl] by blast
  have "bits_of c = map2 (\<lambda>x _. \<not> x) (bits_of b) (bits_of b)"
    by (rule bits_of_map2 [OF wf wf refl c(3,4)]) (simp add: bit_not_iff)
  also have "\<dots> = map Not (bits_of b)" by (rule nth_equalityI) simp_all
  finally show ?thesis using c wf by (auto simp: bit_not_def wf_valid)
qed

lemma all_words_spec:
  assumes wfb: "wf_bitstr b" and wfa: "wf_bitstr a" and n: "b_bits a = b_bits b"
  shows "all_words p a b (32 * int i) =
    Some (\<forall>k. i \<le> k \<and> k < length (b_words b) \<longrightarrow> p (b_words a ! k) (b_words b ! k))"
proof (induction "length (b_words b) - i" arbitrary: i rule: less_induct)
  case less
  show ?case
  proof (cases "32 * int i < b_bits b")
    case False
    then have "\<not> i < length (b_words b)" using words_count [OF wfb] by simp
    with False n show ?thesis by (subst all_words.simps) auto
  next
    case True
    then have i: "i < length (b_words b)" using words_count [OF wfb] by simp
    have at: "nat (32 * int i) div 32 = i" by (simp add: nat_mult_distrib)
    have "all_words p a b (32 * int i) =
      (if p (b_words a ! i) (b_words b ! i) then all_words p a b (32 * int (Suc i)) else Some False)"
      using True n by (subst all_words.simps)
        (simp add: word_at_wf [OF wfb] word_at_wf [OF wfa] at add.commute)
    moreover have "all_words p a b (32 * int (Suc i)) =
      Some (\<forall>k. Suc i \<le> k \<and> k < length (b_words b) \<longrightarrow> p (b_words a ! k) (b_words b ! k))"
      using i by (intro less) simp
    moreover have "(\<forall>k. i \<le> k \<and> k < n \<longrightarrow> P k) \<longleftrightarrow> P i \<and> (\<forall>k. Suc i \<le> k \<and> k < n \<longrightarrow> P k)"
      if "i < n" for P and n :: nat
      using that by (metis Suc_leD Suc_leI order_le_less order_refl)
    ultimately show ?thesis using i by simp
  qed
qed

text \<open>A relation on bits that holds of two zeros holds of the words of clean strings when it holds of their bits.\<close>

lemma words_to_bits:
  assumes wf: "wf_bitstr a" "wf_bitstr b" and n: "b_bits a = b_bits b" and cl: "clean a" "clean b"
    and p: "\<And>x y. p x y \<longleftrightarrow> (\<forall>k<32. q (bit x k) (bit y k))" and q: "q False False"
  shows "(\<forall>k < length (b_words b). p (b_words a ! k) (b_words b ! k)) \<longleftrightarrow>
    (\<forall>j < nat (b_bits b). q (bits_of a ! j) (bits_of b ! j))" (is "?L \<longleftrightarrow> ?R")
proof
  assume ?L
  show ?R
  proof (intro allI impI)
    fix j assume j: "j < nat (b_bits b)"
    then have "j div 32 < length (b_words b)" using word_index [OF wf(2), of "int j"] by simp
    with \<open>?L\<close> p have "q (bit (b_words a ! (j div 32)) (j mod 32)) (bit (b_words b ! (j div 32)) (j mod 32))"
      by simp
    with j n show "q (bits_of a ! j) (bits_of b ! j)" by (simp add: nth_bits_of)
  qed
next
  assume R: ?R
  show ?L
    unfolding p
  proof (intro allI impI)
    fix k m :: nat assume k: "k < length (b_words b)" "m < 32"
    define j where "j = 32 * k + m"
    have j: "j div 32 = k" "j mod 32 = m" "j < 32 * length (b_words b)" using k by (auto simp: j_def)
    show "q (bit (b_words a ! k) m) (bit (b_words b ! k) m)"
    proof (cases "j < nat (b_bits b)")
      case True
      with R n have "q (bits_of a ! j) (bits_of b ! j)" by simp
      with True n j show ?thesis by (simp add: nth_bits_of)
    next
      case False
      then have "\<not> bit (b_words a ! k) m" "\<not> bit (b_words b ! k) m"
        using cl j n wf_same_length [OF wf n] unfolding clean_def by auto
      with q show ?thesis by simp
    qed
  qed
qed

text \<open>
  Two clean strings of one size are equal to \<^verbatim>\<open>bit_equal\<close> exactly when their bits are the same;
  strings of different sizes never are.
\<close>

theorem bit_equal_bits:
  assumes wf: "wf_bitstr a" "wf_bitstr b" and cl: "clean a" "clean b"
  shows "bit_equal a b = Some (bits_of a = bits_of b)"
proof (cases "b_bits a = b_bits b")
  case False
  then have "length (bits_of a) \<noteq> length (bits_of b)" using wf_nbits [OF wf(1)] wf_nbits [OF wf(2)] by auto
  then have "bits_of a \<noteq> bits_of b" by metis
  with False wf show ?thesis by (simp add: bit_equal_def wf_valid)
next
  case True
  have "x = y \<longleftrightarrow> (\<forall>k<32. bit x k = bit y k)" for x y :: u32
    using bit_word_eqI [of x y] by auto
  from words_to_bits [OF wf True cl, of "(=)" "(=)", OF this] all_words_spec [OF wf(2,1) True, of "(=)" 0]
  show ?thesis using True wf by (simp add: bit_equal_def wf_valid list_eq_iff_nth_eq)
qed

text \<open>\<^verbatim>\<open>bit_super_set\<close> tests, for clean strings, whether every bit set in the first is set in the second.\<close>

theorem bit_super_set_bits:
  assumes wf: "wf_bitstr a" "wf_bitstr b" and n: "b_bits a = b_bits b" and cl: "clean a" "clean b"
  shows "bit_super_set a b = Some (\<forall>j < nat (b_bits b). bits_of a ! j \<longrightarrow> bits_of b ! j)"
proof -
  have "x = x AND y \<longleftrightarrow> (\<forall>k<32. bit x k \<longrightarrow> bit y k)" for x y :: u32
  proof
    assume "x = x AND y"
    then show "\<forall>k<32. bit x k \<longrightarrow> bit y k" by (metis bit_and_iff)
  next
    assume "\<forall>k<32. bit x k \<longrightarrow> bit y k"
    then show "x = x AND y" by (intro bit_word_eqI) (auto simp: bit_and_iff)
  qed
  from words_to_bits [OF wf n cl, of "\<lambda>x y. x = x AND y" "(\<longrightarrow>)", OF this] all_words_spec [OF wf(2,1) n, of "\<lambda>x y. x = x AND y" 0]
  show ?thesis using n wf by (simp add: bit_super_set_def wf_valid)
qed

lemma last_word:
  assumes wf: "wf_bitstr b" and n: "b_bits b mod 32 \<noteq> 0"
  shows "nat (b_bits b) div 32 < length (b_words b)" and "nat (b_bits b) < 32 * length (b_words b)"
proof -
  define a r where "a = b_bits b div 32" and "r = b_bits b mod 32"
  have r: "0 < r" "r < 32" "b_bits b = 32 * a + r"
    using n pos_mod_sign [of 32 "b_bits b"] by (auto simp: r_def a_def order_less_le)
  have a: "0 \<le> a" using wf_nbits [OF wf] by (simp add: a_def pos_imp_zdiv_nonneg_iff)
  have "b_bits b + 31 = 32 * (a + 1) + (r - 1)" using r by simp
  then have "(b_bits b + 31) div 32 = a + 1" by (rule int_div_pos_eq) (use r in auto)
  then have "length (b_words b) = nat (a + 1)" using wf by (simp add: wf_bitstr_def bitstr_data_words_def)
  then show "nat (b_bits b) div 32 < length (b_words b)" "nat (b_bits b) < 32 * length (b_words b)"
    using r a by auto
qed

text \<open>
  \<^verbatim>\<open>bit_not\<close> does not keep the bits past the end zero: when the size is no multiple of the word
  size, the complement of a clean string is different, for \<^verbatim>\<open>bit_equal\<close>, from every clean string with
  the same bits.
\<close>

theorem bit_not_breaks_equal:
  assumes wf: "wf_bitstr b" "wf_bitstr d" and cl: "clean b" "clean d" and n: "b_bits b mod 32 \<noteq> 0"
    and d: "bits_of d = map Not (bits_of b)"
  shows "\<exists>c. bit_not b = Some c \<and> bits_of c = bits_of d \<and> bit_equal c d = Some False"
proof -
  have db: "b_bits d = b_bits b" using arg_cong [OF d, of length] wf_nbits [OF wf(1)] wf_nbits [OF wf(2)] by simp
  note len = wf_same_length [OF wf(2,1) db]
  obtain c where c: "update_words (\<lambda>x _. NOT x) b b (b_bits b) 0 = Some c" "wf_bitstr c" "b_bits c = b_bits b"
    "b_words c = map2 (\<lambda>x _. NOT x) (b_words b) (b_words b)"
    using update_all_words [OF wf(1,1) refl] by blast
  have same: "bit_not b = Some c" "bits_of c = bits_of d"
    using bit_not_complements [OF wf(1)] c(1) d by (auto simp: bit_not_def wf_valid [OF wf(1)])
  define j where "j = nat (b_bits b)"
  have j: "j div 32 < length (b_words b)" "j < 32 * length (b_words b)"
    using last_word [OF wf(1) n] by (simp_all add: j_def)
  have "\<not> bit (b_words d ! (j div 32)) (j mod 32)" "\<not> bit (b_words b ! (j div 32)) (j mod 32)"
    using cl j len db by (auto simp: clean_def j_def)
  moreover from this(2) have "bit (b_words c ! (j div 32)) (j mod 32)" using j by (simp add: c(4) bit_not_iff)
  ultimately have "b_words c ! (j div 32) \<noteq> b_words d ! (j div 32)" by metis
  then have "all_words (=) c d 0 = Some False"
    using all_words_spec [OF wf(2) c(2), of "(=)" 0] c(3) db j(1) len by auto
  then have "bit_equal c d = Some False"
    using c(3) db by (simp add: bit_equal_def wf_valid [OF c(2)] wf_valid [OF wf(2)])
  with same show ?thesis by blast
qed

lemma bit_copy_into:
  assumes wf: "wf_bitstr dest" "wf_bitstr src" and n: "b_bits dest = b_bits src"
  shows "\<exists>c. bit_copybits dest src = Some c \<and> wf_bitstr c \<and> b_magic c = b_magic dest \<and> bits_of c = bits_of src"
proof -
  have l: "length (b_words dest) = bitstr_data_words (b_bits src)" "length (b_words src) = bitstr_data_words (b_bits src)"
    using wf n by (simp_all add: wf_bitstr_def)
  then have "bit_copybits dest src = Some (dest\<lparr>b_words := b_words src\<rparr>)"
    using wf n by (simp add: bit_copybits_def wf_valid bit_size_def copy_data_def Let_def)
  moreover have "bits_of (dest\<lparr>b_words := b_words src\<rparr>) = bits_of src"
    using n by (simp add: bits_of_def)
  ultimately show ?thesis using wf_upd_words [OF wf(1)] l by simp
qed

text \<open>\<^verbatim>\<open>bit_copybits\<close> gives the destination the bits of the source.\<close>

theorem bit_copybits_copies:
  assumes "wf_bitstr dest" and "wf_bitstr src" and "b_bits dest = b_bits src"
  shows "\<exists>c. bit_copybits dest src = Some c \<and> wf_bitstr c \<and> b_magic c = b_magic dest \<and> bits_of c = bits_of src"
  using bit_copy_into [OF assms] .

lemma bit_copy_copies:
  assumes wf: "wf_bitstr b"
  shows "\<exists>c. bit_copy b = Some c \<and> wf_bitstr c \<and> b_magic c = BITSTR_MAGIC \<and> bits_of c = bits_of b"
proof -
  have l: "length (b_words b) = bitstr_data_words (b_bits b)" using wf by (simp add: wf_bitstr_def)
  then have "bit_copy b = Some \<lparr>b_magic = BITSTR_MAGIC, b_bits = b_bits b, b_words = b_words b\<rparr>"
    using wf wf_nbits [OF wf] by (simp add: bit_copy_def wf_valid bit_size_def copy_data_def Let_def bit_alloc_def)
  moreover have "bits_of \<lparr>b_magic = BITSTR_MAGIC, b_bits = b_bits b, b_words = b_words b\<rparr> = bits_of b"
    by (simp add: bits_of_def)
  ultimately show ?thesis using wf by (simp add: wf_bitstr_def)
qed


section \<open>Concrete strings\<close>

lemma bit_nset_range_witness:
  "\<exists>b. bit_nset forty 5 35 = Some b \<and> bits_of b ! 20"
  using bit_nset_range [OF wf_forty, of 5 35] by (auto simp: fill_range_def)

lemma bit_nclear_range_witness:
  "\<exists>b. bit_nclear forty 5 35 = Some b \<and> \<not> bits_of b ! 33 \<and> bits_of b ! 4"
  using bit_nclear_range [OF wf_forty, of 5 35] by (auto simp: fill_range_def bits_forty)

lemma bit_realloc_keeps_witness:
  "\<exists>b. bit_realloc (\<lambda>_. 0xdead) forty 70 = Some b \<and> bits_of b ! 33 \<and> \<not> bits_of b ! 69"
  using bit_realloc_keeps [OF wf_forty, of 70 "\<lambda>_. 0xdead"] by (auto simp: bits_forty nth_append)

lemma clean_forty: "clean forty"
proof -
  have "\<not> bit (3 :: u32) m" if "8 \<le> m" for m
  proof -
    have "(3 :: u32) = mask 2" by (simp add: mask_eq_exp_minus_1)
    then show ?thesis using that by (simp only: bit_mask_iff) auto
  qed
  moreover have "j div 32 = 1 \<and> 8 \<le> j mod 32" if "40 \<le> j" "j < 64" for j :: nat
  proof -
    have "j div 32 = 1" by (rule div_nat_eqI) (use that in auto)
    moreover have "32 * (j div 32) + j mod 32 = j" by simp
    ultimately show ?thesis using that by linarith
  qed
  ultimately show ?thesis by (auto simp: clean_def forty_def)
qed

lemma bit_and_intersects_witness: "\<exists>c. bit_and forty forty = Some c \<and> bits_of c ! 33"
  using bit_and_intersects [OF wf_forty wf_forty] by (auto simp: bits_forty)

lemma bit_or_unites_witness: "\<exists>c. bit_or forty forty = Some c \<and> bits_of c ! 33"
  using bit_or_unites [OF wf_forty wf_forty] by (auto simp: bits_forty)

lemma bit_not_complements_witness: "\<exists>c. bit_not forty = Some c \<and> bits_of c ! 0 \<and> \<not> bits_of c ! 33"
  using bit_not_complements [OF wf_forty] by (auto simp: bits_forty)

lemma bit_equal_bits_witness: "bit_equal forty forty = Some True"
  using bit_equal_bits [OF wf_forty wf_forty clean_forty clean_forty] by simp

lemma bit_super_set_bits_witness: "bit_super_set forty forty = Some True"
  using bit_super_set_bits [OF wf_forty wf_forty _ clean_forty clean_forty] by simp

lemma bit_copybits_copies_witness: "\<exists>c. bit_copybits forty forty = Some c \<and> bits_of c = bits_of forty"
  using bit_copybits_copies [OF wf_forty wf_forty] by auto

lemma bit_not_breaks_equal_witness:
  "\<exists>c. bit_not \<lparr>b_magic = BITSTR_MAGIC, b_bits = 1, b_words = [0]\<rparr> = Some c \<and>
     bit_equal c \<lparr>b_magic = BITSTR_MAGIC, b_bits = 1, b_words = [1]\<rparr> = Some False"
proof -
  let ?b = "\<lambda>w. \<lparr>b_magic = BITSTR_MAGIC, b_bits = 1, b_words = [w :: u32]\<rparr>"
  have wf: "wf_bitstr (?b w)" for w by (simp add: wf_bitstr_def bitstr_data_words_def)
  have bits: "bits_of (?b w) = [bit w 0]" for w by (simp add: bits_of_def)
  have "clean (?b 0)" "clean (?b 1)" by (auto simp: clean_def bit_1_iff)
  from bit_not_breaks_equal [OF wf wf this] bits show ?thesis by auto
qed

end
