(* ===== verification/Bitcount.thy ===== *)
theory Bitcount
  imports Bitsearch
begin

text \<open>
  Counting in \<^verbatim>\<open>bitstring.c\<close>: the population count of a word by parallel addition of lanes, and the
  loops that count set bits, common bits, and the longest run.
\<close>


section \<open>Lanes of a number\<close>

text \<open>\<open>lanes k xs\<close> is the number whose \<open>k\<close>-bit digits are \<open>xs\<close>, the lowest first.\<close>

fun lanes :: "nat \<Rightarrow> nat list \<Rightarrow> nat" where
  "lanes k [] = 0"
| "lanes k (x # xs) = x + 2 ^ k * lanes k xs"

fun pair_sums :: "nat list \<Rightarrow> nat list" where
  "pair_sums (x # y # zs) = (x + y) # pair_sums zs"
| "pair_sums xs = xs"

lemma sum_list_pair_sums [simp]: "sum_list (pair_sums xs) = sum_list xs"
  by (induction xs rule: pair_sums.induct) auto

lemma length_pair_sums: "even (length xs) \<Longrightarrow> length (pair_sums xs) = length xs div 2"
  by (induction xs rule: pair_sums.induct) auto

lemma pair_sums_bound:
  "even (length xs) \<Longrightarrow> \<forall>x\<in>set xs. x \<le> m \<Longrightarrow> \<forall>x\<in>set (pair_sums xs). x \<le> 2 * m"
  by (induction xs rule: pair_sums.induct) force+

lemma lanes_less: "\<forall>x\<in>set xs. x < 2 ^ k \<Longrightarrow> lanes k xs < 2 ^ (k * length xs)"
proof (induction xs)
  case (Cons x xs)
  then have "lanes k xs + 1 \<le> 2 ^ (k * length xs)" by auto
  then have "2 ^ k * (lanes k xs + 1) \<le> 2 ^ k * 2 ^ (k * length xs)" by (rule mult_le_mono2)
  with Cons.prems show ?case by (auto simp: power_add distrib_left intro: order_less_le_trans)
qed simp

lemma bit_nat_less: "x < 2 ^ j \<Longrightarrow> bit x n \<Longrightarrow> n < j" for x :: nat
  by (metis bit_take_bit_iff take_bit_nat_eq_self)

lemma add_eq_or: "x < 2 ^ j \<Longrightarrow> x + 2 ^ j * y = x OR push_bit j y" for x y :: nat
proof -
  assume "x < 2 ^ j"
  then have "x AND push_bit j y = 0"
    by (intro bit_eqI) (auto simp: bit_and_iff bit_push_bit_iff dest: bit_nat_less)
  then show ?thesis by (simp add: disjunctive_add_eq_or push_bit_eq_mult mult.commute)
qed

lemma and_split:
  fixes a c r m :: nat
  assumes "a < 2 ^ j" and "c < 2 ^ j"
  shows "(a + 2 ^ j * r) AND (c + 2 ^ j * m) = (a AND c) + 2 ^ j * (r AND m)"
proof -
  have "a AND c < 2 ^ j" using assms by (metis take_bit_and take_bit_nat_eq_self take_bit_nat_less_exp)
  with assms show ?thesis
    by (simp only: add_eq_or) (rule bit_eqI, auto simp: bit_or_iff bit_and_iff bit_push_bit_iff dest: bit_nat_less)
qed

text \<open>One step: the even digits plus the odd digits, each in a lane of twice the width.\<close>

lemma lane_pair:
  fixes x y r m k :: nat
  assumes "x < 2 ^ k" and "y < 2 ^ k"
  shows "(x + 2 ^ k * (y + 2 ^ k * r)) AND ((2 ^ k - 1) + 2 ^ (2 * k) * m) = x + 2 ^ (2 * k) * (r AND m)"
proof -
  have sq: "(2 :: nat) ^ (2 * k) = 2 ^ k * 2 ^ k" by (simp add: mult_2 power_add)
  have "x + 2 ^ k * y < 2 ^ (2 * k)"
  proof -
    have "2 ^ k * (y + 1) \<le> 2 ^ k * (2 ^ k :: nat)" using assms(2) by (intro mult_le_mono2) simp
    then show ?thesis using assms(1) by (simp add: sq)
  qed
  moreover have "(2 :: nat) ^ k - 1 < 2 ^ (2 * k)"
  proof -
    have "(2 :: nat) ^ k \<le> 2 ^ (2 * k)" by (rule power_increasing) simp_all
    moreover have "(2 :: nat) ^ k - 1 < 2 ^ k" by simp
    ultimately show ?thesis by linarith
  qed
  ultimately have "((x + 2 ^ k * y) + 2 ^ (2 * k) * r) AND ((2 ^ k - 1) + 2 ^ (2 * k) * m) =
      ((x + 2 ^ k * y) AND (2 ^ k - 1)) + 2 ^ (2 * k) * (r AND m)"
    by (rule and_split)
  moreover have "(x + 2 ^ k * y) AND (2 ^ k - 1) = x"
  proof -
    have "(x + 2 ^ k * y) AND mask k = x" using assms(1) by (simp flip: take_bit_eq_mask add: take_bit_eq_mod)
    then show ?thesis by (simp add: mask_eq_exp_minus_1)
  qed
  ultimately show ?thesis by (simp add: sq distrib_left add.assoc mult.assoc)
qed

lemma lanes_step:
  assumes "even (length xs)" and "\<forall>x\<in>set xs. x < 2 ^ k"
  shows "(lanes k xs AND lanes (2 * k) (replicate (length xs div 2) (2 ^ k - 1))) +
     (drop_bit k (lanes k xs) AND lanes (2 * k) (replicate (length xs div 2) (2 ^ k - 1)))
    = lanes (2 * k) (pair_sums xs)"
  using assms
proof (induction xs rule: pair_sums.induct)
  case (1 x y zs)
  let ?m = "lanes (2 * k) (replicate (length zs div 2) (2 ^ k - 1))"
  let ?z = "lanes k zs"
  have x: "x < 2 ^ k" and y: "y < 2 ^ k" using "1.prems" by auto
  have "drop_bit k (lanes k (x # y # zs)) = y + 2 ^ k * (take_bit k ?z + 2 ^ k * drop_bit k ?z)"
    using x by (simp add: drop_bit_eq_div take_bit_eq_mod)
  then have "drop_bit k (lanes k (x # y # zs)) AND ((2 ^ k - 1) + 2 ^ (2 * k) * ?m)
      = y + 2 ^ (2 * k) * (drop_bit k ?z AND ?m)"
    using lane_pair [OF y, of "take_bit k ?z"] by simp
  moreover have "lanes k (x # y # zs) AND ((2 ^ k - 1) + 2 ^ (2 * k) * ?m) = x + 2 ^ (2 * k) * (?z AND ?m)"
    using lane_pair [OF x y] by simp
  moreover have "lanes (2 * k) (replicate (length (x # y # zs) div 2) (2 ^ k - 1)) = (2 ^ k - 1) + 2 ^ (2 * k) * ?m"
    by simp
  ultimately show ?case using "1.IH" "1.prems" by (simp only:) (simp flip: distrib_left)
qed auto



section \<open>The population count\<close>

definition popcount :: "bool list \<Rightarrow> nat" where
  "popcount bs = length (filter (\<lambda>b. b) bs)"

lemma popcount_append [simp]: "popcount (xs @ ys) = popcount xs + popcount ys"
  by (simp add: popcount_def)

lemma popcount_Nil [simp]: "popcount [] = 0"
  by (simp add: popcount_def)

lemma popcount_Cons [simp]: "popcount (b # bs) = of_bool b + popcount bs"
  by (simp add: popcount_def)

lemma popcount_sum: "sum_list (map of_bool bs) = popcount bs"
  by (induction bs) auto

lemma take_bit_unat: "take_bit 32 (unat w) = unat w" for w :: u32
proof -
  have "unat w < 2 ^ LENGTH(32)" by (rule unsigned_less)
  then show ?thesis by (simp add: take_bit_nat_eq_self)
qed

lemma lanes_bits:
  fixes w :: u32
  shows "unat w = lanes 1 (map of_bool (map (bit w) [0..<32]))"
proof -
  have "lanes 1 (map of_bool bs) = horner_sum of_bool 2 bs" for bs
    by (induction bs) simp_all
  then have "lanes 1 (map of_bool (map (bit (unat w)) [0..<32])) = take_bit 32 (unat w)"
    by (simp only: horner_sum_bit_eq_take_bit)
  moreover have "take_bit 32 (unat w) = unat w" by (rule take_bit_unat)
  moreover have "map (bit (unat w)) [0..<32] = map (bit w) [0..<32]"
    by (simp add: bit_unsigned_iff)
  ultimately show ?thesis by simp
qed

lemma hweight_step:
  fixes w M :: u32
  assumes w: "unat w = lanes k xs" and M: "unat M = lanes (2 * k) (replicate (length xs div 2) (2 ^ k - 1))"
    and xs: "\<forall>x\<in>set xs. x \<le> m" "m < 2 ^ k" "2 * m < 2 ^ (2 * k)" "even (length xs)" "k * length xs = 32"
  shows "unat ((w AND M) + (drop_bit k w AND M)) = lanes (2 * k) (pair_sums xs)"
proof -
  have small: "\<forall>x\<in>set xs. x < 2 ^ k" using xs(1,2) by auto
  have "lanes (2 * k) (pair_sums xs) < 2 ^ (2 * k * length (pair_sums xs))"
    using pair_sums_bound [OF xs(4,1)] xs(3) by (intro lanes_less) auto
  also have "2 * k * length (pair_sums xs) = 32"
    using xs(4,5) by (auto simp: length_pair_sums mult.commute elim!: evenE)
  finally have less: "lanes (2 * k) (pair_sums xs) < 2 ^ 32" .
  have "take_bit 32 (unat w) = unat w" by (rule take_bit_unat)
  then have "unat (w AND M) + unat (drop_bit k w AND M) = lanes (2 * k) (pair_sums xs)"
    using lanes_step [OF xs(4) small]
    by (simp add: unsigned_and_eq unsigned_drop_bit_eq w M)
  with less show ?thesis by (simp add: unat_word_ariths)
qed

lemma lanes_replicate: "lanes k (replicate n c) * 2 ^ k + c = lanes k (replicate n c) + c * 2 ^ (k * n)"
proof (induction n)
  case (Suc n)
  let ?L = "lanes k (replicate n c)"
  have "2 ^ k * (?L * 2 ^ k + c) = 2 ^ k * (?L + c * 2 ^ (k * n))" by (simp only: Suc.IH)
  then show ?case by (simp add: algebra_simps power_add)
qed simp

lemma lane_masks:
  "lanes 2 (replicate 16 1) = 0x55555555" "lanes 4 (replicate 8 3) = 0x33333333"
  "lanes 8 (replicate 4 15) = 0x0F0F0F0F" "lanes 16 (replicate 2 255) = 0x00FF00FF"
  "lanes 32 (replicate 1 65535) = 0x0000FFFF"
  using lanes_replicate [of 2 16 1] lanes_replicate [of 4 8 3] lanes_replicate [of 8 4 15]
    lanes_replicate [of 16 2 255] lanes_replicate [of 32 1 65535]
  by simp_all

text \<open>
  The parallel sum of \<^verbatim>\<open>hweight\<close> is the number of bits set in the word.
\<close>

theorem hweight_popcount: "unat (hweight w) = popcount (map (bit w) [0..<32])"
proof -
  define xs :: "nat list" where "xs = map of_bool (map (bit w) [0..<32])"
  define x2 x4 x8 x16 where "x2 = pair_sums xs" and "x4 = pair_sums x2" and "x8 = pair_sums x4"
    and "x16 = pair_sums x8"
  note defs = x2_def x4_def x8_def x16_def
  have len: "length xs = 32" "length x2 = 16" "length x4 = 8" "length x8 = 4" "length x16 = 2"
    by (simp_all add: xs_def defs length_pair_sums)
  have 1: "\<forall>x\<in>set xs. x \<le> 1" by (auto simp: xs_def)
  have 2: "\<forall>x\<in>set x2. x \<le> 2" using pair_sums_bound [OF _ 1] len by (simp add: x2_def)
  have 4: "\<forall>x\<in>set x4. x \<le> 4" using pair_sums_bound [OF _ 2] len by (simp add: x4_def)
  have 8: "\<forall>x\<in>set x8. x \<le> 8" using pair_sums_bound [OF _ 4] len by (simp add: x8_def)
  have 16: "\<forall>x\<in>set x16. x \<le> 16" using pair_sums_bound [OF _ 8] len by (simp add: x16_def)
  define r1 where "r1 = (w AND 0x55555555) + (drop_bit 1 w AND 0x55555555)"
  define r2 where "r2 = (r1 AND 0x33333333) + (drop_bit 2 r1 AND 0x33333333)"
  define r3 where "r3 = (r2 AND 0x0F0F0F0F) + (drop_bit 4 r2 AND 0x0F0F0F0F)"
  define r4 where "r4 = (r3 AND 0x00FF00FF) + (drop_bit 8 r3 AND 0x00FF00FF)"
  have r1: "unat r1 = lanes 2 x2"
  proof -
    have "unat w = lanes 1 xs" unfolding xs_def by (rule lanes_bits)
    then show ?thesis
      unfolding r1_def using hweight_step [of w 1 xs "0x55555555" 1] 1 len lane_masks(1) by (simp add: x2_def)
  qed
  have r2: "unat r2 = lanes 4 x4"
    unfolding r2_def using hweight_step [of r1 2 x2 "0x33333333" 2] r1 2 len by (simp add: lane_masks x4_def)
  have r3: "unat r3 = lanes 8 x8"
    unfolding r3_def using hweight_step [of r2 4 x4 "0x0F0F0F0F" 4] r2 4 len by (simp add: lane_masks x8_def)
  have r4: "unat r4 = lanes 16 x16"
    unfolding r4_def using hweight_step [of r3 8 x8 "0x00FF00FF" 8] r3 8 len by (simp add: lane_masks x16_def)
  have "unat (hweight w) = lanes 32 (pair_sums x16)"
    using hweight_step [of r4 16 x16 "0x0000FFFF" 16] r4 16 len
    by (simp add: hweight_def Let_def lane_masks r1_def r2_def r3_def r4_def)
  also have "\<dots> = sum_list (pair_sums x16)"
    using length_pair_sums [of x16] len by (cases "pair_sums x16") auto
  also have "\<dots> = sum_list xs" by (simp add: defs)
  also have "\<dots> = popcount (map (bit w) [0..<32])" unfolding xs_def by (rule popcount_sum)
  finally show ?thesis .
qed



section \<open>The loops\<close>

text \<open>The number of positions in \<open>[i, j)\<close> that satisfy \<open>P\<close>.\<close>

definition count_in :: "(int \<Rightarrow> bool) \<Rightarrow> int \<Rightarrow> int \<Rightarrow> int" where
  "count_in P i j = int (popcount (map P [i..j - 1]))"

lemma count_in_empty [simp]: "j \<le> i \<Longrightarrow> count_in P i j = 0"
  by (simp add: count_in_def)

lemma count_in_first: "i < j \<Longrightarrow> count_in P i j = of_bool (P i) + count_in P (i + 1) j"
  by (simp add: count_in_def upto_rec1)

lemma count_in_split: "i \<le> m \<Longrightarrow> m \<le> j \<Longrightarrow> count_in P i j = count_in P i m + count_in P m j"
  using upto_split1 [of i m "j - 1"] upto_split2 [of i "m - 1" "j - 1"]
  by (cases "m = j") (simp_all add: count_in_def)

lemma count_in_bits:
  assumes "0 \<le> n"
  shows "count_in P 0 n = int (popcount (map (\<lambda>k. P (int k)) [0..<nat n]))"
proof -
  have "[0..n - 1] = map int [0..<nat n]"
    by (rule nth_equalityI) (use assms in \<open>auto simp: nth_upto\<close>)
  then show ?thesis by (simp add: count_in_def comp_def)
qed

lemma count_bits_spec:
  "(\<And>k. i \<le> k \<Longrightarrow> k < n \<Longrightarrow> test k = Some (P k)) \<Longrightarrow>
    count_bits test n i count = Some (count + count_in P i n)"
proof (induction "nat (n - i)" arbitrary: i count rule: less_induct)
  case less
  then show ?case by (subst count_bits.simps) (auto simp: count_in_first)
qed

lemma count_words_spec:
  assumes getw: "\<And>k. 0 \<le> k \<Longrightarrow> k mod 32 = 0 \<Longrightarrow> k + 32 \<le> n \<Longrightarrow>
    \<exists>w. getw k = Some w \<and> (\<forall>j<32. bit w j = P (k + int j))"
  shows "0 \<le> i \<Longrightarrow> i mod 32 = 0 \<Longrightarrow> i \<le> n \<Longrightarrow>
    \<exists>j. count_words getw n i count = Some (j, count + count_in P i j) \<and> i \<le> j \<and> j \<le> n"
proof (induction "nat (n - i)" arbitrary: i count rule: less_induct)
  case less
  show ?case
  proof (cases "i + 32 \<le> n")
    case False
    then show ?thesis using less.prems
      by (subst count_words.simps) (cases "i < n"; simp)
  next
    case True
    from getw [OF less.prems(1,2) True] obtain w where
      w: "getw i = Some w" "\<forall>j<32. bit w j = P (i + int j)" by auto
    have "map (bit w) [0..<32] = map P [i..i + 32 - 1]"
      by (rule nth_equalityI) (use w(2) in \<open>auto simp: nth_upto\<close>)
    then have h: "uint (hweight w) = count_in P i (i + 32)"
      by (simp add: count_in_def hweight_popcount uint_nat)
    from less.hyps [of "i + 32" "count + uint (hweight w)"] less.prems True obtain j where
      j: "count_words getw n (i + 32) (count + uint (hweight w)) =
        Some (j, count + uint (hweight w) + count_in P (i + 32) j)" "i + 32 \<le> j" "j \<le> n"
      by auto
    have "count_words getw n i count = Some (j, count + count_in P i j)"
      using True w(1) j count_in_split [of i "i + 32" j P] h
      by (subst count_words.simps) simp
    with j show ?thesis by auto
  qed
qed



section \<open>What the operations count\<close>

lemma data_word_bits:
  assumes wf: "wf_bitstr b" and k: "0 \<le> k" "k mod 32 = 0" "k + 32 \<le> b_bits b"
  shows "\<exists>w. word_at b k = Some w \<and> (\<forall>j<32. bit w j = bits_of b ! nat (k + int j))"
proof -
  have "bit (b_words b ! (nat k div 32)) j = bits_of b ! nat (k + int j)" if "j < 32" for j
  proof -
    have "nat (k + int j) div 32 = nat k div 32" using that k by (intro same_word) auto
    moreover have "nat (k + int j) mod 32 = j"
    proof -
      obtain a where "k = 32 * a" using k(2) by (metis mult_div_mod_eq add.right_neutral)
      then have "(k + int j) mod 32 = int j" using that by simp
      then have "nat ((k + int j) mod 32) = j" by simp
      then show ?thesis using k(1) by (simp add: nat_mod_distrib)
    qed
    ultimately show ?thesis using that k by (subst nth_bits_of) auto
  qed
  with word_at_wf [OF wf k(1)] k show ?thesis by auto
qed

text \<open>C33: \<^verbatim>\<open>bit_set_count\<close> returns the number of bits set.\<close>

theorem bit_set_count_popcount:
  assumes wf: "wf_bitstr b"
  shows "bit_set_count b = Some (int (popcount (bits_of b)))"
proof -
  let ?P = "\<lambda>k. bits_of b ! nat k"
  obtain j where j: "count_words (word_at b) (b_bits b) 0 0 = Some (j, count_in ?P 0 j)" "0 \<le> j" "j \<le> b_bits b"
    using count_words_spec [of "b_bits b" "word_at b" ?P 0 0] data_word_bits [OF wf] wf_nbits [OF wf] by auto
  have "count_bits (bit_test b) (b_bits b) j (count_in ?P 0 j) = Some (count_in ?P 0 j + count_in ?P j (b_bits b))"
    using j by (intro count_bits_spec) (simp add: bit_test_wf [OF wf])
  also have "count_in ?P 0 j + count_in ?P j (b_bits b) = int (popcount (bits_of b))"
    using count_in_split [OF j(2,3), of ?P] wf_nbits [OF wf] map_nth [of "bits_of b"]
    by (simp add: count_in_bits)
  finally show ?thesis by (simp add: bit_set_count_def wf_valid [OF wf] j(1))
qed

text \<open>\<^verbatim>\<open>bit_clear_count\<close> returns the number of clear bits.\<close>

theorem bit_clear_count_popcount:
  assumes wf: "wf_bitstr b"
  shows "bit_clear_count b = Some (int (popcount (map Not (bits_of b))))"
proof -
  have "popcount bs + popcount (map Not bs) = length bs" for bs
    by (induction bs) auto
  from this [of "bits_of b"] show ?thesis
    using wf_nbits [OF wf] bit_set_count_popcount [OF wf] by (simp add: bit_clear_count_def wf_valid [OF wf])
qed

text \<open>\<^verbatim>\<open>bit_overlap\<close> returns the number of positions set in both strings.\<close>

theorem bit_overlap_common:
  assumes wf: "wf_bitstr a" "wf_bitstr b" and n: "b_bits a = b_bits b"
  shows "bit_overlap a b = Some (int (popcount (map2 (\<and>) (bits_of a) (bits_of b))))"
proof -
  let ?P = "\<lambda>k. bits_of a ! nat k \<and> bits_of b ! nat k"
  let ?get = "\<lambda>i. do { x \<leftarrow> word_at a i; y \<leftarrow> word_at b i; Some (x AND y) }"
  let ?test = "\<lambda>i. do { t \<leftarrow> bit_test a i; if t then bit_test b i else Some False }"
  have get: "\<exists>w. ?get k = Some w \<and> (\<forall>j<32. bit w j = ?P (k + int j))"
    if "0 \<le> k" "k mod 32 = 0" "k + 32 \<le> b_bits b" for k
    using data_word_bits [OF wf(1), of k] data_word_bits [OF wf(2), of k] that n
    by (auto simp: bit_and_iff)
  obtain j where j: "count_words ?get (b_bits b) 0 0 = Some (j, count_in ?P 0 j)" "0 \<le> j" "j \<le> b_bits b"
    using count_words_spec [of "b_bits b" ?get ?P 0 0] get wf_nbits [OF wf(2)] by auto
  have "count_bits ?test (b_bits b) j (count_in ?P 0 j) = Some (count_in ?P 0 j + count_in ?P j (b_bits b))"
    using j n by (intro count_bits_spec) (simp add: bit_test_wf [OF wf(1)] bit_test_wf [OF wf(2)])
  also have "count_in ?P 0 j + count_in ?P j (b_bits b) = count_in ?P 0 (b_bits b)"
    using j by (simp flip: count_in_split)
  also have "map (\<lambda>k. ?P (int k)) [0..<nat (b_bits b)] = map2 (\<and>) (bits_of a) (bits_of b)"
    by (rule nth_equalityI) (simp_all add: n)
  then have "count_in ?P 0 (b_bits b) = int (popcount (map2 (\<and>) (bits_of a) (bits_of b)))"
    using wf_nbits [OF wf(2)] by (simp add: count_in_bits)
  finally show ?thesis
    by (simp add: bit_overlap_def wf_valid [OF wf(1)] wf_valid [OF wf(2)] n j(1))
qed



section \<open>The longest run\<close>

text \<open>\<open>longest bs i m\<close>: the longest run of set bits among the first \<open>i\<close> has length \<open>m\<close>.\<close>

definition longest :: "bool list \<Rightarrow> int \<Rightarrow> int \<Rightarrow> bool" where
  "longest bs i m \<longleftrightarrow> 0 \<le> m \<and> (\<exists>k\<ge>0. k + m \<le> i \<and> run_at (\<lambda>t. t) bs m k) \<and>
     (\<forall>k n. 0 \<le> k \<and> 0 \<le> n \<and> k + n \<le> i \<and> run_at (\<lambda>t. t) bs n k \<longrightarrow> n \<le> m)"

lemma longest_0: "longest bs 0 0"
  by (auto simp: longest_def intro!: exI [of _ 0])

lemma longest_extend:
  assumes "longest bs i m" and "i \<le> n"
    and "\<And>k l. 0 \<le> k \<Longrightarrow> 0 \<le> l \<Longrightarrow> k + l \<le> n \<Longrightarrow> run_at (\<lambda>t. t) bs l k \<Longrightarrow> l \<le> m"
  shows "longest bs n m"
proof -
  from assms(1) obtain k where "0 \<le> m" "0 \<le> k" "k + m \<le> i" "run_at (\<lambda>t. t) bs m k"
    by (auto simp: longest_def)
  with assms(2) have "\<exists>k\<ge>0. k + m \<le> n \<and> run_at (\<lambda>t. t) bs m k" by (intro exI [of _ k]) simp
  with \<open>0 \<le> m\<close> assms(3) show ?thesis unfolding longest_def by blast
qed

lemma longest_clear:
  assumes "longest bs i m" and "\<not> bs ! nat i"
  shows "longest bs (i + 1) m"
proof -
  have "n \<le> m" if "0 \<le> k" "0 \<le> n" "k + n \<le> i + 1" "run_at (\<lambda>t. t) bs n k" for k n
  proof (cases "k + n \<le> i")
    case True
    with that assms(1) show ?thesis by (auto simp: longest_def)
  next
    case False
    then have "n \<le> 0" using that assms(2) no_run_through [of "\<lambda>t. t" bs i k n] by force
    with assms(1) show ?thesis by (simp add: longest_def)
  qed
  with longest_extend [OF assms(1)] show ?thesis by simp
qed

lemma longest_set:
  assumes "longest bs i m" and run: "run_at (\<lambda>t. t) bs c (i - c)" and c: "0 \<le> c" "c \<le> i" "c \<le> m"
    and stop: "c = i \<or> \<not> bs ! nat (i - c - 1)" and isset: "bs ! nat i"
  shows "longest bs (i + 1) (max (c + 1) m)"
proof -
  have m: "0 \<le> m" using assms(1) by (simp add: longest_def)
  have "n \<le> max (c + 1) m" if "0 \<le> k" "0 \<le> n" "k + n \<le> i + 1" "run_at (\<lambda>t. t) bs n k" for k n
  proof (cases "k + n \<le> i")
    case True
    with that assms(1) have "n \<le> m" by (auto simp: longest_def)
    then show ?thesis by simp
  next
    case False
    show ?thesis
    proof (cases "k \<le> i - c - 1")
      case True
      then have "bs ! nat (i - c - 1)" using that(4) False c by (auto simp: run_at_def)
      with stop True that c show ?thesis by auto
    qed (use that in auto)
  qed
  moreover have "\<exists>k\<ge>0. k + max (c + 1) m \<le> i + 1 \<and> run_at (\<lambda>t. t) bs (max (c + 1) m) k"
  proof (cases "c + 1 \<le> m")
    case True
    then show ?thesis using assms(1) by (auto simp: longest_def max_def)
  next
    case False
    then have "max (c + 1) m = c + 1" by simp
    with run_at_extend [OF run] isset c show ?thesis by (intro exI [of _ "i - c"]) simp
  qed
  ultimately show ?thesis using m unfolding longest_def by auto
qed

lemma longest_rest:
  assumes m: "longest bs i m" and clear: "\<not> bs ! nat (i - 1)" "0 < i" "i \<le> n" "n - i < m"
  shows "longest bs n m"
proof -
  have "l \<le> m" if "0 \<le> k" "0 \<le> l" "k + l \<le> n" "run_at (\<lambda>t. t) bs l k" for k l
  proof (cases "k + l \<le> i")
    case True
    with that m show ?thesis by (auto simp: longest_def)
  next
    case False
    show ?thesis
    proof (cases "k \<le> i - 1")
      case True
      then show ?thesis using clear that False by (auto simp: run_at_def)
    qed (use that clear in auto)
  qed
  with longest_extend [OF m] clear show ?thesis by simp
qed

lemma max_run_spec:
  assumes wf: "wf_bitstr b"
  shows "0 \<le> c \<Longrightarrow> c \<le> i \<Longrightarrow> c \<le> m \<Longrightarrow> i \<le> b_bits b \<Longrightarrow> longest (bits_of b) i m \<Longrightarrow>
    run_at (\<lambda>t. t) (bits_of b) c (i - c) \<Longrightarrow> c = i \<or> \<not> bits_of b ! nat (i - c - 1) \<Longrightarrow>
    \<exists>r. max_run b i c m = Some r \<and> longest (bits_of b) (b_bits b) r"
proof (induction "nat (b_bits b - i)" arbitrary: i c m rule: less_induct)
  case less
  show ?case
  proof (cases "i < b_bits b")
    case False
    with less.prems show ?thesis by (subst max_run.simps) simp
  next
    case True
    have t: "bit_test b i = Some (bits_of b ! nat i)"
      using bit_test_wf [OF wf, of i] less.prems True by simp
    show ?thesis
    proof (cases "bits_of b ! nat i")
      case isset: True
      have l: "longest (bits_of b) (i + 1) (max (c + 1) m)"
        using longest_set less.prems isset by blast
      have run: "run_at (\<lambda>t. t) (bits_of b) (c + 1) (i + 1 - (c + 1))"
        using run_at_extend [OF less.prems(6)] isset by simp
      have "max_run b i c m = max_run b (i + 1) (c + 1) (max (c + 1) m)"
        using True t isset less.prems by (subst max_run.simps) (simp add: max_def Let_def)
      with less.hyps [of "i + 1" "c + 1" "max (c + 1) m"] less.prems True l run show ?thesis by simp
    next
      case clear: False
      have l: "longest (bits_of b) (i + 1) m" using longest_clear less.prems(5) clear .
      show ?thesis
      proof (cases "b_bits b - i < m")
        case stop: True
        then have "longest (bits_of b) (b_bits b) m"
          using longest_rest [OF l] clear less.prems True by simp
        then show ?thesis using True t clear stop by (subst max_run.simps) simp
      next
        case False
        then have "max_run b i c m = max_run b (i + 1) 0 m"
          using True t clear by (subst max_run.simps) simp
        with less.hyps [of "i + 1" 0 m] less.prems True l clear show ?thesis by simp
      qed
    qed
  qed
qed

text \<open>
  \<^verbatim>\<open>bit_nset_max_count\<close> returns the length of the longest run of set bits, although it stops as soon
  as the rest of the string is too short for a longer one.
\<close>

theorem bit_nset_max_count_longest:
  assumes wf: "wf_bitstr b"
  shows "\<exists>r. bit_nset_max_count b = Some r \<and> longest (bits_of b) (b_bits b) r"
  using max_run_spec [OF wf, of 0 0 0] longest_0 wf_nbits [OF wf]
  by (simp add: bit_nset_max_count_def wf_valid [OF wf])


section \<open>Positions and numbers\<close>

lemma nth_set_spec:
  assumes wf: "wf_bitstr b"
  shows "0 \<le> i \<Longrightarrow> i \<le> b_bits b \<Longrightarrow> c \<le> pos \<Longrightarrow> pos < c + count_in (\<lambda>k. bits_of b ! nat k) i (b_bits b) \<Longrightarrow>
    \<exists>r. nth_set b pos i c = Some r \<and> i \<le> r \<and> r < b_bits b \<and> bits_of b ! nat r \<and>
      c + count_in (\<lambda>k. bits_of b ! nat k) i r = pos"
proof (induction "nat (b_bits b - i)" arbitrary: i c rule: less_induct)
  case less
  show ?case
  proof (cases "i < b_bits b")
    case False
    with less.prems show ?thesis by simp
  next
    case True
    note t = bit_test_wf [OF wf less.prems(1) True]
    show ?thesis
    proof (cases "bits_of b ! nat i \<and> c = pos")
      case hit: True
      then have "nth_set b pos i c = Some i" using True t by (subst nth_set.simps) simp
      with hit True show ?thesis by auto
    next
      case False
      let ?c = "c + of_bool (bits_of b ! nat i)"
      have "nth_set b pos i c = nth_set b pos (i + 1) ?c"
        using True t False by (subst nth_set.simps) auto
      moreover have "?c \<le> pos" using False less.prems by auto
      with less.hyps [of "i + 1" ?c] less.prems True obtain r where
        "nth_set b pos (i + 1) ?c = Some r" "i + 1 \<le> r" "r < b_bits b" "bits_of b ! nat r"
        "?c + count_in (\<lambda>k. bits_of b ! nat k) (i + 1) r = pos"
        by (auto simp: count_in_first [OF True])
      ultimately show ?thesis using count_in_first [of i r] by auto
    qed
  qed
qed

text \<open>
  \<^verbatim>\<open>bit_get_bit_num\<close> finds the bit that is number \<open>pos\<close> among those set, and \<^verbatim>\<open>bit_get_pos_num\<close> maps it
  back to \<open>pos\<close>.
\<close>

theorem bit_num_pos_num:
  assumes wf: "wf_bitstr b" and pos: "0 \<le> pos" "pos < int (popcount (bits_of b))"
  shows "\<exists>i. bit_get_bit_num b pos = Some i \<and> bit_test b i = Some True \<and> bit_get_pos_num b i = Some pos"
proof -
  let ?P = "\<lambda>k. bits_of b ! nat k"
  have all: "count_in ?P 0 (b_bits b) = int (popcount (bits_of b))"
    using wf_nbits [OF wf] map_nth [of "bits_of b"] by (simp add: count_in_bits)
  have "popcount (bits_of b) \<le> length (bits_of b)" unfolding popcount_def by (rule length_filter_le)
  then have le: "pos \<le> b_bits b" using pos by simp
  obtain i where i: "nth_set b pos 0 0 = Some i" "0 \<le> i" "i < b_bits b" "?P i" "count_in ?P 0 i = pos"
    using nth_set_spec [OF wf, of 0 0 pos] pos wf_nbits [OF wf] all by auto
  have t: "bit_test b i = Some True" using i bit_test_wf [OF wf] by simp
  have "count_bits (bit_test b) (i + 1) 0 (-1) = Some (-1 + count_in ?P 0 (i + 1))"
    using i by (intro count_bits_spec) (simp add: bit_test_wf [OF wf])
  also have "count_in ?P 0 (i + 1) = pos + 1"
    using count_in_split [of 0 i "i + 1" ?P] count_in_first [of i "i + 1" ?P] i by simp
  finally have "bit_get_pos_num b i = Some pos"
    using t i by (simp add: bit_get_pos_num_def wf_valid [OF wf])
  with i t le show ?thesis by (simp add: bit_get_bit_num_def wf_valid [OF wf])
qed


section \<open>Concrete strings\<close>

lemma bit_set_count_popcount_witness: "bit_set_count forty = Some 6"
  using bit_set_count_popcount [OF wf_forty] by (simp add: bits_forty)

lemma bit_clear_count_popcount_witness: "bit_clear_count forty = Some 34"
  using bit_clear_count_popcount [OF wf_forty] by (simp add: bits_forty)

lemma bit_overlap_common_witness: "bit_overlap forty forty = Some 6"
  using bit_overlap_common [OF wf_forty wf_forty] by (simp add: bits_forty)

lemma bit_nset_max_count_longest_witness:
  "\<exists>r. bit_nset_max_count forty = Some r \<and> longest (bits_of forty) 40 r"
  using bit_nset_max_count_longest [OF wf_forty] by simp

lemma bit_num_pos_num_witness:
  "\<exists>i. bit_get_bit_num forty 4 = Some i \<and> bit_test forty i = Some True \<and> bit_get_pos_num forty i = Some 4"
  using bit_num_pos_num [OF wf_forty, of 4] by (simp add: bits_forty)

end
