(* ===== verification/Ctext.thy ===== *)
theory Ctext
  imports Prelude "HOL-Library.Char_ord"
begin

text \<open>
  Text as the C code handles it: character classes of the C locale, arrays of characters that hold a NUL, the
  comparison functions of \<^verbatim>\<open>strings.h\<close> and the conversions of \<^verbatim>\<open>printf\<close> that the code uses.  A read
  outside the array is \<^const>\<open>None\<close>.
\<close>


section \<open>Characters\<close>

abbreviation NUL :: char where "NUL \<equiv> CHR 0x00"

definition code :: "char \<Rightarrow> int" where
  "code c = int (of_char c)"

definition is_digit :: "char \<Rightarrow> bool" where
  "is_digit c \<longleftrightarrow> CHR ''0'' \<le> c \<and> c \<le> CHR ''9''"

definition is_space :: "char \<Rightarrow> bool" where
  "is_space c \<longleftrightarrow> c = CHR '' '' \<or> code c \<in> {9..13}"

definition is_blank :: "char \<Rightarrow> bool" where
  "is_blank c \<longleftrightarrow> c = CHR '' '' \<or> code c = 9"

definition lower :: "char \<Rightarrow> char" where
  "lower c = (if CHR ''A'' \<le> c \<and> c \<le> CHR ''Z'' then char_of (of_char c + 32 :: nat) else c)"

definition digit_char :: "nat \<Rightarrow> char" where
  "digit_char d = char_of (48 + d)"

definition digit_value :: "char \<Rightarrow> int" where
  "digit_value c = code c - 48"

lemma digit_char_code [simp]: "d < 10 \<Longrightarrow> code (digit_char d) = 48 + int d"
  by (simp add: code_def digit_char_def)

lemma digit_value_char [simp]: "d < 10 \<Longrightarrow> digit_value (digit_char d) = int d"
  by (simp add: digit_value_def)

lemma is_digit_code: "is_digit c \<longleftrightarrow> 48 \<le> code c \<and> code c \<le> 57"
  by (simp add: is_digit_def code_def less_eq_char_def)

lemma is_digit_char [simp]: "d < 10 \<Longrightarrow> is_digit (digit_char d)"
  by (simp add: is_digit_code)

lemma lower_capitals:
  "lower (CHR ''A'') = CHR ''a''" "lower (CHR ''B'') = CHR ''b''" "lower (CHR ''C'') = CHR ''c''"
  "lower (CHR ''D'') = CHR ''d''" "lower (CHR ''E'') = CHR ''e''" "lower (CHR ''F'') = CHR ''f''"
  "lower (CHR ''G'') = CHR ''g''" "lower (CHR ''H'') = CHR ''h''" "lower (CHR ''I'') = CHR ''i''"
  "lower (CHR ''J'') = CHR ''j''" "lower (CHR ''K'') = CHR ''k''" "lower (CHR ''L'') = CHR ''l''"
  "lower (CHR ''M'') = CHR ''m''" "lower (CHR ''N'') = CHR ''n''" "lower (CHR ''O'') = CHR ''o''"
  "lower (CHR ''P'') = CHR ''p''" "lower (CHR ''Q'') = CHR ''q''" "lower (CHR ''R'') = CHR ''r''"
  "lower (CHR ''S'') = CHR ''s''" "lower (CHR ''T'') = CHR ''t''" "lower (CHR ''U'') = CHR ''u''"
  "lower (CHR ''V'') = CHR ''v''" "lower (CHR ''W'') = CHR ''w''" "lower (CHR ''X'') = CHR ''x''"
  "lower (CHR ''Y'') = CHR ''y''" "lower (CHR ''Z'') = CHR ''z''"
  by (simp_all add: lower_def char_of_def bit_0 bit_iff_odd)

lemma lower_small:
  "lower (CHR ''a'') = CHR ''a''" "lower (CHR ''b'') = CHR ''b''" "lower (CHR ''c'') = CHR ''c''"
  "lower (CHR ''d'') = CHR ''d''" "lower (CHR ''e'') = CHR ''e''" "lower (CHR ''f'') = CHR ''f''"
  "lower (CHR ''g'') = CHR ''g''" "lower (CHR ''h'') = CHR ''h''" "lower (CHR ''i'') = CHR ''i''"
  "lower (CHR ''j'') = CHR ''j''" "lower (CHR ''k'') = CHR ''k''" "lower (CHR ''l'') = CHR ''l''"
  "lower (CHR ''m'') = CHR ''m''" "lower (CHR ''n'') = CHR ''n''" "lower (CHR ''o'') = CHR ''o''"
  "lower (CHR ''p'') = CHR ''p''" "lower (CHR ''q'') = CHR ''q''" "lower (CHR ''r'') = CHR ''r''"
  "lower (CHR ''s'') = CHR ''s''" "lower (CHR ''t'') = CHR ''t''" "lower (CHR ''u'') = CHR ''u''"
  "lower (CHR ''v'') = CHR ''v''" "lower (CHR ''w'') = CHR ''w''" "lower (CHR ''x'') = CHR ''x''"
  "lower (CHR ''y'') = CHR ''y''" "lower (CHR ''z'') = CHR ''z''"
  by (simp_all add: lower_def less_eq_char_def)

lemmas lower_letters = lower_capitals lower_small

lemma lower_lower: "lower (lower c) = lower c"
proof (cases "CHR ''A'' \<le> c \<and> c \<le> CHR ''Z''")
  case True
  then have "of_char c \<in> {65::nat..90}" by (auto simp: less_eq_char_def)
  then have "of_char (lower c) \<in> {97::nat..122}" using True by (auto simp: lower_def)
  then show ?thesis by (auto simp: lower_def [of "lower c"] less_eq_char_def)
next
  case False
  then have "lower c = c" by (auto simp: lower_def)
  then show ?thesis by simp
qed

lemma int_digits: "int (n div 10) * 10 + int (n mod 10) = int n"
  by (metis div_mult_mod_eq of_nat_add of_nat_mult of_nat_numeral)

text \<open>A digit is neither of the other characters the code looks for.\<close>

lemma digit_char_neq: "d < 10 \<Longrightarrow> \<not> is_digit c \<Longrightarrow> digit_char d \<noteq> c"
  using is_digit_char by metis

lemma not_digits [simp]:
  "\<not> is_digit NUL" "\<not> is_digit (CHR ''-'')" "\<not> is_digit (CHR '':'')" "\<not> is_digit (CHR ''T'')" "\<not> is_digit (CHR ''.'')"
  "\<not> is_digit (CHR '' '')" "\<not> is_digit (CHR ''/'')" "\<not> is_digit (CHR '','')" "\<not> is_digit (CHR 0x0A)" "\<not> is_digit (CHR ''+'')"
  by (simp_all add: is_digit_code code_def)


section \<open>Arrays\<close>

definition char_at :: "string \<Rightarrow> nat \<Rightarrow> char option" where
  "char_at a i = (if i < length a then Some (a ! i) else None)"

text \<open>\<^verbatim>\<open>strncasecmp(a + i, w, strlen(w)) == 0\<close> for a word in lower case.\<close>

fun prefix_at :: "string \<Rightarrow> nat \<Rightarrow> string \<Rightarrow> bool option" where
  "prefix_at a i [] = Some True"
| "prefix_at a i (c # w) = do { d \<leftarrow> char_at a i; if lower d = c then prefix_at a (i + 1) w else Some False }"

definition text_of :: "string \<Rightarrow> string" where
  "text_of a = takeWhile (\<lambda>c. c \<noteq> NUL) a"

text \<open>
  A \<^verbatim>\<open>char *\<close> that is only read is the list of the characters from there on, as far as the memory is the
  program's; \<open>c_text\<close> is its string, \<open>read_chars\<close> copies a number of characters.
\<close>

definition c_text :: "string \<Rightarrow> string option" where
  "c_text m = (if NUL \<in> set m then Some (text_of m) else None)"

definition read_chars :: "string \<Rightarrow> nat \<Rightarrow> string option" where
  "read_chars m n = (if n \<le> length m then Some (take n m) else None)"

lemma text_of_append [simp]: "NUL \<notin> set s \<Longrightarrow> text_of (s @ NUL # r) = s"
  by (induction s) (auto simp: text_of_def)

lemma c_text_append [simp]: "NUL \<notin> set s \<Longrightarrow> c_text (s @ NUL # r) = Some s"
  by (simp add: c_text_def)

lemma char_at_append [simp]: "i < length s \<Longrightarrow> char_at (s @ r) i = Some (s ! i)"
  by (simp add: char_at_def nth_append)

lemma char_at_end [simp]: "char_at (s @ c # r) (length s) = Some c"
  by (simp add: char_at_def)


section \<open>Printing\<close>

text \<open>The conversion \<^verbatim>\<open>%u\<close>.\<close>

fun decimal :: "nat \<Rightarrow> string" where
  "decimal n = (if n < 10 then [] else decimal (n div 10)) @ [char_of (48 + n mod 10)]"

declare decimal.simps [simp del]

text \<open>\<^verbatim>\<open>%d\<close>; \<^verbatim>\<open>%k.ku\<close>, which fills with zeros; and the widths \<^verbatim>\<open>%*.*s\<close> and \<^verbatim>\<open>%-*.*s\<close>.\<close>

definition signed_decimal :: "int \<Rightarrow> string" where
  "signed_decimal n = (if n < 0 then ''-'' @ decimal (nat (- n)) else decimal (nat n))"

definition zero_filled :: "nat \<Rightarrow> nat \<Rightarrow> string" where
  "zero_filled k n = replicate (k - length (decimal n)) (CHR ''0'') @ decimal n"

definition pad_left :: "nat \<Rightarrow> string \<Rightarrow> string" where
  "pad_left k s = replicate (k - length s) (CHR '' '') @ s"

definition pad_right :: "nat \<Rightarrow> string \<Rightarrow> string" where
  "pad_right k s = s @ replicate (k - length s) (CHR '' '')"

text \<open>What \<^verbatim>\<open>snprintf\<close> leaves of a text in a buffer.\<close>

definition printed :: "nat \<Rightarrow> string \<Rightarrow> string" where
  "printed n s = take (n - 1) s"

lemma decimal_nonempty: "0 < length (decimal n)"
  by (subst decimal.simps) simp

lemma length_decimal: "n < 10 ^ Suc k \<Longrightarrow> length (decimal n) \<le> Suc k"
proof (induction k arbitrary: n)
  case 0
  then show ?case by (subst decimal.simps) simp
next
  case (Suc k)
  show ?case
  proof (cases "n < 10")
    case True
    then show ?thesis by (subst decimal.simps) simp
  next
    case False
    have "n div 10 < 10 ^ Suc k" using Suc.prems by (simp add: less_mult_imp_div_less mult.commute)
    from Suc.IH [OF this] False show ?thesis by (subst decimal.simps) simp
  qed
qed

lemma decimal_small: "n < 10 \<Longrightarrow> decimal n = [digit_char n]"
  by (subst decimal.simps) (simp add: digit_char_def)

lemma decimal_step: "10 \<le> n \<Longrightarrow> decimal n = decimal (n div 10) @ [digit_char (n mod 10)]"
  by (subst decimal.simps) (simp add: digit_char_def)

lemma decimal_all_digits: "c \<in> set (decimal n) \<Longrightarrow> is_digit c"
proof (induction n rule: less_induct)
  case (less n)
  show ?case
  proof (cases "n < 10")
    case False
    then have "c \<in> set (decimal (n div 10)) \<or> c = digit_char (n mod 10)"
      using less.prems decimal_step [of n] by auto
    then show ?thesis using less.IH [of "n div 10"] False by auto
  qed (use less.prems in \<open>simp add: decimal_small\<close>)
qed

lemma zero_digit: "CHR ''0'' = digit_char 0"
  by (simp add: digit_char_def char_of_def bit_0)

lemma two_digits:
  assumes "n < 100"
  shows "zero_filled 2 n = [digit_char (n div 10), digit_char (n mod 10)]"
proof (cases "n < 10")
  case True
  then show ?thesis by (simp add: zero_filled_def zero_digit decimal_small)
next
  case False
  then show ?thesis using assms by (simp add: zero_filled_def decimal_step decimal_small)
qed

lemma four_digits:
  assumes "n < 10000"
  shows "zero_filled 4 n =
    [digit_char (n div 1000), digit_char (n div 100 mod 10), digit_char (n div 10 mod 10), digit_char (n mod 10)]"
proof -
  have h: "n div 10 div 10 = n div 100" "n div 100 div 10 = n div 1000" by (simp_all add: div_mult2_eq [symmetric])
  consider "n < 10" | "10 \<le> n" "n < 100" | "100 \<le> n" "n < 1000" | "1000 \<le> n" by linarith
  then show ?thesis
  proof cases
    case 1
    then have "decimal n = [digit_char n]" by (rule decimal_small)
    then show ?thesis using 1 by (simp add: zero_filled_def zero_digit numeral_3_eq_3)
  next
    case 2
    then have "decimal n = [digit_char (n div 10), digit_char (n mod 10)]"
      by (simp add: decimal_step decimal_small)
    then show ?thesis using 2 by (simp add: zero_filled_def zero_digit numeral_2_eq_2)
  next
    case 3
    then have "decimal n = [digit_char (n div 100), digit_char (n div 10 mod 10), digit_char (n mod 10)]"
      using h by (simp add: decimal_step decimal_small)
    then show ?thesis using 3 by (simp add: zero_filled_def zero_digit)
  next
    case 4
    then have "decimal (n div 10) = decimal (n div 10 div 10) @ [digit_char (n div 10 mod 10)]"
      "decimal (n div 10 div 10) = decimal (n div 10 div 10 div 10) @ [digit_char (n div 10 div 10 mod 10)]"
      "decimal (n div 10 div 10 div 10) = [digit_char (n div 1000)]" "decimal n = decimal (n div 10) @ [digit_char (n mod 10)]"
      using assms h by (simp_all add: decimal_step decimal_small)
    then show ?thesis using h by (simp add: zero_filled_def)
  qed
qed

end
