(* ===== verification/Bitformat.thy ===== *)
theory Bitformat
  imports Bitcount Bitops Ctext
begin

text \<open>
  The parts of \<^verbatim>\<open>bitstring.c\<close> that move bits between strings and between strings and text: rotation,
  the selection of the first set bits, range lists such as \<^verbatim>\<open>[0-5,42]\<close>, hexadecimal and binary masks.
  Text is a HOL string without the final NUL; \<^const>\<open>None\<close> is again a failed assertion, a write outside
  an array, or an overflow of int.
\<close>


section \<open>Rotation\<close>

text \<open>The C remainder has the sign of the dividend.\<close>

definition crem :: "int \<Rightarrow> int \<Rightarrow> int" where
  "crem n d = sgn n * (\<bar>n\<bar> mod \<bar>d\<bar>)"

function copy_bits :: "bitstr \<Rightarrow> bitstr \<Rightarrow> int \<Rightarrow> int \<Rightarrow> int \<Rightarrow> bitstr option" where
  "copy_bits b1 new i dst stop =
     (if i < stop then do {
        t \<leftarrow> bit_test b1 i;
        new' \<leftarrow> (if t then bit_set new dst else Some new);
        copy_bits b1 new' (i + 1) (dst + 1) stop
      } else Some new)"
  by pat_completeness auto
termination
  by (relation "measure (\<lambda>(_, _, i, _, stop). nat (stop - i))") auto

declare copy_bits.simps [simp del]

definition bit_rotate_copy :: "bitstr \<Rightarrow> int \<Rightarrow> int \<Rightarrow> bitstr option" where
  "bit_rotate_copy b1 n nbits = do {
     assert_bitstr_valid b1;
     bitsize \<leftarrow> bit_size b1;
     assertC (nbits \<ge> bitsize);
     let deltasize = nbits - bitsize;
     assertC (nbits \<noteq> 0);
     let n = crem n nbits;
     let n = (if n < 0 then n + nbits else n);
     let wrapbits = (if n > deltasize then n - deltasize else 0);
     new \<leftarrow> bit_alloc nbits;
     new \<leftarrow> bit_nclear new 0 (nbits - 1);
     new \<leftarrow> copy_bits b1 new 0 n (bitsize - wrapbits);
     copy_bits b1 new (max 0 (bitsize - wrapbits)) 0 bitsize
   }"

definition bit_rotate :: "bitstr \<Rightarrow> int \<Rightarrow> bitstr option" where
  "bit_rotate b1 n =
     (if n = 0 then Some b1
      else do {
        assert_bitstr_valid b1;
        bitsize \<leftarrow> bit_size b1;
        new \<leftarrow> bit_rotate_copy b1 n bitsize;
        b1 \<leftarrow> bit_copybits b1 new;
        bit_free new;
        Some b1
      })"


section \<open>The first set bits\<close>

function pick_bits :: "bitstr \<Rightarrow> int \<Rightarrow> bitstr \<Rightarrow> int \<Rightarrow> int \<Rightarrow> (bitstr \<times> int) option" where
  "pick_bits b nbits new i count =
     (if i < b_bits b \<and> count < nbits then do {
        t \<leftarrow> bit_test b i;
        if t then do { new' \<leftarrow> bit_set new i; pick_bits b nbits new' (i + 1) (count + 1) }
        else pick_bits b nbits new (i + 1) count
      } else Some (new, count))"
  by pat_completeness auto
termination
  by (relation "measure (\<lambda>(b, _, _, i, _). nat (b_bits b - i))") auto

text \<open>The inner loop ends only where the outer loop ends too.\<close>

function pick_words :: "bitstr \<Rightarrow> int \<Rightarrow> bitstr \<Rightarrow> int \<Rightarrow> int \<Rightarrow> (bitstr \<times> int) option" where
  "pick_words b nbits new i count =
     (if i < b_bits b \<and> count < nbits then do {
        w \<leftarrow> word_at b i;
        if w = 0 then pick_words b nbits new (i + 32) count
        else if count + uint (hweight w) \<le> nbits \<and> i + 32 - 1 < b_bits b then do {
          new' \<leftarrow> set_word_at new i w;
          pick_words b nbits new' (i + 32) (count + uint (hweight w))
        } else pick_bits b nbits new i count
      } else Some (new, count))"
  by pat_completeness auto
termination
  by (relation "measure (\<lambda>(b, _, _, i, _). nat (b_bits b - i))") auto

declare pick_bits.simps [simp del] pick_words.simps [simp del]

text \<open>The result of \<^verbatim>\<open>bit_pick_cnt\<close> is a pointer; NULL is the inner \<^const>\<open>None\<close>.\<close>

definition bit_pick_cnt :: "bitstr \<Rightarrow> int \<Rightarrow> bitstr option option" where
  "bit_pick_cnt b nbits = do {
     assert_bitstr_valid b;
     if b_bits b < nbits then Some None
     else do {
       n \<leftarrow> bit_size b;
       new \<leftarrow> bit_alloc n;
       (new, count) \<leftarrow> pick_words b nbits new 0 0;
       if count < nbits then do { bit_free new; Some None } else Some (Some new)
     }
   }"


section \<open>Range lists\<close>

definition BITSTR_SINGLE_FMT :: "int \<Rightarrow> string" where
  "BITSTR_SINGLE_FMT start = decimal (nat start) @ '',''"

definition BITSTR_RANGE_FMT :: "int \<Rightarrow> int \<Rightarrow> string" where
  "BITSTR_RANGE_FMT start i = decimal (nat start) @ ''-'' @ decimal (nat i) @ '',''"

text \<open>\<^verbatim>\<open>snprintf(str+strlen(str), len-strlen(str), ...)\<close>\<close>

definition append_text :: "nat \<Rightarrow> string \<Rightarrow> string \<Rightarrow> string" where
  "append_text len str s = str @ take (len - length str - 1) s"

function run_end :: "bitstr \<Rightarrow> int \<Rightarrow> int option" where
  "run_end b i =
     (if i + 1 < b_bits b
      then do { t \<leftarrow> bit_test b (i + 1); if t then run_end b (i + 1) else Some i }
      else Some i)"
  by pat_completeness auto
termination
  by (relation "measure (\<lambda>(b, i). nat (b_bits b - i))") auto

declare run_end.simps [simp del]

lemma run_end_ge: "run_end b i = Some j \<Longrightarrow> i \<le> j"
proof (induction b i arbitrary: j rule: run_end.induct)
  case (1 b i)
  show ?case
  proof (cases "run_end b (i + 1) = Some j \<and> i + 1 < b_bits b \<and> bit_test b (i + 1) = Some True")
    case True
    with "1.IH" [of True] show ?thesis by auto
  next
    case False
    with "1.prems" show ?thesis
      by (subst (asm) run_end.simps) (auto simp: bind_eq_Some_conv split: if_splits)
  qed
qed

function fmt_loop :: "bitstr \<Rightarrow> nat \<Rightarrow> int \<Rightarrow> string \<Rightarrow> nat \<Rightarrow> (string \<times> nat) option" where
  "fmt_loop b len i str count =
     (if i < b_bits b then do {
        w \<leftarrow> word_at b i;
        if w = 0 then fmt_loop b len (i + 32) str count
        else do {
          t \<leftarrow> bit_test b i;
          if t then do {
            j \<leftarrow> run_end b i;
            fmt_loop b len (j + 1)
              (append_text len str (if j = i then BITSTR_SINGLE_FMT i else BITSTR_RANGE_FMT i j)) (count + 1)
          } else fmt_loop b len (i + 1) str count
        }
      } else Some (str, count))"
  by pat_completeness auto
termination
  by (relation "measure (\<lambda>(b, _, i, _, _). nat (b_bits b - i))") (auto dest: run_end_ge)

declare fmt_loop.simps [simp del]

definition bit_fmt :: "nat \<Rightarrow> bitstr \<Rightarrow> string option" where
  "bit_fmt len b = do {
     assert_bitstr_valid b;
     assertC (len > 0);
     (str, count) \<leftarrow> fmt_loop b len 0 [] 0;
     assertC (count > 0 \<longrightarrow> str \<noteq> []);
     let str = (if count > 0 then butlast str else str);
     if count > 1 then do {
       assertC (length str + 3 < len);
       Some (''['' @ str @ '']'')
     } else Some str
   }"

text \<open>
  The loop of \<^verbatim>\<open>bitfmt2int\<close> reads the characters and the final NUL; it breaks off at a comma or the
  NUL in the first place.
\<close>

fun fmt2int_loop :: "nat \<Rightarrow> string \<Rightarrow> int \<Rightarrow> int \<Rightarrow> int list \<Rightarrow> int list option" where
  "fmt2int_loop i [] acc start_val out = Some out"
| "fmt2int_loop i (c # cs) acc start_val out =
     (if CHR ''0'' \<le> c \<and> c \<le> CHR ''9'' then do {
        let s = acc * 10 + (int (of_char c) - 48);
        assertC (s < 2 ^ 31);
        fmt2int_loop (i + 1) cs s start_val out
      }
      else if c = CHR ''-'' then fmt2int_loop (i + 1) cs 0 acc out
      else if c = CHR '','' \<or> c = CHR 0x00 then
        if i = 0 then Some out
        else fmt2int_loop (i + 1) cs 0 (-1) (out @ [if start_val = -1 then acc else start_val, acc])
      else fmt2int_loop (i + 1) cs acc start_val out)"

definition bitfmt2int :: "string \<Rightarrow> int list option" where
  "bitfmt2int s = do {
     out \<leftarrow> fmt2int_loop 0 (s @ [CHR 0x00]) 0 (-1) [];
     assertC (length out < (length s + 1) * 2 + 1);
     Some (out @ [-1])
   }"

fun unfmt_ranges :: "bitstr \<Rightarrow> int list \<Rightarrow> (bitstr \<times> int) option" where
  "unfmt_ranges b (p # q # ps) =
     (if p = -1 then Some (b, 0)
      else if p < 0 \<or> p \<ge> b_bits b \<or> q < 0 \<or> q \<ge> b_bits b then Some (b, -1)
      else do { b' \<leftarrow> bit_nset b p q; unfmt_ranges b' ps })"
| "unfmt_ranges b [p] = (if p = -1 then Some (b, 0) else None)"
| "unfmt_ranges b [] = None"

definition bit_unfmt :: "bitstr \<Rightarrow> string \<Rightarrow> (bitstr \<times> int) option" where
  "bit_unfmt b str = do {
     assert_bitstr_valid b;
     if str = [] then Some (b, 0)
     else do {
       intvec \<leftarrow> bitfmt2int str;
       b' \<leftarrow> bit_nclear b 0 (b_bits b - 1);
       unfmt_ranges b' intvec
     }
   }"


section \<open>Masks\<close>

definition test_below :: "bitstr \<Rightarrow> int \<Rightarrow> bool option" where
  "test_below b i = (if i < b_bits b then bit_test b i else Some False)"

definition hex_char :: "nat \<Rightarrow> char" where
  "hex_char v = (if v \<le> 9 then char_of (v + 48) else char_of (v + 65 - 10))"

function hex_loop :: "bitstr \<Rightarrow> int \<Rightarrow> string \<Rightarrow> string option" where
  "hex_loop b i acc =
     (if i < b_bits b then do {
        t0 \<leftarrow> bit_test b i;
        t1 \<leftarrow> test_below b (i + 1);
        t2 \<leftarrow> test_below b (i + 2);
        t3 \<leftarrow> test_below b (i + 3);
        hex_loop b (min (b_bits b) (i + 4))
          (hex_char (of_bool t0 + 2 * of_bool t1 + 4 * of_bool t2 + 8 * of_bool t3) # acc)
      } else Some acc)"
  by pat_completeness auto
termination
  by (relation "measure (\<lambda>(b, i, _). nat (b_bits b - i))") auto

declare hex_loop.simps [simp del]

definition bit_fmt_hexmask :: "bitstr \<Rightarrow> string option" where
  "bit_fmt_hexmask b = do {
     bitsize \<leftarrow> bit_size b;
     digits \<leftarrow> hex_loop b 0 [];
     Some (''0x'' @ digits)
   }"

definition is_xdigit :: "char \<Rightarrow> bool" where
  "is_xdigit c \<longleftrightarrow> is_digit c \<or> (CHR ''a'' \<le> c \<and> c \<le> CHR ''f'') \<or> (CHR ''A'' \<le> c \<and> c \<le> CHR ''F'')"

definition to_upper :: "char \<Rightarrow> nat" where
  "to_upper c = (if CHR ''a'' \<le> c \<and> c \<le> CHR ''z'' then of_char c - 32 else of_char c)"

definition hex_value :: "char \<Rightarrow> nat" where
  "hex_value c =
     (if is_xdigit c then if is_digit c then of_char c - 48 else to_upper c - (65 - 10) else 0)"

definition set_if :: "bool \<Rightarrow> bitstr \<Rightarrow> int \<Rightarrow> bitstr option" where
  "set_if v b i = (if v \<and> i < b_bits b then bit_set b i else Some b)"

text \<open>The characters are read from the last to the first.\<close>

fun unhex_loop :: "bitstr \<Rightarrow> string \<Rightarrow> int \<Rightarrow> int \<Rightarrow> (bitstr \<times> int) option" where
  "unhex_loop b [] i rc = Some (b, rc)"
| "unhex_loop b (c # cs) i rc = do {
     let v = hex_value c;
     b \<leftarrow> set_if (bit v 0) b i;
     b \<leftarrow> set_if (bit v 1) b (i + 1);
     b \<leftarrow> set_if (bit v 2) b (i + 2);
     b \<leftarrow> set_if (bit v 3) b (i + 3);
     unhex_loop b cs (i + 4) (if is_xdigit c then rc else -1)
   }"

definition bit_unfmt_hexmask :: "bitstr \<Rightarrow> string \<Rightarrow> (bitstr \<times> int) option" where
  "bit_unfmt_hexmask b str = do {
     bitsize \<leftarrow> bit_size b;
     let digits = (if take 2 str = ''0x'' then drop 2 str else str);
     unhex_loop b (rev digits) 0 0
   }"

function bin_loop :: "bitstr \<Rightarrow> int \<Rightarrow> string \<Rightarrow> string option" where
  "bin_loop b i acc =
     (if i < b_bits b
      then do { t \<leftarrow> bit_test b i; bin_loop b (i + 1) (char_of (of_bool t + 48 :: nat) # acc) }
      else Some acc)"
  by pat_completeness auto
termination
  by (relation "measure (\<lambda>(b, i, _). nat (b_bits b - i))") auto

declare bin_loop.simps [simp del]

definition bit_fmt_binmask :: "bitstr \<Rightarrow> string option" where
  "bit_fmt_binmask b = do { bitsize \<leftarrow> bit_size b; bin_loop b 0 [] }"

text \<open>The value of a character is its code minus that of 0, of which the lowest bit counts.\<close>

fun unbin_loop :: "bitstr \<Rightarrow> string \<Rightarrow> int \<Rightarrow> bitstr option" where
  "unbin_loop b [] i = Some b"
| "unbin_loop b (c # cs) i = do {
     b \<leftarrow> set_if (bit (int (of_char c) - 48) 0) b i;
     unbin_loop b cs (i + 1)
   }"

definition bit_unfmt_binmask :: "bitstr \<Rightarrow> string \<Rightarrow> (bitstr \<times> int) option" where
  "bit_unfmt_binmask b str = do {
     bitsize \<leftarrow> bit_size b;
     b' \<leftarrow> unbin_loop b (rev str) 0;
     Some (b', 0)
   }"

end
