(* ===== verification/Bitformat_Laws.thy ===== *)
theory Bitformat_Laws
  imports Bitformat
begin

text \<open>
  What \<^verbatim>\<open>Bitformat\<close> computes: where rotation moves each bit, which bits are picked, and that the
  printed forms are read back: masks and range lists.
\<close>


section \<open>Rotation\<close>

lemma copy_bits_spec:
  assumes wf1: "wf_bitstr b1"
  shows "wf_bitstr new \<Longrightarrow> 0 \<le> i \<Longrightarrow> 0 \<le> dst \<Longrightarrow> stop \<le> b_bits b1 \<Longrightarrow> dst + (stop - i) \<le> b_bits new \<Longrightarrow>
    \<exists>r. copy_bits b1 new i dst stop = Some r \<and> wf_bitstr r \<and> b_bits r = b_bits new \<and> b_magic r = b_magic new \<and>
      (\<forall>k. 0 \<le> k \<and> k < b_bits new \<longrightarrow> bits_of r ! nat k =
        (bits_of new ! nat k \<or> (dst \<le> k \<and> k < dst + (stop - i) \<and> bits_of b1 ! nat (i + k - dst))))"
proof (induction "nat (stop - i)" arbitrary: new i dst rule: less_induct)
  case less
  show ?case
  proof (cases "i < stop")
    case False
    with less.prems show ?thesis by (subst copy_bits.simps) auto
  next
    case True
    let ?t = "bits_of b1 ! nat i"
    have t: "bit_test b1 i = Some ?t" using bit_test_wf [OF wf1, of i] less.prems True by simp
    obtain new' where n: "(if ?t then bit_set new dst else Some new) = Some new'" "wf_bitstr new'"
      "b_bits new' = b_bits new" "b_magic new' = b_magic new"
      "bits_of new' = (if ?t then (bits_of new)[nat dst := True] else bits_of new)"
      using set1.upd [OF less.prems(1), of dst] less.prems True by (cases ?t) auto
    have "copy_bits b1 new i dst stop = copy_bits b1 new' (i + 1) (dst + 1) stop"
      using True t n(1) by (subst copy_bits.simps) simp
    moreover from less.hyps [of "i + 1" new' "dst + 1"] less.prems True n obtain r where
      r: "copy_bits b1 new' (i + 1) (dst + 1) stop = Some r" "wf_bitstr r" "b_bits r = b_bits new"
      "b_magic r = b_magic new"
      "\<And>k. 0 \<le> k \<Longrightarrow> k < b_bits new \<Longrightarrow> bits_of r ! nat k =
        (bits_of new' ! nat k \<or> (dst + 1 \<le> k \<and> k < dst + 1 + (stop - (i + 1)) \<and> bits_of b1 ! nat (i + 1 + k - (dst + 1))))"
      by auto
    moreover have "bits_of r ! nat k =
        (bits_of new ! nat k \<or> (dst \<le> k \<and> k < dst + (stop - i) \<and> bits_of b1 ! nat (i + k - dst)))"
      if k: "0 \<le> k" "k < b_bits new" for k
    proof (cases "k = dst")
      case True
      then show ?thesis using r(5) [OF k] n(5) \<open>i < stop\<close> k by auto
    next
      case False
      then have "bits_of new' ! nat k = bits_of new ! nat k" using n(5) k less.prems(3) by (auto simp: nth_list_update)
      with False show ?thesis using r(5) [OF k] by (auto simp: algebra_simps)
    qed
    ultimately show ?thesis by auto
  qed
qed

lemma crem_mod: "0 < d \<Longrightarrow> (if crem n d < 0 then crem n d + d else crem n d) = n mod d"
proof -
  assume d: "0 < d"
  show ?thesis
  proof (cases "n < 0")
    case False
    then have "crem n d = n mod d" using d by (cases "n = 0") (simp_all add: crem_def)
    moreover have "\<not> n mod d < 0" using pos_mod_sign [OF d, of n] by linarith
    ultimately show ?thesis by (simp only: if_False)
  next
    case True
    have c: "crem n d = - ((- n) mod d)" using True d by (simp add: crem_def)
    have "0 \<le> (- n) mod d" "(- n) mod d < d" using d by simp_all
    moreover have "n mod d = (if (- n) mod d = 0 then 0 else d - (- n) mod d)"
      using zmod_zminus1_eq_if [of "- n" d] by simp
    moreover have "0 \<le> r \<Longrightarrow> r < d \<Longrightarrow> x = (if r = 0 then 0 else d - r) \<Longrightarrow> (if - r < 0 then - r + d else - r) = x"
      for r x :: int by auto
    ultimately show ?thesis unfolding c by blast
  qed
qed

lemma rotate_copy_bits:
  assumes wf: "wf_bitstr b" and n: "0 < nbits" "b_bits b \<le> nbits" "nbits < 2 ^ 31 - 64"
  shows "\<exists>r. bit_rotate_copy b n nbits = Some r \<and> wf_bitstr r \<and> b_bits r = nbits \<and> b_magic r = BITSTR_MAGIC \<and>
    (\<forall>k. 0 \<le> k \<and> k < nbits \<longrightarrow>
      bits_of r ! nat k = ((k - n) mod nbits < b_bits b \<and> bits_of b ! nat ((k - n) mod nbits)))"
proof -
  define m where "m = n mod nbits"
  have m: "0 \<le> m" "m < nbits" using n by (simp_all add: m_def)
  define w where "w = (if m > nbits - b_bits b then m - (nbits - b_bits b) else 0)"
  have w: "0 \<le> w" "w \<le> b_bits b" "m + b_bits b - w \<le> nbits" "0 < w \<Longrightarrow> m + b_bits b - w = nbits"
    using m n wf_nbits [OF wf] by (auto simp: w_def)
  obtain z where z: "bit_alloc nbits = Some z" "wf_bitstr z" "b_bits z = nbits" "b_magic z = BITSTR_MAGIC"
    "bits_of z = replicate (nat nbits) False"
    using wf_alloc [of nbits] n by auto
  obtain c where c: "bit_nclear z 0 (nbits - 1) = Some c" "wf_bitstr c" "b_bits c = nbits" "b_magic c = BITSTR_MAGIC"
    "bits_of c = fill_range (bits_of z) 0 (nbits - 1) False"
    using nclear.fill_ok [OF z(2), of 0 "nbits - 1"] z n by (auto simp: bit_nclear_def)
  have clear: "\<not> bits_of c ! nat k" if "0 \<le> k" "k < nbits" for k
    using that z(3,5) by (simp add: c(5) nth_fill_range)
  obtain u where u: "copy_bits b c 0 m (b_bits b - w) = Some u" "wf_bitstr u" "b_bits u = nbits" "b_magic u = BITSTR_MAGIC"
    "\<And>k. 0 \<le> k \<Longrightarrow> k < nbits \<Longrightarrow> bits_of u ! nat k =
      (m \<le> k \<and> k < m + (b_bits b - w) \<and> bits_of b ! nat (k - m))"
    using copy_bits_spec [OF wf c(2), of 0 m "b_bits b - w"] m w c clear by auto
  obtain r where r: "copy_bits b u (b_bits b - w) 0 (b_bits b) = Some r" "wf_bitstr r" "b_bits r = nbits"
    "b_magic r = BITSTR_MAGIC"
    "\<And>k. 0 \<le> k \<Longrightarrow> k < nbits \<Longrightarrow> bits_of r ! nat k =
      (bits_of u ! nat k \<or> (k < w \<and> bits_of b ! nat (b_bits b - w + k)))"
    using copy_bits_spec [OF wf u(2), of "b_bits b - w" 0 "b_bits b"] w u(3,4) n by (auto simp: algebra_simps)
  have res: "bit_rotate_copy b n nbits = Some r"
  proof -
    have size: "bit_size b = Some (b_bits b)" by (simp add: bit_size_def wf_valid [OF wf])
    have max: "max 0 (b_bits b - w) = b_bits b - w" using w by simp
    show ?thesis
      unfolding bit_rotate_copy_def Let_def crem_mod [OF n(1)] m_def [symmetric] wf_valid [OF wf] size
        bind.bind_lunit assertC_True [OF n(2)] w_def [symmetric]
      using n(1) by (simp add: w_def [symmetric] z(1) c(1) u(1) r(1) max)
  qed
  have "bits_of r ! nat k = ((k - n) mod nbits < b_bits b \<and> bits_of b ! nat ((k - n) mod nbits))"
    if k: "0 \<le> k" "k < nbits" for k
  proof -
    have e: "(k - n) mod nbits = (k - m) mod nbits" unfolding m_def by (simp add: mod_diff_right_eq)
    show ?thesis
    proof (cases "m \<le> k")
      case True
      then have "(k - m) mod nbits = k - m" using k m by simp
      then show ?thesis unfolding e using r(5) [OF k] u(5) [OF k] True k m w n(2) wf_nbits [OF wf]
        by (auto simp: w_def split: if_splits)
    next
      case False
      have "(k - m) mod nbits = (k - m + nbits) mod nbits" by simp
      also have "\<dots> = k - m + nbits" by (rule mod_pos_pos_trivial) (use False k m in auto)
      finally have e': "(k - m) mod nbits = k - m + nbits" .
      show ?thesis unfolding e e' using r(5) [OF k] u(5) [OF k] False k m w wf_nbits [OF wf] n
        by (auto simp: w_def algebra_simps split: if_splits)
    qed
  qed
  with res r show ?thesis by blast
qed

lemma rotate_moves:
  assumes wf: "wf_bitstr b" and size: "0 < b_bits b"
  shows "\<exists>r. bit_rotate b n = Some r \<and> wf_bitstr r \<and> b_bits r = b_bits b \<and> b_magic r = b_magic b \<and>
    (\<forall>i. 0 \<le> i \<and> i < b_bits b \<longrightarrow> bits_of r ! nat ((i + n) mod b_bits b) = bits_of b ! nat i)"
proof (cases "n = 0")
  case True
  with wf show ?thesis by (simp add: bit_rotate_def)
next
  case False
  have lim: "b_bits b < 2 ^ 31 - 64" using wf by (simp add: wf_bitstr_def)
  obtain c where c: "bit_rotate_copy b n (b_bits b) = Some c" "wf_bitstr c" "b_bits c = b_bits b"
    "b_magic c = BITSTR_MAGIC"
    "\<And>k. 0 \<le> k \<Longrightarrow> k < b_bits b \<Longrightarrow> bits_of c ! nat k = bits_of b ! nat ((k - n) mod b_bits b)"
    using rotate_copy_bits [OF wf size order_refl lim, of n] size by auto
  obtain r where r: "bit_copybits b c = Some r" "wf_bitstr r" "b_magic r = b_magic b" "bits_of r = bits_of c"
    using bit_copy_into [OF wf c(2)] c(3) by auto
  have br: "b_bits r = b_bits b"
    using arg_cong [OF r(4), of length] c(3) size wf_nbits [OF r(2)] by simp
  have "bits_of r ! nat ((i + n) mod b_bits b) = bits_of b ! nat i" if "0 \<le> i" "i < b_bits b" for i
  proof -
    have "((i + n) mod b_bits b - n) mod b_bits b = i"
      using that by (simp add: mod_diff_left_eq)
    then show ?thesis using c(5) [of "(i + n) mod b_bits b"] size by (simp add: r(4))
  qed
  moreover have "bit_rotate b n = Some r"
    using False c(1,4) r(1) by (simp add: bit_rotate_def bit_size_def wf_valid [OF wf] bit_free_def)
  ultimately show ?thesis using r(2,3) br by blast
qed

text \<open>
  C34: \<^verbatim>\<open>bit_rotate\<close> moves bit \<open>i\<close> to \<open>i + n\<close> modulo the size, for positive, negative and large \<open>n\<close>, and keeps
  size and cookie.
\<close>

theorem bit_rotate_moves:
  assumes wf: "wf_bitstr b" and size: "0 < b_bits b"
  shows "\<exists>r. bit_rotate b n = Some r \<and> wf_bitstr r \<and> b_bits r = b_bits b \<and> b_magic r = b_magic b \<and>
    (\<forall>i. 0 \<le> i \<and> i < b_bits b \<longrightarrow> bits_of r ! nat ((i + n) mod b_bits b) = bits_of b ! nat i)"
  using rotate_moves [OF assms] .

text \<open>Rotating by \<open>n\<close> and then by \<open>-n\<close> restores every bit.\<close>

theorem bit_rotate_back:
  assumes wf: "wf_bitstr b" and size: "0 < b_bits b"
  shows "\<exists>r s. bit_rotate b n = Some r \<and> bit_rotate r (- n) = Some s \<and> bits_of s = bits_of b"
proof -
  obtain r where r: "bit_rotate b n = Some r" "wf_bitstr r" "b_bits r = b_bits b"
    "\<And>i. 0 \<le> i \<Longrightarrow> i < b_bits b \<Longrightarrow> bits_of r ! nat ((i + n) mod b_bits b) = bits_of b ! nat i"
    using rotate_moves [OF wf size, of n] by auto
  obtain s where s: "bit_rotate r (- n) = Some s" "b_bits s = b_bits b"
    "\<And>i. 0 \<le> i \<Longrightarrow> i < b_bits b \<Longrightarrow> bits_of s ! nat ((i + - n) mod b_bits b) = bits_of r ! nat i"
    using rotate_moves [OF r(2), of "- n"] r(3) size by auto
  have "bits_of s = bits_of b"
  proof (rule nth_equalityI)
    fix k assume "k < length (bits_of s)"
    then have k: "int k < b_bits b" using s(2) by auto
    have "((int k + n) mod b_bits b + - n) mod b_bits b = int k"
      using k by (simp add: mod_diff_left_eq)
    then show "bits_of s ! k = bits_of b ! k"
      using s(3) [of "(int k + n) mod b_bits b"] r(4) [of "int k"] k size by simp
  qed (simp add: s(2))
  with r s show ?thesis by blast
qed



section \<open>Picking\<close>

lemma pick_bits_spec:
  assumes wf: "wf_bitstr b"
  shows "wf_bitstr new \<Longrightarrow> b_bits new = b_bits b \<Longrightarrow> 0 \<le> i \<Longrightarrow> i \<le> b_bits b \<Longrightarrow> count \<le> nbits \<Longrightarrow>
    \<forall>k. i \<le> k \<and> k < b_bits b \<longrightarrow> \<not> bits_of new ! nat k \<Longrightarrow>
    \<exists>r c. pick_bits b nbits new i count = Some (r, c) \<and> wf_bitstr r \<and> b_bits r = b_bits b \<and> b_magic r = b_magic new \<and>
      c = min nbits (count + count_in (\<lambda>k. bits_of b ! nat k) i (b_bits b)) \<and>
      (\<forall>k. 0 \<le> k \<and> k < b_bits b \<longrightarrow> bits_of r ! nat k =
        (if k < i then bits_of new ! nat k
         else bits_of b ! nat k \<and> count + count_in (\<lambda>k. bits_of b ! nat k) i k < nbits))"
proof (induction "nat (b_bits b - i)" arbitrary: new i count rule: less_induct)
  case less
  let ?P = "\<lambda>k. bits_of b ! nat k"
  show ?case
  proof (cases "i < b_bits b \<and> count < nbits")
    case False
    have pos: "0 \<le> count_in ?P i k" for k by (simp add: count_in_def)
    have "pick_bits b nbits new i count = Some (new, count)" using False by (subst pick_bits.simps) auto
    moreover have "count = min nbits (count + count_in ?P i (b_bits b))"
      using False less.prems(4,5) pos [of "b_bits b"] by (cases "i < b_bits b") auto
    moreover have "\<not> count + count_in ?P i k < nbits" if "i \<le> k" "k < b_bits b" for k
      using False that pos [of k] by auto
    ultimately show ?thesis using less.prems by auto
  next
    case True
    then have t: "bit_test b i = Some (?P i)" using bit_test_wf [OF wf] less.prems by simp
    obtain new' where n: "(if ?P i then bit_set new i else Some new) = Some new'" "wf_bitstr new'"
      "b_bits new' = b_bits b" "b_magic new' = b_magic new"
      "bits_of new' = (if ?P i then (bits_of new)[nat i := True] else bits_of new)"
      using set1.upd [OF less.prems(1), of i] less.prems True by (cases "?P i") auto
    let ?c = "count + of_bool (?P i)"
    have step: "pick_bits b nbits new i count = pick_bits b nbits new' (i + 1) ?c"
      using True t n(1) by (subst pick_bits.simps) auto
    have cnt: "count + count_in ?P i k = ?c + count_in ?P (i + 1) k" if "i < k" for k
      using count_in_first [OF that, of ?P] by simp
    have "\<forall>k. i + 1 \<le> k \<and> k < b_bits b \<longrightarrow> \<not> bits_of new' ! nat k"
      using less.prems(3,6) n(5) by (auto simp: nth_list_update)
    moreover have "?c \<le> nbits" using True by (cases "?P i") auto
    ultimately obtain r where
      r: "pick_bits b nbits new' (i + 1) ?c = Some (r, min nbits (?c + count_in ?P (i + 1) (b_bits b)))"
      "wf_bitstr r" "b_bits r = b_bits b" "b_magic r = b_magic new"
      "\<And>k. 0 \<le> k \<Longrightarrow> k < b_bits b \<Longrightarrow> bits_of r ! nat k =
        (if k < i + 1 then bits_of new' ! nat k else ?P k \<and> ?c + count_in ?P (i + 1) k < nbits)"
      using less.hyps [of "i + 1" new' ?c] less.prems True n(2-4) by auto
    have "bits_of r ! nat k = (if k < i then bits_of new ! nat k else ?P k \<and> count + count_in ?P i k < nbits)"
      if k: "0 \<le> k" "k < b_bits b" for k
    proof (cases "k = i")
      case eq: True
      then show ?thesis using r(5) [OF k] n(5) less.prems True by auto
    next
      case False
      then show ?thesis using r(5) [OF k] n(5) k cnt [of k] less.prems(3)
        by (auto simp: nth_list_update)
    qed
    with r step cnt [of "b_bits b"] True show ?thesis by auto
  qed
qed

lemma set_word_bits:
  assumes wf: "wf_bitstr b" "wf_bitstr new" and n: "b_bits new = b_bits b"
    and i: "0 \<le> i" "i mod 32 = 0" "i + 32 \<le> b_bits b" and w: "word_at b i = Some w"
  shows "\<exists>new'. set_word_at new i w = Some new' \<and> wf_bitstr new' \<and> b_bits new' = b_bits b \<and>
    b_magic new' = b_magic new \<and>
    (\<forall>k. 0 \<le> k \<and> k < b_bits b \<longrightarrow> bits_of new' ! nat k =
      (if i \<le> k \<and> k < i + 32 then bits_of b ! nat k else bits_of new ! nat k))"
proof -
  let ?new = "new\<lparr>b_words := (b_words new)[nat i div 32 := w]\<rparr>"
  have w': "w = b_words b ! (nat i div 32)" using word_at_wf [OF wf(1) i(1)] w i(3) by simp
  have "bits_of ?new ! nat k = (if i \<le> k \<and> k < i + 32 then bits_of b ! nat k else bits_of new ! nat k)"
    if k: "0 \<le> k" "k < b_bits b" for k
  proof (cases "i \<le> k \<and> k < i + 32")
    case True
    then have "nat k div 32 = nat i div 32" by (intro same_word [OF i(2,1)]) auto
    then show ?thesis
      using bits_of_set_word [OF wf(2) i(1), of "nat k" w] True k i n w' by (simp add: nth_bits_of)
  next
    case False
    have "nat k div 32 \<noteq> nat i div 32"
    proof
      assume eq: "nat k div 32 = nat i div 32"
      have "nat i = 32 * (nat i div 32)" using i(1,2) by (metis mult_div_mod_eq nat_0 nat_mod_distrib nat_numeral add.right_neutral zero_le_numeral)
      moreover have "32 * (nat k div 32) \<le> nat k" "nat k < 32 * (nat k div 32) + 32"
        by simp_all
      ultimately show False using eq False k i by linarith
    qed
    then show ?thesis
      using bits_of_set_word [OF wf(2) i(1), of "nat k" w] False k i n by auto
  qed
  moreover have "set_word_at new i w = Some ?new" "wf_bitstr ?new"
    using set_word_at_wf [OF wf(2) i(1)] i n wf_upd_words [OF wf(2)] by simp_all
  ultimately show ?thesis using n by simp
qed

lemma count_in_zero: "(\<And>k. i \<le> k \<Longrightarrow> k < j \<Longrightarrow> \<not> P k) \<Longrightarrow> count_in P i j = 0"
  by (auto simp: count_in_def popcount_def filter_empty_conv)

lemma count_in_mono: "i \<le> j \<Longrightarrow> j \<le> k \<Longrightarrow> count_in P i j \<le> count_in P i k"
  using count_in_split [of i j k P] by (simp add: count_in_def)

lemma count_in_nonneg: "0 \<le> count_in P i j"
  by (simp add: count_in_def)

lemma count_in_less: "i \<le> k \<Longrightarrow> k < j \<Longrightarrow> P k \<Longrightarrow> count_in P i k < count_in P i j"
  using count_in_split [of i k j P] count_in_first [of k j P] count_in_nonneg [of P "k + 1" j] by simp

lemma word_count:
  assumes wf: "wf_bitstr b" and i: "0 \<le> i" "i mod 32 = 0" "i + 32 \<le> b_bits b" and w: "word_at b i = Some w"
  shows "uint (hweight w) = count_in (\<lambda>k. bits_of b ! nat k) i (i + 32)"
proof -
  obtain w' where w': "word_at b i = Some w'" "\<forall>j<32. bit w' j = bits_of b ! nat (i + int j)"
    using data_word_bits [OF wf i] by auto
  have "map (bit w) [0..<32] = map (\<lambda>k. bits_of b ! nat k) [i..i + 32 - 1]"
    by (rule nth_equalityI) (use w w' in \<open>auto simp: nth_upto\<close>)
  then show ?thesis by (simp add: count_in_def hweight_popcount uint_nat)
qed

lemma zero_word:
  assumes wf: "wf_bitstr b" and i: "0 \<le> i" "i mod 32 = 0" "i \<le> k" "k < i + 32" "k < b_bits b"
    and w: "word_at b i = Some 0"
  shows "\<not> bits_of b ! nat k"
proof -
  have "nat k div 32 = nat i div 32" using same_word [OF i(2,1,3,4)] .
  then show ?thesis using w word_at_wf [OF wf i(1)] i by (simp add: nth_bits_of)
qed

lemma pick_words_spec:
  assumes wf: "wf_bitstr b"
  shows "wf_bitstr new \<Longrightarrow> b_bits new = b_bits b \<Longrightarrow> 0 \<le> i \<Longrightarrow> i mod 32 = 0 \<Longrightarrow> count \<le> nbits \<Longrightarrow>
    \<forall>k. i \<le> k \<and> k < b_bits b \<longrightarrow> \<not> bits_of new ! nat k \<Longrightarrow>
    \<exists>r c. pick_words b nbits new i count = Some (r, c) \<and> wf_bitstr r \<and> b_bits r = b_bits b \<and> b_magic r = b_magic new \<and>
      c = min nbits (count + count_in (\<lambda>k. bits_of b ! nat k) i (b_bits b)) \<and>
      (\<forall>k. 0 \<le> k \<and> k < b_bits b \<longrightarrow> bits_of r ! nat k =
        (if k < i then bits_of new ! nat k
         else bits_of b ! nat k \<and> count + count_in (\<lambda>k. bits_of b ! nat k) i k < nbits))"
proof (induction "nat (b_bits b - i)" arbitrary: new i count rule: less_induct)
  case less
  let ?P = "\<lambda>k. bits_of b ! nat k"
  show ?case
  proof (cases "i < b_bits b \<and> count < nbits")
    case False
    have "pick_words b nbits new i count = Some (new, count)" using False by (subst pick_words.simps) auto
    moreover have "count = min nbits (count + count_in ?P i (b_bits b))"
      using False less.prems(5) count_in_nonneg [of ?P i "b_bits b"] by (cases "i < b_bits b") auto
    moreover have "\<not> count + count_in ?P i k < nbits" if "i \<le> k" "k < b_bits b" for k
      using False that count_in_nonneg [of ?P i k] by auto
    ultimately show ?thesis using less.prems by auto
  next
    case True
    obtain w where w: "word_at b i = Some w" using word_at_wf [OF wf less.prems(3)] True by simp
    consider (zero) "w = 0" | (full) "w \<noteq> 0" "count + uint (hweight w) \<le> nbits" "i + 32 - 1 < b_bits b"
      | (bits) "w \<noteq> 0" "\<not> (count + uint (hweight w) \<le> nbits \<and> i + 32 - 1 < b_bits b)"
      by blast
    then show ?thesis
    proof cases
      case zero
      have clear: "\<not> ?P k" if "i \<le> k" "k < i + 32" "k < b_bits b" for k
        using zero_word [OF wf less.prems(3,4) that] w zero by simp
      have step: "pick_words b nbits new i count = pick_words b nbits new (i + 32) count"
        using True w zero by (subst pick_words.simps) simp
      have cnt: "count_in ?P i k = count_in ?P (i + 32) k" if k: "k \<le> b_bits b" for k
      proof (cases "i + 32 \<le> k")
        case True
        then show ?thesis using count_in_split [of i "i + 32" k ?P] count_in_zero [of i "i + 32" ?P] clear k by auto
      next
        case False
        then show ?thesis using count_in_zero [of i k ?P] clear k by auto
      qed
      have "\<forall>k. i + 32 \<le> k \<and> k < b_bits b \<longrightarrow> \<not> bits_of new ! nat k" using less.prems(6) by auto
      with less.hyps [of "i + 32" new count] less.prems True obtain r where
        r: "pick_words b nbits new (i + 32) count = Some (r, min nbits (count + count_in ?P (i + 32) (b_bits b)))"
        "wf_bitstr r" "b_bits r = b_bits b" "b_magic r = b_magic new"
        "\<And>k. 0 \<le> k \<Longrightarrow> k < b_bits b \<Longrightarrow> bits_of r ! nat k =
          (if k < i + 32 then bits_of new ! nat k else ?P k \<and> count + count_in ?P (i + 32) k < nbits)"
        by auto
      have "bits_of r ! nat k = (if k < i then bits_of new ! nat k else ?P k \<and> count + count_in ?P i k < nbits)"
        if k: "0 \<le> k" "k < b_bits b" for k
        using r(5) [OF k] cnt [of k] clear [of k] less.prems(6) k by auto
      with r step cnt [of "b_bits b"] show ?thesis by auto
    next
      case full
      have i32: "i + 32 \<le> b_bits b" using full by simp
      obtain new' where n: "set_word_at new i w = Some new'" "wf_bitstr new'" "b_bits new' = b_bits b"
        "b_magic new' = b_magic new"
        "\<And>k. 0 \<le> k \<Longrightarrow> k < b_bits b \<Longrightarrow> bits_of new' ! nat k =
          (if i \<le> k \<and> k < i + 32 then ?P k else bits_of new ! nat k)"
        using set_word_bits [OF wf less.prems(1,2,3,4) i32 w] by auto
      let ?c = "count + uint (hweight w)"
      note wc = word_count [OF wf less.prems(3,4) i32 w]
      have step: "pick_words b nbits new i count = pick_words b nbits new' (i + 32) ?c"
        using True w full n(1) by (subst pick_words.simps) simp
      have cnt: "count + count_in ?P i k = ?c + count_in ?P (i + 32) k" if "i + 32 \<le> k" for k
        using count_in_split [of i "i + 32" k ?P] that wc by simp
      have "\<forall>k. i + 32 \<le> k \<and> k < b_bits b \<longrightarrow> \<not> bits_of new' ! nat k" using less.prems(3,6) n(5) by auto
      with less.hyps [of "i + 32" new' ?c] less.prems True full(2) n(2-4) obtain r where
        r: "pick_words b nbits new' (i + 32) ?c = Some (r, min nbits (?c + count_in ?P (i + 32) (b_bits b)))"
        "wf_bitstr r" "b_bits r = b_bits b" "b_magic r = b_magic new"
        "\<And>k. 0 \<le> k \<Longrightarrow> k < b_bits b \<Longrightarrow> bits_of r ! nat k =
          (if k < i + 32 then bits_of new' ! nat k else ?P k \<and> ?c + count_in ?P (i + 32) k < nbits)"
        by auto
      have "bits_of r ! nat k = (if k < i then bits_of new ! nat k else ?P k \<and> count + count_in ?P i k < nbits)"
        if k: "0 \<le> k" "k < b_bits b" for k
      proof (cases "i + 32 \<le> k")
        case True
        then show ?thesis using r(5) [OF k] cnt [OF True] by auto
      next
        case False
        have "?P k \<Longrightarrow> i \<le> k \<Longrightarrow> count + count_in ?P i k < nbits"
          using count_in_less [of i k "i + 32" ?P] False full(2) wc by simp
        then show ?thesis using r(5) [OF k] n(5) [OF k] False by auto
      qed
      with r step cnt [OF i32] show ?thesis by auto
    next
      case bits
      then have "pick_words b nbits new i count = pick_bits b nbits new i count"
        using True w by (subst pick_words.simps) auto
      then show ?thesis using pick_bits_spec [OF wf less.prems(1-3) _ less.prems(5,6)] True by simp
    qed
  qed
qed

text \<open>
  \<^verbatim>\<open>bit_pick_cnt\<close> returns NULL when fewer than \<open>nbits\<close> bits are set, and otherwise a string of the
  same size in which exactly the first \<open>nbits\<close> set bits are set.
\<close>

theorem bit_pick_cnt_first:
  assumes wf: "wf_bitstr b" and n: "0 \<le> nbits"
  shows "if int (popcount (bits_of b)) < nbits then bit_pick_cnt b nbits = Some None
    else \<exists>r. bit_pick_cnt b nbits = Some (Some r) \<and> wf_bitstr r \<and> b_bits r = b_bits b \<and>
      (\<forall>k. 0 \<le> k \<and> k < b_bits b \<longrightarrow> bits_of r ! nat k =
        (bits_of b ! nat k \<and> int (popcount (take (nat k) (bits_of b))) < nbits))"
proof -
  let ?P = "\<lambda>k. bits_of b ! nat k"
  have prefix: "count_in ?P 0 k = int (popcount (take (nat k) (bits_of b)))" if "0 \<le> k" "k \<le> b_bits b" for k
  proof -
    have "map (\<lambda>j. ?P (int j)) [0..<nat k] = take (nat k) (bits_of b)"
      by (rule nth_equalityI) (use that in auto)
    then show ?thesis using that by (simp add: count_in_bits)
  qed
  have all: "count_in ?P 0 (b_bits b) = int (popcount (bits_of b))"
    using prefix [of "b_bits b"] wf_nbits [OF wf] by simp
  have lim: "b_bits b < 2 ^ 31 - 64" using wf by (simp add: wf_bitstr_def)
  obtain z where z: "bit_alloc (b_bits b) = Some z" "wf_bitstr z" "b_bits z = b_bits b" "b_magic z = BITSTR_MAGIC"
    "bits_of z = replicate (nat (b_bits b)) False"
    using wf_alloc [OF wf_nbits [OF wf] lim] by auto
  have "\<forall>k. 0 \<le> k \<and> k < b_bits b \<longrightarrow> \<not> bits_of z ! nat k" by (simp add: z(5))
  with pick_words_spec [OF wf z(2,3), of 0 0 nbits] n all obtain r where
    r: "pick_words b nbits z 0 0 = Some (r, min nbits (int (popcount (bits_of b))))" "wf_bitstr r"
    "b_bits r = b_bits b" "b_magic r = BITSTR_MAGIC"
    "\<And>k. 0 \<le> k \<Longrightarrow> k < b_bits b \<Longrightarrow> bits_of r ! nat k = (?P k \<and> count_in ?P 0 k < nbits)"
    using z(4) by auto
  have pc: "int (popcount (bits_of b)) \<le> b_bits b"
    using length_filter_le [of "\<lambda>b. b" "bits_of b"] wf_nbits [OF wf] by (simp add: popcount_def)
  have pick: "bit_pick_cnt b nbits =
    (if int (popcount (bits_of b)) < nbits then Some None else Some (Some r))"
    using pc by (simp add: bit_pick_cnt_def bit_size_def wf_valid [OF wf] z(1) r(1) r(4) bit_free_def min_def)
  show ?thesis
    using r(2,3,5) prefix by (simp add: pick)
qed



section \<open>Concrete strings\<close>

lemma bit_rotate_moves_witness: "\<exists>r. bit_rotate forty (-43) = Some r \<and> bits_of r ! 1"
proof -
  obtain r where r: "bit_rotate forty (-43) = Some r"
    "\<And>i. 0 \<le> i \<Longrightarrow> i < 40 \<Longrightarrow> bits_of r ! nat ((i + (-43)) mod 40) = bits_of forty ! nat i"
    using bit_rotate_moves [OF wf_forty, of "-43"] by auto
  from r(2) [of 4] have "bits_of r ! 1" by (simp add: bits_forty)
  with r(1) show ?thesis by blast
qed

lemma bit_rotate_back_witness:
  "\<exists>r s. bit_rotate forty 17 = Some r \<and> bit_rotate r (-17) = Some s \<and> bits_of s = bits_of forty"
  using bit_rotate_back [OF wf_forty, of 17] by simp

lemma bit_pick_cnt_first_witness: "\<exists>r. bit_pick_cnt forty 5 = Some (Some r) \<and> bits_of r ! 32 \<and> \<not> bits_of r ! 33"
proof -
  obtain r where r: "bit_pick_cnt forty 5 = Some (Some r)"
    "\<And>k. 0 \<le> k \<Longrightarrow> k < 40 \<Longrightarrow> bits_of r ! nat k =
      (bits_of forty ! nat k \<and> int (popcount (take (nat k) (bits_of forty))) < 5)"
    using bit_pick_cnt_first [OF wf_forty, of 5] by (auto simp: bits_forty)
  from r(2) [of 32] r(2) [of 33] have "bits_of r ! 32 \<and> \<not> bits_of r ! 33" by (simp add: bits_forty)
  with r(1) show ?thesis by blast
qed

end
