(* ===== verification/Bitmasks.thy ===== *)
theory Bitmasks
  imports Bitformat
begin

text \<open>
  Printing a bit string as a hexadecimal or binary mask and reading the mask back
  (\<^verbatim>\<open>bit_fmt_hexmask\<close>, \<^verbatim>\<open>bit_unfmt_hexmask\<close>, \<^verbatim>\<open>bit_fmt_binmask\<close>, \<^verbatim>\<open>bit_unfmt_binmask\<close>).
\<close>

fun nib :: "bool list \<Rightarrow> nat" where
  "nib [] = 0"
| "nib (b # bs) = of_bool b + 2 * nib bs"

lemma nib_bit: "bit (nib bs) k \<longleftrightarrow> k < length bs \<and> bs ! k"
proof (induction bs arbitrary: k)
  case (Cons b bs)
  show ?case
  proof (cases k)
    case 0
    then show ?thesis by (auto simp: bit_0)
  next
    case (Suc m)
    have "nib (b # bs) div 2 = nib bs" by simp
    then show ?thesis using Cons.IH [of m] Suc by (simp add: bit_Suc del: nib.simps)
  qed
qed simp

fun nibbles :: "bool list \<Rightarrow> nat list" where
  "nibbles [] = []"
| "nibbles (b # bs) = nib (take 4 (b # bs)) # nibbles (drop 3 bs)"

lemma nib_less: "nib bs < 2 ^ length bs"
  by (induction bs) auto

lemma nib_take4: "nib (take 4 bs) < 16"
proof -
  have "nib (take 4 bs) < 2 ^ length (take 4 bs)" by (rule nib_less)
  also have "\<dots> \<le> 2 ^ 4" by (rule power_increasing) simp_all
  finally show ?thesis by simp
qed

lemma hex_digit_table: "\<forall>v\<in>set [0..<16]. hex_value (hex_char v) = v \<and> is_xdigit (hex_char v)"
  by code_simp

lemma hex_value_char: "v < 16 \<Longrightarrow> hex_value (hex_char v) = v" "v < 16 \<Longrightarrow> is_xdigit (hex_char v)"
  using hex_digit_table by simp_all

lemma test_below_wf:
  "wf_bitstr b \<Longrightarrow> 0 \<le> i \<Longrightarrow> test_below b i = Some (nat i < length (bits_of b) \<and> bits_of b ! nat i)"
  by (auto simp: test_below_def bit_test_wf)

lemma nib4:
  "xs \<noteq> [] \<Longrightarrow> nib (take 4 xs) =
    of_bool (xs ! 0) + 2 * of_bool (1 < length xs \<and> xs ! 1) +
    4 * of_bool (2 < length xs \<and> xs ! 2) + 8 * of_bool (3 < length xs \<and> xs ! 3)"
  by (cases xs; cases "tl xs"; cases "tl (tl xs)"; cases "tl (tl (tl xs))") (auto simp: numeral_eq_Suc)

lemma nib_drop:
  "i < length bs \<Longrightarrow> nib (take 4 (drop i bs)) =
    of_bool (bs ! i) + 2 * of_bool (i + 1 < length bs \<and> bs ! (i + 1)) +
    4 * of_bool (i + 2 < length bs \<and> bs ! (i + 2)) + 8 * of_bool (i + 3 < length bs \<and> bs ! (i + 3))"
  by (subst nib4) (auto simp: less_diff_conv add.commute)

lemma nib4_bit: "bit (nib (take 4 xs)) j \<longleftrightarrow> j < 4 \<and> j < length xs \<and> xs ! j"
  by (auto simp: nib_bit)

lemma hex_loop_spec:
  assumes wf: "wf_bitstr b"
  shows "0 \<le> i \<Longrightarrow> i \<le> b_bits b \<Longrightarrow>
    hex_loop b i acc = Some (rev (map hex_char (nibbles (drop (nat i) (bits_of b)))) @ acc)"
proof (induction "nat (b_bits b - i)" arbitrary: i acc rule: less_induct)
  case less
  let ?bs = "bits_of b"
  show ?case
  proof (cases "i < b_bits b")
    case False
    with less.prems show ?thesis by (subst hex_loop.simps) simp
  next
    case True
    let ?v = "nib (take 4 (drop (nat i) ?bs))"
    have ix: "nat (i + 1) = nat i + 1" "nat (i + 2) = nat i + 2" "nat (i + 3) = nat i + 3"
      using less.prems by auto
    have "hex_loop b i acc = hex_loop b (min (b_bits b) (i + 4)) (hex_char ?v # acc)"
      using True less.prems wf_nbits [OF wf] bit_test_wf [OF wf less.prems(1) True]
      by (subst hex_loop.simps) (simp add: test_below_wf [OF wf] nib_drop ix)
    also have "\<dots> = Some (rev (map hex_char (nibbles (drop (nat (min (b_bits b) (i + 4))) ?bs))) @ hex_char ?v # acc)"
      using less.hyps [of "min (b_bits b) (i + 4)"] less.prems True by simp
    also have "nibbles (drop (nat i) ?bs) = ?v # nibbles (drop (nat (min (b_bits b) (i + 4))) ?bs)"
    proof -
      have "nat i < length ?bs" using True less.prems by simp
      then obtain x xs where x: "drop (nat i) ?bs = x # xs" by (metis drop_eq_Nil linorder_not_less list.exhaust)
      have "drop 3 xs = drop 4 (drop (nat i) ?bs)" by (simp add: x numeral_eq_Suc)
      also have "\<dots> = drop (nat (min (b_bits b) (i + 4))) ?bs"
        using less.prems by (auto simp: min_def nat_add_distrib add.commute)
      finally show ?thesis using x by simp
    qed
    then have "rev (map hex_char (nibbles (drop (nat (min (b_bits b) (i + 4))) ?bs))) @ hex_char ?v # acc =
      rev (map hex_char (nibbles (drop (nat i) ?bs))) @ acc" by simp
    finally show ?thesis .
  qed
qed

lemma set_if_spec:
  assumes "wf_bitstr d" and "0 \<le> i"
  shows "\<exists>r. set_if v d i = Some r \<and> wf_bitstr r \<and> b_bits r = b_bits d \<and>
    (\<forall>k < nat (b_bits d). bits_of r ! k = (bits_of d ! k \<or> (v \<and> int k = i)))"
proof (cases "v \<and> i < b_bits d")
  case True
  with set1.upd [OF assms] show ?thesis using assms(2)
    by (fastforce simp: set_if_def nth_list_update)
next
  case False
  with assms show ?thesis by (auto simp: set_if_def)
qed

lemma ex4: "(\<exists>j<4. P j) \<longleftrightarrow> P 0 \<or> P 1 \<or> P 2 \<or> P 3" for P :: "nat \<Rightarrow> bool"
  by (simp add: numeral_eq_Suc Ex_less_Suc disj_ac)

lemma less4_cases:
  "int k < i \<or> (\<exists>j<4. int k = i + int j) \<or> (\<exists>m. int k = i + 4 + int m)"
proof (cases "int k < i")
  case False
  define j where "j = nat (int k - i)"
  then have j: "int k = i + int j" using False by simp
  show ?thesis
  proof (cases "j < 4")
    case False
    with j have "int k = i + 4 + int (j - 4)" by simp
    then show ?thesis by blast
  qed (use j in blast)
qed simp

lemma unhex_loop_spec:
  "wf_bitstr d \<Longrightarrow> 0 \<le> i \<Longrightarrow> \<exists>r. unhex_loop d (map hex_char (nibbles bs)) i rc = Some (r, rc) \<and> wf_bitstr r \<and>
    b_bits r = b_bits d \<and> (\<forall>k < nat (b_bits d). bits_of r ! k =
      (bits_of d ! k \<or> (i \<le> int k \<and> int k < i + int (length bs) \<and> bs ! nat (int k - i))))"
proof (induction bs arbitrary: d i rule: nibbles.induct)
  case 1
  then show ?case by auto
next
  case (2 x xs)
  let ?v = "nib (take 4 (x # xs))"
  obtain d0 where d0: "set_if (bit ?v 0) d i = Some d0" "wf_bitstr d0" "b_bits d0 = b_bits d"
    "\<forall>k < nat (b_bits d). bits_of d0 ! k = (bits_of d ! k \<or> (bit ?v 0 \<and> int k = i))"
    using set_if_spec [OF 2(2,3)] by blast
  obtain d1 where d1: "set_if (bit ?v 1) d0 (i + 1) = Some d1" "wf_bitstr d1" "b_bits d1 = b_bits d"
    "\<forall>k < nat (b_bits d). bits_of d1 ! k = (bits_of d0 ! k \<or> (bit ?v 1 \<and> int k = i + 1))"
    using set_if_spec [OF d0(2), of "i + 1"] 2(3) d0(3) by force
  obtain d2 where d2: "set_if (bit ?v 2) d1 (i + 2) = Some d2" "wf_bitstr d2" "b_bits d2 = b_bits d"
    "\<forall>k < nat (b_bits d). bits_of d2 ! k = (bits_of d1 ! k \<or> (bit ?v 2 \<and> int k = i + 2))"
    using set_if_spec [OF d1(2), of "i + 2"] 2(3) d1(3) by force
  obtain d3 where d3: "set_if (bit ?v 3) d2 (i + 3) = Some d3" "wf_bitstr d3" "b_bits d3 = b_bits d"
    "\<forall>k < nat (b_bits d). bits_of d3 ! k = (bits_of d2 ! k \<or> (bit ?v 3 \<and> int k = i + 3))"
    using set_if_spec [OF d2(2), of "i + 3"] 2(3) d2(3) by force
  obtain r where r: "unhex_loop d3 (map hex_char (nibbles (drop 3 xs))) (i + 4) rc = Some (r, rc)" "wf_bitstr r"
    "b_bits r = b_bits d"
    "\<forall>k < nat (b_bits d). bits_of r ! k = (bits_of d3 ! k \<or>
      (i + 4 \<le> int k \<and> int k < i + 4 + int (length (drop 3 xs)) \<and> drop 3 xs ! nat (int k - (i + 4))))"
    using "2.IH" [OF d3(2), of "i + 4"] 2(3) d3(3) by auto
  have "bits_of r ! k = (bits_of d ! k \<or> (i \<le> int k \<and> int k < i + int (length (x # xs)) \<and> (x # xs) ! nat (int k - i)))"
    if k: "k < nat (b_bits d)" for k
  proof -
    have old: "bits_of d3 ! k = (bits_of d ! k \<or> (\<exists>j<4. bit ?v j \<and> int k = i + int j))"
      using d0(4) d1(4) d2(4) d3(4) k by (simp add: ex4 disj_ac)
    consider (before) "int k < i" | (here) j where "j < 4" "int k = i + int j" | (after) m where "int k = i + 4 + int m"
      using less4_cases [of k i] by blast
    then show ?thesis
    proof cases
      case here
      then have "bits_of d3 ! k = (bits_of d ! k \<or> bit ?v j)" using old by auto
      then show ?thesis using r(4) k here nib4_bit [of "x # xs" j] by auto
    next
      case after
      then have "nat (int k - i) = Suc (3 + m)" "nat (int k - (i + 4)) = m" by auto
      then show ?thesis using r(4) k after old by (auto simp: nth_drop)
    qed (use r(4) k old in auto)
  qed
  with r d0(1) d1(1) d2(1) d3(1) show ?case
    using hex_value_char [OF nib_take4 [of "x # xs"]] by (simp add: Let_def)
qed

lemma map2_or_eq:
  assumes "length xs = n" and "length ys = n" and "length zs = n" and "\<And>k. k < n \<Longrightarrow> xs ! k = (ys ! k \<or> zs ! k)"
  shows "xs = map2 (\<or>) ys zs"
  by (rule nth_equalityI) (use assms in simp_all)

text \<open>
  Reading back the hexadecimal mask that \<^verbatim>\<open>bit_fmt_hexmask\<close> prints for a string sets exactly its
  bits, in addition to those already set in the target, for every size.
\<close>

theorem hexmask_roundtrip:
  assumes wf: "wf_bitstr b" and d: "wf_bitstr d" "b_bits d = b_bits b"
  shows "\<exists>s r. bit_fmt_hexmask b = Some s \<and> bit_unfmt_hexmask d s = Some (r, 0) \<and> wf_bitstr r \<and>
    bits_of r = map2 (\<or>) (bits_of d) (bits_of b)"
proof -
  let ?cs = "map hex_char (nibbles (bits_of b))"
  have s: "bit_fmt_hexmask b = Some (''0x'' @ rev ?cs)"
    using hex_loop_spec [OF wf, of 0 "[]"] wf_nbits [OF wf]
    by (simp add: bit_fmt_hexmask_def bit_size_def wf_valid [OF wf])
  obtain r where r: "unhex_loop d ?cs 0 0 = Some (r, 0)" "wf_bitstr r" "b_bits r = b_bits d"
    "\<forall>k < nat (b_bits d). bits_of r ! k =
      (bits_of d ! k \<or> (0 \<le> int k \<and> int k < 0 + int (length (bits_of b)) \<and> bits_of b ! nat (int k - 0)))"
    using unhex_loop_spec [OF d(1), of 0 "bits_of b" 0] by auto
  have "bits_of r = map2 (\<or>) (bits_of d) (bits_of b)"
    by (rule map2_or_eq [of _ "nat (b_bits b)"]) (use r(3,4) d in auto)
  moreover have "bit_unfmt_hexmask d (''0x'' @ rev ?cs) = Some (r, 0)"
    using r(1) by (simp add: bit_unfmt_hexmask_def bit_size_def wf_valid [OF d(1)])
  ultimately show ?thesis using s r(2) by blast
qed

lemma hexmask_roundtrip_witness:
  "\<exists>s r. bit_fmt_hexmask forty = Some s \<and> bit_unfmt_hexmask forty s = Some (r, 0) \<and> bits_of r = bits_of forty"
  using hexmask_roundtrip [OF wf_forty wf_forty refl] by (auto simp: bits_forty)

lemma bin_loop_spec:
  assumes wf: "wf_bitstr b"
  shows "0 \<le> i \<Longrightarrow> i \<le> b_bits b \<Longrightarrow>
    bin_loop b i acc = Some (rev (map (\<lambda>v. char_of (of_bool v + 48 :: nat)) (drop (nat i) (bits_of b))) @ acc)"
proof (induction "nat (b_bits b - i)" arbitrary: i acc rule: less_induct)
  case less
  show ?case
  proof (cases "i < b_bits b")
    case False
    with less.prems show ?thesis by (subst bin_loop.simps) simp
  next
    case True
    then have "drop (nat i) (bits_of b) = bits_of b ! nat i # drop (nat (i + 1)) (bits_of b)"
      using less.prems by (simp add: Cons_nth_drop_Suc nat_add_distrib)
    with True less.hyps [of "i + 1"] less.prems bit_test_wf [OF wf less.prems(1) True] show ?thesis
      by (subst bin_loop.simps) simp
  qed
qed

lemma bin_digit: "bit (int (of_char (char_of (of_bool v + 48 :: nat) :: char)) - 48) 0 \<longleftrightarrow> v"
  by (cases v) (simp_all add: bit_0)

lemma unbin_loop_spec:
  "wf_bitstr d \<Longrightarrow> 0 \<le> i \<Longrightarrow> \<exists>r. unbin_loop d (map (\<lambda>v. char_of (of_bool v + 48 :: nat)) bs) i = Some r \<and>
    wf_bitstr r \<and> b_bits r = b_bits d \<and> (\<forall>k < nat (b_bits d). bits_of r ! k =
      (bits_of d ! k \<or> (i \<le> int k \<and> int k < i + int (length bs) \<and> bs ! nat (int k - i))))"
proof (induction bs arbitrary: d i)
  case Nil
  then show ?case by auto
next
  case (Cons v bs)
  obtain d0 where d0: "set_if v d i = Some d0" "wf_bitstr d0" "b_bits d0 = b_bits d"
    "\<forall>k < nat (b_bits d). bits_of d0 ! k = (bits_of d ! k \<or> (v \<and> int k = i))"
    using set_if_spec [OF Cons.prems] by blast
  obtain r where r: "unbin_loop d0 (map (\<lambda>v. char_of (of_bool v + 48 :: nat)) bs) (i + 1) = Some r" "wf_bitstr r"
    "b_bits r = b_bits d"
    "\<forall>k < nat (b_bits d). bits_of r ! k = (bits_of d0 ! k \<or>
      (i + 1 \<le> int k \<and> int k < i + 1 + int (length bs) \<and> bs ! nat (int k - (i + 1))))"
    using Cons.IH [OF d0(2), of "i + 1"] Cons.prems d0(3) by auto
  have "bits_of r ! k = (bits_of d ! k \<or> (i \<le> int k \<and> int k < i + int (length (v # bs)) \<and> (v # bs) ! nat (int k - i)))"
    if k: "k < nat (b_bits d)" for k
  proof -
    consider "int k < i" | "int k = i" | m where "int k = i + 1 + int m"
      by (metis add.commute add.left_commute linorder_neqE_linordered_idom zless_iff_Suc_zadd of_nat_Suc)
    then show ?thesis
    proof cases
      case 3
      then have "nat (int k - i) = Suc m" "nat (int k - (i + 1)) = m" by auto
      then show ?thesis using r(4) d0(4) k 3 by auto
    qed (use r(4) d0(4) k in auto)
  qed
  moreover have "unbin_loop d (map (\<lambda>v. char_of (of_bool v + 48 :: nat)) (v # bs)) i = Some r"
    using d0(1) r(1) by (simp only: list.map unbin_loop.simps bin_digit bind.bind_lunit)
  ultimately show ?case using r(2,3) by blast
qed

text \<open>Reading back the binary mask of a string sets exactly its bits.\<close>

theorem binmask_roundtrip:
  assumes wf: "wf_bitstr b" and d: "wf_bitstr d" "b_bits d = b_bits b"
  shows "\<exists>s r. bit_fmt_binmask b = Some s \<and> length s = nat (b_bits b) \<and> bit_unfmt_binmask d s = Some (r, 0) \<and>
    wf_bitstr r \<and> bits_of r = map2 (\<or>) (bits_of d) (bits_of b)"
proof -
  let ?cs = "map (\<lambda>v. char_of (of_bool v + 48 :: nat)) (bits_of b)"
  have s: "bit_fmt_binmask b = Some (rev ?cs)"
    using bin_loop_spec [OF wf, of 0 "[]"] wf_nbits [OF wf]
    by (simp add: bit_fmt_binmask_def bit_size_def wf_valid [OF wf])
  obtain r where r: "unbin_loop d ?cs 0 = Some r" "wf_bitstr r" "b_bits r = b_bits d"
    "\<forall>k < nat (b_bits d). bits_of r ! k =
      (bits_of d ! k \<or> (0 \<le> int k \<and> int k < 0 + int (length (bits_of b)) \<and> bits_of b ! nat (int k - 0)))"
    using unbin_loop_spec [OF d(1), of 0 "bits_of b"] by auto
  have "bits_of r = map2 (\<or>) (bits_of d) (bits_of b)"
    by (rule map2_or_eq [of _ "nat (b_bits b)"]) (use r(3,4) d in auto)
  moreover have "bit_unfmt_binmask d (rev ?cs) = Some (r, 0)"
    using r(1) by (simp add: bit_unfmt_binmask_def bit_size_def wf_valid [OF d(1)] rev_map)
  ultimately show ?thesis using s r(2) by simp
qed

lemma binmask_roundtrip_witness:
  "\<exists>s r. bit_fmt_binmask forty = Some s \<and> bit_unfmt_binmask forty s = Some (r, 0) \<and> bits_of r = bits_of forty"
  using binmask_roundtrip [OF wf_forty wf_forty refl] by (auto simp: bits_forty)

end
