(* ===== verification/Bitranges.thy ===== *)
theory Bitranges
  imports Bitformat
begin

text \<open>
  Range lists: what \<^verbatim>\<open>bit_fmt\<close> prints, what \<^verbatim>\<open>bitfmt2int\<close> reads, and that \<^verbatim>\<open>bit_unfmt\<close> restores the bits
  from the text.
\<close>


section \<open>Printing\<close>

definition range_text :: "int \<times> int \<Rightarrow> string" where
  "range_text st = (if fst st = snd st then BITSTR_SINGLE_FMT (fst st) else BITSTR_RANGE_FMT (fst st) (snd st))"

definition covers :: "(int \<times> int) list \<Rightarrow> int \<Rightarrow> bool" where
  "covers rs k \<longleftrightarrow> (\<exists>st\<in>set rs. fst st \<le> k \<and> k \<le> snd st)"

lemma covers_Cons: "covers ((s, t) # rs) k \<longleftrightarrow> (s \<le> k \<and> k \<le> t) \<or> covers rs k"
  by (auto simp: covers_def)

lemma length_range_text:
  assumes "0 \<le> s" and "s \<le> t" and "t < 2 ^ 31"
  shows "length (range_text (s, t)) \<le> 22"
proof -
  have "length (decimal (nat s)) \<le> 10" "length (decimal (nat t)) \<le> 10"
    using length_decimal [of "nat s" 9] length_decimal [of "nat t" 9] assms by (simp_all add: nat_less_iff)
  then show ?thesis by (simp add: range_text_def BITSTR_SINGLE_FMT_def BITSTR_RANGE_FMT_def)
qed

lemma append_text_fits: "length str + length s < len \<Longrightarrow> append_text len str s = str @ s"
  by (simp add: append_text_def)

lemma run_end_spec:
  assumes wf: "wf_bitstr b"
  shows "0 \<le> i \<Longrightarrow> i < b_bits b \<Longrightarrow> \<exists>j. run_end b i = Some j \<and> i \<le> j \<and> j < b_bits b \<and>
    (\<forall>k. i < k \<and> k \<le> j \<longrightarrow> bits_of b ! nat k) \<and> (j + 1 < b_bits b \<longrightarrow> \<not> bits_of b ! nat (j + 1))"
proof (induction "nat (b_bits b - i)" arbitrary: i rule: less_induct)
  case less
  show ?case
  proof (cases "i + 1 < b_bits b \<and> bits_of b ! nat (i + 1)")
    case True
    with less.hyps [of "i + 1"] less.prems obtain j where j: "run_end b (i + 1) = Some j" "i + 1 \<le> j" "j < b_bits b"
      "\<forall>k. i + 1 < k \<and> k \<le> j \<longrightarrow> bits_of b ! nat k" "j + 1 < b_bits b \<longrightarrow> \<not> bits_of b ! nat (j + 1)"
      by auto
    have "bits_of b ! nat k" if "i < k" "k \<le> j" for k
      using that j(4) True by (cases "k = i + 1") auto
    moreover have "run_end b i = Some j"
      using True j(1) less.prems bit_test_wf [OF wf, of "i + 1"] by (subst run_end.simps) simp
    ultimately show ?thesis using j by auto
  next
    case False
    then have "run_end b i = Some i"
      using less.prems bit_test_wf [OF wf, of "i + 1"] by (subst run_end.simps) auto
    with False less.prems show ?thesis by auto
  qed
qed

text \<open>The loop skips a word only from its first position: elsewhere the word has a bit set.\<close>

definition word_ok :: "bitstr \<Rightarrow> int \<Rightarrow> bool" where
  "word_ok b i \<longleftrightarrow> i mod 32 = 0 \<or> b_bits b \<le> i \<or> b_words b ! (nat i div 32) \<noteq> 0"

lemma word_ok_next:
  assumes "b_words b ! (nat i div 32) \<noteq> 0" and "0 \<le> i"
  shows "word_ok b (i + 1)"
proof (cases "(i + 1) mod 32 = 0")
  case False
  then have "i div 32 = (i + 1) div 32" using word_boundary [of "i + 1"] by auto
  then have "nat (i + 1) div 32 = nat i div 32"
    using assms(2) by (metis add_increasing2 nat_div_distrib nat_numeral zero_le_numeral zero_le_one)
  with assms(1) show ?thesis by (simp add: word_ok_def)
qed (simp add: word_ok_def)

lemma set_bit_word: "wf_bitstr b \<Longrightarrow> 0 \<le> i \<Longrightarrow> i < b_bits b \<Longrightarrow> bits_of b ! nat i \<Longrightarrow> b_words b ! (nat i div 32) \<noteq> 0"
  by (auto simp: nth_bits_of)

lemma fits_mono: "m + 22 * nat (n - i) < len \<Longrightarrow> i \<le> j \<Longrightarrow> m + 22 * nat (n - j) < len"
  by (rule le_less_trans [of _ "m + 22 * nat (n - i)"]) (auto intro: nat_mono)

lemma fmt_loop_spec:
  assumes wf: "wf_bitstr b"
  shows "0 \<le> i \<Longrightarrow> word_ok b i \<Longrightarrow> length str + 22 * nat (b_bits b - i) < len \<Longrightarrow>
    \<exists>rs. fmt_loop b len i str count = Some (str @ concat (map range_text rs), count + length rs) \<and>
      (\<forall>st\<in>set rs. i \<le> fst st \<and> fst st \<le> snd st \<and> snd st < b_bits b) \<and>
      (\<forall>k. i \<le> k \<and> k < b_bits b \<longrightarrow> (bits_of b ! nat k \<longleftrightarrow> covers rs k)) \<and>
      length (concat (map range_text rs)) \<le> 22 * nat (b_bits b - i)"
proof (induction "nat (b_bits b - i)" arbitrary: i str count rule: less_induct)
  case less
  have lim: "b_bits b < 2 ^ 31" using wf by (simp add: wf_bitstr_def)
  show ?case
  proof (cases "i < b_bits b")
    case False
    then show ?thesis by (subst fmt_loop.simps) (auto intro!: exI [of _ "[]"])
  next
    case True
    note t = bit_test_wf [OF wf less.prems(1) True]
    have w: "word_at b i = Some (b_words b ! (nat i div 32))" using word_at_wf [OF wf less.prems(1) True] .
    consider (zero) "b_words b ! (nat i div 32) = 0" | (clear) "b_words b ! (nat i div 32) \<noteq> 0" "\<not> bits_of b ! nat i"
      | (run) "b_words b ! (nat i div 32) \<noteq> 0" "bits_of b ! nat i" by blast
    then show ?thesis
    proof cases
      case zero
      then have al: "i mod 32 = 0" using less.prems(2) True by (simp add: word_ok_def)
      have ok: "word_ok b (i + 32)" using al by (simp add: word_ok_def)
      note fits = fits_mono [OF less.prems(3), of "i + 32", simplified]
      have dec: "nat (b_bits b - (i + 32)) < nat (b_bits b - i)" using True by simp
      have "0 \<le> i + 32" using less.prems(1) by simp
      from less.hyps [OF dec this ok fits, of count] obtain rs where
        r: "fmt_loop b len (i + 32) str count = Some (str @ concat (map range_text rs), count + length rs)"
        "\<forall>st\<in>set rs. i + 32 \<le> fst st \<and> fst st \<le> snd st \<and> snd st < b_bits b"
        "\<forall>k. i + 32 \<le> k \<and> k < b_bits b \<longrightarrow> (bits_of b ! nat k \<longleftrightarrow> covers rs k)"
        "length (concat (map range_text rs)) \<le> 22 * nat (b_bits b - (i + 32))"
        by blast
      have "bits_of b ! nat k \<longleftrightarrow> covers rs k" if "i \<le> k" "k < b_bits b" for k
      proof (cases "k < i + 32")
        case True
        then have "nat k div 32 = nat i div 32" by (intro same_word [OF al less.prems(1) that(1)])
        moreover from this have "\<not> bits_of b ! nat k"
          using zero that less.prems(1) by (subst nth_bits_of) auto
        moreover have "\<not> covers rs k" using r(2) True by (force simp: covers_def)
        ultimately show ?thesis by blast
      qed (use r(3) that in auto)
      moreover have "fmt_loop b len i str count = Some (str @ concat (map range_text rs), count + length rs)"
        using True w zero r(1) by (subst fmt_loop.simps) simp
      moreover have "length (concat (map range_text rs)) \<le> 22 * nat (b_bits b - i)"
        by (rule order_trans [OF r(4)]) (intro mult_le_mono2 nat_mono, simp)
      moreover have "\<forall>st\<in>set rs. i \<le> fst st \<and> fst st \<le> snd st \<and> snd st < b_bits b" using r(2) by auto
      ultimately show ?thesis by blast
    next
      case clear
      with less.hyps [of "i + 1" str count] less.prems True word_ok_next [OF clear(1)]
          fits_mono [OF less.prems(3), of "i + 1"] obtain rs where
        r: "fmt_loop b len (i + 1) str count = Some (str @ concat (map range_text rs), count + length rs)"
        "\<forall>st\<in>set rs. i + 1 \<le> fst st \<and> fst st \<le> snd st \<and> snd st < b_bits b"
        "\<forall>k. i + 1 \<le> k \<and> k < b_bits b \<longrightarrow> (bits_of b ! nat k \<longleftrightarrow> covers rs k)"
        "length (concat (map range_text rs)) \<le> 22 * nat (b_bits b - (i + 1))"
        by auto
      have "bits_of b ! nat k \<longleftrightarrow> covers rs k" if "i \<le> k" "k < b_bits b" for k
      proof (cases "k = i")
        case True
        moreover have "\<not> covers rs i" using r(2) by (force simp: covers_def)
        ultimately show ?thesis using clear(2) by simp
      qed (use r(3) that in auto)
      moreover have "fmt_loop b len i str count = Some (str @ concat (map range_text rs), count + length rs)"
        using True w clear t r(1) by (subst fmt_loop.simps) simp
      moreover have "length (concat (map range_text rs)) \<le> 22 * nat (b_bits b - i)"
        by (rule order_trans [OF r(4)]) (intro mult_le_mono2 nat_mono, simp)
      moreover have "\<forall>st\<in>set rs. i \<le> fst st \<and> fst st \<le> snd st \<and> snd st < b_bits b" using r(2) by auto
      ultimately show ?thesis by blast
    next
      case run
      from run_end_spec [OF wf less.prems(1) True] obtain j where j: "run_end b i = Some j" "i \<le> j" "j < b_bits b"
        "\<forall>k. i < k \<and> k \<le> j \<longrightarrow> bits_of b ! nat k" "j + 1 < b_bits b \<longrightarrow> \<not> bits_of b ! nat (j + 1)" by auto
      have jset: "bits_of b ! nat j" using j run(2) by (cases "j = i") auto
      have ok: "word_ok b (j + 1)"
        using word_ok_next set_bit_word [OF wf _ j(3) jset] j(2) less.prems(1) by auto
      have len: "length (range_text (i, j)) \<le> 22" using length_range_text less.prems(1) j(2,3) lim by simp
      have "22 * nat (b_bits b - (j + 1)) + 22 \<le> 22 * nat (b_bits b - i)" using j(2,3) by simp
      with less.hyps [of "j + 1" "str @ range_text (i, j)" "count + 1"] less.prems(1,3) j(2,3) ok len obtain rs where
        r: "fmt_loop b len (j + 1) (str @ range_text (i, j)) (count + 1) =
          Some ((str @ range_text (i, j)) @ concat (map range_text rs), count + 1 + length rs)"
        "\<forall>st\<in>set rs. j + 1 \<le> fst st \<and> fst st \<le> snd st \<and> snd st < b_bits b"
        "\<forall>k. j + 1 \<le> k \<and> k < b_bits b \<longrightarrow> (bits_of b ! nat k \<longleftrightarrow> covers rs k)"
        "length (concat (map range_text rs)) \<le> 22 * nat (b_bits b - (j + 1))"
        by auto
      have "length str + length (range_text (i, j)) < len"
        using len less.prems(3) True by linarith
      then have app: "append_text len str (if j = i then BITSTR_SINGLE_FMT i else BITSTR_RANGE_FMT i j) = str @ range_text (i, j)"
        using append_text_fits [of str "range_text (i, j)" len] by (auto simp: range_text_def)
      have "fmt_loop b len i str count = fmt_loop b len (j + 1) (str @ range_text (i, j)) (count + 1)"
        using True w run t j(1) app by (subst fmt_loop.simps) simp
      then have "fmt_loop b len i str count =
        Some (str @ concat (map range_text ((i, j) # rs)), count + length ((i, j) # rs))"
        using r(1) by simp
      moreover have "bits_of b ! nat k \<longleftrightarrow> covers ((i, j) # rs) k" if "i \<le> k" "k < b_bits b" for k
      proof (cases "k \<le> j")
        case True
        then show ?thesis using j(4) run(2) that by (cases "k = i") (auto simp: covers_Cons)
      qed (use r(3) that in \<open>auto simp: covers_Cons\<close>)
      moreover have "length (concat (map range_text ((i, j) # rs))) \<le> 22 * nat (b_bits b - i)"
        using r(4) len \<open>22 * nat (b_bits b - (j + 1)) + 22 \<le> 22 * nat (b_bits b - i)\<close> by simp
      moreover have "\<forall>st\<in>set ((i, j) # rs). i \<le> fst st \<and> fst st \<le> snd st \<and> snd st < b_bits b"
        using r(2) j(2,3) by auto
      ultimately show ?thesis by blast
    qed
  qed
qed



section \<open>Reading\<close>

lemma parse_decimal:
  "n < 2 ^ 31 \<Longrightarrow> fmt2int_loop i (decimal n @ rest) 0 st out =
    fmt2int_loop (i + length (decimal n)) rest (int n) st out"
proof (induction n arbitrary: rest rule: less_induct)
  case (less n)
  let ?d = "n mod 10"
  let ?c = "char_of (48 + ?d) :: char"
  have code: "of_char ?c = 48 + ?d" by simp
  have digit: "CHR ''0'' \<le> ?c \<and> ?c \<le> CHR ''9''"
    by (simp add: less_eq_char_def)
  have step: "fmt2int_loop j (?c # rest) (int m) st out = fmt2int_loop (j + 1) rest (int n) st out"
    if "10 * m + ?d = n" for j m
  proof -
    have "int m * 10 + (int (of_char ?c) - 48) = int n" using that by (simp only: code)
    moreover have "int n < 2 ^ 31" using less.prems by simp
    ultimately show ?thesis using digit by (simp only: fmt2int_loop.simps Let_def simp_thms if_True assertC_True bind.bind_lunit)
  qed
  show ?case
  proof (cases "n < 10")
    case True
    then have "decimal n = [?c]" by (subst decimal.simps) simp
    with step [of 0 i] True show ?thesis by simp
  next
    case False
    then have d: "decimal n = decimal (n div 10) @ [?c]" by (subst decimal.simps) simp
    have "fmt2int_loop i (decimal n @ rest) 0 st out =
      fmt2int_loop (i + length (decimal (n div 10))) (?c # rest) (int (n div 10)) st out"
      using less.IH [of "n div 10" "?c # rest"] less.prems False unfolding d by simp
    also have "\<dots> = fmt2int_loop (i + length (decimal (n div 10)) + 1) rest (int n) st out"
      by (rule step) simp
    finally show ?thesis by (simp add: d add.assoc)
  qed
qed

lemma parse_range:
  assumes "0 \<le> s" and "s \<le> t" and "t < 2 ^ 31"
  shows "fmt2int_loop i (range_text (s, t) @ rest) 0 (-1) out =
    fmt2int_loop (i + length (range_text (s, t))) rest 0 (-1) (out @ [s, t])"
proof -
  have n: "nat s < 2 ^ 31" "nat t < 2 ^ 31" using assms by auto
  have ne: "decimal k \<noteq> []" for k using decimal_nonempty [of k] by auto
  have dash: "\<not> (CHR ''0'' \<le> CHR ''-'' \<and> CHR ''-'' \<le> CHR ''9'')"
    and comma: "\<not> (CHR ''0'' \<le> CHR '','' \<and> CHR '','' \<le> CHR ''9'')"
    by (simp_all add: less_eq_char_def)
  show ?thesis
  proof (cases "s = t")
    case True
    then show ?thesis
      using parse_decimal [OF n(2)] comma ne assms by (simp add: range_text_def BITSTR_SINGLE_FMT_def)
  next
    case False
    then show ?thesis
      using parse_decimal [OF n(1)] parse_decimal [OF n(2)] dash comma assms
      by (simp add: range_text_def BITSTR_RANGE_FMT_def add.assoc)
  qed
qed

lemma parse_ranges:
  "\<forall>st\<in>set rs. 0 \<le> fst st \<and> fst st \<le> snd st \<and> snd st < 2 ^ 31 \<Longrightarrow>
    fmt2int_loop i (concat (map range_text rs)) 0 (-1) out =
      Some (out @ concat (map (\<lambda>st. [fst st, snd st]) rs))"
proof (induction rs arbitrary: i out)
  case (Cons st rs)
  then show ?case using parse_range [of "fst st" "snd st" i "concat (map range_text rs)" out] by simp
qed simp

text \<open>The NUL at the end acts as the comma that was removed.\<close>

lemma parse_end: "fmt2int_loop i (xs @ [CHR '','']) s st out = fmt2int_loop i (xs @ [CHR 0x00]) s st out"
proof (induction i xs s st out rule: fmt2int_loop.induct)
  case (1 i s st out)
  have "\<not> (CHR ''0'' \<le> CHR '','' \<and> CHR '','' \<le> CHR ''9'')" "\<not> (CHR ''0'' \<le> CHR 0x00 \<and> CHR 0x00 \<le> CHR ''9'')"
    by (simp_all add: less_eq_char_def)
  then show ?case by simp
next
  case (2 i c cs s st out)
  then show ?case by (auto simp: Let_def assertC_def)
qed

text \<open>A closing bracket before the end is ignored.\<close>

lemma parse_bracket:
  "0 < i \<or> xs \<noteq> [] \<Longrightarrow>
    fmt2int_loop i (xs @ [CHR '']'', CHR 0x00]) s st out = fmt2int_loop i (xs @ [CHR 0x00]) s st out"
proof (induction i xs s st out rule: fmt2int_loop.induct)
  case (1 i s st out)
  have "\<not> (CHR ''0'' \<le> CHR '']'' \<and> CHR '']'' \<le> CHR ''9'')" "\<not> (CHR ''0'' \<le> CHR 0x00 \<and> CHR 0x00 \<le> CHR ''9'')"
    by (simp_all add: less_eq_char_def)
  with 1 show ?case by simp
next
  case (2 i c cs s st out)
  then show ?case by (auto simp: Let_def assertC_def)
qed



section \<open>The round trip\<close>

lemma unfmt_ranges_spec:
  "wf_bitstr d \<Longrightarrow> \<forall>st\<in>set rs. 0 \<le> fst st \<and> fst st \<le> snd st \<and> snd st < b_bits d \<Longrightarrow>
    \<exists>r. unfmt_ranges d (concat (map (\<lambda>st. [fst st, snd st]) rs) @ [-1]) = Some (r, 0) \<and> wf_bitstr r \<and>
      b_bits r = b_bits d \<and> (\<forall>k < nat (b_bits d). bits_of r ! k = (bits_of d ! k \<or> covers rs (int k)))"
proof (induction rs arbitrary: d)
  case Nil
  then show ?case by (simp add: covers_def)
next
  case (Cons st rs)
  obtain d' where d': "bit_nset d (fst st) (snd st) = Some d'" "wf_bitstr d'" "b_bits d' = b_bits d"
    "bits_of d' = fill_range (bits_of d) (fst st) (snd st) True"
    using nset.fill_ok [OF Cons.prems(1), of "fst st" "snd st"] Cons.prems(2) by (auto simp: bit_nset_def)
  obtain r where r: "unfmt_ranges d' (concat (map (\<lambda>st. [fst st, snd st]) rs) @ [-1]) = Some (r, 0)" "wf_bitstr r"
    "b_bits r = b_bits d" "\<forall>k < nat (b_bits d). bits_of r ! k = (bits_of d' ! k \<or> covers rs (int k))"
    using Cons.IH [OF d'(2)] Cons.prems(2) d'(3) by auto
  have "unfmt_ranges d (concat (map (\<lambda>st. [fst st, snd st]) (st # rs)) @ [-1]) = Some (r, 0)"
    using Cons.prems(2) d'(1) r(1) by auto
  moreover have "bits_of r ! k = (bits_of d ! k \<or> covers (st # rs) (int k))" if "k < nat (b_bits d)" for k
    using that r(4) by (auto simp: d'(4) nth_fill_range covers_def)
  ultimately show ?case using r(2,3) by blast
qed

lemma concat_items:
  "rs \<noteq> [] \<Longrightarrow> concat (map range_text rs) = butlast (concat (map range_text rs)) @ '','' \<and>
    butlast (concat (map range_text rs)) \<noteq> []"
proof -
  assume ne: "rs \<noteq> []"
  have item: "\<exists>x. range_text st = x @ '','' \<and> x \<noteq> []" for st
    using decimal_nonempty [of "nat (fst st)"] by (auto simp: range_text_def BITSTR_SINGLE_FMT_def BITSTR_RANGE_FMT_def)
  obtain ys y where "rs = ys @ [y]" using ne by (cases rs rule: rev_exhaust) auto
  with item [of y] show ?thesis by (auto simp: butlast_append)
qed

lemma length_items: "2 * length rs \<le> length (concat (map range_text rs))"
proof (induction rs)
  case (Cons st rs)
  have "2 \<le> length (range_text st)"
    using decimal_nonempty [of "nat (fst st)"] decimal_nonempty [of "nat (snd st)"]
    by (auto simp: range_text_def BITSTR_SINGLE_FMT_def BITSTR_RANGE_FMT_def Suc_le_eq)
  with Cons show ?case by simp
qed simp

lemma parse_text:
  assumes rs: "rs \<noteq> []" "\<forall>st\<in>set rs. 0 \<le> fst st \<and> fst st \<le> snd st \<and> snd st < 2 ^ 31"
    and s: "s = butlast (concat (map range_text rs)) \<or> s = ''['' @ butlast (concat (map range_text rs)) @ '']''"
  shows "bitfmt2int s = Some (concat (map (\<lambda>st. [fst st, snd st]) rs) @ [-1])"
proof -
  let ?x = "butlast (concat (map range_text rs))"
  let ?v = "concat (map (\<lambda>st. [fst st, snd st]) rs)"
  note x = concat_items [OF rs(1)]
  have parse: "fmt2int_loop i (?x @ [CHR 0x00]) 0 (-1) [] = Some ?v" for i
    using parse_ranges [OF rs(2), of i "[]"] x parse_end [of i ?x 0 "-1" "[]"] by simp
  have brk: "\<not> (CHR ''0'' \<le> CHR ''['' \<and> CHR ''['' \<le> CHR ''9'')"
    by (simp add: less_eq_char_def)
  have "fmt2int_loop 0 (s @ [CHR 0x00]) 0 (-1) [] = Some ?v"
    using s parse [of 0] parse [of 1] parse_bracket [of 1 ?x 0 "-1" "[]"] x brk by auto
  moreover have "length ?v = 2 * length rs" by (induction rs) auto
  moreover have "2 * length rs \<le> length s + 1"
    using length_items [of rs] s x by (auto dest: arg_cong [of _ _ length])
  ultimately show ?thesis by (simp add: bitfmt2int_def)
qed

text \<open>
  C4: \<^verbatim>\<open>bit_fmt\<close> and \<^verbatim>\<open>bit_unfmt\<close> are inverse: given a buffer that is long enough, the text printed for a
  string with at least one bit set, such as \<^verbatim>\<open>[0-5,42]\<close>, gives any string of the same size exactly the
  printed bits.
\<close>

theorem bit_fmt_roundtrip:
  assumes wf: "wf_bitstr b" and some: "True \<in> set (bits_of b)" and len: "22 * nat (b_bits b) + 3 < len"
    and d: "wf_bitstr d" "b_bits d = b_bits b"
  shows "\<exists>s r. bit_fmt len b = Some s \<and> bit_unfmt d s = Some (r, 0) \<and> wf_bitstr r \<and> bits_of r = bits_of b"
proof -
  obtain k where k: "k < length (bits_of b)" "bits_of b ! k" using some by (auto simp: in_set_conv_nth)
  have "word_ok b 0" by (simp add: word_ok_def)
  from fmt_loop_spec [OF wf order_refl this, of "[]" len 0] len obtain rs where
    r: "fmt_loop b len 0 [] 0 = Some (concat (map range_text rs), length rs)"
    "\<forall>st\<in>set rs. 0 \<le> fst st \<and> fst st \<le> snd st \<and> snd st < b_bits b"
    "\<forall>k. 0 \<le> k \<and> k < b_bits b \<longrightarrow> (bits_of b ! nat k \<longleftrightarrow> covers rs k)"
    "length (concat (map range_text rs)) \<le> 22 * nat (b_bits b)"
    by auto
  have size: "0 < b_bits b" using k by auto
  have "covers rs (int k)" using spec [OF r(3), of "int k"] k by auto
  then have ne: "rs \<noteq> []" by (auto simp: covers_def)
  let ?x = "butlast (concat (map range_text rs))"
  note x = concat_items [OF ne]
  have xlen: "length ?x + 3 < len" using r(4) len by simp
  define X where "X = concat (map range_text rs)"
  have X: "X \<noteq> []" "butlast X = ?x" using x unfolding X_def by (metis append_is_Nil_conv, simp)
  define s where "s = (if length rs > 1 then ''['' @ ?x @ '']'' else ?x)"
  have "bit_fmt len b = Some s"
    using r(1) ne X(1) xlen len unfolding X_def [symmetric] X(2) [symmetric]
    by (auto simp: bit_fmt_def wf_valid [OF wf] Let_def s_def X(2))
  then have s: "bit_fmt len b = Some s" "s = ?x \<or> s = ''['' @ ?x @ '']''" by (auto simp: s_def)
  have "\<forall>st\<in>set rs. 0 \<le> fst st \<and> fst st \<le> snd st \<and> snd st < 2 ^ 31"
    using r(2) wf by (auto simp: wf_bitstr_def)
  note parse = parse_text [OF ne this s(2)]
  obtain c where c: "bit_nclear d 0 (b_bits d - 1) = Some c" "wf_bitstr c" "b_bits c = b_bits b"
    "bits_of c = fill_range (bits_of d) 0 (b_bits d - 1) False"
    using nclear.fill_ok [OF d(1), of 0 "b_bits d - 1"] d(2) size by (auto simp: bit_nclear_def)
  obtain e where e: "unfmt_ranges c (concat (map (\<lambda>st. [fst st, snd st]) rs) @ [-1]) = Some (e, 0)" "wf_bitstr e"
    "b_bits e = b_bits b" "\<forall>k < nat (b_bits b). bits_of e ! k = (bits_of c ! k \<or> covers rs (int k))"
    using unfmt_ranges_spec [OF c(2), of rs] r(2) c(3) by auto
  have "bits_of b ! k \<longleftrightarrow> covers rs (int k)" if "k < nat (b_bits b)" for k
    using spec [OF r(3), of "int k"] that by auto
  then have "bits_of e = bits_of b"
    by (intro nth_equalityI) (use e(3,4) c(4) d(2) in \<open>auto simp: nth_fill_range\<close>)
  moreover have "bit_unfmt d s = Some (e, 0)"
    using s(2) x parse c(1) e(1) by (auto simp: bit_unfmt_def wf_valid [OF d(1)])
  ultimately show ?thesis using s(1) e(2) by blast
qed

text \<open>
  The text printed for a string without set bits is empty, and \<^verbatim>\<open>bit_unfmt\<close> leaves its target
  unchanged for it: bits that were set stay set.
\<close>

theorem bit_unfmt_empty_keeps:
  assumes wf: "wf_bitstr b" and none: "True \<notin> set (bits_of b)" and len: "22 * nat (b_bits b) + 3 < len"
    and d: "wf_bitstr d"
  shows "bit_fmt len b = Some [] \<and> bit_unfmt d [] = Some (d, 0)"
proof -
  have "word_ok b 0" by (simp add: word_ok_def)
  from fmt_loop_spec [OF wf order_refl this, of "[]" len 0] len obtain rs where
    r: "fmt_loop b len 0 [] 0 = Some (concat (map range_text rs), length rs)"
    "\<forall>st\<in>set rs. 0 \<le> fst st \<and> fst st \<le> snd st \<and> snd st < b_bits b"
    "\<forall>k. 0 \<le> k \<and> k < b_bits b \<longrightarrow> (bits_of b ! nat k \<longleftrightarrow> covers rs k)"
    by auto
  have "rs = []"
  proof (cases rs)
    case (Cons st rs')
    then have "covers rs (fst st)" using r(2) by (auto simp: covers_def)
    then have "bits_of b ! nat (fst st)" using r(2,3) Cons by auto
    moreover have "nat (fst st) < length (bits_of b)" using r(2) Cons by auto
    ultimately show ?thesis using none by (metis nth_mem)
  qed simp
  with r(1) len show ?thesis by (simp add: bit_fmt_def bit_unfmt_def wf_valid [OF wf] wf_valid [OF d] Let_def)
qed

lemma bit_fmt_roundtrip_witness:
  "\<exists>s r. bit_fmt 1000 forty = Some s \<and> bit_unfmt forty s = Some (r, 0) \<and> bits_of r = bits_of forty"
  using bit_fmt_roundtrip [OF wf_forty _ _ wf_forty refl, of 1000] by (auto simp: bits_forty)

lemma bit_unfmt_empty_keeps_witness:
  "\<exists>b. wf_bitstr b \<and> bit_fmt 100 b = Some [] \<and> bit_unfmt forty [] = Some (forty, 0)"
proof -
  obtain b where b: "wf_bitstr b" "b_bits b = 4" "bits_of b = replicate (nat 4) False"
    using wf_alloc [of 4] by auto
  with bit_unfmt_empty_keeps [OF b(1) _ _ wf_forty, of 100] show ?thesis by auto
qed

end
