(* ===== verification/Clist.thy ===== *)
theory Clist
  imports Prelude
begin

text \<open>
  The generic lists of \<^verbatim>\<open>src/src/common/list.c\<close>: singly linked nodes in a store, a tail pointer that is
  the address of a \<^verbatim>\<open>next\<close> field, and iterators that are registered with their list and adjusted by
  every insertion and removal.

  Addresses are numbers.  Calls are taken one at a time, as the mutex of the list makes them; memory is
  never exhausted, and the magic cookies, which are there to catch pointers to freed lists, hold by
  construction.  \<^const>\<open>None\<close> is a failed assertion or an access through NULL or to a freed node.
\<close>


section \<open>Representation\<close>

text \<open>The address of a pointer to a node: the \<^verbatim>\<open>head\<close> of the list or the \<^verbatim>\<open>next\<close> field of a node.\<close>

datatype slot = Head | NextOf nat

record 'a list_node =
  n_data :: 'a
  n_next :: "nat option"

record iter =
  i_pos :: "nat option"
  i_prev :: slot

text \<open>
  Objects are taken from free lists that are filled in chunks of \<^verbatim>\<open>LIST_ALLOC\<close>.  The store also records
  the data handed to \<^verbatim>\<open>fDel\<close>, oldest first.
\<close>

record pool =
  p_free :: "nat list"
  p_brk :: nat

record 'a store =
  s_nodes :: "nat \<Rightarrow> 'a list_node option"
  s_pool :: pool
  s_ipool :: pool
  s_deleted :: "'a list"

text \<open>\<^verbatim>\<open>l_iters\<close> is the chain of iterators from \<^verbatim>\<open>iNext\<close> on, each with its address.\<close>

record clist =
  l_head :: "nat option"
  l_tail :: slot
  l_iters :: "(nat \<times> iter) list"
  l_fdel :: bool
  l_count :: int


section \<open>Allocation\<close>

definition LIST_ALLOC :: nat where "LIST_ALLOC = 128"

definition list_alloc_aux :: "pool \<Rightarrow> nat \<times> pool" where
  "list_alloc_aux p =
     (let p = (if p_free p = [] then p\<lparr>p_free := [p_brk p..<p_brk p + LIST_ALLOC], p_brk := p_brk p + LIST_ALLOC\<rparr>
               else p)
      in (hd (p_free p), p\<lparr>p_free := tl (p_free p)\<rparr>))"

definition list_free_aux :: "nat \<Rightarrow> pool \<Rightarrow> pool" where
  "list_free_aux x p = p\<lparr>p_free := x # p_free p\<rparr>"

definition list_node_alloc :: "'a store \<Rightarrow> nat \<times> 'a store" where
  "list_node_alloc st = (case list_alloc_aux (s_pool st) of (p, pl) \<Rightarrow> (p, st\<lparr>s_pool := pl\<rparr>))"

definition list_node_free :: "nat \<Rightarrow> 'a store \<Rightarrow> 'a store" where
  "list_node_free p st = st\<lparr>s_nodes := (s_nodes st)(p := None), s_pool := list_free_aux p (s_pool st)\<rparr>"

definition list_iterator_alloc :: "'a store \<Rightarrow> nat \<times> 'a store" where
  "list_iterator_alloc st = (case list_alloc_aux (s_ipool st) of (i, pl) \<Rightarrow> (i, st\<lparr>s_ipool := pl\<rparr>))"

definition list_iterator_free :: "nat \<Rightarrow> 'a store \<Rightarrow> 'a store" where
  "list_iterator_free i st = st\<lparr>s_ipool := list_free_aux i (s_ipool st)\<rparr>"

definition del_data :: "clist \<Rightarrow> 'a \<Rightarrow> 'a store \<Rightarrow> 'a store" where
  "del_data l v st = (if l_fdel l then st\<lparr>s_deleted := s_deleted st @ [v]\<rparr> else st)"


section \<open>Loads and stores through a slot\<close>

definition load :: "'a store \<Rightarrow> clist \<Rightarrow> slot \<Rightarrow> nat option option" where
  "load st l s = (case s of Head \<Rightarrow> Some (l_head l) | NextOf a \<Rightarrow> map_option n_next (s_nodes st a))"

definition save :: "'a store \<Rightarrow> clist \<Rightarrow> slot \<Rightarrow> nat option \<Rightarrow> ('a store \<times> clist) option" where
  "save st l s q = (case s of
     Head \<Rightarrow> Some (st, l\<lparr>l_head := q\<rparr>)
   | NextOf a \<Rightarrow> (case s_nodes st a of None \<Rightarrow> None
       | Some n \<Rightarrow> Some (st\<lparr>s_nodes := (s_nodes st)(a \<mapsto> n\<lparr>n_next := q\<rparr>)\<rparr>, l)))"

definition deref :: "'a store \<Rightarrow> nat option \<Rightarrow> 'a list_node option" where
  "deref st q = (case q of None \<Rightarrow> None | Some a \<Rightarrow> s_nodes st a)"

text \<open>\<^verbatim>\<open>(i->pos == *i->prev) || (i->pos == (*i->prev)->next)\<close>\<close>

definition iter_check :: "'a store \<Rightarrow> clist \<Rightarrow> iter \<Rightarrow> unit option" where
  "iter_check st l i = do {
     q \<leftarrow> load st l (i_prev i);
     if i_pos i = q then Some ()
     else do { n \<leftarrow> deref st q; assertC (i_pos i = n_next n) }
   }"

fun fix_iters :: "'a store \<Rightarrow> clist \<Rightarrow> (iter \<Rightarrow> iter) \<Rightarrow> (nat \<times> iter) list \<Rightarrow> (nat \<times> iter) list option" where
  "fix_iters st l f [] = Some []"
| "fix_iters st l f ((a, i) # is) = do {
     iter_check st l (f i);
     is' \<leftarrow> fix_iters st l f is;
     Some ((a, f i) # is')
   }"


section \<open>Nodes\<close>

definition list_node_create :: "'a store \<Rightarrow> clist \<Rightarrow> slot \<Rightarrow> 'a \<Rightarrow> ('a \<times> 'a store \<times> clist) option" where
  "list_node_create st l pp x = do {
     let (p, st) = list_node_alloc st;
     next \<leftarrow> load st l pp;
     let st = st\<lparr>s_nodes := (s_nodes st)(p \<mapsto> \<lparr>n_data = x, n_next = next\<rparr>)\<rparr>;
     let l = (if next = None then l\<lparr>l_tail := NextOf p\<rparr> else l);
     (st, l) \<leftarrow> save st l pp (Some p);
     let l = l\<lparr>l_count := l_count l + 1\<rparr>;
     is \<leftarrow> fix_iters st l
       (\<lambda>i. if i_prev i = pp then i\<lparr>i_prev := NextOf p\<rparr> else if i_pos i = next then i\<lparr>i_pos := Some p\<rparr> else i)
       (l_iters l);
     Some (x, st, l\<lparr>l_iters := is\<rparr>)
   }"

definition list_node_destroy :: "'a store \<Rightarrow> clist \<Rightarrow> slot \<Rightarrow> ('a option \<times> 'a store \<times> clist) option" where
  "list_node_destroy st l pp = do {
     q \<leftarrow> load st l pp;
     case q of None \<Rightarrow> Some (None, st, l)
     | Some p \<Rightarrow> do {
         n \<leftarrow> s_nodes st p;
         (st, l) \<leftarrow> save st l pp (n_next n);
         let l = (if n_next n = None then l\<lparr>l_tail := pp\<rparr> else l);
         let l = l\<lparr>l_count := l_count l - 1\<rparr>;
         is \<leftarrow> fix_iters st l
           (\<lambda>i. if i_pos i = Some p then i\<lparr>i_pos := n_next n, i_prev := pp\<rparr>
                else if i_prev i = NextOf p then i\<lparr>i_prev := pp\<rparr> else i)
           (l_iters l);
         Some (Some (n_data n), list_node_free p st, l\<lparr>l_iters := is\<rparr>)
       }
   }"


section \<open>Lists\<close>

definition list_create :: "bool \<Rightarrow> clist" where
  "list_create f = \<lparr>l_head = None, l_tail = Head, l_iters = [], l_fdel = f, l_count = 0\<rparr>"

definition list_is_empty :: "clist \<Rightarrow> bool" where
  "list_is_empty l \<longleftrightarrow> l_count l = 0"

definition list_count :: "clist \<Rightarrow> int" where
  "list_count l = l_count l"

definition list_append :: "'a store \<Rightarrow> clist \<Rightarrow> 'a \<Rightarrow> ('a \<times> 'a store \<times> clist) option" where
  "list_append st l x = list_node_create st l (l_tail l) x"

definition list_prepend :: "'a store \<Rightarrow> clist \<Rightarrow> 'a \<Rightarrow> ('a \<times> 'a store \<times> clist) option" where
  "list_prepend st l x = list_node_create st l Head x"

definition list_push :: "'a store \<Rightarrow> clist \<Rightarrow> 'a \<Rightarrow> ('a \<times> 'a store \<times> clist) option" where
  "list_push st l x = list_node_create st l Head x"

definition list_pop :: "'a store \<Rightarrow> clist \<Rightarrow> ('a option \<times> 'a store \<times> clist) option" where
  "list_pop st l = list_node_destroy st l Head"

definition list_peek :: "'a store \<Rightarrow> clist \<Rightarrow> 'a option option" where
  "list_peek st l = (case l_head l of None \<Rightarrow> Some None
     | Some a \<Rightarrow> do { n \<leftarrow> s_nodes st a; Some (Some (n_data n)) })"

definition list_enqueue :: "'a store \<Rightarrow> clist \<Rightarrow> 'a \<Rightarrow> ('a \<times> 'a store \<times> clist) option" where
  "list_enqueue st l x = list_node_create st l (l_tail l) x"

definition list_dequeue :: "'a store \<Rightarrow> clist \<Rightarrow> ('a option \<times> 'a store \<times> clist) option" where
  "list_dequeue st l = list_node_destroy st l Head"

text \<open>
  The loops follow \<^verbatim>\<open>next\<close> pointers; one that never reaches NULL is \<^const>\<open>None\<close>.  The callbacks are the
  functions \<open>f\<close>, applied to their key or argument.
\<close>

partial_function (option) find_loop :: "'a store \<Rightarrow> ('a \<Rightarrow> bool) \<Rightarrow> nat option \<Rightarrow> 'a option option" where
  "find_loop st f p = (case p of None \<Rightarrow> Some None
     | Some a \<Rightarrow> do {
         n \<leftarrow> s_nodes st a;
         if f (n_data n) then Some (Some (n_data n)) else find_loop st f (n_next n)
       })"

definition list_find_first :: "'a store \<Rightarrow> clist \<Rightarrow> ('a \<Rightarrow> bool) \<Rightarrow> 'a option option" where
  "list_find_first st l f = find_loop st f (l_head l)"

partial_function (option) delete_loop ::
    "('a \<Rightarrow> bool) \<Rightarrow> 'a store \<Rightarrow> clist \<Rightarrow> slot \<Rightarrow> int \<Rightarrow> (int \<times> 'a store \<times> clist) option" where
  "delete_loop f st l pp n = do {
     q \<leftarrow> load st l pp;
     case q of None \<Rightarrow> Some (n, st, l)
     | Some p \<Rightarrow> do {
         nd \<leftarrow> s_nodes st p;
         if f (n_data nd) then do {
           r \<leftarrow> list_node_destroy st l pp;
           case fst r of
             Some v \<Rightarrow> delete_loop f (del_data (snd (snd r)) v (fst (snd r))) (snd (snd r)) pp (n + 1)
           | None \<Rightarrow> delete_loop f (fst (snd r)) (snd (snd r)) pp n
         } else delete_loop f st l (NextOf p) n
       }
   }"

definition list_delete_all :: "'a store \<Rightarrow> clist \<Rightarrow> ('a \<Rightarrow> bool) \<Rightarrow> (int \<times> 'a store \<times> clist) option" where
  "list_delete_all st l f = delete_loop f st l Head 0"

text \<open>A callback of \<^verbatim>\<open>list_for_each\<close> returns an int and may change its argument \<open>s\<close>.\<close>

partial_function (option) for_loop ::
    "('a \<Rightarrow> 's \<Rightarrow> int \<times> 's) \<Rightarrow> 'a store \<Rightarrow> nat option \<Rightarrow> int \<Rightarrow> 's \<Rightarrow> (int \<times> 's) option" where
  "for_loop f st p n s = (case p of None \<Rightarrow> Some (n, s)
     | Some a \<Rightarrow> do {
         nd \<leftarrow> s_nodes st a;
         if fst (f (n_data nd) s) < 0 then Some (- (n + 1), snd (f (n_data nd) s))
         else for_loop f st (n_next nd) (n + 1) (snd (f (n_data nd) s))
       })"

definition list_for_each :: "'a store \<Rightarrow> clist \<Rightarrow> ('a \<Rightarrow> 's \<Rightarrow> int \<times> 's) \<Rightarrow> 's \<Rightarrow> (int \<times> 's) option" where
  "list_for_each st l f s = for_loop f st (l_head l) 0 s"

partial_function (option) flush_loop ::
    "'a store \<Rightarrow> clist \<Rightarrow> int \<Rightarrow> (int \<times> 'a store \<times> clist) option" where
  "flush_loop st l n = do {
     q \<leftarrow> load st l Head;
     case q of None \<Rightarrow> Some (n, st, l)
     | Some p \<Rightarrow> do {
         r \<leftarrow> list_node_destroy st l Head;
         case fst r of
           Some v \<Rightarrow> flush_loop (del_data (snd (snd r)) v (fst (snd r))) (snd (snd r)) (n + 1)
         | None \<Rightarrow> flush_loop (fst (snd r)) (snd (snd r)) n
       }
   }"

definition list_flush :: "'a store \<Rightarrow> clist \<Rightarrow> (int \<times> 'a store \<times> clist) option" where
  "list_flush st l = flush_loop st l 0"

text \<open>\<^verbatim>\<open>list_destroy\<close> releases the iterators, then the nodes; NULL data does not occur.\<close>

fun free_iters :: "(nat \<times> iter) list \<Rightarrow> 'a store \<Rightarrow> 'a store" where
  "free_iters [] st = st"
| "free_iters ((a, i) # is) st = free_iters is (list_iterator_free a st)"

partial_function (option) destroy_loop :: "clist \<Rightarrow> 'a store \<Rightarrow> nat option \<Rightarrow> 'a store option" where
  "destroy_loop l st p = (case p of None \<Rightarrow> Some st
     | Some a \<Rightarrow> do {
         nd \<leftarrow> s_nodes st a;
         destroy_loop l (list_node_free a (del_data l (n_data nd) st)) (n_next nd)
       })"

definition list_destroy :: "'a store \<Rightarrow> clist \<Rightarrow> 'a store option" where
  "list_destroy st l = destroy_loop l (free_iters (l_iters l) st) (l_head l)"


section \<open>Iterators\<close>

definition list_iterator_create :: "'a store \<Rightarrow> clist \<Rightarrow> nat \<times> 'a store \<times> clist" where
  "list_iterator_create st l =
     (case list_iterator_alloc st of (a, st) \<Rightarrow>
        (a, st, l\<lparr>l_iters := (a, \<lparr>i_pos = l_head l, i_prev = Head\<rparr>) # l_iters l\<rparr>))"

fun set_iter :: "nat \<Rightarrow> 'i \<Rightarrow> (nat \<times> 'i) list \<Rightarrow> (nat \<times> 'i) list" where
  "set_iter a i [] = []"
| "set_iter a i ((b, j) # is) = (if a = b then (a, i) # is else (b, j) # set_iter a i is)"

definition list_iterator_reset :: "clist \<Rightarrow> nat \<Rightarrow> clist" where
  "list_iterator_reset l a = l\<lparr>l_iters := set_iter a \<lparr>i_pos = l_head l, i_prev = Head\<rparr> (l_iters l)\<rparr>"

fun unlink_iter :: "nat \<Rightarrow> (nat \<times> 'i) list \<Rightarrow> (nat \<times> 'i) list" where
  "unlink_iter a [] = []"
| "unlink_iter a ((b, j) # is) = (if a = b then is else (b, j) # unlink_iter a is)"

definition list_iterator_destroy :: "'a store \<Rightarrow> clist \<Rightarrow> nat \<Rightarrow> 'a store \<times> clist" where
  "list_iterator_destroy st l a = (list_iterator_free a st, l\<lparr>l_iters := unlink_iter a (l_iters l)\<rparr>)"

definition list_next :: "'a store \<Rightarrow> clist \<Rightarrow> nat \<Rightarrow> ('a option \<times> clist) option" where
  "list_next st l a = do {
     i \<leftarrow> map_of (l_iters l) a;
     let p = i_pos i;
     i \<leftarrow> (case p of None \<Rightarrow> Some i
          | Some b \<Rightarrow> do { n \<leftarrow> s_nodes st b; Some (i\<lparr>i_pos := n_next n\<rparr>) });
     q \<leftarrow> load st l (i_prev i);
     i \<leftarrow> (if q \<noteq> p then (case q of None \<Rightarrow> None | Some c \<Rightarrow> Some (i\<lparr>i_prev := NextOf c\<rparr>)) else Some i);
     v \<leftarrow> (case p of None \<Rightarrow> Some None | Some b \<Rightarrow> map_option (\<lambda>n. Some (n_data n)) (s_nodes st b));
     Some (v, l\<lparr>l_iters := set_iter a i (l_iters l)\<rparr>)
   }"

definition list_insert :: "'a store \<Rightarrow> clist \<Rightarrow> nat \<Rightarrow> 'a \<Rightarrow> ('a \<times> 'a store \<times> clist) option" where
  "list_insert st l a x = do { i \<leftarrow> map_of (l_iters l) a; list_node_create st l (i_prev i) x }"

partial_function (option) list_find :: "'a store \<Rightarrow> clist \<Rightarrow> nat \<Rightarrow> ('a \<Rightarrow> bool) \<Rightarrow> ('a option \<times> clist) option" where
  "list_find st l a f = do {
     r \<leftarrow> list_next st l a;
     case fst r of None \<Rightarrow> Some r
     | Some v \<Rightarrow> if f v then Some r else list_find st (snd r) a f
   }"

definition list_remove :: "'a store \<Rightarrow> clist \<Rightarrow> nat \<Rightarrow> ('a option \<times> 'a store \<times> clist) option" where
  "list_remove st l a = do {
     i \<leftarrow> map_of (l_iters l) a;
     q \<leftarrow> load st l (i_prev i);
     if q \<noteq> i_pos i then list_node_destroy st l (i_prev i) else Some (None, st, l)
   }"

definition list_delete_item :: "'a store \<Rightarrow> clist \<Rightarrow> nat \<Rightarrow> (int \<times> 'a store \<times> clist) option" where
  "list_delete_item st l a = do {
     (v, st, l) \<leftarrow> list_remove st l a;
     Some (case v of None \<Rightarrow> (0, st, l) | Some v \<Rightarrow> (1, del_data l v st, l))
   }"


section \<open>Two lists\<close>

partial_function (option) append_loop ::
    "'a store \<Rightarrow> clist \<Rightarrow> clist \<Rightarrow> nat \<Rightarrow> int \<Rightarrow> (int \<times> 'a store \<times> clist \<times> clist) option" where
  "append_loop st l sub a n = do {
     r \<leftarrow> list_next st sub a;
     case fst r of None \<Rightarrow> Some (n, st, l, snd r)
     | Some v \<Rightarrow> do {
         c \<leftarrow> list_append st l v;
         append_loop (fst (snd c)) (snd (snd c)) (snd r) a (n + 1)
       }
   }"

definition list_append_list :: "'a store \<Rightarrow> clist \<Rightarrow> clist \<Rightarrow> (int \<times> 'a store \<times> clist \<times> clist) option" where
  "list_append_list st l sub = do {
     assertC (\<not> l_fdel l);
     let (a, st, sub) = list_iterator_create st sub;
     (n, st, l, sub) \<leftarrow> append_loop st l sub a 0;
     let (st, sub) = list_iterator_destroy st sub a;
     Some (n, st, l, sub)
   }"

partial_function (option) transfer_loop ::
    "'a store \<Rightarrow> clist \<Rightarrow> clist \<Rightarrow> int \<Rightarrow> (int \<times> 'a store \<times> clist \<times> clist) option" where
  "transfer_loop st l sub n = do {
     r \<leftarrow> list_pop st sub;
     case fst r of None \<Rightarrow> Some (n, fst (snd r), l, snd (snd r))
     | Some v \<Rightarrow> do {
         c \<leftarrow> list_append (fst (snd r)) l v;
         transfer_loop (fst (snd c)) (snd (snd c)) (snd (snd r)) (n + 1)
       }
   }"

definition list_transfer :: "'a store \<Rightarrow> clist \<Rightarrow> clist \<Rightarrow> (int \<times> 'a store \<times> clist \<times> clist) option" where
  "list_transfer st l sub = do {
     assertC (l_fdel l = l_fdel sub);
     transfer_loop st l sub 0
   }"


section \<open>Sorting\<close>

text \<open>\<^verbatim>\<open>f\<close> compares two data; the loops move slots along the chain.\<close>

partial_function (option) sort_position ::
    "('a \<Rightarrow> 'a \<Rightarrow> int) \<Rightarrow> 'a store \<Rightarrow> clist \<Rightarrow> 'a \<Rightarrow> slot \<Rightarrow> slot option" where
  "sort_position f st l x pos = do {
     q \<leftarrow> load st l pos;
     n \<leftarrow> deref st q;
     if f x (n_data n) \<ge> 0 then sort_position f st l x (NextOf (the q)) else Some pos
   }"

partial_function (option) sort_loop ::
    "('a \<Rightarrow> 'a \<Rightarrow> int) \<Rightarrow> 'a store \<Rightarrow> clist \<Rightarrow> slot \<Rightarrow> slot \<Rightarrow> ('a store \<times> clist \<times> slot) option" where
  "sort_loop f st l prev pp = do {
     q \<leftarrow> load st l pp;
     case q of None \<Rightarrow> Some (st, l, pp)
     | Some p \<Rightarrow> do {
         n \<leftarrow> s_nodes st p;
         qp \<leftarrow> load st l prev;
         m \<leftarrow> deref st qp;
         if f (n_data n) (n_data m) < 0 then do {
           pos \<leftarrow> sort_position f st l (n_data n) Head;
           qpos \<leftarrow> load st l pos;
           s1 \<leftarrow> save st l (NextOf p) qpos;
           s2 \<leftarrow> save (fst s1) (snd s1) pos (Some p);
           s3 \<leftarrow> save (fst s2) (snd s2) pp (n_next n);
           if prev = pos then do {
             qn \<leftarrow> load (fst s3) (snd s3) prev;
             case qn of None \<Rightarrow> None | Some c \<Rightarrow> sort_loop f (fst s3) (snd s3) (NextOf c) pp
           } else sort_loop f (fst s3) (snd s3) prev pp
         } else sort_loop f st l pp (NextOf p)
       }
   }"

definition list_sort :: "'a store \<Rightarrow> clist \<Rightarrow> ('a \<Rightarrow> 'a \<Rightarrow> int) \<Rightarrow> ('a store \<times> clist) option" where
  "list_sort st l f =
     (if l_count l > 1 then do {
        h \<leftarrow> load st l Head;
        case h of None \<Rightarrow> None
        | Some a \<Rightarrow> do {
            (st, l, pp) \<leftarrow> sort_loop f st l Head (NextOf a);
            let l = l\<lparr>l_tail := pp\<rparr>;
            Some (st, l\<lparr>l_iters := map (\<lambda>(a, i). (a, \<lparr>i_pos = l_head l, i_prev = Head\<rparr>)) (l_iters l)\<rparr>)
          }
      } else Some (st, l))"

end
