(* ===== verification/Clist_Laws.thy ===== *)
theory Clist_Laws
  imports Clist
begin

text \<open>
  What the pointer manipulations of \<^verbatim>\<open>list.c\<close> mean.  A list in the store stands for a sequence of data,
  and an iterator for two indices into it: the next element, and the slot behind which it stands.
  Insertion and removal are simulated by operations on these.
\<close>


section \<open>Chains\<close>

fun path :: "'a store \<Rightarrow> nat option \<Rightarrow> nat list \<Rightarrow> bool" where
  "path st p [] \<longleftrightarrow> p = None"
| "path st p (a # as) \<longleftrightarrow> p = Some a \<and> (\<exists>n. s_nodes st a = Some n \<and> path st (n_next n) as)"

definition node_at :: "nat list \<Rightarrow> nat \<Rightarrow> nat option" where
  "node_at as k = (if k < length as then Some (as ! k) else None)"

definition slot_at :: "nat list \<Rightarrow> nat \<Rightarrow> slot" where
  "slot_at as j = (case j of 0 \<Rightarrow> Head | Suc i \<Rightarrow> NextOf (as ! i))"

lemma slot_at_0 [simp]: "slot_at as 0 = Head"
  by (simp add: slot_at_def)

lemma slot_at_Suc [simp]: "slot_at as (Suc i) = NextOf (as ! i)"
  by (simp add: slot_at_def)

lemma node_at_Suc [simp]: "node_at (a # as) (Suc k) = node_at as k"
  by (simp add: node_at_def)

lemma node_at_0: "node_at as 0 = (case as of [] \<Rightarrow> None | a # _ \<Rightarrow> Some a)"
  by (cases as) (simp_all add: node_at_def)

lemma path_node:
  "path st p as \<Longrightarrow> p = node_at as 0 \<and>
    (\<forall>k < length as. \<exists>n. s_nodes st (as ! k) = Some n \<and> n_next n = node_at as (Suc k))"
proof (induction as arbitrary: p)
  case (Cons a as)
  then obtain n where n: "s_nodes st a = Some n" "path st (n_next n) as" by auto
  note ih = Cons.IH [OF n(2)]
  have "\<exists>m. s_nodes st ((a # as) ! k) = Some m \<and> n_next m = node_at (a # as) (Suc k)" if "k < length (a # as)" for k
    using ih n(1) that by (cases k) auto
  then show ?case using Cons.prems by (simp add: node_at_def)
qed (simp add: node_at_def)

lemma path_intro:
  "p = node_at as 0 \<Longrightarrow> (\<And>k. k < length as \<Longrightarrow> \<exists>n. s_nodes st (as ! k) = Some n \<and> n_next n = node_at as (Suc k)) \<Longrightarrow>
    path st p as"
proof (induction as arbitrary: p)
  case (Cons a as)
  from Cons.prems(2) [of 0] obtain n where n: "s_nodes st a = Some n" "n_next n = node_at as 0" by auto
  have "path st (n_next n) as"
    using Cons.IH [OF n(2)] Cons.prems(2) by fastforce
  with n Cons.prems(1) show ?case by (simp add: node_at_def)
qed (simp add: node_at_def)

text \<open>
  The nodes of a list are distinct, allocated, and not on the free list; nothing beyond the
  break has been handed out.
\<close>

definition pool_ok :: "'a store \<Rightarrow> bool" where
  "pool_ok st \<longleftrightarrow> distinct (p_free (s_pool st)) \<and> (\<forall>a\<in>set (p_free (s_pool st)). a < p_brk (s_pool st) \<and> s_nodes st a = None) \<and>
     (\<forall>a. s_nodes st a \<noteq> None \<longrightarrow> a < p_brk (s_pool st))"

definition chain :: "'a store \<Rightarrow> clist \<Rightarrow> nat list \<Rightarrow> bool" where
  "chain st l as \<longleftrightarrow> path st (l_head l) as \<and> distinct as \<and> l_tail l = slot_at as (length as) \<and>
     l_count l = int (length as)"

definition iter_at :: "nat list \<Rightarrow> iter \<Rightarrow> nat \<times> nat \<Rightarrow> bool" where
  "iter_at as i = (\<lambda>(k, j). k \<le> length as \<and> (j = k \<or> Suc j = k) \<and> i_pos i = node_at as k \<and> i_prev i = slot_at as j)"

definition data_of :: "'a store \<Rightarrow> nat list \<Rightarrow> 'a list" where
  "data_of st as = map (\<lambda>a. n_data (the (s_nodes st a))) as"

lemma length_data_of [simp]: "length (data_of st as) = length as"
  by (simp add: data_of_def)

text \<open>The abstract list: its data, and for every iterator the two indices.\<close>

record 'a seq =
  q_data :: "'a list"
  q_cursors :: "(nat \<times> nat \<times> nat) list"

definition models :: "'a store \<Rightarrow> clist \<Rightarrow> nat list \<Rightarrow> 'a seq \<Rightarrow> bool" where
  "models st l as q \<longleftrightarrow> pool_ok st \<and> chain st l as \<and> q_data q = data_of st as \<and>
     list_all2 (\<lambda>(a, i) (b, c). a = b \<and> iter_at as i c) (l_iters l) (q_cursors q)"

lemma chain_node:
  assumes "chain st l as" and "k < length as"
  obtains n where "s_nodes st (as ! k) = Some n" and "n_next n = node_at as (Suc k)" and "n_data n = data_of st as ! k"
  using path_node [of st "l_head l" as] assms by (auto simp: chain_def data_of_def)

lemma load_slot:
  assumes "chain st l as" and "j \<le> length as"
  shows "load st l (slot_at as j) = Some (node_at as j)"
proof (cases j)
  case 0
  then show ?thesis using path_node [of st "l_head l" as] assms by (simp add: load_def chain_def)
next
  case (Suc i)
  then obtain n where "s_nodes st (as ! i) = Some n" "n_next n = node_at as (Suc i)"
    using chain_node [OF assms(1), of i] assms(2) by auto
  with Suc show ?thesis by (simp add: load_def)
qed

lemma slot_at_inj:
  assumes "distinct as" and "i \<le> length as" and "j \<le> length as" and "slot_at as i = slot_at as j"
  shows "i = j"
  using assms by (cases i; cases j) (auto simp: nth_eq_iff_index_eq)

lemma node_at_inj: "distinct as \<Longrightarrow> i \<le> length as \<Longrightarrow> j \<le> length as \<Longrightarrow> node_at as i = node_at as j \<Longrightarrow> i = j"
  by (auto simp: node_at_def nth_eq_iff_index_eq split: if_splits)

lemma iter_check_ok:
  assumes "chain st l as" and "iter_at as i (k, j)"
  shows "iter_check st l i = Some ()"
proof -
  from assms(2) have i: "k \<le> length as" "j = k \<or> Suc j = k" "i_pos i = node_at as k" "i_prev i = slot_at as j"
    by (auto simp: iter_at_def)
  have load: "load st l (i_prev i) = Some (node_at as j)" using load_slot [OF assms(1), of j] i by auto
  show ?thesis
  proof (cases "j = k")
    case True
    then show ?thesis using load i by (simp add: iter_check_def)
  next
    case False
    then have j: "Suc j = k" "j < length as" using i by auto
    obtain n where "s_nodes st (as ! j) = Some n" "n_next n = node_at as k"
      using chain_node [OF assms(1) j(2)] j(1) by auto
    then show ?thesis using load i j by (simp add: iter_check_def deref_def node_at_def)
  qed
qed

lemma fix_iters_ok:
  assumes "chain st l as"
    and "list_all2 (\<lambda>(a, i) (b, c). a = b \<and> iter_at bs i c) is cs"
    and "\<And>i c. iter_at bs i c \<Longrightarrow> iter_at as (f i) (g c)"
  shows "\<exists>is'. fix_iters st l f is = Some is' \<and>
    list_all2 (\<lambda>(a, i) (b, c). a = b \<and> iter_at as i c) is' (map (\<lambda>(b, c). (b, g c)) cs)"
  using assms(2)
proof (induction rule: list_all2_induct)
  case (Cons x xs y ys)
  obtain a i where x: "x = (a, i)" by fastforce
  obtain c where y: "y = (a, c)" "iter_at bs i c" using Cons.hyps x by (cases y) auto
  from Cons.IH obtain is' where is': "fix_iters st l f xs = Some is'"
    "list_all2 (\<lambda>(a, i) (b, c). a = b \<and> iter_at as i c) is' (map (\<lambda>(b, c). (b, g c)) ys)" by auto
  have at: "iter_at as (f i) (g c)" using assms(3) y(2) .
  then have "iter_check st l (f i) = Some ()" using iter_check_ok [OF assms(1)] by (cases "g c") simp
  with is' at show ?case by (simp add: x y(1))
qed simp


section \<open>Allocation\<close>

lemma node_alloc_ok:
  assumes "pool_ok st"
  shows "\<exists>p st'. list_node_alloc st = (p, st') \<and> s_nodes st' = s_nodes st \<and> s_nodes st p = None \<and>
    s_deleted st' = s_deleted st \<and> (\<forall>n. pool_ok (st'\<lparr>s_nodes := (s_nodes st)(p \<mapsto> n)\<rparr>))"
proof (cases "p_free (s_pool st)")
  case Nil
  let ?b = "p_brk (s_pool st)"
  let ?pl = "(s_pool st)\<lparr>p_free := [Suc ?b..<?b + LIST_ALLOC], p_brk := ?b + LIST_ALLOC\<rparr>"
  have up: "[?b..<?b + LIST_ALLOC] = ?b # [Suc ?b..<?b + LIST_ALLOC]"
    by (simp add: LIST_ALLOC_def upt_conv_Cons)
  have a: "list_node_alloc st = (?b, st\<lparr>s_pool := ?pl\<rparr>)"
    by (simp add: list_node_alloc_def list_alloc_aux_def Nil up)
  have none: "s_nodes st b = None" if "?b \<le> b" for b
    using assms that unfolding pool_ok_def by (meson linorder_not_less)
  have "pool_ok (st\<lparr>s_pool := ?pl, s_nodes := (s_nodes st)(?b \<mapsto> n)\<rparr>)" for n
    using assms none unfolding pool_ok_def by (auto simp: LIST_ALLOC_def intro: less_le_trans)
  with a none [of ?b] show ?thesis by auto
next
  case (Cons p ps)
  let ?pl = "(s_pool st)\<lparr>p_free := ps\<rparr>"
  have a: "list_node_alloc st = (p, st\<lparr>s_pool := ?pl\<rparr>)"
    by (simp add: list_node_alloc_def list_alloc_aux_def Cons)
  have "pool_ok (st\<lparr>s_pool := ?pl, s_nodes := (s_nodes st)(p \<mapsto> n)\<rparr>)" for n
    using assms Cons unfolding pool_ok_def by auto
  with a Cons assms show ?thesis by (auto simp: pool_ok_def)
qed

lemma node_free_ok:
  assumes "pool_ok st" and "s_nodes st p = Some n"
  shows "pool_ok (list_node_free p st)" and "s_nodes (list_node_free p st) = (s_nodes st)(p := None)"
  using assms unfolding pool_ok_def list_node_free_def list_free_aux_def by auto



section \<open>Insertion and removal\<close>

lemma path_cong: "(\<And>a. a \<in> set as \<Longrightarrow> s_nodes st' a = s_nodes st a) \<Longrightarrow> path st' p as = path st p as"
  by (induction as arbitrary: p) auto

definition insert_at :: "nat \<Rightarrow> 'b \<Rightarrow> 'b list \<Rightarrow> 'b list" where
  "insert_at j x xs = take j xs @ x # drop j xs"

definition remove_at :: "nat \<Rightarrow> 'b list \<Rightarrow> 'b list" where
  "remove_at j xs = take j xs @ drop (Suc j) xs"

lemma length_insert_at [simp]: "length (insert_at j x xs) = Suc (length xs)"
  by (simp add: insert_at_def)

lemma length_remove_at [simp]: "j < length xs \<Longrightarrow> length (remove_at j xs) = length xs - 1"
  by (simp add: remove_at_def)

lemma nth_insert_at:
  "j \<le> length xs \<Longrightarrow> k \<le> length xs \<Longrightarrow>
    insert_at j x xs ! k = (if k < j then xs ! k else if k = j then x else xs ! (k - 1))"
proof -
  assume a: "j \<le> length xs" "k \<le> length xs"
  show ?thesis
  proof (cases "k \<le> j")
    case False
    then obtain m where "k = Suc (j + m)" using less_imp_Suc_add [of j k] by auto
    with a show ?thesis by (simp add: insert_at_def nth_append)
  qed (use a in \<open>auto simp: insert_at_def nth_append\<close>)
qed

lemma nth_remove_at:
  "j < length xs \<Longrightarrow> k < length xs - 1 \<Longrightarrow> remove_at j xs ! k = (if k < j then xs ! k else xs ! Suc k)"
  by (auto simp: remove_at_def nth_append)

lemma set_insert_at: "set (insert_at j x xs) = insert x (set xs)"
  by (simp add: insert_at_def) (metis append_take_drop_id set_append)

lemma distinct_insert_at: "distinct (insert_at j x xs) \<longleftrightarrow> x \<notin> set xs \<and> distinct xs"
proof -
  have "distinct (take j xs @ drop j xs)" if "distinct xs" using that by simp
  moreover have "set (take j xs) \<union> set (drop j xs) = set xs" by (metis append_take_drop_id set_append)
  ultimately show ?thesis unfolding insert_at_def by (metis Un_iff append_take_drop_id distinct_append distinct.simps(2) disjoint_insert(2) list.simps(15))
qed

lemma node_at_insert:
  "j \<le> length as \<Longrightarrow> node_at (insert_at j p as) m = (if m < j then node_at as m else if m = j then Some p else node_at as (m - 1))"
  by (auto simp: node_at_def nth_insert_at)

lemma slot_at_insert:
  "j \<le> length as \<Longrightarrow> m \<le> Suc (length as) \<Longrightarrow>
    slot_at (insert_at j p as) m = (if m \<le> j then slot_at as m else if m = Suc j then NextOf p else slot_at as (m - 1))"
  by (cases m) (auto simp: nth_insert_at slot_at_def split: nat.splits)

lemma node_at_remove:
  "j < length as \<Longrightarrow> node_at (remove_at j as) m = (if m < j then node_at as m else node_at as (Suc m))"
  by (auto simp: node_at_def nth_remove_at)

lemma slot_at_remove:
  "j < length as \<Longrightarrow> m < length as \<Longrightarrow> slot_at (remove_at j as) m = (if m \<le> j then slot_at as m else slot_at as (Suc m))"
  by (cases m) (auto simp: nth_remove_at)

definition insert_cursor :: "nat \<Rightarrow> nat \<times> nat \<Rightarrow> nat \<times> nat" where
  "insert_cursor j = (\<lambda>(k, i). if i = j then (Suc k, Suc i) else if k = j then (k, i)
     else if j < k then (Suc k, Suc i) else (k, i))"

definition remove_cursor :: "nat \<Rightarrow> nat \<times> nat \<Rightarrow> nat \<times> nat" where
  "remove_cursor j = (\<lambda>(k, i). if k = j then (j, j) else if i = Suc j then (k - 1, j)
     else if j < k then (k - 1, if i = j then j else i - 1) else (k, i))"

definition seq_insert :: "nat \<Rightarrow> 'a \<Rightarrow> 'a seq \<Rightarrow> 'a seq" where
  "seq_insert j x q = \<lparr>q_data = insert_at j x (q_data q),
     q_cursors = map (\<lambda>(a, c). (a, insert_cursor j c)) (q_cursors q)\<rparr>"

definition seq_remove :: "nat \<Rightarrow> 'a seq \<Rightarrow> 'a seq" where
  "seq_remove j q = \<lparr>q_data = remove_at j (q_data q),
     q_cursors = map (\<lambda>(a, c). (a, remove_cursor j c)) (q_cursors q)\<rparr>"

lemma models_chain: "models st l as q \<Longrightarrow> chain st l as"
  by (simp add: models_def)

lemma models_length: "models st l as q \<Longrightarrow> length (q_data q) = length as"
  by (simp add: models_def)

lemma save_slot:
  assumes "j = 0 \<or> s_nodes st (as ! (j - 1)) \<noteq> None"
  shows "\<exists>st2 l2. save st l (slot_at as j) q = Some (st2, l2) \<and>
    l_head l2 = (if j = 0 then q else l_head l) \<and> l_tail l2 = l_tail l \<and> l_iters l2 = l_iters l \<and>
    l_count l2 = l_count l \<and> l_fdel l2 = l_fdel l \<and>
    s_pool st2 = s_pool st \<and> s_ipool st2 = s_ipool st \<and> s_deleted st2 = s_deleted st \<and>
    (\<forall>a. s_nodes st2 a = (if 0 < j \<and> a = as ! (j - 1) then map_option (\<lambda>n. n\<lparr>n_next := q\<rparr>) (s_nodes st a)
      else s_nodes st a))"
  using assms by (cases j) (auto simp: save_def)

lemma pool_ok_same:
  assumes "pool_ok st" and "s_pool st' = s_pool st" and "\<And>a. s_nodes st' a = None \<longleftrightarrow> s_nodes st a = None"
  shows "pool_ok st'"
  using assms unfolding pool_ok_def by metis

text \<open>The rest of the store, which other lists use, is left alone.\<close>

definition others_kept :: "'a store \<Rightarrow> 'a store \<Rightarrow> nat list \<Rightarrow> bool" where
  "others_kept st st' as \<longleftrightarrow> (\<forall>a. s_nodes st a \<noteq> None \<and> a \<notin> set as \<longrightarrow> s_nodes st' a = s_nodes st a)"

lemma iter_insert:
  assumes "iter_at as i (k, m)" and j: "j \<le> length as" and "distinct as" and p: "p \<notin> set as"
  shows "iter_at (insert_at j p as)
    (if i_prev i = slot_at as j then i\<lparr>i_prev := NextOf p\<rparr>
     else if i_pos i = node_at as j then i\<lparr>i_pos := Some p\<rparr> else i) (insert_cursor j (k, m))"
proof -
  from assms(1) have i: "k \<le> length as" "m = k \<or> Suc m = k" "i_pos i = node_at as k" "i_prev i = slot_at as m"
    by (auto simp: iter_at_def)
  have prev: "i_prev i = slot_at as j \<longleftrightarrow> m = j" using slot_at_inj [OF assms(3), of m j] i j by auto
  have pos: "i_pos i = node_at as j \<longleftrightarrow> k = j" using node_at_inj [OF assms(3), of k j] i j by auto
  have m: "m \<le> Suc (length as)" "k \<le> Suc (length as)" using i by auto
  show ?thesis
    unfolding prev pos using i j
    by (auto simp: iter_at_def insert_cursor_def node_at_insert slot_at_insert simp del: slot_at_Suc)
qed

lemma iter_remove:
  assumes "iter_at as i (k, m)" and j: "j < length as" and "distinct as"
  shows "iter_at (remove_at j as)
    (if i_pos i = Some (as ! j) then i\<lparr>i_pos := node_at as (Suc j), i_prev := slot_at as j\<rparr>
     else if i_prev i = NextOf (as ! j) then i\<lparr>i_prev := slot_at as j\<rparr> else i) (remove_cursor j (k, m))"
proof -
  from assms(1) have i: "k \<le> length as" "m = k \<or> Suc m = k" "i_pos i = node_at as k" "i_prev i = slot_at as m"
    by (auto simp: iter_at_def)
  have prev: "i_prev i = NextOf (as ! j) \<longleftrightarrow> m = Suc j" using slot_at_inj [OF assms(3), of m "Suc j"] i j by auto
  have "node_at as j = Some (as ! j)" using j by (simp add: node_at_def)
  then have pos: "i_pos i = Some (as ! j) \<longleftrightarrow> k = j" using node_at_inj [OF assms(3), of k j] i j by auto
  show ?thesis
    unfolding prev pos using i j
    by (auto simp: iter_at_def remove_cursor_def node_at_remove slot_at_remove simp del: slot_at_Suc)
qed

lemma insert_nodes:
  assumes nodes: "\<And>k. k < length as \<Longrightarrow> \<exists>n. N (as ! k) = Some n \<and> n_next n = node_at as (Suc k) \<and> n_data n = ds ! k"
    and dist: "distinct as" and j: "j \<le> length as" and fresh: "p \<notin> set as" and ds: "length ds = length as"
    and N': "\<And>a. N' a = (if 0 < j \<and> a = as ! (j - 1)
        then map_option (\<lambda>n. n\<lparr>n_next := Some p\<rparr>) ((N(p \<mapsto> \<lparr>n_data = x, n_next = node_at as j\<rparr>)) a)
        else (N(p \<mapsto> \<lparr>n_data = x, n_next = node_at as j\<rparr>)) a)"
    and k: "k < length (insert_at j p as)"
  shows "\<exists>n. N' (insert_at j p as ! k) = Some n \<and> n_next n = node_at (insert_at j p as) (Suc k) \<and>
    n_data n = insert_at j x ds ! k"
proof -
  consider "k < j" | "k = j" | i where "k = Suc i" "j \<le> i" "i < length as" using k by (cases k; fastforce)
  then show ?thesis
  proof cases
    case 1
    then obtain n where n: "N (as ! k) = Some n" "n_next n = node_at as (Suc k)" "n_data n = ds ! k"
      using nodes [of k] j by auto
    have ne: "as ! k \<noteq> p" using fresh 1 j by auto
    have eq: "as ! k = as ! (j - 1) \<longleftrightarrow> Suc k = j" using 1 j dist by (auto simp: nth_eq_iff_index_eq)
    show ?thesis using 1 n ne eq j ds
      by (cases "Suc k = j") (auto simp: nth_insert_at node_at_insert N')
  next
    case 2
    have "0 < j \<Longrightarrow> as ! (j - 1) \<noteq> p" using fresh j nth_mem [of "j - 1" as] by auto
    with 2 j ds show ?thesis by (auto simp: nth_insert_at node_at_insert N')
  next
    case i: 3
    obtain n where n: "N (as ! i) = Some n" "n_next n = node_at as (Suc i)" "n_data n = ds ! i"
      using nodes [OF i(3)] by auto
    have ne: "as ! i \<noteq> p" using fresh i(3) by auto
    have eq: "0 < j \<Longrightarrow> as ! i \<noteq> as ! (j - 1)" using i j dist by (auto simp: nth_eq_iff_index_eq)
    show ?thesis using i n ne eq j ds by (auto simp: nth_insert_at node_at_insert N')
  qed
qed

lemma create_models:
  assumes m: "models st l as q" and j: "j \<le> length as"
  shows "\<exists>p st' l'. list_node_create st l (slot_at as j) x = Some (x, st', l') \<and> s_nodes st p = None \<and>
    models st' l' (insert_at j p as) (seq_insert j x q) \<and> others_kept st st' as \<and>
    s_deleted st' = s_deleted st \<and> l_fdel l' = l_fdel l \<and>
    (\<forall>a. s_nodes st' a \<noteq> None \<longleftrightarrow> a = p \<or> s_nodes st a \<noteq> None)"
proof -
  have ch: "chain st l as" and pool: "pool_ok st" using m by (auto simp: models_def)
  have dist: "distinct as" using ch by (simp add: chain_def)
  obtain p st1 where alloc: "list_node_alloc st = (p, st1)" "s_nodes st1 = s_nodes st" "s_nodes st p = None"
    "s_deleted st1 = s_deleted st" "\<And>n. pool_ok (st1\<lparr>s_nodes := (s_nodes st)(p \<mapsto> n)\<rparr>)"
    using node_alloc_ok [OF pool] by blast
  have nodes: "\<exists>n. s_nodes st (as ! k) = Some n \<and> n_next n = node_at as (Suc k) \<and> n_data n = data_of st as ! k"
    if "k < length as" for k using chain_node [OF ch that] by metis
  have fresh: "p \<notin> set as"
  proof
    assume "p \<in> set as"
    then obtain k where "k < length as" "as ! k = p" by (auto simp: in_set_conv_nth)
    with nodes alloc(3) show False by fastforce
  qed
  let ?next = "node_at as j"
  have "load st1 l (slot_at as j) = load st l (slot_at as j)" by (simp add: load_def alloc(2) split: slot.splits)
  then have load1: "load st1 l (slot_at as j) = Some ?next" using load_slot [OF ch j] by simp
  let ?n = "\<lparr>n_data = x, n_next = ?next\<rparr>"
  define st2 where "st2 = st1\<lparr>s_nodes := (s_nodes st)(p \<mapsto> ?n)\<rparr>"
  define l2 where "l2 = (if ?next = None then l\<lparr>l_tail := NextOf p\<rparr> else l)"
  have "j = 0 \<or> s_nodes st2 (as ! (j - 1)) \<noteq> None"
    using nodes [of "j - 1"] j by (cases j) (auto simp: st2_def)
  from save_slot [OF this, of l2 "Some p"] obtain st3 l3 where
    save: "save st2 l2 (slot_at as j) (Some p) = Some (st3, l3)"
    and l3: "l_head l3 = (if j = 0 then Some p else l_head l2)" "l_tail l3 = l_tail l2" "l_iters l3 = l_iters l2"
      "l_count l3 = l_count l2" "l_fdel l3 = l_fdel l2"
    and st3: "s_pool st3 = s_pool st2" "s_ipool st3 = s_ipool st2" "s_deleted st3 = s_deleted st2"
      "\<And>a. s_nodes st3 a = (if 0 < j \<and> a = as ! (j - 1) then map_option (\<lambda>n. n\<lparr>n_next := Some p\<rparr>) (s_nodes st2 a)
        else s_nodes st2 a)"
    by metis
  define l4 where "l4 = l3\<lparr>l_count := l_count l3 + 1\<rparr>"
  let ?as = "insert_at j p as"
  have node3: "\<exists>n. s_nodes st3 (?as ! k) = Some n \<and> n_next n = node_at ?as (Suc k) \<and>
      n_data n = insert_at j x (data_of st as) ! k" if "k < length ?as" for k
    by (rule insert_nodes [OF nodes dist j fresh length_data_of _ that]) (simp_all add: st3(4) st2_def)
  have "path st3 (l_head l4) ?as"
  proof (rule path_intro)
    show "l_head l4 = node_at ?as 0"
      using ch path_node [of st "l_head l" as] j
      by (auto simp: l4_def l3 l2_def node_at_insert chain_def)
  qed (use node3 in blast)
  moreover have "l_tail l4 = slot_at ?as (length ?as)"
  proof (cases "j = length as")
    case True
    then show ?thesis by (simp add: l4_def l3 l2_def node_at_def nth_insert_at)
  next
    case False
    then have "j < length as" using j by simp
    then show ?thesis using ch j
      by (simp add: l4_def l3 l2_def node_at_def chain_def slot_at_insert del: slot_at_Suc length_insert_at)
        (simp add: slot_at_insert del: slot_at_Suc)
  qed
  ultimately have ch4: "chain st3 l4 ?as"
    using ch fresh by (simp add: chain_def l4_def l3 l2_def distinct_insert_at)
  have "list_all2 (\<lambda>(a, i) (b, c). a = b \<and> iter_at as i c) (l_iters l4) (q_cursors q)"
    using m by (simp add: models_def l4_def l3 l2_def)
  from fix_iters_ok [OF ch4 this, of
      "\<lambda>i. if i_prev i = slot_at as j then i\<lparr>i_prev := NextOf p\<rparr> else if i_pos i = ?next then i\<lparr>i_pos := Some p\<rparr> else i"
      "insert_cursor j"] iter_insert [OF _ j dist fresh]
  obtain is' where is': "fix_iters st3 l4
      (\<lambda>i. if i_prev i = slot_at as j then i\<lparr>i_prev := NextOf p\<rparr> else if i_pos i = ?next then i\<lparr>i_pos := Some p\<rparr> else i)
      (l_iters l4) = Some is'"
    "list_all2 (\<lambda>(a, i) (b, c). a = b \<and> iter_at ?as i c) is' (map (\<lambda>(b, c). (b, insert_cursor j c)) (q_cursors q))"
    by auto
  let ?l = "l4\<lparr>l_iters := is'\<rparr>"
  have create: "list_node_create st l (slot_at as j) x = Some (x, st3, ?l)"
    using load1 save is'(1) by (simp add: list_node_create_def alloc(1,2) st2_def l2_def l4_def Let_def)
  have none3: "s_nodes st3 a = None \<longleftrightarrow> s_nodes st2 a = None" for a by (simp add: st3(4))
  have pool3: "pool_ok st3"
    by (rule pool_ok_same [of st2]) (use alloc(5) none3 st3(1) in \<open>auto simp: st2_def\<close>)
  have data: "data_of st3 ?as = insert_at j x (data_of st as)"
    by (rule nth_equalityI) (use node3 in \<open>force simp: data_of_def\<close>)+
  have "models st3 ?l ?as (seq_insert j x q)"
    using pool3 ch4 is'(2) m by (simp add: models_def chain_def seq_insert_def data)
  moreover have "others_kept st st3 as"
    unfolding others_kept_def
  proof (intro allI impI)
    fix a assume a: "s_nodes st a \<noteq> None \<and> a \<notin> set as"
    then have "a \<noteq> p" using alloc(3) by auto
    moreover have "0 < j \<Longrightarrow> a \<noteq> as ! (j - 1)" using a j nth_mem [of "j - 1" as] by auto
    ultimately show "s_nodes st3 a = s_nodes st a" by (auto simp: st3(4) st2_def)
  qed
  moreover have "s_deleted st3 = s_deleted st" by (simp add: st3(3) st2_def alloc(4))
  moreover have "l_fdel ?l = l_fdel l" by (simp add: l4_def l3 l2_def)
  moreover have "\<forall>a. s_nodes st3 a \<noteq> None \<longleftrightarrow> a = p \<or> s_nodes st a \<noteq> None"
    using none3 by (auto simp: st2_def)
  ultimately show ?thesis using create alloc(3) by blast
qed

lemma remove_nodes:
  assumes nodes: "\<And>k. k < length as \<Longrightarrow> \<exists>n. N (as ! k) = Some n \<and> n_next n = node_at as (Suc k) \<and> n_data n = ds ! k"
    and dist: "distinct as" and j: "j < length as" and ds: "length ds = length as"
    and N': "\<And>a. a \<noteq> as ! j \<Longrightarrow> N' a = (if 0 < j \<and> a = as ! (j - 1)
        then map_option (\<lambda>n. n\<lparr>n_next := node_at as (Suc j)\<rparr>) (N a) else N a)"
    and k: "k < length (remove_at j as)"
  shows "\<exists>n. N' (remove_at j as ! k) = Some n \<and> n_next n = node_at (remove_at j as) (Suc k) \<and>
    n_data n = remove_at j ds ! k"
proof (cases "k < j")
  case True
  obtain n where n: "N (as ! k) = Some n" "n_next n = node_at as (Suc k)" "n_data n = ds ! k"
    using nodes [of k] True j by auto
  have ne: "as ! k \<noteq> as ! j" using True j dist by (auto simp: nth_eq_iff_index_eq)
  have eq: "as ! k = as ! (j - 1) \<longleftrightarrow> Suc k = j" using True j dist by (auto simp: nth_eq_iff_index_eq)
  have "N' (as ! k) = (if Suc k = j then Some (n\<lparr>n_next := node_at as (Suc j)\<rparr>) else Some n)"
    using N' [OF ne] n(1) True by (simp only: eq) auto
  moreover have "remove_at j as ! k = as ! k" "remove_at j ds ! k = ds ! k"
    using True j ds k by (simp_all add: nth_remove_at)
  moreover have "node_at (remove_at j as) (Suc k) = (if Suc k = j then node_at as (Suc j) else node_at as (Suc k))"
    using True j by (auto simp: node_at_remove)
  ultimately show ?thesis using n(2,3) by simp
next
  case False
  have k': "Suc k < length as" using k j by simp
  then obtain n where n: "N (as ! Suc k) = Some n" "n_next n = node_at as (Suc (Suc k))" "n_data n = ds ! Suc k"
    using nodes [of "Suc k"] by auto
  have ne: "as ! Suc k \<noteq> as ! j" using False k' j dist by (auto simp: nth_eq_iff_index_eq)
  have eq: "0 < j \<Longrightarrow> as ! Suc k \<noteq> as ! (j - 1)" using False k' j dist by (auto simp: nth_eq_iff_index_eq)
  show ?thesis using False n ne eq j ds k k'
    by (auto simp: nth_remove_at node_at_remove N' [OF ne])
qed

lemma set_remove_at:
  assumes "distinct as" and "j < length as"
  shows "set (remove_at j as) = set as - {as ! j}"
proof -
  define xs x ys where "xs = take j as" and "x = as ! j" and "ys = drop (Suc j) as"
  have "as = xs @ x # ys" unfolding xs_def x_def ys_def using assms(2) by (rule id_take_nth_drop)
  moreover have "remove_at j as = xs @ ys" by (simp add: remove_at_def xs_def ys_def)
  ultimately show ?thesis unfolding x_def [symmetric] using assms(1) by auto
qed

lemma distinct_remove_at: "distinct as \<Longrightarrow> distinct (remove_at j as)"
  by (simp add: remove_at_def set_take_disj_set_drop_if_distinct)

lemma destroy_none:
  "models st l as q \<Longrightarrow> list_node_destroy st l (slot_at as (length as)) = Some (None, st, l)"
  by (simp add: list_node_destroy_def load_slot [OF models_chain] node_at_def)

lemma destroy_models:
  assumes m: "models st l as q" and j: "j < length as"
  shows "\<exists>st' l'. list_node_destroy st l (slot_at as j) = Some (Some (q_data q ! j), st', l') \<and>
    models st' l' (remove_at j as) (seq_remove j q) \<and> others_kept st st' as \<and>
    s_deleted st' = s_deleted st \<and> l_fdel l' = l_fdel l \<and>
    (\<forall>a. s_nodes st' a \<noteq> None \<longleftrightarrow> a \<noteq> as ! j \<and> s_nodes st a \<noteq> None)"
proof -
  have ch: "chain st l as" and pool: "pool_ok st" and qd: "q_data q = data_of st as" using m by (auto simp: models_def)
  have dist: "distinct as" using ch by (simp add: chain_def)
  have nodes: "\<exists>n. s_nodes st (as ! k) = Some n \<and> n_next n = node_at as (Suc k) \<and> n_data n = data_of st as ! k"
    if "k < length as" for k using chain_node [OF ch that] by metis
  obtain n where n: "s_nodes st (as ! j) = Some n" "n_next n = node_at as (Suc j)" "n_data n = data_of st as ! j"
    using nodes [OF j] by auto
  have load: "load st l (slot_at as j) = Some (Some (as ! j))" using load_slot [OF ch, of j] j by (simp add: node_at_def)
  have "j = 0 \<or> s_nodes st (as ! (j - 1)) \<noteq> None"
    using nodes [of "j - 1"] j by (cases j) auto
  from save_slot [OF this, of l "n_next n"] obtain st1 l1 where
    save: "save st l (slot_at as j) (n_next n) = Some (st1, l1)"
    and l1: "l_head l1 = (if j = 0 then n_next n else l_head l)" "l_tail l1 = l_tail l" "l_iters l1 = l_iters l"
      "l_count l1 = l_count l" "l_fdel l1 = l_fdel l"
    and st1: "s_pool st1 = s_pool st" "s_ipool st1 = s_ipool st" "s_deleted st1 = s_deleted st"
      "\<And>a. s_nodes st1 a = (if 0 < j \<and> a = as ! (j - 1) then map_option (\<lambda>m. m\<lparr>n_next := n_next n\<rparr>) (s_nodes st a)
        else s_nodes st a)"
    by metis
  define l2 where "l2 = (if n_next n = None then l1\<lparr>l_tail := slot_at as j\<rparr> else l1)\<lparr>l_count := l_count l1 - 1\<rparr>"
  let ?as = "remove_at j as"
  have node1: "\<exists>n. s_nodes st1 (?as ! k) = Some n \<and> n_next n = node_at ?as (Suc k) \<and>
      n_data n = remove_at j (data_of st as) ! k" if "k < length ?as" for k
    by (rule remove_nodes [OF nodes dist j length_data_of _ that]) (simp_all add: st1(4) n(2))
  have "path st1 (l_head l2) ?as"
  proof (rule path_intro)
    show "l_head l2 = node_at ?as 0"
      using ch path_node [of st "l_head l" as] j n(2)
      by (auto simp: l2_def l1 node_at_remove chain_def)
  qed (use node1 in blast)
  moreover have "l_tail l2 = slot_at ?as (length ?as)"
  proof -
    obtain L where L: "length as = Suc L" using j by (cases "length as") auto
    have "slot_at ?as L = (if L \<le> j then slot_at as L else slot_at as (Suc L))"
      using slot_at_remove [OF j, of L] L by simp
    moreover have "n_next n = None \<longleftrightarrow> L = j" using j L n(2) by (auto simp: node_at_def)
    ultimately show ?thesis using ch j L by (auto simp: l2_def l1 chain_def simp del: slot_at_Suc)
  qed
  ultimately have ch2: "chain st1 l2 ?as"
    using ch j distinct_remove_at [OF dist] by (simp add: chain_def l2_def l1)
  have "list_all2 (\<lambda>(a, i) (b, c). a = b \<and> iter_at as i c) (l_iters l2) (q_cursors q)"
    using m by (simp add: models_def l2_def l1)
  from fix_iters_ok [OF ch2 this, of
      "\<lambda>i. if i_pos i = Some (as ! j) then i\<lparr>i_pos := node_at as (Suc j), i_prev := slot_at as j\<rparr>
        else if i_prev i = NextOf (as ! j) then i\<lparr>i_prev := slot_at as j\<rparr> else i"
      "remove_cursor j"] iter_remove [OF _ j dist]
  obtain is' where is': "fix_iters st1 l2
      (\<lambda>i. if i_pos i = Some (as ! j) then i\<lparr>i_pos := node_at as (Suc j), i_prev := slot_at as j\<rparr>
        else if i_prev i = NextOf (as ! j) then i\<lparr>i_prev := slot_at as j\<rparr> else i) (l_iters l2) = Some is'"
    "list_all2 (\<lambda>(a, i) (b, c). a = b \<and> iter_at ?as i c) is' (map (\<lambda>(b, c). (b, remove_cursor j c)) (q_cursors q))"
    by auto
  let ?l = "l2\<lparr>l_iters := is'\<rparr>"
  let ?st = "list_node_free (as ! j) st1"
  have destroy: "list_node_destroy st l (slot_at as j) = Some (Some (q_data q ! j), ?st, ?l)"
  proof -
    have "fix_iters st1 l2 (\<lambda>i. if i_pos i = Some (as ! j) then i\<lparr>i_pos := n_next n, i_prev := slot_at as j\<rparr>
        else if i_prev i = NextOf (as ! j) then i\<lparr>i_prev := slot_at as j\<rparr> else i) (l_iters l2) = Some is'"
      using is'(1) unfolding n(2) .
    then show ?thesis using load save n(1,3)
      by (cases "n_next n") (simp_all add: list_node_destroy_def l2_def Let_def qd)
  qed
  have none1: "s_nodes st1 a = None \<longleftrightarrow> s_nodes st a = None" for a by (simp add: st1(4))
  have pool1: "pool_ok st1" by (rule pool_ok_same [OF pool st1(1) none1])
  obtain n1 where n1: "s_nodes st1 (as ! j) = Some n1" using none1 [of "as ! j"] n(1) by auto
  note free = node_free_ok [OF pool1 n1]
  have in_as: "?as ! k \<noteq> as ! j" if "k < length ?as" for k
    using that set_remove_at [OF dist j] nth_mem by blast
  have ch3: "chain ?st ?l ?as"
  proof -
    have "path ?st q ?as = path st1 q ?as" for q
      by (rule path_cong) (use set_remove_at [OF dist j] in \<open>auto simp: free(2)\<close>)
    then show ?thesis using ch2 by (simp add: chain_def)
  qed
  have data: "data_of ?st ?as = remove_at j (data_of st as)"
    by (rule nth_equalityI) (use node1 in_as j in \<open>force simp: data_of_def free(2)\<close>)+
  have "models ?st ?l ?as (seq_remove j q)"
    using free(1) ch3 is'(2) m by (simp add: models_def seq_remove_def data qd)
  moreover have "others_kept st ?st as"
    unfolding others_kept_def
  proof (intro allI impI)
    fix a assume a: "s_nodes st a \<noteq> None \<and> a \<notin> set as"
    then have "a \<noteq> as ! j" using j by auto
    moreover have "0 < j \<Longrightarrow> a \<noteq> as ! (j - 1)" using a j nth_mem [of "j - 1" as] by auto
    ultimately show "s_nodes ?st a = s_nodes st a" by (auto simp: st1(4) free(2))
  qed
  moreover have "s_deleted ?st = s_deleted st" by (simp add: st1(3) list_node_free_def)
  moreover have "l_fdel ?l = l_fdel l" by (simp add: l2_def l1)
  moreover have "\<forall>a. s_nodes ?st a \<noteq> None \<longleftrightarrow> a \<noteq> as ! j \<and> s_nodes st a \<noteq> None"
    using none1 by (simp add: free(2) del: not_None_eq)
  ultimately show ?thesis using destroy by blast
qed

end
