(* ===== verification/Clist_Ops.thy ===== *)
theory Clist_Ops
  imports Clist_Laws
begin

text \<open>
  The operations of \<^verbatim>\<open>list.c\<close> on the sequences their lists stand for: ends, iterators, loops with
  callbacks, and operations on two lists.
\<close>


section \<open>Lists that stand for a sequence\<close>

definition is_list :: "'a store \<Rightarrow> clist \<Rightarrow> 'a seq \<Rightarrow> bool" where
  "is_list st l q \<longleftrightarrow> (\<exists>as. models st l as q)"

text \<open>The empty store, in which nothing has been allocated.\<close>

definition empty_store :: "'a store" where
  "empty_store = \<lparr>s_nodes = Map.empty, s_pool = \<lparr>p_free = [], p_brk = 0\<rparr>,
     s_ipool = \<lparr>p_free = [], p_brk = 0\<rparr>, s_deleted = []\<rparr>"

lemma pool_ok_empty: "pool_ok empty_store"
  by (simp add: pool_ok_def empty_store_def)

lemma models_create: "pool_ok st \<Longrightarrow> models st (list_create f) [] \<lparr>q_data = [], q_cursors = []\<rparr>"
  by (simp add: models_def chain_def list_create_def data_of_def)

lemma models_frame:
  assumes "models st l bs q" and "others_kept st st' as" and "set as \<inter> set bs = {}" and "pool_ok st'"
  shows "models st' l bs q"
proof -
  have eq: "s_nodes st' b = s_nodes st b" if b: "b \<in> set bs" for b
  proof -
    obtain k where "k < length bs" "bs ! k = b" using b by (auto simp: in_set_conv_nth)
    then obtain n where "s_nodes st b = Some n"
      using chain_node [OF models_chain [OF assms(1)], of k] by blast
    then have "s_nodes st b \<noteq> None" "b \<notin> set as" using b assms(3) by auto
    with assms(2) show ?thesis unfolding others_kept_def by blast
  qed
  have "path st' p bs = path st p bs" for p by (rule path_cong) (rule eq)
  moreover have "data_of st' bs = data_of st bs" by (simp add: data_of_def eq)
  ultimately show ?thesis using assms(1,4) by (simp add: models_def chain_def)
qed

lemma insert_at_end [simp]: "insert_at (length xs) x xs = xs @ [x]"
  by (simp add: insert_at_def)

lemma insert_at_0 [simp]: "insert_at 0 x xs = x # xs"
  by (simp add: insert_at_def)

lemma remove_at_0 [simp]: "remove_at 0 (x # xs) = xs"
  by (simp add: remove_at_def)


section \<open>The two ends\<close>

lemma append_models:
  assumes "models st l as q"
  shows "\<exists>p st' l'. list_append st l x = Some (x, st', l') \<and> s_nodes st p = None \<and>
    models st' l' (as @ [p]) (seq_insert (length (q_data q)) x q) \<and> others_kept st st' as \<and>
    s_deleted st' = s_deleted st \<and> l_fdel l' = l_fdel l"
  using create_models [OF assms order_refl, of x] models_chain [OF assms] models_length [OF assms]
  by (auto simp: list_append_def chain_def)

lemma push_models:
  assumes "models st l as q"
  shows "\<exists>p st' l'. list_push st l x = Some (x, st', l') \<and> s_nodes st p = None \<and>
    models st' l' (p # as) (seq_insert 0 x q) \<and> others_kept st st' as \<and>
    s_deleted st' = s_deleted st \<and> l_fdel l' = l_fdel l"
  using create_models [OF assms, of 0 x] by (auto simp: list_push_def)

lemma pop_models:
  assumes m: "models st l as q"
  shows "case q_data q of [] \<Rightarrow> list_pop st l = Some (None, st, l)
    | x # xs \<Rightarrow> \<exists>st' l'. list_pop st l = Some (Some x, st', l') \<and> models st' l' (tl as) (seq_remove 0 q) \<and>
        others_kept st st' as \<and> s_deleted st' = s_deleted st \<and> l_fdel l' = l_fdel l"
proof (cases "q_data q")
  case Nil
  then have "as = []" using models_length [OF m] by simp
  with destroy_none [OF m] Nil show ?thesis by (simp add: list_pop_def)
next
  case (Cons x xs)
  then have l: "0 < length as" using models_length [OF m] by (metis length_greater_0_conv length_0_conv list.distinct(1))
  then obtain a bs where as: "as = a # bs" by (cases as) auto
  show ?thesis using destroy_models [OF m l] Cons by (auto simp: list_pop_def as)
qed

text \<open>
  \<^verbatim>\<open>list_enqueue\<close> adds at the end and \<^verbatim>\<open>list_dequeue\<close> takes from the front, on any list reached by
  these operations: the order is first in, first out, the count is the number of elements, and
  registered iterators stay attached.
\<close>

lemma enqueue_is_list:
  assumes "is_list st l q"
  shows "\<exists>st' l'. list_enqueue st l x = Some (x, st', l') \<and> is_list st' l' (seq_insert (length (q_data q)) x q)"
  using append_models assms unfolding is_list_def list_enqueue_def list_append_def by metis

lemma dequeue_is_list:
  assumes "is_list st l q"
  shows "case q_data q of [] \<Rightarrow> list_dequeue st l = Some (None, st, l)
    | x # xs \<Rightarrow> \<exists>st' l'. list_dequeue st l = Some (Some x, st', l') \<and> is_list st' l' (seq_remove 0 q)"
  using pop_models assms unfolding is_list_def list_dequeue_def list_pop_def
  by (cases "q_data q") fastforce+

lemma count_is_list: "is_list st l q \<Longrightarrow> list_count l = int (length (q_data q))"
  by (auto simp: is_list_def list_count_def models_def chain_def)

lemma peek_is_list:
  "is_list st l q \<Longrightarrow> list_peek st l = Some (case q_data q of [] \<Rightarrow> None | x # _ \<Rightarrow> Some x)"
proof -
  assume "is_list st l q"
  then obtain as where m: "models st l as q" by (auto simp: is_list_def)
  show ?thesis
  proof (cases as)
    case Nil
    then show ?thesis using m by (auto simp: models_def chain_def list_peek_def data_of_def)
  next
    case (Cons a bs)
    then show ?thesis using m by (auto simp: models_def chain_def list_peek_def data_of_def)
  qed
qed

end
