(* ===== verification/Clist_Iter.thy ===== *)
theory Clist_Iter
  imports Clist_Ops
begin

text \<open>
  Iterators of \<^verbatim>\<open>list.c\<close>: an iterator stands at a pair of indices \<open>(k, j)\<close>, where \<open>k\<close> is the next
  element and \<open>j\<close> is \<open>k\<close> or, right after \<^verbatim>\<open>list_next\<close>, the element before it.
\<close>


section \<open>Cursors\<close>

definition next_cursor :: "nat \<Rightarrow> nat \<times> nat \<Rightarrow> nat \<times> nat" where
  "next_cursor n c = (if fst c < n then (Suc (fst c), fst c) else (n, n))"

definition cursor_of :: "'a seq \<Rightarrow> nat \<Rightarrow> (nat \<times> nat) option" where
  "cursor_of q a = map_of (q_cursors q) a"

definition set_cursor :: "nat \<Rightarrow> nat \<times> nat \<Rightarrow> 'a seq \<Rightarrow> 'a seq" where
  "set_cursor a c q = q\<lparr>q_cursors := set_iter a c (q_cursors q)\<rparr>"

lemma q_data_set_cursor [simp]: "q_data (set_cursor a c q) = q_data q"
  by (simp add: set_cursor_def)

lemma map_of_set_iter: "map_of (set_iter a c is) b = (if a = b \<and> map_of is a \<noteq> None then Some c else map_of is b)"
  by (induction a c "is" rule: set_iter.induct) auto

lemma set_iter_set_iter [simp]: "set_iter a c (set_iter a d is) = set_iter a c is"
  by (induction a d "is" rule: set_iter.induct) auto

lemma cursor_of_set_cursor [simp]:
  "cursor_of (set_cursor a c q) b = (if a = b \<and> cursor_of q a \<noteq> None then Some c else cursor_of q b)"
  by (cases "cursor_of q a") (auto simp: cursor_of_def set_cursor_def map_of_set_iter)

lemma set_cursor_set_cursor [simp]: "set_cursor a c (set_cursor a d q) = set_cursor a c q"
  by (simp add: set_cursor_def)

text \<open>Iterators in the store and cursors of the sequence, address by address.\<close>

lemma iter_of_cursor:
  "list_all2 (\<lambda>(a, i) (b, c). a = b \<and> P i c) is cs \<Longrightarrow> map_of cs a = Some c \<Longrightarrow>
    \<exists>i. map_of is a = Some i \<and> P i c"
  by (induction rule: list_all2_induct) (auto split: if_splits)

lemma set_iter_cursors:
  "list_all2 (\<lambda>(a, i) (b, c). a = b \<and> P i c) is cs \<Longrightarrow> P i c \<Longrightarrow>
    list_all2 (\<lambda>(a, i) (b, c). a = b \<and> P i c) (set_iter a i is) (set_iter a c cs)"
  by (induction rule: list_all2_induct) auto

lemma unlink_cursors:
  "list_all2 (\<lambda>(a, i) (b, c). a = b \<and> P i c) is cs \<Longrightarrow>
    list_all2 (\<lambda>(a, i) (b, c). a = b \<and> P i c) (unlink_iter a is) (unlink_iter a cs)"
  by (induction rule: list_all2_induct) auto

lemma models_iter:
  assumes "models st l as q" and "cursor_of q a = Some (k, j)"
  obtains i where "map_of (l_iters l) a = Some i" and "k \<le> length as" and "j = k \<or> Suc j = k"
    and "i_pos i = node_at as k" and "i_prev i = slot_at as j"
proof -
  have "list_all2 (\<lambda>(a, i) (b, c). a = b \<and> iter_at as i c) (l_iters l) (q_cursors q)"
    using assms(1) by (simp add: models_def)
  from iter_of_cursor [OF this, of a "(k, j)"] assms(2) that show ?thesis
    by (auto simp: cursor_of_def iter_at_def)
qed

lemma models_set_iter:
  assumes "models st l as q" and "iter_at as i c"
  shows "models st (l\<lparr>l_iters := set_iter a i (l_iters l)\<rparr>) as (set_cursor a c q)"
  using assms set_iter_cursors [of "iter_at as" "l_iters l" "q_cursors q" i c a]
  by (auto simp: models_def chain_def set_cursor_def)


section \<open>Creation, reset and destruction\<close>

definition same_nodes :: "'a store \<Rightarrow> 'a store \<Rightarrow> bool" where
  "same_nodes st st' \<longleftrightarrow> s_nodes st' = s_nodes st \<and> s_pool st' = s_pool st \<and> s_deleted st' = s_deleted st"

lemma models_same_nodes:
  assumes "same_nodes st st'"
  shows "models st' l as q = models st l as q"
proof -
  have "path st' r as = path st r as" for r
    by (rule path_cong) (use assms in \<open>simp add: same_nodes_def\<close>)
  then show ?thesis using assms by (simp add: same_nodes_def models_def chain_def pool_ok_def data_of_def)
qed

lemma iterator_alloc: "same_nodes st (snd (list_iterator_alloc st))"
  by (simp add: list_iterator_alloc_def same_nodes_def split: prod.split)

lemma iterator_free: "same_nodes st (list_iterator_free a st)"
  by (simp add: list_iterator_free_def same_nodes_def)

lemma start_iter: "models st l as q \<Longrightarrow> iter_at as \<lparr>i_pos = l_head l, i_prev = Head\<rparr> (0, 0)"
  using path_node [of st "l_head l" as] by (auto simp: models_def chain_def iter_at_def)

lemma iterator_create_models:
  assumes "models st l as q"
  shows "\<exists>a st' l'. list_iterator_create st l = (a, st', l') \<and> same_nodes st st' \<and>
    models st' l' as (q\<lparr>q_cursors := (a, 0, 0) # q_cursors q\<rparr>) \<and> l_fdel l' = l_fdel l"
proof -
  obtain a st' where a: "list_iterator_alloc st = (a, st')" by fastforce
  have same: "same_nodes st st'" using iterator_alloc [of st] a by simp
  have "models st (l\<lparr>l_iters := (a, \<lparr>i_pos = l_head l, i_prev = Head\<rparr>) # l_iters l\<rparr>) as
      (q\<lparr>q_cursors := (a, 0, 0) # q_cursors q\<rparr>)"
    using assms start_iter [OF assms] by (simp add: models_def chain_def)
  then show ?thesis using a same models_same_nodes [OF same] by (simp add: list_iterator_create_def)
qed

lemma iterator_reset_models:
  assumes "models st l as q"
  shows "models st (list_iterator_reset l a) as (set_cursor a (0, 0) q)"
  unfolding list_iterator_reset_def by (rule models_set_iter [OF assms start_iter [OF assms]])

lemma iterator_destroy_models:
  assumes "models st l as q"
  shows "\<exists>st' l'. list_iterator_destroy st l a = (st', l') \<and> same_nodes st st' \<and>
    models st' l' as (q\<lparr>q_cursors := unlink_iter a (q_cursors q)\<rparr>) \<and> l_fdel l' = l_fdel l"
proof -
  have "models st (l\<lparr>l_iters := unlink_iter a (l_iters l)\<rparr>) as (q\<lparr>q_cursors := unlink_iter a (q_cursors q)\<rparr>)"
    using assms unlink_cursors [of "iter_at as" "l_iters l" "q_cursors q" a]
    by (simp add: models_def chain_def)
  then show ?thesis
    by (simp add: list_iterator_destroy_def iterator_free models_same_nodes [OF iterator_free])
qed


section \<open>Moving on\<close>

lemma next_models:
  assumes m: "models st l as q" and c: "cursor_of q a = Some (k, j)"
  shows "\<exists>l'. list_next st l a = Some (if k < length as then Some (q_data q ! k) else None, l') \<and>
    models st l' as (set_cursor a (next_cursor (length as) (k, j)) q) \<and> l_fdel l' = l_fdel l"
proof -
  obtain i where i: "map_of (l_iters l) a = Some i" "k \<le> length as" "j = k \<or> Suc j = k"
    "i_pos i = node_at as k" "i_prev i = slot_at as j"
    using models_iter [OF m c] by blast
  note ch = models_chain [OF m]
  have load: "load st l (slot_at as j) = Some (node_at as j)" using load_slot [OF ch, of j] i by auto
  have q: "q_data q = data_of st as" using m by (simp add: models_def)
  have dist: "distinct as" using ch by (simp add: chain_def)
  define s where "s = (if j = k then slot_at as j else NextOf (as ! j))"
  have s: "s = slot_at as k" using i(3) by (auto simp: s_def)
  have ne: "j \<noteq> k \<Longrightarrow> node_at as j \<noteq> node_at as k" using node_at_inj [OF dist, of j k] i by auto
  show ?thesis
  proof (cases "k < length as")
    case True
    obtain n where n: "s_nodes st (as ! k) = Some n" "n_next n = node_at as (Suc k)" "n_data n = data_of st as ! k"
      using chain_node [OF ch True] by blast
    have at: "iter_at as (i\<lparr>i_pos := node_at as (Suc k), i_prev := s\<rparr>) (Suc k, k)"
      using True s by (simp add: iter_at_def)
    have pos: "node_at as k = Some (as ! k)" using True by (simp add: node_at_def)
    have "list_next st l a = Some (Some (q_data q ! k),
        l\<lparr>l_iters := set_iter a (i\<lparr>i_pos := node_at as (Suc k), i_prev := s\<rparr>) (l_iters l)\<rparr>)"
    proof (cases "j = k")
      case True
      moreover from this have "i\<lparr>i_pos := r, i_prev := s\<rparr> = i\<lparr>i_pos := r\<rparr>" for r
        using i(5) by (intro iter.equality) (simp_all add: s_def)
      ultimately show ?thesis using i n load pos q by (simp add: list_next_def)
    next
      case False
      then have "node_at as j = Some (as ! j)" using True i by (simp add: node_at_def)
      then show ?thesis using False i n load pos q ne by (simp add: list_next_def s_def)
    qed
    then show ?thesis using models_set_iter [OF m at] True by (simp add: next_cursor_def)
  next
    case False
    then have k: "k = length as" and pos: "node_at as k = None" using i by (auto simp: node_at_def)
    have at: "iter_at as (i\<lparr>i_prev := s\<rparr>) (length as, length as)"
      using s k i(4) by (simp add: iter_at_def)
    have "list_next st l a = Some (None, l\<lparr>l_iters := set_iter a (i\<lparr>i_prev := s\<rparr>) (l_iters l)\<rparr>)"
    proof (cases "j = k")
      case True
      then have "i\<lparr>i_prev := s\<rparr> = i" using i(5) by (simp add: s_def)
      then show ?thesis using True i load pos by (simp add: list_next_def)
    next
      case False
      then have "node_at as j = Some (as ! j)" using k i by (simp add: node_at_def)
      then show ?thesis using False i load pos by (simp add: list_next_def s_def)
    qed
    then show ?thesis using models_set_iter [OF m at] k by (simp add: next_cursor_def)
  qed
qed

lemma insert_models:
  assumes m: "models st l as q" and c: "cursor_of q a = Some (k, j)"
  shows "\<exists>p st' l'. list_insert st l a x = Some (x, st', l') \<and> s_nodes st p = None \<and>
    models st' l' (insert_at j p as) (seq_insert j x q) \<and> others_kept st st' as \<and>
    s_deleted st' = s_deleted st \<and> l_fdel l' = l_fdel l"
proof -
  obtain i where i: "map_of (l_iters l) a = Some i" "k \<le> length as" "j = k \<or> Suc j = k"
    "i_prev i = slot_at as j"
    using models_iter [OF m c] by blast
  have j: "j \<le> length as" using i by auto
  show ?thesis using create_models [OF m j, of x] i by (auto simp: list_insert_def)
qed

lemma remove_models:
  assumes m: "models st l as q" and c: "cursor_of q a = Some (k, j)"
  shows "if j < k then \<exists>st' l'. list_remove st l a = Some (Some (q_data q ! j), st', l') \<and>
      models st' l' (remove_at j as) (seq_remove j q) \<and> others_kept st st' as \<and>
      s_deleted st' = s_deleted st \<and> l_fdel l' = l_fdel l
    else list_remove st l a = Some (None, st, l)"
proof -
  obtain i where i: "map_of (l_iters l) a = Some i" "k \<le> length as" "j = k \<or> Suc j = k"
    "i_pos i = node_at as k" "i_prev i = slot_at as j"
    using models_iter [OF m c] by blast
  note ch = models_chain [OF m]
  have load: "load st l (slot_at as j) = Some (node_at as j)" using load_slot [OF ch, of j] i by auto
  have dist: "distinct as" using ch by (simp add: chain_def)
  show ?thesis
  proof (cases "j < k")
    case True
    then have j: "j < length as" using i by simp
    have "node_at as j \<noteq> node_at as k" using node_at_inj [OF dist, of j k] i True by auto
    then show ?thesis using destroy_models [OF m j] True i load by (auto simp: list_remove_def)
  next
    case False
    then show ?thesis using i load by (auto simp: list_remove_def)
  qed
qed

end
