(* ===== verification/Clist_Loops.thy ===== *)
theory Clist_Loops
  imports Clist_Iter
begin

text \<open>
  The loops of \<^verbatim>\<open>list.c\<close>: every one returns on a list that stands for a sequence, and computes the
  list function it is meant to.
\<close>


section \<open>Walks\<close>

lemma models_path: "models st l as q \<Longrightarrow> path st (l_head l) as \<and> q_data q = data_of st as"
  by (simp add: models_def chain_def)

lemma find_loop_path: "path st p as \<Longrightarrow> find_loop st f p = Some (List.find f (data_of st as))"
proof (induction as arbitrary: p)
  case Nil
  then show ?case by (subst find_loop.simps) (simp add: data_of_def)
next
  case (Cons a as)
  then show ?case by (subst find_loop.simps) (auto simp: data_of_def)
qed

lemma find_first_models: "models st l as q \<Longrightarrow> list_find_first st l f = Some (List.find f (q_data q))"
  using find_loop_path models_path unfolding list_find_first_def by metis

text \<open>\<^verbatim>\<open>list_for_each\<close>: the callback runs on the data in order until it returns a negative number.\<close>

fun each :: "('a \<Rightarrow> 's \<Rightarrow> int \<times> 's) \<Rightarrow> 'a list \<Rightarrow> int \<Rightarrow> 's \<Rightarrow> int \<times> 's" where
  "each f [] n s = (n, s)"
| "each f (x # xs) n s = (if fst (f x s) < 0 then (- (n + 1), snd (f x s)) else each f xs (n + 1) (snd (f x s)))"

lemma for_loop_path: "path st p as \<Longrightarrow> for_loop f st p n s = Some (each f (data_of st as) n s)"
proof (induction as arbitrary: p n s)
  case Nil
  then show ?case by (subst for_loop.simps) (simp add: data_of_def)
next
  case (Cons a as)
  then show ?case by (subst for_loop.simps) (auto simp: data_of_def)
qed

lemma for_each_models: "models st l as q \<Longrightarrow> list_for_each st l f s = Some (each f (q_data q) 0 s)"
  using for_loop_path models_path unfolding list_for_each_def by metis

text \<open>\<^verbatim>\<open>list_find\<close> stops right behind the first match at or after the iterator, or at the end.\<close>

definition search_from :: "('a \<Rightarrow> bool) \<Rightarrow> 'a list \<Rightarrow> nat \<Rightarrow> 'a option \<times> nat \<times> nat" where
  "search_from f xs k = (case filter (\<lambda>i. f (xs ! i)) [k..<length xs] of
     [] \<Rightarrow> (None, length xs, length xs) | i # _ \<Rightarrow> (Some (xs ! i), Suc i, i))"

lemma search_from_step:
  "search_from f xs k = (if k < length xs then if f (xs ! k) then (Some (xs ! k), Suc k, k) else search_from f xs (Suc k)
    else (None, length xs, length xs))"
  by (simp add: search_from_def upt_conv_Cons)

lemma find_models:
  "models st l as q \<Longrightarrow> cursor_of q a = Some (k, j) \<Longrightarrow>
    \<exists>l'. list_find st l a f = Some (fst (search_from f (q_data q) k), l') \<and>
      models st l' as (set_cursor a (snd (search_from f (q_data q) k)) q) \<and> l_fdel l' = l_fdel l"
proof (induction "length as - k" arbitrary: l q k j)
  case 0
  then obtain l' where "list_next st l a = Some (None, l')" "models st l' as (set_cursor a (length as, length as) q)"
      "l_fdel l' = l_fdel l"
    using next_models [OF 0(2,3)] by (auto simp: next_cursor_def)
  then show ?case using 0 models_length [OF 0(2)]
    by (subst list_find.simps) (simp add: search_from_step)
next
  case (Suc d)
  then have k: "k < length as" by simp
  then obtain l' where l': "list_next st l a = Some (Some (q_data q ! k), l')"
      "models st l' as (set_cursor a (Suc k, k) q)" "l_fdel l' = l_fdel l"
    using next_models [OF Suc(3,4)] by (auto simp: next_cursor_def)
  note len = models_length [OF Suc(3)]
  show ?case
  proof (cases "f (q_data q ! k)")
    case True
    then show ?thesis using l' k len by (subst list_find.simps) (simp add: search_from_step)
  next
    case False
    have "cursor_of (set_cursor a (Suc k, k) q) a = Some (Suc k, k)" using Suc(4) by simp
    from Suc(1) [OF _ l'(2) this] Suc(2) show ?thesis
      using l' k len False by (subst list_find.simps) (auto simp: search_from_step [of f "q_data q" k])
  qed
qed


section \<open>Deletion\<close>

lemma models_del_data: "models (del_data l v st) l' as q = models st l' as q"
proof -
  have "path (del_data l v st) r as = path st r as" for r by (rule path_cong) (simp add: del_data_def)
  then show ?thesis by (simp add: models_def chain_def pool_ok_def data_of_def) (simp add: del_data_def)
qed

lemma others_kept_del_data [simp]: "others_kept st (del_data l v st') as = others_kept st st' as"
  by (simp add: others_kept_def del_data_def)

lemma others_kept_trans:
  "others_kept st st1 as \<Longrightarrow> others_kept st1 st2 bs \<Longrightarrow> set bs \<subseteq> set as \<Longrightarrow> others_kept st st2 as"
  unfolding others_kept_def by (metis subsetD)

text \<open>Where a cursor at \<open>k\<close> stands when the elements from \<open>j\<close> on that satisfy \<open>f\<close> are gone.\<close>

definition survivors :: "('a \<Rightarrow> bool) \<Rightarrow> 'a list \<Rightarrow> nat \<Rightarrow> nat \<Rightarrow> nat" where
  "survivors f xs j k = (if k \<le> j then k else j + length (filter (\<lambda>x. \<not> f x) (drop j (take k xs))))"

definition positions :: "'a seq \<Rightarrow> (nat \<times> nat) list" where
  "positions q = map (\<lambda>(a, k, j). (a, k)) (q_cursors q)"

lemma models_cursors:
  "models st l as q \<Longrightarrow> (a, k, j) \<in> set (q_cursors q) \<Longrightarrow> k \<le> length as \<and> (j = k \<or> Suc j = k)"
proof -
  assume m: "models st l as q" and a: "(a, k, j) \<in> set (q_cursors q)"
  then obtain i where i: "i < length (q_cursors q)" "q_cursors q ! i = (a, k, j)" by (auto simp: in_set_conv_nth)
  have "list_all2 (\<lambda>(a, i) (b, c). a = b \<and> iter_at as i c) (l_iters l) (q_cursors q)"
    using m by (simp add: models_def)
  from list_all2_nthD2 [OF this i(1)] i(2) show ?thesis by (auto simp: iter_at_def split: prod.splits)
qed

lemma positions_remove:
  assumes "models st l as q"
  shows "positions (seq_remove j q) = map (\<lambda>(a, k). (a, if j < k then k - 1 else k)) (positions q)"
  using models_cursors [OF assms] by (fastforce simp: positions_def seq_remove_def remove_cursor_def)

lemma survivors_hit:
  assumes "j < length xs" and "f (xs ! j)" and "k \<le> length xs"
  shows "survivors f (remove_at j xs) j (if j < k then k - 1 else k) = survivors f xs j k"
proof (cases "j < k")
  case True
  then obtain m where k: "k = Suc (j + m)" using less_imp_Suc_add by blast
  have "drop j (take k xs) = xs ! j # drop (Suc j) (take k xs)"
    using True assms(1,3) by (simp add: Cons_nth_drop_Suc [symmetric])
  moreover have "drop j (take (k - 1) (remove_at j xs)) = drop (Suc j) (take k xs)"
    using assms(1) by (simp add: remove_at_def k drop_take)
  ultimately show ?thesis using assms(2) True by (auto simp: survivors_def drop_take k)
qed (simp add: survivors_def)

lemma survivors_miss:
  assumes "j < length xs" and "\<not> f (xs ! j)" and "k \<le> length xs"
  shows "survivors f xs (Suc j) k = survivors f xs j k"
proof (cases "j < k")
  case True
  then have "drop j (take k xs) = xs ! j # drop (Suc j) (take k xs)"
    using assms(1,3) by (simp add: Cons_nth_drop_Suc [symmetric])
  then show ?thesis using assms(2) True by (auto simp: survivors_def)
qed (simp add: survivors_def)

definition deleted_by :: "clist \<Rightarrow> ('a \<Rightarrow> bool) \<Rightarrow> 'a list \<Rightarrow> 'a list" where
  "deleted_by l f xs = (if l_fdel l then filter f xs else [])"

lemma delete_loop_models:
  "models st l as q \<Longrightarrow> j \<le> length as \<Longrightarrow>
    \<exists>st' l' as' q'. delete_loop f st l (slot_at as j) n = Some (n + int (length (filter f (drop j (q_data q)))), st', l') \<and>
      models st' l' as' q' \<and> set as' \<subseteq> set as \<and> others_kept st st' as \<and> l_fdel l' = l_fdel l \<and>
      q_data q' = take j (q_data q) @ filter (\<lambda>x. \<not> f x) (drop j (q_data q)) \<and>
      positions q' = map (\<lambda>(a, k). (a, survivors f (q_data q) j k)) (positions q) \<and>
      s_deleted st' = s_deleted st @ deleted_by l f (drop j (q_data q))"
proof (induction "length as - j" arbitrary: st l as q j n)
  case 0
  note m = 0(2) and len = models_length [OF 0(2)]
  have "delete_loop f st l (slot_at as j) n = Some (n, st, l)"
    using 0 load_slot [OF models_chain [OF m], of j] by (subst delete_loop.simps) (simp add: node_at_def)
  moreover have "positions q = map (\<lambda>(a, k). (a, survivors f (q_data q) j k)) (positions q)"
    using models_cursors [OF m] 0(1,3) by (force simp: positions_def survivors_def intro!: map_idI [symmetric])
  ultimately show ?case using 0 len by (force simp: others_kept_def deleted_by_def)
next
  case (Suc d)
  note m = Suc(3) and len = models_length [OF Suc(3)] and ch = models_chain [OF Suc(3)]
  have j: "j < length as" using Suc(2) by simp
  obtain nd where nd: "s_nodes st (as ! j) = Some nd" "n_data nd = q_data q ! j"
    using chain_node [OF ch j] m by (auto simp: models_def)
  have load: "load st l (slot_at as j) = Some (Some (as ! j))" using load_slot [OF ch, of j] j by (simp add: node_at_def)
  let ?xs = "q_data q"
  have drop: "drop j ?xs = ?xs ! j # drop (Suc j) ?xs" using j len by (simp add: Cons_nth_drop_Suc)
  have k: "k \<le> length ?xs" if "(a, k) \<in> set (positions q)" for a k
    using that models_cursors [OF m] len by (auto simp: positions_def)
  show ?case
  proof (cases "f (?xs ! j)")
    case True
    obtain st1 l1 where destroy: "list_node_destroy st l (slot_at as j) = Some (Some (?xs ! j), st1, l1)"
      and m1: "models st1 l1 (remove_at j as) (seq_remove j q)" and kept: "others_kept st st1 as"
      and del: "s_deleted st1 = s_deleted st" "l_fdel l1 = l_fdel l"
      using destroy_models [OF m j] by blast
    let ?st = "del_data l1 (?xs ! j) st1"
    have m2: "models ?st l1 (remove_at j as) (seq_remove j q)" using m1 by (simp add: models_del_data)
    have sub: "set (remove_at j as) \<subseteq> set as" using set_remove_at [OF _ j] ch by (auto simp: chain_def)
    have data: "take j (remove_at j ?xs) = take j ?xs" "drop j (remove_at j ?xs) = drop (Suc j) ?xs"
      using j len by (simp_all add: remove_at_def)
    have qd: "q_data (seq_remove j q) = remove_at j ?xs" by (simp add: seq_remove_def)
    have slot: "slot_at (remove_at j as) j = slot_at as j" using j by (cases j) (auto simp: slot_at_def remove_at_def nth_append)
    have "d = length (remove_at j as) - j" "j \<le> length (remove_at j as)" using Suc(2) j by auto
    from Suc(1) [OF this(1) m2 this(2), of "n + 1"] obtain st' l' as' q' where
      loop: "delete_loop f ?st l1 (slot_at as j) (n + 1) = Some (n + 1 + int (length (filter f (drop (Suc j) ?xs))), st', l')"
      and r: "models st' l' as' q'" "set as' \<subseteq> set (remove_at j as)" "others_kept ?st st' (remove_at j as)" "l_fdel l' = l_fdel l"
        "q_data q' = take j ?xs @ filter (\<lambda>x. \<not> f x) (drop (Suc j) ?xs)"
        "positions q' = map (\<lambda>(a, k). (a, survivors f (remove_at j ?xs) j k)) (positions (seq_remove j q))"
        "s_deleted st' = s_deleted ?st @ deleted_by l1 f (drop (Suc j) ?xs)"
      using del(2) by (auto simp: qd data slot)
    have step: "delete_loop f st l (slot_at as j) n = delete_loop f ?st l1 (slot_at as j) (n + 1)"
      by (subst delete_loop.simps) (simp add: load nd True destroy)
    show ?thesis
    proof (intro exI conjI)
      show "delete_loop f st l (slot_at as j) n = Some (n + int (length (filter f (drop j ?xs))), st', l')"
        unfolding step loop using True by (simp add: drop)
      show "models st' l' as' q'" "l_fdel l' = l_fdel l" by fact+
      show "set as' \<subseteq> set as" using r(2) sub by blast
      show "others_kept st st' as" by (rule others_kept_trans [OF _ r(3) sub]) (use kept in simp)
      show "q_data q' = take j ?xs @ filter (\<lambda>x. \<not> f x) (drop j ?xs)" using r(5) True by (simp add: drop)
      show "positions q' = map (\<lambda>(a, k). (a, survivors f ?xs j k)) (positions q)"
        unfolding r(6) positions_remove [OF m] using survivors_hit [of j ?xs f] True k j len by auto
      show "s_deleted st' = s_deleted st @ deleted_by l f (drop j ?xs)"
        using r(7) True del by (simp add: drop deleted_by_def del_data_def)
    qed
  next
    case False
    have "d = length as - Suc j" "Suc j \<le> length as" using Suc(2) j by auto
    from Suc(1) [OF this(1) m this(2), of n] obtain st' l' as' q' where
      loop: "delete_loop f st l (NextOf (as ! j)) n = Some (n + int (length (filter f (drop (Suc j) ?xs))), st', l')"
      and r: "models st' l' as' q'" "set as' \<subseteq> set as" "others_kept st st' as" "l_fdel l' = l_fdel l"
        "q_data q' = take (Suc j) ?xs @ filter (\<lambda>x. \<not> f x) (drop (Suc j) ?xs)"
        "positions q' = map (\<lambda>(a, k). (a, survivors f ?xs (Suc j) k)) (positions q)"
        "s_deleted st' = s_deleted st @ deleted_by l f (drop (Suc j) ?xs)"
      by auto
    have step: "delete_loop f st l (slot_at as j) n = delete_loop f st l (NextOf (as ! j)) n"
      by (subst delete_loop.simps) (simp add: load nd False)
    have take: "take (Suc j) ?xs = take j ?xs @ [?xs ! j]" using j len by (simp add: take_Suc_conv_app_nth)
    show ?thesis
    proof (intro exI conjI)
      show "delete_loop f st l (slot_at as j) n = Some (n + int (length (filter f (drop j ?xs))), st', l')"
        unfolding step loop using False by (simp add: drop)
      show "models st' l' as' q'" "set as' \<subseteq> set as" "others_kept st st' as" "l_fdel l' = l_fdel l" by fact+
      show "q_data q' = take j ?xs @ filter (\<lambda>x. \<not> f x) (drop j ?xs)" using r(5) False by (simp add: drop take)
      show "positions q' = map (\<lambda>(a, k). (a, survivors f ?xs j k)) (positions q)"
        unfolding r(6) using survivors_miss [of j ?xs f] False k j len by auto
      show "s_deleted st' = s_deleted st @ deleted_by l f (drop j ?xs)"
        using r(7) False by (simp add: drop deleted_by_def)
    qed
  qed
qed

lemma delete_all_models:
  assumes "models st l as q"
  shows "\<exists>st' l' as' q'. list_delete_all st l f = Some (int (length (filter f (q_data q))), st', l') \<and>
      models st' l' as' q' \<and> set as' \<subseteq> set as \<and> others_kept st st' as \<and> l_fdel l' = l_fdel l \<and>
      q_data q' = filter (\<lambda>x. \<not> f x) (q_data q) \<and>
      positions q' = map (\<lambda>(a, k). (a, length (filter (\<lambda>x. \<not> f x) (take k (q_data q))))) (positions q) \<and>
      s_deleted st' = s_deleted st @ deleted_by l f (q_data q)"
proof -
  have "survivors f xs 0 k = length (filter (\<lambda>x. \<not> f x) (take k xs))" for xs k
    by (simp add: survivors_def)
  then show ?thesis using delete_loop_models [OF assms, of 0 f 0] by (simp add: list_delete_all_def)
qed

text \<open>\<^verbatim>\<open>list_flush\<close> deletes everything.\<close>

lemma flush_loop_delete: "flush_loop st l n = delete_loop (\<lambda>_. True) st l Head n" if "models st l as q"
  using that
proof (induction "length as" arbitrary: st l as q n)
  case 0
  then have "load st l Head = Some None"
    using load_slot [OF models_chain, of st l as q 0] by (simp add: node_at_def)
  then show ?case by (subst flush_loop.simps, subst delete_loop.simps) simp
next
  case (Suc d)
  then have j: "0 < length as" by linarith
  note m = Suc(3)
  note ch = models_chain [OF m]
  obtain nd where nd: "s_nodes st (as ! 0) = Some nd" using chain_node [OF ch j] by blast
  have load: "load st l Head = Some (Some (as ! 0))" using load_slot [OF ch, of 0] j by (simp add: node_at_def)
  obtain st1 l1 where d: "list_node_destroy st l Head = Some (Some (q_data q ! 0), st1, l1)"
      and m1: "models st1 l1 (remove_at 0 as) (seq_remove 0 q)"
    using destroy_models [OF m j] by auto
  have "models (del_data l1 (q_data q ! 0) st1) l1 (remove_at 0 as) (seq_remove 0 q)"
    using m1 by (simp add: models_del_data)
  from Suc(1) [OF _ this] have "flush_loop (del_data l1 (q_data q ! 0) st1) l1 (n + 1) =
      delete_loop (\<lambda>_. True) (del_data l1 (q_data q ! 0) st1) l1 Head (n + 1)"
    using Suc(2) j by simp
  then show ?case using nd load d
    by (subst flush_loop.simps, subst delete_loop.simps) simp
qed

end
