(* ===== verification/Clist_Pairs.thy ===== *)
theory Clist_Pairs
  imports Clist_Loops
begin

text \<open>
  Releasing a list, and the two operations of \<^verbatim>\<open>list.c\<close> that move data between lists of one store.
\<close>


section \<open>Destruction\<close>

lemma same_nodes_refl [simp]: "same_nodes st st"
  by (simp add: same_nodes_def)

lemma same_nodes_trans: "same_nodes st1 st2 \<Longrightarrow> same_nodes st2 st3 \<Longrightarrow> same_nodes st1 st3"
  by (simp add: same_nodes_def)

lemma free_iters_nodes: "same_nodes st (free_iters is st)"
  by (induction "is" st rule: free_iters.induct) (auto intro: same_nodes_trans iterator_free)

lemma pool_ok_del_data: "pool_ok st \<Longrightarrow> pool_ok (del_data l v st)"
  by (simp add: pool_ok_def del_data_def)

lemma destroy_loop_path:
  "path st p as \<Longrightarrow> distinct as \<Longrightarrow> pool_ok st \<Longrightarrow>
    \<exists>st'. destroy_loop l st p = Some st' \<and> pool_ok st' \<and>
      (\<forall>a. s_nodes st' a = (if a \<in> set as then None else s_nodes st a)) \<and>
      s_deleted st' = s_deleted st @ deleted_by l (\<lambda>_. True) (data_of st as)"
proof (induction as arbitrary: st p)
  case Nil
  then show ?case by (subst destroy_loop.simps) (simp add: data_of_def deleted_by_def)
next
  case (Cons a as)
  then obtain n where n: "p = Some a" "s_nodes st a = Some n" "path st (n_next n) as" by auto
  let ?st = "list_node_free a (del_data l (n_data n) st)"
  have nodes: "s_nodes ?st b = (if b = a then None else s_nodes st b)" for b
    by (simp add: list_node_free_def del_data_def)
  have notin: "a \<notin> set as" using Cons.prems(2) by simp
  have "path ?st r as = path st r as" for r by (rule path_cong) (use notin nodes in auto)
  then have path: "path ?st (n_next n) as" using n(3) by blast
  have ok: "pool_ok ?st"
    by (rule node_free_ok(1) [OF pool_ok_del_data [OF Cons.prems(3)], where n = n]) (simp add: n(2) del_data_def)
  from Cons.IH [OF path _ ok] Cons.prems(2) obtain st' where st':
    "destroy_loop l ?st (n_next n) = Some st'" "pool_ok st'"
    "\<And>b. s_nodes st' b = (if b \<in> set as then None else s_nodes ?st b)"
    "s_deleted st' = s_deleted ?st @ deleted_by l (\<lambda>_. True) (data_of ?st as)" by auto
  have data: "data_of ?st as = data_of st as" using notin by (auto simp: data_of_def nodes)
  have "s_deleted ?st = s_deleted st @ deleted_by l (\<lambda>_. True) [n_data n]"
    by (simp add: list_node_free_def del_data_def deleted_by_def)
  then have "s_deleted st' = s_deleted st @ deleted_by l (\<lambda>_. True) (data_of st (a # as))"
    using st'(4) data n(2) by (simp add: deleted_by_def data_of_def)
  moreover have "destroy_loop l st p = Some st'"
    using n st'(1) by (subst destroy_loop.simps) simp
  ultimately show ?case using st'(2,3) nodes by auto
qed

lemma destroy_list_models:
  assumes m: "models st l as q"
  shows "\<exists>st'. list_destroy st l = Some st' \<and> pool_ok st' \<and>
    (\<forall>a. s_nodes st' a = (if a \<in> set as then None else s_nodes st a)) \<and>
    s_deleted st' = s_deleted st @ deleted_by l (\<lambda>_. True) (q_data q)"
proof -
  let ?st = "free_iters (l_iters l) st"
  have same: "same_nodes st ?st" by (rule free_iters_nodes)
  then have m': "models ?st l as q" using m models_same_nodes by blast
  have q: "q_data q = data_of ?st as" and p: "path ?st (l_head l) as" "distinct as" "pool_ok ?st"
    using m' by (auto simp: models_def chain_def)
  have nodes: "s_nodes ?st = s_nodes st" "s_deleted ?st = s_deleted st" using same by (simp_all add: same_nodes_def)
  show ?thesis using destroy_loop_path [OF p, of l] unfolding list_destroy_def q nodes .
qed


section \<open>Two lists of one store\<close>

definition two_lists :: "'a store \<Rightarrow> clist \<Rightarrow> 'a seq \<Rightarrow> clist \<Rightarrow> 'a seq \<Rightarrow> bool" where
  "two_lists st l q sub r \<longleftrightarrow> (\<exists>as bs. models st l as q \<and> models st sub bs r \<and> set as \<inter> set bs = {})"

lemma models_allocated: "models st l as q \<Longrightarrow> a \<in> set as \<Longrightarrow> s_nodes st a \<noteq> None"
proof -
  assume m: "models st l as q" and a: "a \<in> set as"
  then obtain k where k: "k < length as" "as ! k = a" by (auto simp: in_set_conv_nth)
  from chain_node [OF models_chain [OF m] k(1)] show ?thesis using k(2) by (metis option.distinct(1))
qed

definition seq_appends :: "'a list \<Rightarrow> 'a seq \<Rightarrow> 'a seq" where
  "seq_appends xs q = fold (\<lambda>x q. seq_insert (length (q_data q)) x q) xs q"

lemma seq_appends_simps [simp]:
  "seq_appends [] q = q"
  "seq_appends (x # xs) q = seq_appends xs (seq_insert (length (q_data q)) x q)"
  by (simp_all add: seq_appends_def)

lemma q_data_appends [simp]: "q_data (seq_appends xs q) = q_data q @ xs"
  by (induction xs arbitrary: q) (simp_all add: seq_insert_def)

text \<open>Appending to one list leaves the other alone.\<close>

lemma append_two:
  assumes "models st l as q" and "models st sub bs r" and "set as \<inter> set bs = {}"
  shows "\<exists>st' l' as'. list_append st l x = Some (x, st', l') \<and> models st' l' as' (seq_insert (length (q_data q)) x q) \<and>
    models st' sub bs r \<and> set as' \<inter> set bs = {} \<and> s_deleted st' = s_deleted st \<and> l_fdel l' = l_fdel l"
proof -
  from append_models [OF assms(1), of x] obtain p st' l' where r: "list_append st l x = Some (x, st', l')"
    "s_nodes st p = None" "models st' l' (as @ [p]) (seq_insert (length (q_data q)) x q)" "others_kept st st' as"
    "s_deleted st' = s_deleted st" "l_fdel l' = l_fdel l" by blast
  have "pool_ok st'" using r(3) by (simp add: models_def)
  note sub = models_frame [OF assms(2) r(4) assms(3) this]
  have "p \<notin> set bs" using models_allocated [OF assms(2)] r(2) by blast
  then have "set (as @ [p]) \<inter> set bs = {}" using assms(3) by auto
  with r sub show ?thesis by blast
qed

lemma append_loop_models:
  "models st l as q \<Longrightarrow> models st sub bs r \<Longrightarrow> set as \<inter> set bs = {} \<Longrightarrow> cursor_of r a = Some (k, j) \<Longrightarrow>
    \<exists>st' l' sub' as'. append_loop st l sub a n = Some (n + int (length (q_data r) - k), st', l', sub') \<and>
      models st' l' as' (seq_appends (drop k (q_data r)) q) \<and>
      models st' sub' bs (set_cursor a (length (q_data r), length (q_data r)) r) \<and>
      set as' \<inter> set bs = {} \<and> s_deleted st' = s_deleted st \<and> l_fdel l' = l_fdel l \<and> l_fdel sub' = l_fdel sub"
proof (induction "length bs - k" arbitrary: st l as q sub r k j n)
  case 0
  note len = models_length [OF 0(3)]
  obtain sub' where "list_next st sub a = Some (None, sub')" "l_fdel sub' = l_fdel sub"
      "models st sub' bs (set_cursor a (length bs, length bs) r)"
    using next_models [OF 0(3,5)] 0(1) by (auto simp: next_cursor_def)
  moreover have "append_loop st l sub a n = Some (n, st, l, sub')"
    by (subst append_loop.simps) (simp add: calculation(1))
  ultimately show ?case using 0(1,2,4) len by (intro exI [of _ st] exI [of _ l] exI [of _ sub'] exI [of _ as]) simp
next
  case (Suc d)
  then have k: "k < length bs" by simp
  note len = models_length [OF Suc(4)]
  let ?x = "q_data r ! k"
  obtain sub1 where sub1: "list_next st sub a = Some (Some ?x, sub1)" "l_fdel sub1 = l_fdel sub"
      "models st sub1 bs (set_cursor a (Suc k, k) r)"
    using next_models [OF Suc(4,6)] k by (auto simp: next_cursor_def)
  from append_two [OF Suc(3) sub1(3) Suc(5), of ?x] obtain st1 l1 as1 where
    c: "list_append st l ?x = Some (?x, st1, l1)" and m1: "models st1 l1 as1 (seq_insert (length (q_data q)) ?x q)"
      "models st1 sub1 bs (set_cursor a (Suc k, k) r)" "set as1 \<inter> set bs = {}"
    and k1: "s_deleted st1 = s_deleted st" "l_fdel l1 = l_fdel l" by blast
  have step: "append_loop st l sub a n = append_loop st1 l1 sub1 a (n + 1)"
    by (subst append_loop.simps) (simp add: sub1(1) c)
  have "d = length bs - Suc k" using Suc(2) k by simp
  moreover have "cursor_of (set_cursor a (Suc k, k) r) a = Some (Suc k, k)" using Suc(6) by simp
  moreover have "n + 1 + int (length (q_data r) - Suc k) = n + int (length (q_data r) - k)" using k len by simp
  moreover have "seq_appends (drop (Suc k) (q_data r)) (seq_insert (length (q_data q)) ?x q) = seq_appends (drop k (q_data r)) q"
    using k len by (simp add: Cons_nth_drop_Suc [symmetric])
  ultimately show ?case
    using Suc(1) [OF _ m1, of "Suc k" k "n + 1"] k1 sub1(2) unfolding step by simp
qed

lemma append_list_two:
  assumes "two_lists st l q sub r" and "\<not> l_fdel l"
  shows "\<exists>st' l' sub'. list_append_list st l sub = Some (int (length (q_data r)), st', l', sub') \<and>
    two_lists st' l' (seq_appends (q_data r) q) sub' r \<and> s_deleted st' = s_deleted st"
proof -
  obtain as bs where m: "models st l as q" "models st sub bs r" and dis: "set as \<inter> set bs = {}"
    using assms(1) by (auto simp: two_lists_def)
  obtain a st1 sub1 where c: "list_iterator_create st sub = (a, st1, sub1)" and same: "same_nodes st st1"
    and m1: "models st1 sub1 bs (r\<lparr>q_cursors := (a, 0, 0) # q_cursors r\<rparr>)"
    using iterator_create_models [OF m(2)] by blast
  have m2: "models st1 l as q" using m(1) models_same_nodes [OF same] by blast
  have "cursor_of (r\<lparr>q_cursors := (a, 0, 0) # q_cursors r\<rparr>) a = Some (0, 0)" by (simp add: cursor_of_def)
  from append_loop_models [OF m2 m1 dis this, of 0] obtain st2 l2 sub2 as2 where
    loop: "append_loop st1 l sub1 a 0 = Some (int (length (q_data r)), st2, l2, sub2)"
    and m3: "models st2 l2 as2 (seq_appends (q_data r) q)"
      "models st2 sub2 bs (r\<lparr>q_cursors := (a, length (q_data r), length (q_data r)) # q_cursors r\<rparr>)"
      "set as2 \<inter> set bs = {}" "s_deleted st2 = s_deleted st1" by (auto simp: set_cursor_def)
  obtain st3 sub3 where d: "list_iterator_destroy st2 sub2 a = (st3, sub3)" and same3: "same_nodes st2 st3"
    and m4: "models st3 sub3 bs r"
    using iterator_destroy_models [OF m3(2), of a] by auto
  have "models st3 l2 as2 (seq_appends (q_data r) q)" using m3(1) models_same_nodes [OF same3] by blast
  then have "two_lists st3 l2 (seq_appends (q_data r) q) sub3 r" using m4 m3(3) by (auto simp: two_lists_def)
  moreover have "s_deleted st3 = s_deleted st" using same same3 m3(4) by (simp add: same_nodes_def)
  ultimately show ?thesis using assms(2) c loop d by (simp add: list_append_list_def)
qed

lemma transfer_loop_models:
  "models st l as q \<Longrightarrow> models st sub bs r \<Longrightarrow> set as \<inter> set bs = {} \<Longrightarrow>
    \<exists>st' l' sub' as'. transfer_loop st l sub n = Some (n + int (length (q_data r)), st', l', sub') \<and>
      models st' l' as' (seq_appends (q_data r) q) \<and>
      models st' sub' [] ((seq_remove 0 ^^ length (q_data r)) r) \<and> s_deleted st' = s_deleted st"
proof (induction "q_data r" arbitrary: st l as q sub bs r n)
  case Nil
  then have "list_pop st sub = Some (None, st, sub)" using pop_models [OF Nil(3)] by simp
  then have "transfer_loop st l sub n = Some (n, st, l, sub)" by (subst transfer_loop.simps) simp
  moreover have "bs = []" using models_length [OF Nil(3)] Nil(1) by simp
  ultimately show ?case using Nil
    by (intro exI [of _ st] exI [of _ l] exI [of _ sub] exI [of _ as]) (simp flip: Nil(1))
next
  case (Cons x xs)
  have qd: "q_data r = x # xs" using Cons(2) by simp
  obtain st1 sub1 where pop: "list_pop st sub = Some (Some x, st1, sub1)"
      and m1: "models st1 sub1 (tl bs) (seq_remove 0 r)" and kept: "others_kept st st1 bs" and del: "s_deleted st1 = s_deleted st"
    using pop_models [OF Cons(4)] qd by auto
  have "pool_ok st1" using m1 by (simp add: models_def)
  then have m2: "models st1 l as q" using models_frame [OF Cons(3) kept] Cons(5) by blast
  have "set as \<inter> set (tl bs) = {}" using Cons(5) by (cases bs) auto
  from append_two [OF m2 m1 this, of x] obtain st2 l2 as2 where
    c: "list_append st1 l x = Some (x, st2, l2)" and m3: "models st2 l2 as2 (seq_insert (length (q_data q)) x q)"
      "models st2 sub1 (tl bs) (seq_remove 0 r)" "set as2 \<inter> set (tl bs) = {}"
    and k: "s_deleted st2 = s_deleted st1" by blast
  have step: "transfer_loop st l sub n = transfer_loop st2 l2 sub1 (n + 1)"
    by (subst transfer_loop.simps) (simp add: pop c)
  have xs: "xs = q_data (seq_remove 0 r)" using qd by (simp add: seq_remove_def)
  have pow: "(seq_remove 0 ^^ length (q_data r)) r = (seq_remove 0 ^^ length xs) (seq_remove 0 r)"
    by (simp add: qd funpow_swap1)
  show ?case
    using Cons(1) [OF xs m3, of "n + 1"] del k
    unfolding step pow xs [symmetric] by (auto simp: qd)
qed

lemma transfer_two:
  assumes "two_lists st l q sub r" and "l_fdel l = l_fdel sub"
  shows "\<exists>st' l' sub'. list_transfer st l sub = Some (int (length (q_data r)), st', l', sub') \<and>
    two_lists st' l' (seq_appends (q_data r) q) sub' ((seq_remove 0 ^^ length (q_data r)) r) \<and> s_deleted st' = s_deleted st"
proof -
  obtain as bs where "models st l as q" "models st sub bs r" "set as \<inter> set bs = {}"
    using assms(1) by (auto simp: two_lists_def)
  from transfer_loop_models [OF this, of 0] assms(2) show ?thesis
    by (fastforce simp: list_transfer_def two_lists_def)
qed

lemma q_data_removed: "q_data ((seq_remove 0 ^^ n) r) = drop n (q_data r)"
  by (induction n) (simp_all add: seq_remove_def remove_at_def drop_drop add.commute)

end
