(* ===== verification/Clist_Sort.thy ===== *)
theory Clist_Sort
  imports Clist_Pairs "HOL-Library.Multiset"
begin

text \<open>
  \<^verbatim>\<open>list_sort\<close> is an insertion sort that moves nodes between slots.  It returns for every comparison
  function, keeps the data up to order, and for a comparison by keys it is the stable sort.
\<close>


section \<open>One move\<close>

lemma load_path:
  assumes "path st (l_head l) as" and "j \<le> length as"
  shows "load st l (slot_at as j) = Some (node_at as j)"
  using path_node [OF assms(1)] assms(2) by (cases j) (auto simp: load_def Suc_le_eq)

definition move :: "nat \<Rightarrow> nat \<Rightarrow> 'b list \<Rightarrow> 'b list" where
  "move j i xs = insert_at i (xs ! j) (remove_at j xs)"

lemma length_move [simp]: "j < length xs \<Longrightarrow> length (move j i xs) = length xs"
  by (simp add: move_def)

lemma nth_move:
  "i < j \<Longrightarrow> j < length xs \<Longrightarrow> k < length xs \<Longrightarrow>
    move j i xs ! k = (if k < i then xs ! k else if k = i then xs ! j else if k \<le> j then xs ! (k - 1) else xs ! k)"
  by (auto simp: move_def nth_insert_at nth_remove_at)

lemma map_move: "j < length xs \<Longrightarrow> map f (move j i xs) = move j i (map f xs)"
  by (simp add: move_def insert_at_def remove_at_def take_map drop_map)

lemma mset_insert_at [simp]: "mset (insert_at i x xs) = add_mset x (mset xs)"
proof -
  have "mset (take i xs) + mset (drop i xs) = mset xs" by (metis append_take_drop_id mset_append)
  then show ?thesis by (simp add: insert_at_def)
qed

lemma mset_remove_at: "j < length xs \<Longrightarrow> add_mset (xs ! j) (mset (remove_at j xs)) = mset xs"
proof -
  assume "j < length xs"
  then have "xs = take j xs @ xs ! j # drop (Suc j) xs" by (rule id_take_nth_drop)
  then have "mset xs = mset (take j xs @ xs ! j # drop (Suc j) xs)" by (rule arg_cong)
  then show ?thesis by (simp add: remove_at_def)
qed

lemma mset_move: "j < length xs \<Longrightarrow> mset (move j i xs) = mset xs"
  by (simp add: move_def mset_remove_at)

lemma set_move: "j < length xs \<Longrightarrow> set (move j i xs) = set xs"
  using mset_move by (metis set_mset_mset)

lemma distinct_move: "j < length xs \<Longrightarrow> distinct xs \<Longrightarrow> distinct (move j i xs)"
  by (metis mset_move mset_eq_imp_distinct_iff)

lemma node_at_move:
  "i < j \<Longrightarrow> j < length as \<Longrightarrow> node_at (move j i as) k =
    (if k < i then node_at as k else if k = i then Some (as ! j) else if k \<le> j then node_at as (k - 1) else node_at as k)"
  by (auto simp: node_at_def nth_move)

text \<open>The three assignments \<^verbatim>\<open>(*pp)->next = *ppPos; *ppPos = *pp; *pp = pTmp\<close>.\<close>

definition relinked :: "'a store \<Rightarrow> nat list \<Rightarrow> nat \<Rightarrow> nat \<Rightarrow> nat \<Rightarrow> 'a list_node option" where
  "relinked st as i j a = map_option (\<lambda>n.
     if 0 < j \<and> a = as ! (j - 1) then n\<lparr>n_next := node_at as (Suc j)\<rparr>
     else if 0 < i \<and> a = as ! (i - 1) then n\<lparr>n_next := Some (as ! j)\<rparr>
     else if a = as ! j then n\<lparr>n_next := node_at as i\<rparr> else n) (s_nodes st a)"

lemma move_nodes:
  assumes path: "path st p as" and dist: "distinct as" and i: "i < j" and j: "j < length as" and k: "k < length as"
  shows "\<exists>n. relinked st as i j (move j i as ! k) = Some n \<and> n_next n = node_at (move j i as) (Suc k) \<and>
    n_data n = data_of st (move j i as) ! k"
proof -
  let ?as = "move j i as"
  have nodes: "\<exists>n. s_nodes st (as ! m) = Some n \<and> n_next n = node_at as (Suc m)" if "m < length as" for m
    using path_node [OF path] that by blast
  have eq: "as ! m = as ! m' \<longleftrightarrow> m = m'" if "m < length as" "m' < length as" for m m'
    using dist that by (simp add: nth_eq_iff_index_eq)
  have data: "n_data n = data_of st ?as ! k" if "s_nodes st (?as ! k) = Some n" for n
    using that j k by (simp add: data_of_def)
  consider "k < i" | "k = i" | "i < k \<and> k \<le> j" | "j < k" by linarith
  then show ?thesis
  proof cases
    case 1
    then have a: "?as ! k = as ! k" using i j k by (simp add: nth_move)
    obtain n where n: "s_nodes st (as ! k) = Some n" "n_next n = node_at as (Suc k)" using nodes [OF k] by blast
    have "as ! k \<noteq> as ! (j - 1)" "as ! k \<noteq> as ! j" using eq 1 i j k by auto
    moreover have "as ! k = as ! (i - 1) \<longleftrightarrow> Suc k = i" using eq [of k "i - 1"] 1 i j k by auto
    ultimately show ?thesis using n 1 i j data [unfolded a, OF n(1)]
      by (auto simp: a relinked_def node_at_move)
  next
    case 2
    then have a: "?as ! k = as ! j" using i j k by (simp add: nth_move)
    obtain n where n: "s_nodes st (as ! j) = Some n" using nodes [OF j] by blast
    have "as ! j \<noteq> as ! (j - 1)" "as ! j \<noteq> as ! (i - 1)" using eq 2 i j k by auto
    then show ?thesis unfolding a using n 2 i j data [unfolded a, OF n]
      by (auto simp: relinked_def node_at_move)
  next
    case 3
    then have a: "?as ! k = as ! (k - 1)" using i j k by (simp add: nth_move)
    have k1: "k - 1 < length as" "Suc (k - 1) = k" using 3 k by auto
    obtain n where n: "s_nodes st (as ! (k - 1)) = Some n" "n_next n = node_at as k" using nodes [OF k1(1)] k1(2) by auto
    have "as ! (k - 1) \<noteq> as ! j" using eq [of "k - 1" j] 3 j k1 by auto
    moreover have "0 < i \<Longrightarrow> as ! (k - 1) \<noteq> as ! (i - 1)" using eq [of "k - 1" "i - 1"] 3 i j k1 by auto
    moreover have "as ! (k - 1) = as ! (j - 1) \<longleftrightarrow> k = j" using eq [of "k - 1" "j - 1"] 3 i j k1 by auto
    ultimately show ?thesis using n 3 i j data [unfolded a, OF n(1)]
      by (auto simp: a relinked_def node_at_move)
  next
    case 4
    then have a: "?as ! k = as ! k" using i j k by (simp add: nth_move)
    obtain n where n: "s_nodes st (as ! k) = Some n" "n_next n = node_at as (Suc k)" using nodes [OF k] by blast
    have "as ! k \<noteq> as ! (j - 1)" "as ! k \<noteq> as ! j" "as ! k \<noteq> as ! (i - 1)" using eq 4 i j k by auto
    then show ?thesis using n 4 i j data [unfolded a, OF n(1)]
      by (auto simp: a relinked_def node_at_move)
  qed
qed

lemma move_saves:
  assumes path: "path st (l_head l) as" and dist: "distinct as" and i: "i < j" and j: "j < length as"
  obtains st1 l1 st2 l2 st3 l3 where
    "save st l (NextOf (as ! j)) (node_at as i) = Some (st1, l1)"
    "save st1 l1 (slot_at as i) (Some (as ! j)) = Some (st2, l2)"
    "save st2 l2 (slot_at as j) (node_at as (Suc j)) = Some (st3, l3)"
    "path st3 (l_head l3) (move j i as)" "data_of st3 (move j i as) = move j i (data_of st as)"
    "s_nodes st3 = relinked st as i j" "s_pool st3 = s_pool st" "s_deleted st3 = s_deleted st"
    "l3 = l\<lparr>l_head := l_head l3\<rparr>"
proof -
  have nodes: "\<exists>n. s_nodes st (as ! m) = Some n" if "m < length as" for m
    using path_node [OF path] that by blast
  have ne: "as ! j \<noteq> as ! (j - 1)" "0 < i \<Longrightarrow> as ! j \<noteq> as ! (i - 1)" "0 < i \<Longrightarrow> as ! (i - 1) \<noteq> as ! (j - 1)"
    using dist i j by (auto simp: nth_eq_iff_index_eq)
  obtain nj where nj: "s_nodes st (as ! j) = Some nj" using nodes [OF j] by blast
  define st1 where "st1 = st\<lparr>s_nodes := (s_nodes st)(as ! j \<mapsto> nj\<lparr>n_next := node_at as i\<rparr>)\<rparr>"
  have s1: "save st l (NextOf (as ! j)) (node_at as i) = Some (st1, l)" by (simp add: save_def nj st1_def)
  have "\<exists>st2 l2. save st1 l (slot_at as i) (Some (as ! j)) = Some (st2, l2) \<and> s_pool st2 = s_pool st \<and>
      s_deleted st2 = s_deleted st \<and> l2 = (if i = 0 then l\<lparr>l_head := Some (as ! j)\<rparr> else l) \<and>
      s_nodes st2 = (\<lambda>a. if 0 < i \<and> a = as ! (i - 1) then map_option (\<lambda>n. n\<lparr>n_next := Some (as ! j)\<rparr>) (s_nodes st a)
        else s_nodes st1 a)"
  proof (cases i)
    case (Suc m)
    obtain ni where "s_nodes st (as ! m) = Some ni" using nodes [of m] Suc i j by auto
    then show ?thesis using ne Suc by (auto simp: save_def st1_def)
  qed (simp add: save_def st1_def fun_eq_iff)
  then obtain st2 l2 where s2: "save st1 l (slot_at as i) (Some (as ! j)) = Some (st2, l2)" "s_pool st2 = s_pool st"
      "s_deleted st2 = s_deleted st" "l2 = (if i = 0 then l\<lparr>l_head := Some (as ! j)\<rparr> else l)"
      "s_nodes st2 = (\<lambda>a. if 0 < i \<and> a = as ! (i - 1) then map_option (\<lambda>n. n\<lparr>n_next := Some (as ! j)\<rparr>) (s_nodes st a)
        else s_nodes st1 a)" by blast
  obtain m where m: "j = Suc m" using i by (cases j) auto
  obtain nm where nm: "s_nodes st (as ! m) = Some nm" using nodes [of m] m j by auto
  have nm2: "s_nodes st2 (as ! m) = Some nm" using ne nm by (auto simp: s2(5) st1_def m)
  define st3 where "st3 = st2\<lparr>s_nodes := (s_nodes st2)(as ! m \<mapsto> nm\<lparr>n_next := node_at as (Suc j)\<rparr>)\<rparr>"
  have s3: "save st2 l2 (slot_at as j) (node_at as (Suc j)) = Some (st3, l2)"
    by (simp add: save_def nm2 st3_def m)
  have relinked: "s_nodes st3 = relinked st as i j"
    by (rule ext) (auto simp: st3_def s2(5) st1_def relinked_def nm nj nj [unfolded m] m option.map_ident)
  have "path st3 (l_head l2) (move j i as)"
  proof (rule path_intro)
    show "l_head l2 = node_at (move j i as) 0"
      using path_node [OF path] i j by (auto simp: s2(4) node_at_move)
  qed (use move_nodes [OF path dist i j] j in \<open>auto simp: relinked\<close>)
  moreover have "data_of st3 (move j i as) = data_of st (move j i as)"
    by (rule nth_equalityI) (use move_nodes [OF path dist i j] j in \<open>force simp: data_of_def relinked\<close>)+
  moreover have "data_of st (move j i as) = move j i (data_of st as)" using j by (simp add: data_of_def map_move)
  moreover have "l2 = l\<lparr>l_head := l_head l2\<rparr>" by (simp add: s2(4))
  ultimately show ?thesis using that s1 s2 s3 relinked by (simp add: st3_def)
qed


section \<open>The loops\<close>

definition insert_step :: "('a \<Rightarrow> 'a \<Rightarrow> int) \<Rightarrow> nat \<Rightarrow> 'a list \<Rightarrow> 'a list" where
  "insert_step f j xs = (if f (xs ! j) (xs ! (j - 1)) < 0
     then move j (length (takeWhile (\<lambda>y. 0 \<le> f (xs ! j) y) xs)) xs else xs)"

definition insertion_sort :: "('a \<Rightarrow> 'a \<Rightarrow> int) \<Rightarrow> nat \<Rightarrow> 'a list \<Rightarrow> 'a list" where
  "insertion_sort f j xs = fold (insert_step f) [j..<length xs] xs"

lemma length_insert_step [simp]: "j < length xs \<Longrightarrow> length (insert_step f j xs) = length xs"
  by (simp add: insert_step_def)

lemma insertion_sort_step:
  "j < length xs \<Longrightarrow> insertion_sort f j xs = insertion_sort f (Suc j) (insert_step f j xs)"
  by (simp add: insertion_sort_def upt_conv_Cons)

lemma sort_position_path:
  assumes path: "path st (l_head l) as"
  shows "i \<le> m \<Longrightarrow> m < length as \<Longrightarrow> f x (data_of st as ! m) < 0 \<Longrightarrow>
    sort_position f st l x (slot_at as i) =
      Some (slot_at as (i + length (takeWhile (\<lambda>y. 0 \<le> f x y) (drop i (data_of st as)))))"
proof (induction "m - i" arbitrary: i)
  case 0
  then have i: "i = m" by simp
  have drop: "drop i (data_of st as) = data_of st as ! i # drop (Suc i) (data_of st as)"
    using 0 i by (simp add: Cons_nth_drop_Suc)
  obtain n where n: "s_nodes st (as ! i) = Some n" using path_node [OF path] 0 i by blast
  then have "n_data n = data_of st as ! i" using 0 i by (simp add: data_of_def)
  then show ?case using load_path [OF path, of i] 0 i n
    by (subst sort_position.simps) (simp add: node_at_def deref_def drop [unfolded i])
next
  case (Suc d)
  then have i: "i < length as" by simp
  have drop: "drop i (data_of st as) = data_of st as ! i # drop (Suc i) (data_of st as)"
    using i by (simp add: Cons_nth_drop_Suc)
  obtain n where n: "s_nodes st (as ! i) = Some n" using path_node [OF path] i by blast
  then have nd: "n_data n = data_of st as ! i" using i by (simp add: data_of_def)
  have load: "load st l (slot_at as i) = Some (Some (as ! i))" using load_path [OF path, of i] i by (simp add: node_at_def)
  show ?case
  proof (cases "0 \<le> f x (data_of st as ! i)")
    case True
    then have "i \<noteq> m" using Suc(5) by auto
    then have "Suc i \<le> m" "d = m - Suc i" using Suc by auto
    from Suc(1) [OF this(2,1) Suc(4,5)] True show ?thesis
      by (subst sort_position.simps) (simp add: load n nd deref_def drop)
  next
    case False
    then show ?thesis by (subst sort_position.simps) (simp add: load n nd deref_def drop)
  qed
qed

definition same_but_links :: "'a store \<Rightarrow> 'a store \<Rightarrow> nat list \<Rightarrow> bool" where
  "same_but_links st st' as \<longleftrightarrow> s_pool st' = s_pool st \<and> s_deleted st' = s_deleted st \<and>
     (\<forall>a. (s_nodes st' a = None) = (s_nodes st a = None)) \<and> (\<forall>a. a \<notin> set as \<longrightarrow> s_nodes st' a = s_nodes st a)"

lemma same_but_links_trans:
  "same_but_links st st1 as \<Longrightarrow> same_but_links st1 st2 bs \<Longrightarrow> set bs = set as \<Longrightarrow> same_but_links st st2 as"
  by (simp add: same_but_links_def)

lemma relinked_same:
  assumes "i < j" and "j < length as" and "s_nodes st' = relinked st as i j" and "s_pool st' = s_pool st"
    and "s_deleted st' = s_deleted st"
  shows "same_but_links st st' as"
proof -
  have "relinked st as i j a = s_nodes st a" if a: "a \<notin> set as" for a
  proof -
    have "a \<noteq> as ! (j - 1)" "a \<noteq> as ! j" "a \<noteq> as ! (i - 1)" using a assms(1,2) nth_mem by auto
    then show ?thesis by (simp add: relinked_def option.map_ident)
  qed
  then show ?thesis using assms by (simp add: same_but_links_def relinked_def)
qed

lemma sort_loop_path:
  "path st (l_head l) as \<Longrightarrow> distinct as \<Longrightarrow> 0 < j \<Longrightarrow> j \<le> length as \<Longrightarrow>
    \<exists>st' l' as'. sort_loop f st l (slot_at as (j - 1)) (slot_at as j) = Some (st', l', slot_at as' (length as')) \<and>
      path st' (l_head l') as' \<and> distinct as' \<and> set as' = set as \<and>
      data_of st' as' = insertion_sort f j (data_of st as) \<and>
      same_but_links st st' as \<and> l' = l\<lparr>l_head := l_head l'\<rparr>"
proof (induction "length as - j" arbitrary: st l as j)
  case 0
  then have j: "j = length as" by simp
  have "sort_loop f st l (slot_at as (j - 1)) (slot_at as j) = Some (st, l, slot_at as (length as))"
    using load_path [OF 0(2), of j] j by (subst sort_loop.simps) (simp add: node_at_def)
  then show ?case using 0 j
    by (intro exI [of _ st] exI [of _ l] exI [of _ as]) (simp add: insertion_sort_def same_but_links_def)
next
  case (Suc d)
  note path = Suc(3) and dist = Suc(4)
  let ?xs = "data_of st as"
  have j: "j < length as" "j - 1 < length as" "Suc (j - 1) = j" using Suc by auto
  obtain n where n: "s_nodes st (as ! j) = Some n" "n_next n = node_at as (Suc j)"
    using path_node [OF path] j by blast
  obtain m where m: "s_nodes st (as ! (j - 1)) = Some m" using path_node [OF path] j by blast
  have data: "n_data n = ?xs ! j" "n_data m = ?xs ! (j - 1)" using n m j by (simp_all add: data_of_def)
  have load: "load st l (slot_at as j) = Some (Some (as ! j))"
      "load st l (slot_at as (j - 1)) = Some (Some (as ! (j - 1)))"
    using load_path [OF path, of j] load_path [OF path, of "j - 1"] j by (simp_all add: node_at_def)
  show ?case
  proof (cases "f (?xs ! j) (?xs ! (j - 1)) < 0")
    case False
    have "d = length as - Suc j" "Suc j \<le> length as" using Suc(2) j by auto
    moreover have "sort_loop f st l (slot_at as (j - 1)) (slot_at as j) =
        sort_loop f st l (slot_at as j) (NextOf (as ! j))"
      using False by (subst sort_loop.simps) (simp add: load n m data deref_def del: One_nat_def)
    moreover have "insertion_sort f j ?xs = insertion_sort f (Suc j) ?xs"
      using False j insertion_sort_step [of j ?xs f] by (simp add: insert_step_def)
    ultimately show ?thesis using Suc(1) [OF _ path dist, of "Suc j"] by simp
  next
    case True
    define i where "i = length (takeWhile (\<lambda>y. 0 \<le> f (?xs ! j) y) ?xs)"
    have pos: "sort_position f st l (?xs ! j) Head = Some (slot_at as i)"
      using sort_position_path [OF path, of 0 "j - 1" f "?xs ! j"] True j by (simp add: i_def)
    have i: "i < j"
    proof (rule ccontr)
      assume "\<not> i < j"
      then have "j - 1 < i" using j by simp
      then have "0 \<le> f (?xs ! j) (?xs ! (j - 1))"
        unfolding i_def using nth_mem set_takeWhileD by (metis takeWhile_nth)
      then show False using True by simp
    qed
    obtain st1 l1 st2 l2 st3 l3 where s:
      "save st l (NextOf (as ! j)) (node_at as i) = Some (st1, l1)"
      "save st1 l1 (slot_at as i) (Some (as ! j)) = Some (st2, l2)"
      "save st2 l2 (slot_at as j) (node_at as (Suc j)) = Some (st3, l3)"
      and path3: "path st3 (l_head l3) (move j i as)" and data3: "data_of st3 (move j i as) = move j i ?xs"
      and st3: "s_nodes st3 = relinked st as i j" "s_pool st3 = s_pool st" "s_deleted st3 = s_deleted st"
      and l3: "l3 = l\<lparr>l_head := l_head l3\<rparr>"
      using move_saves [OF path dist i j(1)] by metis
    let ?as = "move j i as"
    have dist3: "distinct ?as" and set3: "set ?as = set as" and len3: "length ?as = length as"
      using dist j by (simp_all add: distinct_move set_move)
    have pp: "slot_at ?as (Suc j) = slot_at as j"
      using nth_move [OF i j(1), of j] i j by (simp add: slot_at_def split: nat.split)
    have prev: "slot_at ?as j = (if slot_at as (j - 1) = slot_at as i then NextOf (as ! j) else slot_at as (j - 1))"
    proof (cases "i = j - 1")
      case True
      obtain k where k: "j = Suc k" using i by (cases j) auto
      then show ?thesis using nth_move [OF i j(1), of k] True j by simp
    next
      case False
      then obtain k where k: "j = Suc (Suc k)" "i \<le> k" using i by (cases j; cases "j - 1") auto
      have "slot_at as (j - 1) \<noteq> slot_at as i" using slot_at_inj [OF dist, of "j - 1" i] False i j by auto
      then show ?thesis using nth_move [OF i j(1), of "Suc k"] j k by (simp add: slot_at_def)
    qed
    have again: "load st3 l3 (slot_at as i) = Some (Some (as ! j))"
    proof -
      have "slot_at ?as i = slot_at as i" using nth_move [OF i j(1)] i j by (cases i) simp_all
      then show ?thesis using load_path [OF path3, of i] node_at_move [OF i j(1), of i] i j len3 by simp
    qed
    have step: "sort_loop f st l (slot_at as (j - 1)) (slot_at as j) = sort_loop f st3 l3 (slot_at ?as j) (slot_at ?as (Suc j))"
      unfolding pp prev using True load_path [OF path, of i] i j again
      by (subst sort_loop.simps) (simp add: load n m data deref_def pos s del: One_nat_def)
    have "d = length ?as - Suc j" "Suc j \<le> length ?as" using Suc(2) j len3 by auto
    from Suc(1) [OF this(1) path3 dist3 _ this(2)] obtain st' l' as' where r:
      "sort_loop f st l (slot_at as (j - 1)) (slot_at as j) = Some (st', l', slot_at as' (length as'))"
      "path st' (l_head l') as'" "distinct as'" "set as' = set as"
      "data_of st' as' = insertion_sort f (Suc j) (move j i ?xs)"
      "same_but_links st3 st' ?as" "l' = l3\<lparr>l_head := l_head l'\<rparr>"
      unfolding step by (auto simp: data3 set3)
    have "data_of st' as' = insertion_sort f j ?xs"
      using r(5) True j insertion_sort_step [of j ?xs f] by (simp add: insert_step_def i_def)
    moreover have "same_but_links st st' as"
      by (rule same_but_links_trans [OF relinked_same [OF i j(1) st3] r(6) set3])
    moreover have "l' = l\<lparr>l_head := l_head l'\<rparr>" using r(7) l3 by (metis clist.update_convs(1) clist.surjective clist.simps(1))
    ultimately show ?thesis using r(1-4) by blast
  qed
qed


section \<open>The sort\<close>

definition seq_sort :: "('a \<Rightarrow> 'a \<Rightarrow> int) \<Rightarrow> 'a seq \<Rightarrow> 'a seq" where
  "seq_sort f q = (if 1 < length (q_data q)
     then \<lparr>q_data = insertion_sort f 1 (q_data q), q_cursors = map (\<lambda>(a, c). (a, 0, 0)) (q_cursors q)\<rparr> else q)"

lemma reset_cursors:
  "list_all2 (\<lambda>(a, i) (b, c). a = b \<and> P i c) is cs \<Longrightarrow> Q i0 c0 \<Longrightarrow>
    list_all2 (\<lambda>(a, i) (b, c). a = b \<and> Q i c) (map (\<lambda>(a, i). (a, i0)) is) (map (\<lambda>(a, c). (a, c0)) cs)"
  by (induction rule: list_all2_induct) auto

lemma sort_models:
  assumes m: "models st l as q"
  shows "\<exists>st' l' as'. list_sort st l f = Some (st', l') \<and> models st' l' as' (seq_sort f q) \<and> set as' = set as \<and>
    same_but_links st st' as \<and> l_fdel l' = l_fdel l"
proof (cases "1 < length as")
  case False
  then have "list_sort st l f = Some (st, l)" "seq_sort f q = q"
    using m models_length [OF m] by (auto simp: list_sort_def seq_sort_def models_def chain_def)
  then show ?thesis using m by (intro exI [of _ st] exI [of _ l] exI [of _ as]) (simp add: same_but_links_def)
next
  case True
  have path: "path st (l_head l) as" and dist: "distinct as" and q: "q_data q = data_of st as" and pool: "pool_ok st"
    and count: "l_count l = int (length as)"
    and cur: "list_all2 (\<lambda>(a, i) (b, c). a = b \<and> iter_at as i c) (l_iters l) (q_cursors q)"
    using m by (auto simp: models_def chain_def)
  from sort_loop_path [OF path dist, of 1 f] True obtain st1 l1 as1 where
    loop: "sort_loop f st l Head (NextOf (as ! 0)) = Some (st1, l1, slot_at as1 (length as1))"
    and p1: "path st1 (l_head l1) as1" "distinct as1" "set as1 = set as"
      "data_of st1 as1 = insertion_sort f 1 (data_of st as)" "same_but_links st st1 as"
    and l1: "l1 = l\<lparr>l_head := l_head l1\<rparr>" by auto
  have eqs: "l_count l1 = l_count l" "l_iters l1 = l_iters l" "l_fdel l1 = l_fdel l" by (subst l1, simp)+
  have len: "length as1 = length as" using p1(2,3) dist distinct_card by metis
  let ?l = "l1\<lparr>l_tail := slot_at as1 (length as1), l_iters := map (\<lambda>(a, i). (a, \<lparr>i_pos = l_head l1, i_prev = Head\<rparr>)) (l_iters l1)\<rparr>"
  have head: "load st l Head = Some (Some (as ! 0))" using load_path [OF path, of 0] True by (cases as) (auto simp: node_at_def)
  have "list_sort st l f = Some (st1, ?l)"
    using True count loop head by (simp add: list_sort_def)
  moreover have "models st1 ?l as1 (seq_sort f q)"
  proof -
    have "pool_ok st1" by (rule pool_ok_same [OF pool]) (use p1(5) in \<open>auto simp: same_but_links_def\<close>)
    moreover have "iter_at as1 \<lparr>i_pos = l_head l1, i_prev = Head\<rparr> (0, 0)"
      using path_node [OF p1(1)] by (simp add: iter_at_def)
    note reset_cursors [OF cur, of "iter_at as1", OF this]
    ultimately show ?thesis
      using p1 True len by (simp add: models_def chain_def seq_sort_def q eqs count)
  qed
  ultimately show ?thesis using p1(3,5) eqs by auto
qed

lemma length_insertion_sort [simp]: "length (insertion_sort f j xs) = length xs"
proof (induction "length xs - j" arbitrary: j xs)
  case 0
  then show ?case by (simp add: insertion_sort_def)
next
  case (Suc d)
  then have "j < length xs" "d = length (insert_step f j xs) - Suc j" by simp_all
  with Suc(1) [of "insert_step f j xs" "Suc j"] show ?case by (simp add: insertion_sort_step)
qed

lemma mset_insertion_sort: "mset (insertion_sort f j xs) = mset xs"
proof (induction "length xs - j" arbitrary: j xs)
  case 0
  then show ?case by (simp add: insertion_sort_def)
next
  case (Suc d)
  then have j: "j < length xs" "d = length (insert_step f j xs) - Suc j" by simp_all
  have "mset (insert_step f j xs) = mset xs" using j by (simp add: insert_step_def mset_move)
  with Suc(1) [OF j(2)] j show ?case by (simp add: insertion_sort_step)
qed

text \<open>With a comparison by keys, one step inserts behind the elements whose key is not greater.\<close>

definition compares :: "('a \<Rightarrow> 'k::linorder) \<Rightarrow> ('a \<Rightarrow> 'a \<Rightarrow> int) \<Rightarrow> bool" where
  "compares key f \<longleftrightarrow> (\<forall>x y. f x y < 0 \<longleftrightarrow> key x < key y)"

lemma insert_step_split:
  fixes key :: "'a \<Rightarrow> 'k::linorder"
  assumes f: "compares key f" and j: "0 < j" "j < length xs" and sorted: "sorted (map key (take j xs))"
  obtains us vs where "take j xs = us @ vs" and "insert_step f j xs = us @ xs ! j # vs @ drop (Suc j) xs"
    and "\<forall>y\<in>set us. key y \<le> key (xs ! j)" and "\<forall>y\<in>set vs. key (xs ! j) < key y"
proof -
  let ?x = "xs ! j" and ?p = "\<lambda>y. 0 \<le> f (xs ! j) y"
  have p: "?p y \<longleftrightarrow> key y \<le> key ?x" for y using f unfolding compares_def by (meson linorder_not_le)
  have last: "take j xs ! (j - 1) = xs ! (j - 1)" "j - 1 < length (take j xs)" using j by simp_all
  have xs: "xs = take j xs @ ?x # drop (Suc j) xs" using j by (intro id_take_nth_drop)
  show ?thesis
  proof (cases "f ?x (xs ! (j - 1)) < 0")
    case False
    then have le: "key (xs ! (j - 1)) \<le> key ?x" using p [of "xs ! (j - 1)"] by simp
    have "key y \<le> key ?x" if "y \<in> set (take j xs)" for y
    proof -
      obtain k where k: "k < j" "take j xs ! k = y" using \<open>y \<in> _\<close> j by (auto simp: in_set_conv_nth)
      then have "key (take j xs ! k) \<le> key (take j xs ! (j - 1))"
        using sorted_nth_mono [OF sorted, of k "j - 1"] j by simp
      then show ?thesis using k(2) last le by simp
    qed
    with False xs that [of "take j xs" "[]"] show ?thesis by (simp add: insert_step_def)
  next
    case True
    define us vs where "us = takeWhile ?p (take j xs)" and "vs = dropWhile ?p (take j xs)"
    have split: "take j xs = us @ vs" by (simp add: us_def vs_def)
    have "\<not> ?p (take j xs ! (j - 1))" using True last by simp
    then have "takeWhile ?p (take j xs @ ?x # drop (Suc j) xs) = us"
      unfolding us_def using nth_mem [OF last(2)] by (intro takeWhile_append1)
    then have tw: "takeWhile ?p xs = us" using xs by metis
    have "insert_step f j xs = move j (length us) xs" using True by (simp add: insert_step_def tw)
    also have "\<dots> = us @ ?x # vs @ drop (Suc j) xs"
      by (simp add: move_def insert_at_def remove_at_def split)
    finally have step: "insert_step f j xs = us @ ?x # vs @ drop (Suc j) xs" .
    have "\<forall>y\<in>set us. key y \<le> key ?x" using p by (auto simp: us_def dest: set_takeWhileD)
    moreover have "key ?x < key y" if "y \<in> set vs" for y
    proof (cases vs)
      case (Cons v ws)
      then have "\<not> ?p v" using hd_dropWhile [of ?p "take j xs"] by (simp flip: vs_def)
      then have "key ?x < key v" using p by simp
      also have "key v \<le> key y" using sorted split Cons that by (auto simp: sorted_append)
      finally show ?thesis .
    qed (use that in simp)
    ultimately show ?thesis using that split step by blast
  qed
qed

lemma insertion_sort_key:
  fixes key :: "'a \<Rightarrow> 'k::linorder"
  assumes f: "compares key f"
  shows "0 < j \<Longrightarrow> sorted (map key (take j xs)) \<Longrightarrow>
    sorted (map key (insertion_sort f j xs)) \<and>
    (\<forall>k. filter (\<lambda>x. key x = k) (insertion_sort f j xs) = filter (\<lambda>x. key x = k) xs)"
proof (induction "length xs - j" arbitrary: j xs)
  case 0
  then show ?case by (simp add: insertion_sort_def)
next
  case (Suc d)
  then have j: "j < length xs" by simp
  obtain us vs where s: "take j xs = us @ vs" "insert_step f j xs = us @ xs ! j # vs @ drop (Suc j) xs"
    "\<forall>y\<in>set us. key y \<le> key (xs ! j)" "\<forall>y\<in>set vs. key (xs ! j) < key y"
    using insert_step_split [OF f Suc(3) j Suc(4)] by metis
  let ?ys = "insert_step f j xs"
  have len: "length us + length vs = j" using s(1) j by (metis length_append length_take min.absorb4)
  have "Suc j - length us = Suc (length vs)" using len by linarith
  then have take: "take (Suc j) ?ys = us @ xs ! j # vs" unfolding s(2) using len by simp
  have "sorted (map key (us @ xs ! j # vs))"
    using Suc(4) s(3,4) unfolding s(1) by (auto simp: sorted_append intro: less_imp_le)
  moreover have "d = length ?ys - Suc j" using Suc(2) j by simp
  ultimately have ih: "sorted (map key (insertion_sort f (Suc j) ?ys))"
    "filter (\<lambda>x. key x = k) (insertion_sort f (Suc j) ?ys) = filter (\<lambda>x. key x = k) ?ys" for k
    using Suc(1) [of ?ys "Suc j"] take by simp_all
  have xs: "xs = us @ vs @ xs ! j # drop (Suc j) xs" using id_take_nth_drop [OF j] s(1) by simp
  have "filter (\<lambda>x. key x = key (xs ! j)) vs = []" using s(4) by (auto simp: filter_empty_conv)
  then have "filter (\<lambda>x. key x = k) ?ys = filter (\<lambda>x. key x = k) (us @ vs @ xs ! j # drop (Suc j) xs)" for k
    unfolding s(2) by auto
  with xs ih show ?case using insertion_sort_step [OF j, of f] by simp
qed

lemma insertion_sort_sorts:
  fixes key :: "'a \<Rightarrow> 'k::linorder"
  assumes "compares key f"
  shows "insertion_sort f 1 xs = sort_key key xs"
proof -
  have "sorted (map key (take 1 xs))" by (cases xs) simp_all
  from insertion_sort_key [OF assms _ this] have
    "sorted (map key (insertion_sort f 1 xs))"
    "filter (\<lambda>x. k = key x) (insertion_sort f 1 xs) = filter (\<lambda>x. k = key x) xs" for k
    by (simp_all add: eq_commute [of k])
  then show ?thesis
    by (intro properties_for_sort_key [symmetric] mset_insertion_sort) blast+
qed

lemma seq_sort_key:
  fixes key :: "'a \<Rightarrow> 'k::linorder"
  assumes "compares key f"
  shows "q_data (seq_sort f q) = sort_key key (q_data q)"
proof (cases "1 < length (q_data q)")
  case False
  then have "q_data q = [] \<or> (\<exists>x. q_data q = [x])" by (cases "q_data q") (auto simp: length_Suc_conv)
  then show ?thesis using False by (auto simp: seq_sort_def)
qed (simp add: seq_sort_def insertion_sort_sorts [OF assms] del: One_nat_def)

end
