(* ===== verification/Fifo.thy ===== *)
theory Fifo
  imports Prelude
begin

text \<open>
  The contract of a container that is filled at one end and emptied at the front, as the clients of
  \<^verbatim>\<open>list.c\<close> and \<^verbatim>\<open>cbuf.c\<close> use it: \<open>join\<close> says where new data goes (behind the rest for a
  queue, in front of it for a stack).
\<close>

datatype 'a command = Put 'a | Get

fun run_container ::
    "('s \<Rightarrow> 'a \<Rightarrow> 's option) \<Rightarrow> ('s \<Rightarrow> ('b \<times> 's) option) \<Rightarrow> 'a command list \<Rightarrow> 's \<Rightarrow> ('b list \<times> 's) option" where
  "run_container put get [] s = Some ([], s)"
| "run_container put get (Put x # cs) s = do { s \<leftarrow> put s x; run_container put get cs s }"
| "run_container put get (Get # cs) s = do {
     (y, s) \<leftarrow> get s; (ys, s) \<leftarrow> run_container put get cs s; Some (y # ys, s) }"

fun run_model :: "('a list \<Rightarrow> 'a \<Rightarrow> 'a list) \<Rightarrow> 'a command list \<Rightarrow> 'a list \<Rightarrow> 'a option list \<times> 'a list" where
  "run_model join [] xs = ([], xs)"
| "run_model join (Put x # cs) xs = run_model join cs (join xs x)"
| "run_model join (Get # cs) [] = (None # fst (run_model join cs []), snd (run_model join cs []))"
| "run_model join (Get # cs) (x # xs) = (Some x # fst (run_model join cs xs), snd (run_model join cs xs))"

locale container =
  fixes holds :: "'s \<Rightarrow> 'a list \<Rightarrow> bool"
    and join :: "'a list \<Rightarrow> 'a \<Rightarrow> 'a list"
    and put :: "'s \<Rightarrow> 'a \<Rightarrow> 's option"
    and get :: "'s \<Rightarrow> ('a option \<times> 's) option"
  assumes put_holds: "holds s xs \<Longrightarrow> \<exists>s'. put s x = Some s' \<and> holds s' (join xs x)"
    and get_empty: "holds s [] \<Longrightarrow> \<exists>s'. get s = Some (None, s') \<and> holds s' []"
    and get_front: "holds s (x # xs) \<Longrightarrow> \<exists>s'. get s = Some (Some x, s') \<and> holds s' xs"
begin

text \<open>Any program of puts and gets sees what it would see of a list.\<close>

lemma run_simulates:
  "holds s xs \<Longrightarrow> \<exists>s'. run_container put get cs s = Some (fst (run_model join cs xs), s') \<and>
    holds s' (snd (run_model join cs xs))"
proof (induction cs arbitrary: s xs)
  case (Cons c cs)
  show ?case
  proof (cases c)
    case (Put x)
    from put_holds [OF Cons.prems, of x] obtain s1 where "put s x = Some s1" "holds s1 (join xs x)" by blast
    with Cons.IH [OF this(2)] show ?thesis by (simp add: Put)
  next
    case Get
    show ?thesis
    proof (cases xs)
      case Nil
      with get_empty Cons.prems obtain s1 where "get s = Some (None, s1)" "holds s1 []" by blast
      with Cons.IH [OF this(2)] show ?thesis by (auto simp: Get Nil)
    next
      case (Cons x ys)
      with get_front Cons.prems obtain s1 where "get s = Some (Some x, s1)" "holds s1 ys" by blast
      with Cons.IH [OF this(2)] show ?thesis by (auto simp: Get Cons)
    qed
  qed
qed simp

end

end
