(* ===== verification/Clist_Spec.thy ===== *)
theory Clist_Spec
  imports Clist_Sort Fifo
begin

text \<open>
  What \<^verbatim>\<open>list.c\<close> promises its callers, for lists in any store: the reachable states, the
  container contracts of its two ends, iteration with removal, deletion, transfer and sorting.
\<close>


section \<open>Operations on lists that stand for a sequence\<close>

lemma is_listI: "models st l as q \<Longrightarrow> is_list st l q"
  by (auto simp: is_list_def)

lemma append_is_list:
  assumes "is_list st l q"
  shows "\<exists>st' l'. list_append st l x = Some (x, st', l') \<and> is_list st' l' (seq_insert (length (q_data q)) x q)"
  using append_models assms unfolding is_list_def by metis

lemma prepend_is_list:
  assumes "is_list st l q"
  shows "\<exists>st' l'. list_prepend st l x = Some (x, st', l') \<and> is_list st' l' (seq_insert 0 x q)"
  using push_models assms unfolding is_list_def list_prepend_def list_push_def by metis

lemma push_is_list:
  assumes "is_list st l q"
  shows "\<exists>st' l'. list_push st l x = Some (x, st', l') \<and> is_list st' l' (seq_insert 0 x q)"
  using push_models assms unfolding is_list_def by metis

lemma next_is_list:
  assumes "is_list st l q" and "cursor_of q a = Some c"
  shows "\<exists>l'. list_next st l a = Some (if fst c < length (q_data q) then Some (q_data q ! fst c) else None, l') \<and>
    is_list st l' (set_cursor a (next_cursor (length (q_data q)) c) q)"
  using next_models [of st l _ q a "fst c" "snd c"] assms by (fastforce simp: is_list_def models_length)

lemma insert_is_list:
  assumes "is_list st l q" and "cursor_of q a = Some c"
  shows "\<exists>st' l'. list_insert st l a x = Some (x, st', l') \<and> is_list st' l' (seq_insert (snd c) x q)"
  using insert_models [of st l _ q a "fst c" "snd c"] assms by (fastforce simp: is_list_def)

lemma remove_is_list:
  assumes "is_list st l q" and "cursor_of q a = Some c"
  shows "if snd c < fst c then \<exists>st' l'. list_remove st l a = Some (Some (q_data q ! snd c), st', l') \<and>
      is_list st' l' (seq_remove (snd c) q) \<and> s_deleted st' = s_deleted st \<and> l_fdel l' = l_fdel l
    else list_remove st l a = Some (None, st, l)"
  using remove_models [of st l _ q a "fst c" "snd c"] assms by (fastforce simp: is_list_def split: if_splits)

lemma is_list_del_data: "is_list (del_data l v st) l' q = is_list st l' q"
  by (simp add: is_list_def models_del_data)

lemma delete_item_is_list:
  assumes "is_list st l q" and "cursor_of q a = Some c"
  shows "\<exists>r st' l' q'. list_delete_item st l a = Some (r, st', l') \<and> is_list st' l' q'"
  using remove_is_list [OF assms] assms(1)
  by (fastforce simp: list_delete_item_def is_list_del_data split: if_splits)

lemma find_is_list:
  assumes "is_list st l q" and "cursor_of q a = Some c"
  shows "\<exists>l'. list_find st l a f = Some (fst (search_from f (q_data q) (fst c)), l') \<and>
    is_list st l' (set_cursor a (snd (search_from f (q_data q) (fst c))) q)"
  using find_models [of st l _ q a "fst c" "snd c"] assms by (fastforce simp: is_list_def)

lemma delete_all_is_list:
  assumes "is_list st l q"
  shows "\<exists>st' l' q'. list_delete_all st l f = Some (int (length (filter f (q_data q))), st', l') \<and>
      is_list st' l' q' \<and> q_data q' = filter (\<lambda>x. \<not> f x) (q_data q) \<and>
      positions q' = map (\<lambda>(a, k). (a, length (filter (\<lambda>x. \<not> f x) (take k (q_data q))))) (positions q) \<and>
      s_deleted st' = s_deleted st @ deleted_by l f (q_data q)"
proof -
  obtain as where "models st l as q" using assms by (auto simp: is_list_def)
  from delete_all_models [OF this, of f] show ?thesis unfolding is_list_def by blast
qed

lemma flush_is_list:
  assumes "is_list st l q"
  shows "\<exists>st' l' q'. list_flush st l = Some (int (length (q_data q)), st', l') \<and> is_list st' l' q' \<and> q_data q' = [] \<and>
      s_deleted st' = s_deleted st @ deleted_by l (\<lambda>_. True) (q_data q)"
proof -
  obtain as where m: "models st l as q" using assms by (auto simp: is_list_def)
  have "list_flush st l = list_delete_all st l (\<lambda>_. True)"
    by (simp add: list_flush_def list_delete_all_def flush_loop_delete [OF m])
  with delete_all_is_list [OF assms, of "\<lambda>_. True"] show ?thesis by auto
qed

lemma sort_is_list:
  assumes "is_list st l q"
  shows "\<exists>st' l'. list_sort st l f = Some (st', l') \<and> is_list st' l' (seq_sort f q) \<and> s_deleted st' = s_deleted st"
proof -
  obtain as where "models st l as q" using assms by (auto simp: is_list_def)
  from sort_models [OF this, of f] show ?thesis unfolding is_list_def same_but_links_def by blast
qed

lemma iterator_create_is_list:
  assumes "is_list st l q" and "list_iterator_create st l = (a, st', l')"
  shows "is_list st' l' (q\<lparr>q_cursors := (a, 0, 0) # q_cursors q\<rparr>)"
  using iterator_create_models assms unfolding is_list_def by fastforce

lemma iterator_reset_is_list:
  "is_list st l q \<Longrightarrow> is_list st (list_iterator_reset l a) (set_cursor a (0, 0) q)"
  using iterator_reset_models unfolding is_list_def by blast

lemma iterator_destroy_is_list:
  assumes "is_list st l q" and "list_iterator_destroy st l a = (st', l')"
  shows "is_list st' l' (q\<lparr>q_cursors := unlink_iter a (q_cursors q)\<rparr>)"
proof -
  obtain as where "models st l as q" using assms(1) by (auto simp: is_list_def)
  from iterator_destroy_models [OF this, of a] assms(2) show ?thesis by (auto intro: is_listI)
qed

lemma models_iterators:
  "models st l as q \<Longrightarrow> (a, i) \<in> set (l_iters l) \<Longrightarrow> \<exists>k j. iter_at as i (k, j)"
proof -
  assume m: "models st l as q" and a: "(a, i) \<in> set (l_iters l)"
  have "list_all2 (\<lambda>(a, i) (b, c). a = b \<and> iter_at as i c) (l_iters l) (q_cursors q)"
    using m by (simp add: models_def)
  then show ?thesis using a by (induction rule: list_all2_induct) auto
qed

lemma registered: "is_list st l q \<Longrightarrow> a \<in> fst ` set (l_iters l) \<Longrightarrow> \<exists>c. cursor_of q a = Some c"
proof -
  assume l: "is_list st l q" and a: "a \<in> fst ` set (l_iters l)"
  then obtain as where "list_all2 (\<lambda>(a, i) (b, c). a = b \<and> iter_at as i c) (l_iters l) (q_cursors q)"
    by (auto simp: is_list_def models_def)
  then have "map fst (l_iters l) = map fst (q_cursors q)"
    by (induction rule: list_all2_induct) auto
  then have "a \<in> fst ` set (q_cursors q)" using a by (metis set_map)
  then show ?thesis by (metis cursor_of_def map_of_eq_None_iff not_None_eq)
qed


section \<open>The contracts of the two ends\<close>

definition stands_for :: "'a store \<times> clist \<Rightarrow> 'a list \<Rightarrow> bool" where
  "stands_for s xs \<longleftrightarrow> (\<exists>q. is_list (fst s) (snd s) q \<and> q_data q = xs)"

definition put_back :: "'a store \<times> clist \<Rightarrow> 'a \<Rightarrow> ('a store \<times> clist) option" where
  "put_back s x = map_option snd (list_enqueue (fst s) (snd s) x)"

definition take_front :: "'a store \<times> clist \<Rightarrow> ('a option \<times> 'a store \<times> clist) option" where
  "take_front s = list_dequeue (fst s) (snd s)"

definition put_front :: "'a store \<times> clist \<Rightarrow> 'a \<Rightarrow> ('a store \<times> clist) option" where
  "put_front s x = map_option snd (list_push (fst s) (snd s) x)"

definition pop_front :: "'a store \<times> clist \<Rightarrow> ('a option \<times> 'a store \<times> clist) option" where
  "pop_front s = list_pop (fst s) (snd s)"

lemma take_front_holds:
  "stands_for s [] \<Longrightarrow> \<exists>s'. take_front s = Some (None, s') \<and> stands_for s' []"
  "stands_for s (x # xs) \<Longrightarrow> \<exists>s'. take_front s = Some (Some x, s') \<and> stands_for s' xs"
  using dequeue_is_list [of "fst s" "snd s"]
  by (fastforce simp: stands_for_def take_front_def seq_remove_def)+

lemma pop_front_take: "pop_front = take_front"
  by (simp add: fun_eq_iff pop_front_def take_front_def list_pop_def list_dequeue_def)

interpretation list_queue: container stands_for "\<lambda>xs x. xs @ [x]" put_back take_front
proof unfold_locales
  fix s :: "'a store \<times> clist" and xs x assume "stands_for s xs"
  then show "\<exists>s'. put_back s x = Some s' \<and> stands_for s' (xs @ [x])"
    using enqueue_is_list [of "fst s" "snd s" _ x] by (fastforce simp: stands_for_def put_back_def seq_insert_def)
qed (fact take_front_holds)+

interpretation list_stack: container stands_for "\<lambda>xs x. x # xs" put_front pop_front
proof unfold_locales
  fix s :: "'a store \<times> clist" and xs x assume "stands_for s xs"
  then show "\<exists>s'. put_front s x = Some s' \<and> stands_for s' (x # xs)"
    using push_is_list [of "fst s" "snd s" _ x] by (fastforce simp: stands_for_def put_front_def seq_insert_def)
qed (unfold pop_front_take, fact take_front_holds, fact take_front_holds)

lemma stands_for_create: "stands_for (empty_store, list_create f) []"
  using models_create [OF pool_ok_empty, of f] by (auto simp: stands_for_def is_list_def)

text \<open>
  C10: Any sequence of \<^verbatim>\<open>list_enqueue\<close> and \<^verbatim>\<open>list_dequeue\<close> on a list sees exactly what it would see of a
  first-in first-out queue of the list's data; no assertion of \<^verbatim>\<open>list.c\<close> fails on the way and
  registered iterators do not disturb it.
\<close>

theorem list_is_fifo:
  assumes "stands_for s xs"
  shows "\<exists>s'. run_container put_back take_front cs s = Some (fst (run_model (\<lambda>xs x. xs @ [x]) cs xs), s') \<and>
    stands_for s' (snd (run_model (\<lambda>xs x. xs @ [x]) cs xs))"
  by (rule list_queue.run_simulates [OF assms])

theorem list_is_fifo_witness:
  "\<exists>s'. run_container put_back take_front [Put (7::nat), Put 8, Get, Get, Get, Put 9] (empty_store, list_create False) =
    Some ([Some 7, Some 8, None], s') \<and> stands_for s' [9]"
  using list_is_fifo [OF stands_for_create, of "[Put (7::nat), Put 8, Get, Get, Get, Put 9]" False] by simp

text \<open>
  Any sequence of \<^verbatim>\<open>list_push\<close> and \<^verbatim>\<open>list_pop\<close> sees exactly what it would see of a last-in first-out
  stack of the list's data.
\<close>

theorem list_is_stack:
  assumes "stands_for s xs"
  shows "\<exists>s'. run_container put_front pop_front cs s = Some (fst (run_model (\<lambda>xs x. x # xs) cs xs), s') \<and>
    stands_for s' (snd (run_model (\<lambda>xs x. x # xs) cs xs))"
  by (rule list_stack.run_simulates [OF assms])

theorem list_is_stack_witness:
  "\<exists>s'. run_container put_front pop_front [Put (7::nat), Put 8, Get] (empty_store, list_create True) =
    Some ([Some 8], s') \<and> stands_for s' [7]"
  using list_is_stack [OF stands_for_create, of "[Put (7::nat), Put 8, Get]" True] by simp



section \<open>Reachable lists\<close>

text \<open>One call on a list.  A call through an iterator needs a registered one.\<close>

inductive list_call :: "'a store \<times> clist \<Rightarrow> 'a store \<times> clist \<Rightarrow> bool" where
  call_append: "list_append st l x = Some (x, s') \<Longrightarrow> list_call (st, l) s'"
| call_prepend: "list_prepend st l x = Some (x, s') \<Longrightarrow> list_call (st, l) s'"
| call_push: "list_push st l x = Some (x, s') \<Longrightarrow> list_call (st, l) s'"
| call_pop: "list_pop st l = Some (v, s') \<Longrightarrow> list_call (st, l) s'"
| call_enqueue: "list_enqueue st l x = Some (x, s') \<Longrightarrow> list_call (st, l) s'"
| call_dequeue: "list_dequeue st l = Some (v, s') \<Longrightarrow> list_call (st, l) s'"
| call_delete_all: "list_delete_all st l f = Some (n, s') \<Longrightarrow> list_call (st, l) s'"
| call_flush: "list_flush st l = Some (n, s') \<Longrightarrow> list_call (st, l) s'"
| call_sort: "list_sort st l cmp = Some s' \<Longrightarrow> list_call (st, l) s'"
| call_iterator_create: "list_iterator_create st l = (a, s') \<Longrightarrow> list_call (st, l) s'"
| call_iterator_reset: "list_call (st, l) (st, list_iterator_reset l a)"
| call_iterator_destroy: "list_iterator_destroy st l a = s' \<Longrightarrow> list_call (st, l) s'"
| call_next: "a \<in> fst ` set (l_iters l) \<Longrightarrow> list_next st l a = Some (v, l') \<Longrightarrow> list_call (st, l) (st, l')"
| call_find: "a \<in> fst ` set (l_iters l) \<Longrightarrow> list_find st l a f = Some (v, l') \<Longrightarrow> list_call (st, l) (st, l')"
| call_insert: "a \<in> fst ` set (l_iters l) \<Longrightarrow> list_insert st l a x = Some (x, s') \<Longrightarrow> list_call (st, l) s'"
| call_remove: "a \<in> fst ` set (l_iters l) \<Longrightarrow> list_remove st l a = Some (v, s') \<Longrightarrow> list_call (st, l) s'"
| call_delete_item: "a \<in> fst ` set (l_iters l) \<Longrightarrow> list_delete_item st l a = Some (n, s') \<Longrightarrow> list_call (st, l) s'"

inductive list_reachable :: "'a store \<Rightarrow> bool \<Rightarrow> 'a store \<times> clist \<Rightarrow> bool" for st0 f where
  reach_create: "list_reachable st0 f (st0, list_create f)"
| reach_call: "list_reachable st0 f s \<Longrightarrow> list_call s s' \<Longrightarrow> list_reachable st0 f s'"

text \<open>The contracts of all calls in one bundle.\<close>

lemmas is_list_ends = append_is_list prepend_is_list push_is_list enqueue_is_list

lemma ends_keep:
  assumes "is_list st l q"
  shows "list_append st l x = Some (v, s') \<Longrightarrow> \<exists>q'. is_list (fst s') (snd s') q'"
    and "list_prepend st l x = Some (v, s') \<Longrightarrow> \<exists>q'. is_list (fst s') (snd s') q'"
    and "list_push st l x = Some (v, s') \<Longrightarrow> \<exists>q'. is_list (fst s') (snd s') q'"
    and "list_enqueue st l x = Some (v, s') \<Longrightarrow> \<exists>q'. is_list (fst s') (snd s') q'"
  using is_list_ends [OF assms, of x] by auto

lemma dequeue_keeps:
  assumes "is_list st l q" and "list_dequeue st l = Some (v, s')"
  shows "\<exists>q'. is_list (fst s') (snd s') q'"
  using dequeue_is_list [OF assms(1)] assms by (cases "q_data q") auto

lemma pop_dequeue: "list_pop = list_dequeue"
  by (simp add: fun_eq_iff list_pop_def list_dequeue_def)

lemma iterators_keep:
  assumes l: "is_list st l q" and a: "a \<in> fst ` set (l_iters l)"
  shows "list_next st l a = Some (v, l') \<Longrightarrow> \<exists>q'. is_list st l' q'"
    and "list_find st l a f = Some (v, l') \<Longrightarrow> \<exists>q'. is_list st l' q'"
    and "list_insert st l a x = Some (y, s') \<Longrightarrow> \<exists>q'. is_list (fst s') (snd s') q'"
    and "list_remove st l a = Some (v, s') \<Longrightarrow> \<exists>q'. is_list (fst s') (snd s') q'"
    and "list_delete_item st l a = Some (n, s') \<Longrightarrow> \<exists>q'. is_list (fst s') (snd s') q'"
proof -
  obtain c where c: "cursor_of q a = Some c" using registered [OF l a] by blast
  show "list_next st l a = Some (v, l') \<Longrightarrow> \<exists>q'. is_list st l' q'"
    using next_is_list [OF l c] by auto
  show "list_find st l a f = Some (v, l') \<Longrightarrow> \<exists>q'. is_list st l' q'"
    using find_is_list [OF l c, of f] by auto
  show "list_insert st l a x = Some (y, s') \<Longrightarrow> \<exists>q'. is_list (fst s') (snd s') q'"
    using insert_is_list [OF l c, of x] by auto
  show "list_remove st l a = Some (v, s') \<Longrightarrow> \<exists>q'. is_list (fst s') (snd s') q'"
    using remove_is_list [OF l c] l by (auto split: if_splits)
  show "list_delete_item st l a = Some (n, s') \<Longrightarrow> \<exists>q'. is_list (fst s') (snd s') q'"
    using delete_item_is_list [OF l c] by auto
qed

lemma call_keeps: "list_call s s' \<Longrightarrow> \<exists>q. is_list (fst s) (snd s) q \<Longrightarrow> \<exists>q'. is_list (fst s') (snd s') q'"
proof (induction rule: list_call.induct)
  case (call_delete_all st l f n s')
  then obtain q where "is_list st l q" by auto
  from delete_all_is_list [OF this, of f] call_delete_all show ?case by auto
next
  case (call_flush st l n s')
  then obtain q where "is_list st l q" by auto
  from flush_is_list [OF this] call_flush show ?case by auto
next
  case (call_sort st l cmp s')
  then obtain q where "is_list st l q" by auto
  from sort_is_list [OF this, of cmp] call_sort show ?case by auto
next
  case (call_iterator_create st l a s')
  then obtain q where "is_list st l q" by auto
  from iterator_create_is_list [OF this, of a "fst s'" "snd s'"] call_iterator_create show ?case by auto
next
  case (call_iterator_destroy st l a s')
  then obtain q where "is_list st l q" by auto
  from iterator_destroy_is_list [OF this, of a "fst s'" "snd s'"] call_iterator_destroy show ?case by auto
next
  case (call_iterator_reset st l a)
  then obtain q where "is_list st l q" by auto
  from iterator_reset_is_list [OF this, of a] show ?case by auto
qed (auto simp: pop_dequeue dest: ends_keep dequeue_keeps iterators_keep)

lemma reachable_is_list:
  assumes "list_reachable st0 f s" and "pool_ok st0"
  shows "\<exists>q. is_list (fst s) (snd s) q"
  using assms(1)
proof (induction rule: list_reachable.induct)
  case reach_create
  then show ?case using models_create [OF assms(2), of f] by (auto simp: is_list_def)
qed (rule call_keeps)

text \<open>
  C35: Every list that calls of \<^verbatim>\<open>list.c\<close> can reach from \<^verbatim>\<open>list_create\<close> is a well-formed chain: the
  nodes from \<^verbatim>\<open>head\<close> on are distinct and allocated, \<^verbatim>\<open>tail\<close> is the address of the last \<^verbatim>\<open>next\<close>, the
  number in \<^verbatim>\<open>count\<close> is theirs, and every registered iterator satisfies the condition that the code asserts.
\<close>

theorem list_reachable_wf:
  assumes "list_reachable st0 f s" and "pool_ok st0"
  shows "\<exists>as. path (fst s) (l_head (snd s)) as \<and> distinct as \<and> (\<forall>a\<in>set as. s_nodes (fst s) a \<noteq> None) \<and>
    l_tail (snd s) = slot_at as (length as) \<and> l_count (snd s) = int (length as) \<and>
    (\<forall>(a, i)\<in>set (l_iters (snd s)). iter_check (fst s) (snd s) i = Some ())"
proof -
  obtain q as where m: "models (fst s) (snd s) as q"
    using reachable_is_list [OF assms] by (auto simp: is_list_def)
  have "iter_check (fst s) (snd s) i = Some ()" if "(a, i) \<in> set (l_iters (snd s))" for a i
    using models_iterators [OF m that] iter_check_ok [OF models_chain [OF m]] by auto
  then show ?thesis using m models_allocated [OF m] by (auto simp: models_def chain_def)
qed

definition sample_list :: "nat store \<times> clist" where
  "sample_list = snd (the (list_append empty_store (list_create True) 5))"

lemma sample_reachable: "list_reachable empty_store True sample_list"
proof -
  have "is_list empty_store (list_create True) \<lparr>q_data = [], q_cursors = []\<rparr>"
    using models_create [OF pool_ok_empty] by (rule is_listI)
  from append_is_list [OF this, of 5] obtain st' l'
    where a: "list_append empty_store (list_create True) (5::nat) = Some (5, st', l')" by blast
  have "list_reachable empty_store True (st', l')" by (rule reach_call [OF reach_create call_append [OF a]])
  then show ?thesis by (simp add: sample_list_def a)
qed

theorem list_reachable_wf_witness:
  "\<exists>as. path (fst sample_list) (l_head (snd sample_list)) as \<and> length as = nat (l_count (snd sample_list))"
  using list_reachable_wf [OF sample_reachable pool_ok_empty] by fastforce

text \<open>
  C3: On every such list each call returns: the pointer loops end, no assertion fails and no pointer to
  nothing or to a freed node is followed, for any callbacks.
\<close>

theorem list_calls_return:
  assumes "list_reachable st0 f0 (st, l)" and "pool_ok st0"
  shows "list_append st l x \<noteq> None \<and> list_prepend st l x \<noteq> None \<and> list_pop st l \<noteq> None \<and> list_peek st l \<noteq> None \<and>
    list_delete_all st l f \<noteq> None \<and> list_flush st l \<noteq> None \<and> list_sort st l cmp \<noteq> None \<and>
    list_find_first st l f \<noteq> None \<and> list_for_each st l g s \<noteq> None \<and> list_destroy st l \<noteq> None \<and>
    (\<forall>a \<in> fst ` set (l_iters l). list_next st l a \<noteq> None \<and> list_find st l a f \<noteq> None \<and>
      list_insert st l a x \<noteq> None \<and> list_remove st l a \<noteq> None \<and> list_delete_item st l a \<noteq> None)"
proof -
  obtain q where l: "is_list st l q" using reachable_is_list [OF assms] by auto
  then obtain as where m: "models st l as q" by (auto simp: is_list_def)
  have "list_next st l a \<noteq> None \<and> list_find st l a f \<noteq> None \<and> list_insert st l a x \<noteq> None \<and>
      list_remove st l a \<noteq> None \<and> list_delete_item st l a \<noteq> None" if a: "a \<in> fst ` set (l_iters l)" for a
  proof -
    obtain c where c: "cursor_of q a = Some c" using registered [OF l a] by blast
    show ?thesis
      using next_is_list [OF l c] find_is_list [OF l c, of f] insert_is_list [OF l c, of x]
        remove_is_list [OF l c] delete_item_is_list [OF l c] by (auto split: if_splits)
  qed
  moreover have "list_pop st l \<noteq> None" using dequeue_is_list [OF l] by (auto simp: pop_dequeue split: list.splits)
  moreover have "list_append st l x \<noteq> None" "list_prepend st l x \<noteq> None" using is_list_ends [OF l, of x] by auto
  moreover have "list_delete_all st l f \<noteq> None" "list_flush st l \<noteq> None" "list_sort st l cmp \<noteq> None"
    using delete_all_is_list [OF l, of f] flush_is_list [OF l] sort_is_list [OF l, of cmp] by auto
  moreover have "list_find_first st l f \<noteq> None" "list_for_each st l g s \<noteq> None" "list_destroy st l \<noteq> None"
      "list_peek st l \<noteq> None"
    using find_first_models [OF m, of f] for_each_models [OF m, of g s] destroy_list_models [OF m] peek_is_list [OF l] by auto
  ultimately show ?thesis by blast
qed

theorem list_calls_return_witness:
  "list_sort (fst sample_list) (snd sample_list) (\<lambda>x y. int x - int y) \<noteq> None \<and> list_destroy (fst sample_list) (snd sample_list) \<noteq> None"
proof -
  have "list_reachable empty_store True (fst sample_list, snd sample_list)" using sample_reachable by simp
  from list_calls_return [OF this pool_ok_empty, where x = 0 and f = "\<lambda>_. True" and cmp = "\<lambda>x y. int x - int y"
      and g = "\<lambda>x s. (0, s)" and s = "()"] show ?thesis by (elim conjE) (intro conjI)
qed



section \<open>Iteration\<close>

lemma cursor_of_remove: "cursor_of (seq_remove j q) a = map_option (remove_cursor j) (cursor_of q a)"
  by (simp add: cursor_of_def seq_remove_def map_of_map)

lemma cursor_of_insert: "cursor_of (seq_insert j x q) a = map_option (insert_cursor j) (cursor_of q a)"
  by (simp add: cursor_of_def seq_insert_def map_of_map)

section \<open>Samples\<close>

text \<open>A store with two lists: the first holds 3, 1, 2 and has an iterator at its start, the second holds 7, 8.\<close>

definition sample_store :: "nat store" where
  "sample_store = \<lparr>s_nodes = [0 \<mapsto> \<lparr>n_data = 3, n_next = Some 1\<rparr>, 1 \<mapsto> \<lparr>n_data = 1, n_next = Some 2\<rparr>,
       2 \<mapsto> \<lparr>n_data = 2, n_next = None\<rparr>, 4 \<mapsto> \<lparr>n_data = 7, n_next = Some 5\<rparr>, 5 \<mapsto> \<lparr>n_data = 8, n_next = None\<rparr>],
     s_pool = \<lparr>p_free = [3], p_brk = 6\<rparr>, s_ipool = \<lparr>p_free = [], p_brk = 1\<rparr>, s_deleted = []\<rparr>"

definition sample_clist :: clist where
  "sample_clist = \<lparr>l_head = Some 0, l_tail = NextOf 2, l_iters = [(0, \<lparr>i_pos = Some 0, i_prev = Head\<rparr>)],
     l_fdel = False, l_count = 3\<rparr>"

definition sample_seq :: "nat seq" where
  "sample_seq = \<lparr>q_data = [3, 1, 2], q_cursors = [(0, 0, 0)]\<rparr>"

definition other_clist :: clist where
  "other_clist = \<lparr>l_head = Some 4, l_tail = NextOf 5, l_iters = [], l_fdel = False, l_count = 2\<rparr>"

definition other_seq :: "nat seq" where
  "other_seq = \<lparr>q_data = [7, 8], q_cursors = []\<rparr>"

lemma sample_models: "models sample_store sample_clist [0, 1, 2] sample_seq"
  by (auto simp: models_def pool_ok_def chain_def data_of_def iter_at_def node_at_def slot_at_def
      sample_store_def sample_clist_def sample_seq_def split: if_splits)

lemma other_models: "models sample_store other_clist [4, 5] other_seq"
  by (auto simp: models_def pool_ok_def chain_def data_of_def slot_at_def
      sample_store_def other_clist_def other_seq_def split: if_splits)

lemma sample_is_list: "is_list sample_store sample_clist sample_seq"
  by (rule is_listI [OF sample_models])

lemma sample_cursor: "cursor_of sample_seq 0 = Some (0, 0)"
  by (simp add: cursor_of_def sample_seq_def)

lemma sample_data: "q_data sample_seq = [3, 1, 2]" "q_data other_seq = [7, 8]"
  by (simp_all add: sample_seq_def other_seq_def)

lemma sample_two: "two_lists sample_store sample_clist sample_seq other_clist other_seq"
  unfolding two_lists_def using sample_models other_models by (intro exI conjI) (assumption | simp)+

lemma sample_fdel: "\<not> l_fdel sample_clist" "\<not> l_fdel other_clist"
  by (simp_all add: sample_clist_def other_clist_def)


section \<open>Removal while iterating\<close>

text \<open>
  \<^verbatim>\<open>list_remove\<close> right after \<^verbatim>\<open>list_next\<close> takes out exactly the element that \<^verbatim>\<open>list_next\<close> returned, hands it
  back, and leaves the iterator before the element that followed, so that a loop over a list may remove
  as it goes.
\<close>

theorem list_next_remove:
  assumes "is_list st l q" and "cursor_of q a = Some (k, j)" and "k < length (q_data q)"
  shows "\<exists>l1 st2 l2 q2. list_next st l a = Some (Some (q_data q ! k), l1) \<and>
    list_remove st l1 a = Some (Some (q_data q ! k), st2, l2) \<and> is_list st2 l2 q2 \<and>
    q_data q2 = take k (q_data q) @ drop (Suc k) (q_data q) \<and> cursor_of q2 a = Some (k, k)"
proof -
  obtain l1 where n: "list_next st l a = Some (Some (q_data q ! k), l1)" and l1: "is_list st l1 (set_cursor a (Suc k, k) q)"
    using next_is_list [OF assms(1,2)] assms(3) by (auto simp: next_cursor_def)
  have c: "cursor_of (set_cursor a (Suc k, k) q) a = Some (Suc k, k)" using assms(2) by simp
  let ?q = "seq_remove k (set_cursor a (Suc k, k) q)"
  obtain st2 l2 where "list_remove st l1 a = Some (Some (q_data q ! k), st2, l2)" "is_list st2 l2 ?q"
    using remove_is_list [OF l1 c] by auto
  moreover have "q_data ?q = take k (q_data q) @ drop (Suc k) (q_data q)" by (simp add: seq_remove_def remove_at_def)
  moreover have "cursor_of ?q a = Some (k, k)" using c by (simp only: cursor_of_remove) (simp add: remove_cursor_def)
  ultimately show ?thesis using n by blast
qed

theorem list_next_remove_witness:
  "\<exists>l1 st2 l2 q2. list_next sample_store sample_clist 0 = Some (Some 3, l1) \<and>
    list_remove sample_store l1 0 = Some (Some 3, st2, l2) \<and> is_list st2 l2 q2 \<and> q_data q2 = [1, 2] \<and>
    cursor_of q2 0 = Some (0, 0)"
  using list_next_remove [OF sample_is_list sample_cursor] by (simp add: sample_data)

text \<open>
  C36: \<^verbatim>\<open>list_find\<close> reaches every match: if some element at or after the iterator satisfies the callback, the
  call returns the first such element and stops right behind it.
\<close>

theorem list_find_reaches:
  assumes "is_list st l q" and "cursor_of q a = Some (k, j)" and "k \<le> i" and "i < length (q_data q)" and "f (q_data q ! i)"
    and first: "\<forall>m. k \<le> m \<and> m < i \<longrightarrow> \<not> f (q_data q ! m)"
  shows "\<exists>l'. list_find st l a f = Some (Some (q_data q ! i), l') \<and> is_list st l' (set_cursor a (Suc i, i) q)"
proof -
  have "search_from f (q_data q) k = (Some (q_data q ! i), Suc i, i)"
    using assms(3,4,5) first
  proof (induction "i - k" arbitrary: k)
    case 0
    then show ?case by (simp add: search_from_step)
  next
    case (Suc d)
    then have "\<not> f (q_data q ! k)" "k < length (q_data q)" by auto
    moreover have "search_from f (q_data q) (Suc k) = (Some (q_data q ! i), Suc i, i)"
      using Suc by (intro Suc(1)) auto
    ultimately show ?case by (subst search_from_step) simp
  qed
  then show ?thesis using find_is_list [OF assms(1,2), of f] by simp
qed

theorem list_find_reaches_witness:
  "\<exists>l'. list_find sample_store sample_clist 0 (\<lambda>x. x < 3) = Some (Some 1, l') \<and>
    is_list sample_store l' (set_cursor 0 (2, 1) sample_seq)"
  using list_find_reaches [OF sample_is_list sample_cursor, of 1 "\<lambda>x. x < 3"]
  by (simp add: sample_data numeral_2_eq_2)


section \<open>Deletion, transfer and sorting\<close>

text \<open>
  C23: \<^verbatim>\<open>list_delete_all\<close> removes exactly the elements its callback accepts, in any number and position,
  passes them to the destructor in list order (when the list has one), returns how many they were, and
  moves every iterator to the first survivor at or after its position.
\<close>

theorem list_delete_all_filters:
  assumes "is_list st l q"
  shows "\<exists>st' l' q'. list_delete_all st l f = Some (int (length (filter f (q_data q))), st', l') \<and>
    is_list st' l' q' \<and> q_data q' = filter (\<lambda>x. \<not> f x) (q_data q) \<and>
    positions q' = map (\<lambda>(a, k). (a, length (filter (\<lambda>x. \<not> f x) (take k (q_data q))))) (positions q) \<and>
    s_deleted st' = s_deleted st @ (if l_fdel l then filter f (q_data q) else [])"
  using delete_all_is_list [OF assms, of f] by (simp add: deleted_by_def)

theorem list_delete_all_filters_witness:
  "\<exists>st' l' q'. list_delete_all sample_store sample_clist (\<lambda>x. x < 3) = Some (2, st', l') \<and>
    is_list st' l' q' \<and> q_data q' = [3]"
  using list_delete_all_filters [OF sample_is_list, of "\<lambda>x. x < 3"] by (fastforce simp: sample_data)

text \<open>
  \<^verbatim>\<open>list_destroy\<close> frees every node of the list and no other, calls the destructor once on each element in
  list order, and keeps the free list of nodes consistent for later allocations.
\<close>

theorem list_destroy_frees:
  assumes "models st l as q"
  shows "\<exists>st'. list_destroy st l = Some st' \<and> (\<forall>a. s_nodes st' a = (if a \<in> set as then None else s_nodes st a)) \<and>
    s_deleted st' = s_deleted st @ (if l_fdel l then q_data q else []) \<and> pool_ok st'"
  using destroy_list_models [OF assms] by (auto simp: deleted_by_def)

theorem list_destroy_frees_witness:
  "\<exists>st'. list_destroy sample_store sample_clist = Some st' \<and> s_nodes st' 1 = None \<and> s_nodes st' 4 \<noteq> None"
  using list_destroy_frees [OF sample_models] by (auto simp: sample_store_def)

text \<open>
  \<^verbatim>\<open>list_transfer\<close> moves all data of one list behind the data of another, in order, returns their number
  and leaves the first list empty, for two lists of one store with the same destructor.
\<close>

theorem list_transfer_moves:
  assumes "two_lists st l q sub r" and "l_fdel l = l_fdel sub"
  shows "\<exists>st' l' sub' q' r'. list_transfer st l sub = Some (int (length (q_data r)), st', l', sub') \<and>
    two_lists st' l' q' sub' r' \<and> q_data q' = q_data q @ q_data r \<and> q_data r' = [] \<and> s_deleted st' = s_deleted st"
proof -
  obtain st' l' sub' where "list_transfer st l sub = Some (int (length (q_data r)), st', l', sub')"
    "two_lists st' l' (seq_appends (q_data r) q) sub' ((seq_remove 0 ^^ length (q_data r)) r)" "s_deleted st' = s_deleted st"
    using transfer_two [OF assms] by blast
  then show ?thesis by (intro exI conjI) (assumption | simp add: q_data_removed)+
qed

theorem list_transfer_moves_witness:
  "\<exists>st' l' sub' q' r'. list_transfer sample_store sample_clist other_clist = Some (2, st', l', sub') \<and>
    two_lists st' l' q' sub' r' \<and> q_data q' = [3, 1, 2, 7, 8] \<and> q_data r' = []"
proof -
  have "l_fdel sample_clist = l_fdel other_clist" by (simp add: sample_fdel)
  from list_transfer_moves [OF sample_two this] show ?thesis by (simp add: sample_data) blast
qed

text \<open>
  \<^verbatim>\<open>list_append_list\<close> appends the data of one list to another, in order, and leaves the source list with its
  data and its iterators as they were.
\<close>

theorem list_append_list_copies:
  assumes "two_lists st l q sub r" and "\<not> l_fdel l"
  shows "\<exists>st' l' sub' q'. list_append_list st l sub = Some (int (length (q_data r)), st', l', sub') \<and>
    two_lists st' l' q' sub' r \<and> q_data q' = q_data q @ q_data r \<and> s_deleted st' = s_deleted st"
proof -
  obtain st' l' sub' where "list_append_list st l sub = Some (int (length (q_data r)), st', l', sub')"
    "two_lists st' l' (seq_appends (q_data r) q) sub' r" "s_deleted st' = s_deleted st"
    using append_list_two [OF assms] by blast
  then show ?thesis by (intro exI conjI) (assumption | simp)+
qed

theorem list_append_list_copies_witness:
  "\<exists>st' l' sub' q'. list_append_list sample_store sample_clist other_clist = Some (2, st', l', sub') \<and>
    two_lists st' l' q' sub' other_seq \<and> q_data q' = [3, 1, 2, 7, 8]"
  using list_append_list_copies [OF sample_two sample_fdel(1)] by (auto simp: sample_data)

text \<open>
  C6: \<^verbatim>\<open>list_sort\<close> returns for every comparison function; when the function compares keys, the list is sorted
  by them and elements with equal keys keep their order.
\<close>

theorem list_sort_stable:
  fixes key :: "'a \<Rightarrow> 'k::linorder"
  assumes "is_list st l q" and "\<forall>x y. f x y < 0 \<longleftrightarrow> key x < key y"
  shows "\<exists>st' l' q'. list_sort st l f = Some (st', l') \<and> is_list st' l' q' \<and> q_data q' = sort_key key (q_data q) \<and>
    s_deleted st' = s_deleted st"
  using sort_is_list [OF assms(1), of f] seq_sort_key [of key f q] assms(2) by (auto simp: compares_def)

theorem list_sort_stable_witness:
  "\<exists>st' l' q'. list_sort sample_store sample_clist (\<lambda>x y. int x - int y) = Some (st', l') \<and> is_list st' l' q' \<and>
    q_data q' = [1, 2, 3]"
  using list_sort_stable [OF sample_is_list, of "\<lambda>x y. int x - int y" "\<lambda>x. x"] by (auto simp: sample_data)

end
