(* ===== verification/Cbuf.thy ===== *)
theory Cbuf
  imports Prelude
begin

text \<open>
  The circular buffers of \<^verbatim>\<open>src/src/common/cbuf.c\<close>, in the debug configuration that checks
  \<^verbatim>\<open>cbuf_is_valid\<close>.  The data array has one cell more than the buffer holds bytes; the unread bytes lie
  from \<^verbatim>\<open>i_out\<close> to \<^verbatim>\<open>i_in\<close> and the bytes that can be replayed from \<^verbatim>\<open>i_rep\<close> to \<^verbatim>\<open>i_out\<close>, both modulo its size.

  Integers are C ints: a sum that can leave them is checked where the code adds (\<open>in_int\<close>); all other sums are of two
  positions of one buffer, and that these fit is part of its validity.  \<^const>\<open>None\<close> is such an overflow, a failed
  assertion, or an access outside the data array or the caller's memory.  The magic cookies around the array are what such an
  access would hit; they are not part of the list.  Calls on one buffer are serialised by its mutex.
\<close>


section \<open>Constants and types\<close>

definition CBUF_CHUNK :: int where "CBUF_CHUNK = 1000"

definition CBUF_MAGIC_LEN :: int where "CBUF_MAGIC_LEN = 8"

definition newline :: byte where "newline = 10"

datatype cbuf_overwrite = CBUF_NO_DROP | CBUF_WRAP_ONCE | CBUF_WRAP_MANY

record cbuf =
  c_alloc :: int
  c_minsize :: int
  c_maxsize :: int
  c_size :: int
  c_used :: int
  c_overwrite :: cbuf_overwrite
  c_got_wrap :: bool
  c_i_in :: int
  c_i_out :: int
  c_i_rep :: int
  c_data :: "byte list"

text \<open>
  \<^verbatim>\<open>malloc\<close> and \<^verbatim>\<open>realloc\<close>: for a number of bytes, \<^const>\<open>None\<close> is a failure, and otherwise the
  function says what the fresh bytes contain.
\<close>

definition in_int :: "int \<Rightarrow> bool" where "in_int x \<longleftrightarrow> - 2147483648 \<le> x \<and> x \<le> 2147483647"

type_synonym memory = "int \<Rightarrow> (nat \<Rightarrow> byte) option"

definition modulus :: "cbuf \<Rightarrow> int" where "modulus cb = c_size cb + 1"


section \<open>Validity\<close>

text \<open>
  What \<^verbatim>\<open>cbuf_is_valid\<close> checks, behind three facts on the memory and the range of the checks: the array has one cell more
  than the size, with its cookies it is what was allocated, and the sums below are those of ints.
\<close>

definition cbuf_is_valid :: "cbuf \<Rightarrow> bool" where
  "cbuf_is_valid cb \<longleftrightarrow>
     length (c_data cb) = nat (c_size cb + 1) \<and> c_alloc cb = c_size cb + 1 + 2 * CBUF_MAGIC_LEN \<and> in_int (2 * c_size cb + 1) \<and>
     c_alloc cb > 0 \<and> c_alloc cb > c_size cb \<and> c_size cb > 0 \<and> c_size cb \<ge> c_minsize cb \<and>
     c_size cb \<le> c_maxsize cb \<and> c_minsize cb > 0 \<and> c_maxsize cb > 0 \<and>
     c_used cb \<ge> 0 \<and> c_used cb \<le> c_size cb \<and>
     (c_got_wrap cb \<or> c_i_rep cb = 0) \<and>
     c_i_in cb \<ge> 0 \<and> c_i_in cb \<le> c_size cb \<and> c_i_out cb \<ge> 0 \<and> c_i_out cb \<le> c_size cb \<and>
     c_i_rep cb \<ge> 0 \<and> c_i_rep cb \<le> c_size cb \<and>
     (if c_i_in cb \<ge> c_i_out cb then c_i_rep cb > c_i_in cb \<or> c_i_rep cb \<le> c_i_out cb
      else c_i_rep cb > c_i_in cb \<and> c_i_rep cb \<le> c_i_out cb) \<and>
     c_size cb - c_used cb = (c_i_out cb - c_i_in cb - 1 + (c_size cb + 1)) mod (c_size cb + 1)"


section \<open>Creation and counters\<close>

definition cbuf_create :: "memory \<Rightarrow> int \<Rightarrow> int \<Rightarrow> cbuf option option" where
  "cbuf_create mem minsize maxsize =
     (if minsize \<le> 0 then Some None
      else let alloc = minsize + 1 + 2 * CBUF_MAGIC_LEN in
        if \<not> in_int alloc then None
        else case mem alloc of None \<Rightarrow> Some None
        | Some junk \<Rightarrow>
          (let cb = \<lparr>c_alloc = alloc, c_minsize = minsize, c_maxsize = (if maxsize > minsize then maxsize else minsize),
             c_size = minsize, c_used = 0, c_overwrite = CBUF_WRAP_MANY, c_got_wrap = False,
             c_i_in = 0, c_i_out = 0, c_i_rep = 0, c_data = map junk [0..<nat (minsize + 1)]\<rparr>
           in do { assertC (cbuf_is_valid cb); Some (Some cb) }))"

definition cbuf_flush :: "cbuf \<Rightarrow> cbuf option" where
  "cbuf_flush cb = do {
     assertC (cbuf_is_valid cb);
     let cb = cb\<lparr>c_used := 0, c_got_wrap := False, c_i_in := 0, c_i_out := 0, c_i_rep := 0\<rparr>;
     assertC (cbuf_is_valid cb);
     Some cb
   }"

definition cbuf_size :: "cbuf \<Rightarrow> int option" where
  "cbuf_size cb = do { assertC (cbuf_is_valid cb); Some (c_maxsize cb) }"

definition cbuf_free :: "cbuf \<Rightarrow> int option" where
  "cbuf_free cb = do { assertC (cbuf_is_valid cb); Some (c_maxsize cb - c_used cb) }"

definition cbuf_used :: "cbuf \<Rightarrow> int option" where
  "cbuf_used cb = do { assertC (cbuf_is_valid cb); Some (c_used cb) }"

definition reused_bytes :: "cbuf \<Rightarrow> int" where
  "reused_bytes cb = (c_i_out cb - c_i_rep cb + (c_size cb + 1)) mod (c_size cb + 1)"

definition cbuf_reused :: "cbuf \<Rightarrow> int option" where
  "cbuf_reused cb = do { assertC (cbuf_is_valid cb); Some (reused_bytes cb) }"

definition cbuf_is_empty :: "cbuf \<Rightarrow> bool option" where
  "cbuf_is_empty cb = do { assertC (cbuf_is_valid cb); Some (c_used cb = 0) }"

definition CBUF_OPT_OVERWRITE :: int where "CBUF_OPT_OVERWRITE = 0"

fun overwrite_value :: "cbuf_overwrite \<Rightarrow> int" where
  "overwrite_value CBUF_NO_DROP = 0"
| "overwrite_value CBUF_WRAP_ONCE = 1"
| "overwrite_value CBUF_WRAP_MANY = 2"

text \<open>\<^verbatim>\<open>value\<close> is \<^const>\<open>None\<close> for a NULL pointer, and the old or new content of \<^verbatim>\<open>*value\<close> otherwise.\<close>

definition cbuf_opt_get :: "cbuf \<Rightarrow> int \<Rightarrow> int option \<Rightarrow> (int \<times> int option) option" where
  "cbuf_opt_get cb name value = (case value of None \<Rightarrow> Some (-1, None)
     | Some v \<Rightarrow> do {
         assertC (cbuf_is_valid cb);
         if name = CBUF_OPT_OVERWRITE then Some (0, Some (overwrite_value (c_overwrite cb))) else Some (-1, Some v)
       })"

definition cbuf_opt_set :: "cbuf \<Rightarrow> int \<Rightarrow> int \<Rightarrow> (int \<times> cbuf) option" where
  "cbuf_opt_set cb name value = do {
     assertC (cbuf_is_valid cb);
     let (rc, cb) = (if name = CBUF_OPT_OVERWRITE then
         if value = overwrite_value CBUF_NO_DROP then (0, cb\<lparr>c_overwrite := CBUF_NO_DROP\<rparr>)
         else if value = overwrite_value CBUF_WRAP_ONCE then (0, cb\<lparr>c_overwrite := CBUF_WRAP_ONCE\<rparr>)
         else if value = overwrite_value CBUF_WRAP_MANY then (0, cb\<lparr>c_overwrite := CBUF_WRAP_MANY\<rparr>)
         else (-1, cb)
       else (-1, cb));
     assertC (cbuf_is_valid cb);
     Some (rc, cb)
   }"


section \<open>Access to the data array\<close>

definition data_at :: "cbuf \<Rightarrow> int \<Rightarrow> byte option" where
  "data_at cb i = (if 0 \<le> i \<and> nat i < length (c_data cb) then Some (c_data cb ! nat i) else None)"

definition data_block :: "cbuf \<Rightarrow> int \<Rightarrow> int \<Rightarrow> byte list option" where
  "data_block cb i n = (if 0 \<le> i \<and> 0 \<le> n \<and> nat i + nat n \<le> length (c_data cb)
     then Some (take (nat n) (drop (nat i) (c_data cb))) else None)"

definition store_block :: "int \<Rightarrow> byte list \<Rightarrow> byte list \<Rightarrow> byte list option" where
  "store_block i bs ds = (if 0 \<le> i \<and> nat i + length bs \<le> length ds then Some (memcpy_at (nat i) bs ds) else None)"


section \<open>Input and output functions\<close>

text \<open>
  A \<^verbatim>\<open>putf\<close> takes a block and the state of its destination and returns how much it took.  For
  memory the state is the array and the offset of the moving pointer; for a file descriptor it is the
  world \<open>w\<close> on which \<^verbatim>\<open>write\<close> acts, whose second result says whether \<^verbatim>\<open>errno\<close> is \<^verbatim>\<open>EINTR\<close>.
\<close>

type_synonym 's putf = "byte list \<Rightarrow> 's \<Rightarrow> (int \<times> 's) option"

definition cbuf_put_mem :: "(byte list \<times> nat) putf" where
  "cbuf_put_mem bs d = (case d of (mem, off) \<Rightarrow>
     if off + length bs \<le> length mem then Some (int (length bs), memcpy_at off bs mem, off + length bs) else None)"

partial_function (option) cbuf_put_fd :: "(byte list \<Rightarrow> 'w \<Rightarrow> int \<times> bool \<times> 'w) \<Rightarrow> byte list \<Rightarrow> 'w \<Rightarrow> (int \<times> 'w) option" where
  "cbuf_put_fd write bs w = (case write bs w of (n, eintr, w) \<Rightarrow>
     if n < 0 \<and> eintr then cbuf_put_fd write bs w else Some (n, w))"

text \<open>A \<^verbatim>\<open>getf\<close> is asked for a number of bytes and returns how many it got, and which.\<close>

type_synonym 's getf = "nat \<Rightarrow> 's \<Rightarrow> (int \<times> byte list \<times> 's) option"

definition cbuf_get_mem :: "byte list getf" where
  "cbuf_get_mem n src = (if n \<le> length src then Some (int n, take n src, drop n src) else None)"

partial_function (option) cbuf_get_fd ::
    "(nat \<Rightarrow> 'w \<Rightarrow> int \<times> bool \<times> byte list \<times> 'w) \<Rightarrow> nat \<Rightarrow> 'w \<Rightarrow> (int \<times> byte list \<times> 'w) option" where
  "cbuf_get_fd read k w = (case read k w of (n, eintr, bs, w) \<Rightarrow>
     if n < 0 \<and> eintr then cbuf_get_fd read k w else Some (n, bs, w))"


section \<open>Growing and shrinking\<close>

definition cbuf_grow :: "memory \<Rightarrow> cbuf \<Rightarrow> int \<Rightarrow> (int \<times> cbuf) option" where
  "cbuf_grow mem cb n = do {
     assertC (n > 0);
     if c_size cb = c_maxsize cb then Some (0, cb)
     else do {
       let size_old = c_size cb;
       let size_meta = c_alloc cb - c_size cb;
       assertC (size_meta > 0);
       let m = c_alloc cb + n;
       assertC (in_int m);
       let m = m + (CBUF_CHUNK - m mod CBUF_CHUNK);
       assertC (in_int m \<and> in_int (c_maxsize cb + size_meta));
       let m = min m (c_maxsize cb + size_meta);
       assertC (m > c_alloc cb);
       case mem m of None \<Rightarrow> Some (0, cb)
       | Some junk \<Rightarrow> do {
           let size_new = m - size_meta;
           let cb = cb\<lparr>c_alloc := m, c_size := size_new,
             c_data := c_data cb @ map junk [length (c_data cb)..<nat (size_new + 1)]\<rparr>;
           cb \<leftarrow> (if c_i_rep cb > c_i_in cb then do {
               let n = size_old + 1 - c_i_rep cb;
               let m = c_size cb + 1 - n;
               bs \<leftarrow> data_block cb (c_i_rep cb) n;
               ds \<leftarrow> store_block m bs (c_data cb);
               Some (cb\<lparr>c_data := ds,
                 c_i_out := (if c_i_out cb \<ge> c_i_rep cb then c_i_out cb + (m - c_i_rep cb) else c_i_out cb),
                 c_i_rep := m\<rparr>)
             } else Some cb);
           assertC (cbuf_is_valid cb);
           Some (c_size cb - size_old, cb)
         }
     }
   }"

text \<open>\<^verbatim>\<open>cbuf_shrink\<close> is not implemented in the code: it checks and returns 0.\<close>

definition cbuf_shrink :: "cbuf \<Rightarrow> int option" where
  "cbuf_shrink cb = do {
     assertC (cbuf_is_valid cb);
     if c_size cb = c_minsize cb then Some 0
     else if c_size cb - c_used cb \<le> CBUF_CHUNK then Some 0
     else do { assertC (cbuf_is_valid cb); Some 0 }
   }"


section \<open>The data movers\<close>

definition cbuf_dropper :: "cbuf \<Rightarrow> int \<Rightarrow> (int \<times> cbuf) option" where
  "cbuf_dropper cb len = do {
     assertC (len > 0);
     assertC (len \<le> c_used cb);
     let cb = cb\<lparr>c_used := c_used cb - len, c_i_out := (c_i_out cb + len) mod (c_size cb + 1)\<rparr>;
     (if c_size cb - c_used cb > CBUF_CHUNK \<and> c_size cb > c_minsize cb
      then do { r \<leftarrow> cbuf_shrink cb; Some () } else Some ());
     Some (len, cb)
   }"

text \<open>The copying loop of \<^verbatim>\<open>cbuf_reader\<close> and \<^verbatim>\<open>cbuf_replayer\<close>: the bytes left, the last count, the destination.\<close>

partial_function (option) put_loop :: "'s putf \<Rightarrow> cbuf \<Rightarrow> int \<Rightarrow> int \<Rightarrow> int \<Rightarrow> 's \<Rightarrow> (int \<times> int \<times> 's) option" where
  "put_loop putf cb nleft i m dst =
     (if nleft > 0 then do {
        bs \<leftarrow> data_block cb i (min nleft (c_size cb + 1 - i));
        r \<leftarrow> putf bs dst;
        if min nleft (c_size cb + 1 - i) \<noteq> fst r
        then Some (if fst r > 0 then nleft - fst r else nleft, fst r, snd r)
        else put_loop putf cb (if fst r > 0 then nleft - fst r else nleft)
          (if fst r > 0 then (i + fst r) mod (c_size cb + 1) else i) (fst r) (snd r)
      } else Some (nleft, m, dst))"

definition cbuf_reader :: "cbuf \<Rightarrow> int \<Rightarrow> 's putf \<Rightarrow> 's \<Rightarrow> (int \<times> 's) option" where
  "cbuf_reader src len putf dst = do {
     assertC (len > 0);
     let len = min len (c_used src);
     if len = 0 then Some (0, dst)
     else do {
       (nleft, m, dst) \<leftarrow> put_loop putf src len (c_i_out src) 0 dst;
       let n = len - nleft;
       assertC (n \<ge> 0 \<and> n \<le> len);
       if n = 0 then Some (m, dst) else Some (n, dst)
     }
   }"

definition cbuf_replayer :: "cbuf \<Rightarrow> int \<Rightarrow> 's putf \<Rightarrow> 's \<Rightarrow> (int \<times> 's) option" where
  "cbuf_replayer src len putf dst = do {
     assertC (len > 0);
     let n = (c_i_out src - c_i_rep src + (c_size src + 1)) mod (c_size src + 1);
     let len = min len n;
     if len = 0 then Some (0, dst)
     else do {
       (nleft, m, dst) \<leftarrow> put_loop putf src len ((c_i_out src - len + (c_size src + 1)) mod (c_size src + 1)) 0 dst;
       let n = len - nleft;
       assertC (n \<ge> 0 \<and> n \<le> len);
       if n = 0 then Some (m, dst) else Some (n, dst)
     }
   }"

partial_function (option) get_loop ::
    "'s getf \<Rightarrow> cbuf \<Rightarrow> int \<Rightarrow> int \<Rightarrow> int \<Rightarrow> byte list \<Rightarrow> 's \<Rightarrow> (int \<times> int \<times> int \<times> byte list \<times> 's) option" where
  "get_loop getf cb nleft i m ds src =
     (if nleft > 0 then do {
        r \<leftarrow> getf (nat (min nleft (c_size cb + 1 - i))) src;
        ds \<leftarrow> store_block i (fst (snd r)) ds;
        if min nleft (c_size cb + 1 - i) \<noteq> fst r
        then Some (if fst r > 0 then nleft - fst r else nleft,
          if fst r > 0 then (i + fst r) mod (c_size cb + 1) else i, fst r, ds, snd (snd r))
        else get_loop getf cb (if fst r > 0 then nleft - fst r else nleft)
          (if fst r > 0 then (i + fst r) mod (c_size cb + 1) else i) (fst r) ds (snd (snd r))
      } else Some (nleft, i, m, ds, src))"

text \<open>The metadata after \<open>n\<close> bytes were written, with \<open>nfree\<close> bytes free before.\<close>

definition cbuf_advance :: "cbuf \<Rightarrow> int \<Rightarrow> int \<Rightarrow> int \<Rightarrow> cbuf option" where
  "cbuf_advance dst n nfree i_dst = do {
     let nrepl = (c_i_out dst - c_i_rep dst + (c_size dst + 1)) mod (c_size dst + 1);
     assertC (in_int (c_used dst + n) \<and> in_int (c_i_in dst + n));
     let dst = dst\<lparr>c_used := min (c_used dst + n) (c_size dst)\<rparr>;
     assertC (i_dst = (c_i_in dst + n) mod (c_size dst + 1));
     let dst = dst\<lparr>c_i_in := i_dst\<rparr>;
     let dst = (if n > nfree - nrepl
       then dst\<lparr>c_got_wrap := True, c_i_rep := (c_i_in dst + 1) mod (c_size dst + 1)\<rparr> else dst);
     Some (if n > nfree then dst\<lparr>c_i_out := c_i_rep dst\<rparr> else dst)
   }"

text \<open>Room is made first: the buffer grows if the data does not fit.  The result is the number of free bytes.\<close>

definition make_room :: "memory \<Rightarrow> cbuf \<Rightarrow> int \<Rightarrow> (int \<times> cbuf) option" where
  "make_room mem dst len = do {
     let nfree = c_size dst - c_used dst;
     if len > nfree \<and> c_size dst < c_maxsize dst
     then do { (g, dst) \<leftarrow> cbuf_grow mem dst (len - nfree); Some (nfree + g, dst) }
     else Some (nfree, dst)
   }"

text \<open>\<open>nd\<close> is \<^verbatim>\<open>ndropped\<close>: \<^const>\<open>None\<close> for NULL, else the content of \<^verbatim>\<open>*ndropped\<close>.\<close>

definition cbuf_writer ::
    "memory \<Rightarrow> cbuf \<Rightarrow> int \<Rightarrow> 's getf \<Rightarrow> 's \<Rightarrow> int option \<Rightarrow> (int \<times> 's \<times> int option \<times> cbuf) option" where
  "cbuf_writer mem dst len getf src nd = do {
     assertC (len > 0);
     (nfree, dst) \<leftarrow> make_room mem dst len;
     let len = (if c_overwrite dst = CBUF_NO_DROP then min len (c_size dst - c_used dst)
       else if c_overwrite dst = CBUF_WRAP_ONCE then min len (c_size dst) else len);
     if c_overwrite dst = CBUF_NO_DROP \<and> len = 0 then Some (-1, src, nd, dst)
     else do {
       (nleft, i_dst, m, ds, src) \<leftarrow> get_loop getf dst len (c_i_in dst) 0 (c_data dst) src;
       let dst = dst\<lparr>c_data := ds\<rparr>;
       let n = len - nleft;
       assertC (n \<ge> 0 \<and> n \<le> len);
       if n = 0 then Some (m, src, nd, dst)
       else do {
         dst \<leftarrow> (if n > 0 then cbuf_advance dst n nfree i_dst else Some dst);
         Some (n, src, map_option (\<lambda>_. max 0 (n - nfree)) nd, dst)
       }
     }
   }"

partial_function (option) copy_loop ::
    "cbuf \<Rightarrow> cbuf \<Rightarrow> int \<Rightarrow> int \<Rightarrow> int \<Rightarrow> byte list \<Rightarrow> (int \<times> byte list) option" where
  "copy_loop src dst nleft i_src i_dst ds =
     (if nleft > 0 then do {
        let n = min (min (c_size src + 1 - i_src) (c_size dst + 1 - i_dst)) nleft;
        bs \<leftarrow> data_block src i_src n;
        ds \<leftarrow> store_block i_dst bs ds;
        copy_loop src dst (nleft - n) ((i_src + n) mod (c_size src + 1)) ((i_dst + n) mod (c_size dst + 1)) ds
      } else Some (i_dst, ds))"

definition cbuf_copier :: "memory \<Rightarrow> cbuf \<Rightarrow> cbuf \<Rightarrow> int \<Rightarrow> int option \<Rightarrow> (int \<times> int option \<times> cbuf) option" where
  "cbuf_copier mem src dst len nd = do {
     assertC (len > 0);
     let len = min len (c_used src);
     if len = 0 then Some (0, nd, dst)
     else do {
       (nfree, dst) \<leftarrow> make_room mem dst len;
       let len = (if c_overwrite dst = CBUF_NO_DROP then min len (c_size dst - c_used dst)
         else if c_overwrite dst = CBUF_WRAP_ONCE then min len (c_size dst) else len);
       if c_overwrite dst = CBUF_NO_DROP \<and> len = 0 then Some (-1, nd, dst)
       else do {
         let nd = map_option (\<lambda>_. max 0 (len - c_size dst + c_used dst)) nd;
         let (ncopy, i_src) = (if len > c_size dst
           then (len - (len - c_size dst), (c_i_out src + (len - c_size dst)) mod (c_size src + 1))
           else (len, c_i_out src));
         (i_dst, ds) \<leftarrow> copy_loop src dst ncopy i_src (c_i_in dst) (c_data dst);
         let dst = dst\<lparr>c_data := ds\<rparr>;
         dst \<leftarrow> (if ncopy > 0 then cbuf_advance dst ncopy nfree i_dst else Some dst);
         Some (len, nd, dst)
       }
     }
   }"

end
