(* ===== verification/Cbuf_Calls.thy ===== *)
theory Cbuf_Calls
  imports Cbuf
begin

text \<open>
  The calls of \<^verbatim>\<open>cbuf.h\<close> that move data: by bytes, by lines, through file descriptors, and between
  two buffers.  A \<^const>\<open>None\<close> pointer is NULL; a result of -1 is the error return.
\<close>


section \<open>Bytes\<close>

definition cbuf_drop :: "cbuf \<Rightarrow> int \<Rightarrow> (int \<times> cbuf) option" where
  "cbuf_drop src len =
     (if len < -1 then Some (-1, src)
      else if len = 0 then Some (0, src)
      else do {
        assertC (cbuf_is_valid src);
        let len = (if len = -1 then c_used src else min len (c_used src));
        src \<leftarrow> (if len > 0 then map_option snd (cbuf_dropper src len) else Some src);
        assertC (cbuf_is_valid src);
        Some (len, src)
      })"

text \<open>The destination is the array behind \<^verbatim>\<open>dstbuf\<close>.\<close>

definition cbuf_peek :: "cbuf \<Rightarrow> byte list option \<Rightarrow> int \<Rightarrow> (int \<times> byte list option) option" where
  "cbuf_peek src dstbuf len = (case dstbuf of None \<Rightarrow> Some (-1, None)
     | Some mem \<Rightarrow>
       if len < 0 then Some (-1, dstbuf)
       else if len = 0 then Some (0, dstbuf)
       else do {
         assertC (cbuf_is_valid src);
         (n, mem, off) \<leftarrow> cbuf_reader src len cbuf_put_mem (mem, 0);
         assertC (cbuf_is_valid src);
         Some (n, Some mem)
       })"

definition cbuf_read :: "cbuf \<Rightarrow> byte list option \<Rightarrow> int \<Rightarrow> (int \<times> byte list option \<times> cbuf) option" where
  "cbuf_read src dstbuf len = (case dstbuf of None \<Rightarrow> Some (-1, None, src)
     | Some mem \<Rightarrow>
       if len < 0 then Some (-1, dstbuf, src)
       else if len = 0 then Some (0, dstbuf, src)
       else do {
         assertC (cbuf_is_valid src);
         (n, mem, off) \<leftarrow> cbuf_reader src len cbuf_put_mem (mem, 0);
         src \<leftarrow> (if n > 0 then map_option snd (cbuf_dropper src n) else Some src);
         assertC (cbuf_is_valid src);
         Some (n, Some mem, src)
       })"

definition cbuf_replay :: "cbuf \<Rightarrow> byte list option \<Rightarrow> int \<Rightarrow> (int \<times> byte list option) option" where
  "cbuf_replay src dstbuf len = (case dstbuf of None \<Rightarrow> Some (-1, None)
     | Some mem \<Rightarrow>
       if len < 0 then Some (-1, dstbuf)
       else if len = 0 then Some (0, dstbuf)
       else do {
         assertC (cbuf_is_valid src);
         (n, mem, off) \<leftarrow> cbuf_replayer src len cbuf_put_mem (mem, 0);
         assertC (cbuf_is_valid src);
         Some (n, Some mem)
       })"

definition cbuf_rewind :: "cbuf \<Rightarrow> int \<Rightarrow> (int \<times> cbuf) option" where
  "cbuf_rewind src len =
     (if len < -1 then Some (-1, src)
      else if len = 0 then Some (0, src)
      else do {
        assertC (cbuf_is_valid src);
        let reused = (c_i_out src - c_i_rep src + (c_size src + 1)) mod (c_size src + 1);
        let len = (if len = -1 then reused else min len reused);
        let src = (if len > 0
          then src\<lparr>c_used := c_used src + len,
            c_i_out := (c_i_out src - len + (c_size src + 1)) mod (c_size src + 1)\<rparr>
          else src);
        assertC (cbuf_is_valid src);
        Some (len, src)
      })"

definition cbuf_write ::
    "memory \<Rightarrow> cbuf \<Rightarrow> byte list option \<Rightarrow> int \<Rightarrow> int option \<Rightarrow> (int \<times> int option \<times> cbuf) option" where
  "cbuf_write mem dst srcbuf len nd =
     (let nd = map_option (\<lambda>_. 0) nd in case srcbuf of None \<Rightarrow> Some (-1, nd, dst)
      | Some src \<Rightarrow>
        if len < 0 then Some (-1, nd, dst)
        else if len = 0 then Some (0, nd, dst)
        else do {
          assertC (cbuf_is_valid dst);
          (n, src, nd, dst) \<leftarrow> cbuf_writer mem dst len cbuf_get_mem src nd;
          assertC (cbuf_is_valid dst);
          Some (n, nd, dst)
        })"


section \<open>Finding lines\<close>

text \<open>One loop state: the index, the bytes seen, the length and number of the lines found, what is left to find.\<close>

partial_function (option) unread_loop ::
    "cbuf \<Rightarrow> int \<Rightarrow> int \<Rightarrow> int \<Rightarrow> int \<Rightarrow> int \<Rightarrow> int \<Rightarrow> (int \<times> int \<times> int) option" where
  "unread_loop cb i n m l chars lines =
     (if i \<noteq> c_i_in cb then do {
        d \<leftarrow> data_at cb i;
        if (if chars > 0 then chars - 1 else chars) = 0 \<or> (if d = newline \<and> lines > 0 then lines - 1 else lines) = 0
        then Some (if d = newline then n + 1 else m, if d = newline then l + 1 else l,
          if d = newline \<and> lines > 0 then lines - 1 else lines)
        else unread_loop cb ((i + 1) mod (c_size cb + 1)) (n + 1) (if d = newline then n + 1 else m)
          (if d = newline then l + 1 else l) (if chars > 0 then chars - 1 else chars)
          (if d = newline \<and> lines > 0 then lines - 1 else lines)
      } else Some (m, l, lines))"

definition cbuf_find_unread_line :: "cbuf \<Rightarrow> int \<Rightarrow> int \<Rightarrow> (int \<times> int) option" where
  "cbuf_find_unread_line cb chars nlines = do {
     assertC (nlines \<ge> -1);
     let lines = nlines;
     if lines = 0 \<or> (lines \<le> -1 \<and> chars \<le> 0) then Some (0, 0)
     else if c_used cb = 0 then Some (0, 0)
     else do {
       let chars = (if lines > 0 then -1 else chars);
       (m, l, lines) \<leftarrow> unread_loop cb (c_i_out cb) 0 0 0 chars lines;
       if lines > 0 then Some (0, 0) else Some (m, l)
     }
   }"

partial_function (option) replay_loop ::
    "cbuf \<Rightarrow> int \<Rightarrow> int \<Rightarrow> int \<Rightarrow> int \<Rightarrow> int \<Rightarrow> int \<Rightarrow> (int \<times> int \<times> int \<times> int \<times> int) option" where
  "replay_loop cb i n m l chars lines =
     (if i \<noteq> c_i_rep cb then do {
        d \<leftarrow> data_at cb ((i + c_size cb) mod (c_size cb + 1));
        if (if chars > 0 then chars - 1 else chars) = 0 \<or> (if d = newline \<and> lines > 0 then lines - 1 else lines) = 0
        then Some (n + 1, if d = newline then n else m, if d = newline then l + 1 else l,
          if chars > 0 then chars - 1 else chars, if d = newline \<and> lines > 0 then lines - 1 else lines)
        else replay_loop cb ((i + c_size cb) mod (c_size cb + 1)) (n + 1) (if d = newline then n else m)
          (if d = newline then l + 1 else l) (if chars > 0 then chars - 1 else chars)
          (if d = newline \<and> lines > 0 then lines - 1 else lines)
      } else Some (n, m, l, chars, lines))"

text \<open>The results are the number of bytes, the number of lines, and whether a newline is to be added.\<close>

definition cbuf_find_replay_line :: "cbuf \<Rightarrow> int \<Rightarrow> int \<Rightarrow> (int \<times> int \<times> int) option" where
  "cbuf_find_replay_line cb chars nlines = do {
     assertC (nlines \<ge> -1);
     let lines = nlines;
     if lines = 0 \<or> (lines \<le> -1 \<and> chars \<le> 0) then Some (0, 0, 0)
     else if c_i_out cb = c_i_rep cb then Some (0, 0, 0)
     else do {
       assertC (in_int (if lines > 0 then lines + 1 else chars + 1));
       let chars = (if lines > 0 then -1 else chars + 1);
       d \<leftarrow> data_at cb ((c_i_out cb + c_size cb) mod (c_size cb + 1));
       let (nl, chars, lines, l) = (if d \<noteq> newline then (1, chars - 1, lines, 0)
         else (0, chars, if lines > 0 then lines + 1 else lines, -1));
       (n, m, l, chars, lines) \<leftarrow> replay_loop cb (c_i_out cb) 0 0 l chars lines;
       let (m, l, lines) = (if \<not> c_got_wrap cb \<and> (chars > 0 \<or> lines > 0)
         then (n, l + 1, if lines > 0 then lines - 1 else lines) else (m, l, lines));
       if lines > 0 then Some (0, 0, nl) else Some (m, l, nl)
     }
   }"

definition cbuf_lines_used :: "cbuf \<Rightarrow> int option" where
  "cbuf_lines_used cb = do {
     assertC (cbuf_is_valid cb);
     (n, lines) \<leftarrow> cbuf_find_unread_line cb (c_size cb) (-1);
     Some lines
   }"

definition cbuf_lines_reused :: "cbuf \<Rightarrow> int option" where
  "cbuf_lines_reused cb = do {
     assertC (cbuf_is_valid cb);
     (n, lines, nl) \<leftarrow> cbuf_find_replay_line cb (c_size cb) (-1);
     Some lines
   }"


section \<open>Lines\<close>

definition cbuf_drop_line :: "cbuf \<Rightarrow> int \<Rightarrow> int \<Rightarrow> (int \<times> cbuf) option" where
  "cbuf_drop_line src len lines =
     (if len < 0 \<or> lines < -1 then Some (-1, src)
      else if lines = 0 then Some (0, src)
      else do {
        assertC (cbuf_is_valid src);
        (n, lines) \<leftarrow> cbuf_find_unread_line src len lines;
        src \<leftarrow> (if n > 0 then map_option snd (cbuf_dropper src n) else Some src);
        assertC (cbuf_is_valid src);
        Some (n, src)
      })"

text \<open>The copy of \<open>n\<close> bytes to the array at \<^verbatim>\<open>dstbuf\<close>, cut to \<open>len - 1\<close> bytes and terminated.\<close>

definition copy_line :: "cbuf \<Rightarrow> int \<Rightarrow> int \<Rightarrow> byte list \<Rightarrow> byte list option" where
  "copy_line src n len mem =
     (if len > 0 then do {
        let m = min n (len - 1);
        mem \<leftarrow> (if m > 0 then do {
            (l, mem, off) \<leftarrow> cbuf_reader src m cbuf_put_mem (mem, 0);
            assertC (l = m);
            Some mem
          } else Some mem);
        assertC (m < len);
        store_block m [0] mem
      } else Some mem)"

definition cbuf_peek_line :: "cbuf \<Rightarrow> byte list option \<Rightarrow> int \<Rightarrow> int \<Rightarrow> (int \<times> byte list option) option" where
  "cbuf_peek_line src dstbuf len lines = (case dstbuf of None \<Rightarrow> Some (-1, None)
     | Some mem \<Rightarrow>
       if len < 0 \<or> lines < -1 then Some (-1, dstbuf)
       else if lines = 0 then Some (0, dstbuf)
       else do {
         assertC (cbuf_is_valid src);
         (n, lines) \<leftarrow> cbuf_find_unread_line src (len - 1) lines;
         mem \<leftarrow> (if n > 0 then copy_line src n len mem else Some mem);
         assertC (cbuf_is_valid src);
         Some (n, Some mem)
       })"

definition cbuf_read_line :: "cbuf \<Rightarrow> byte list option \<Rightarrow> int \<Rightarrow> int \<Rightarrow> (int \<times> byte list option \<times> cbuf) option" where
  "cbuf_read_line src dstbuf len lines = (case dstbuf of None \<Rightarrow> Some (-1, None, src)
     | Some mem \<Rightarrow>
       if len < 0 \<or> lines < -1 then Some (-1, dstbuf, src)
       else if lines = 0 then Some (0, dstbuf, src)
       else do {
         assertC (cbuf_is_valid src);
         (n, lines) \<leftarrow> cbuf_find_unread_line src (len - 1) lines;
         mem \<leftarrow> (if n > 0 then copy_line src n len mem else Some mem);
         src \<leftarrow> (if n > 0 then map_option snd (cbuf_dropper src n) else Some src);
         assertC (cbuf_is_valid src);
         Some (n, Some mem, src)
       })"

text \<open>The copy of replayed bytes, with a newline behind them if one is needed and fits, and a terminator.\<close>

definition copy_replay :: "cbuf \<Rightarrow> int \<Rightarrow> int \<Rightarrow> int \<Rightarrow> byte list \<Rightarrow> byte list option" where
  "copy_replay src n nl len mem = do {
     assertC (nl = 0 \<or> nl = 1);
     let m = max (min n (len - 1 - nl)) 0;
     mem \<leftarrow> (if m > 0 then do {
         (l, mem, off) \<leftarrow> cbuf_replayer src m cbuf_put_mem (mem, 0);
         assertC (l = m);
         Some mem
       } else Some mem);
     (m, mem) \<leftarrow> (if nl \<noteq> 0 \<and> len > 1 then do { mem \<leftarrow> store_block m [newline] mem; Some (m + 1, mem) }
       else Some (m, mem));
     assertC (m < len);
     store_block m [0] mem
   }"

definition cbuf_replay_line :: "cbuf \<Rightarrow> byte list option \<Rightarrow> int \<Rightarrow> int \<Rightarrow> (int \<times> byte list option) option" where
  "cbuf_replay_line src dstbuf len lines = (case dstbuf of None \<Rightarrow> Some (-1, None)
     | Some mem \<Rightarrow>
       if len < 0 \<or> lines < -1 then Some (-1, dstbuf)
       else if lines = 0 then Some (0, dstbuf)
       else do {
         assertC (cbuf_is_valid src);
         (n, lines, nl) \<leftarrow> cbuf_find_replay_line src (len - 1) lines;
         (n, mem) \<leftarrow> (if n > 0 \<and> len > 0 then do { mem \<leftarrow> copy_replay src n nl len mem; Some (n + nl, mem) }
           else Some (n, mem));
         assertC (cbuf_is_valid src);
         Some (n, Some mem)
       })"

definition cbuf_rewind_line :: "cbuf \<Rightarrow> int \<Rightarrow> int \<Rightarrow> (int \<times> cbuf) option" where
  "cbuf_rewind_line src len lines =
     (if len < 0 \<or> lines < -1 then Some (-1, src)
      else if lines = 0 then Some (0, src)
      else do {
        assertC (cbuf_is_valid src);
        (n, lines, nl) \<leftarrow> cbuf_find_replay_line src len lines;
        let src = (if n > 0
          then src\<lparr>c_used := c_used src + n, c_i_out := (c_i_out src - n + (c_size src + 1)) mod (c_size src + 1)\<rparr>
          else src);
        assertC (cbuf_is_valid src);
        Some (n, src)
      })"

text \<open>\<^verbatim>\<open>srcbuf\<close> points to an array with a terminated string.\<close>

definition cbuf_write_line :: "memory \<Rightarrow> cbuf \<Rightarrow> byte list option \<Rightarrow> int option \<Rightarrow> (int \<times> int option \<times> cbuf) option" where
  "cbuf_write_line mem dst srcbuf nd =
     (let nd = map_option (\<lambda>_. 0) nd in case srcbuf of None \<Rightarrow> Some (-1, nd, dst)
      | Some src \<Rightarrow> do {
          sl \<leftarrow> strlen src;
          assertC (in_int (int sl + 1));
          let ncopy = int sl;
          let len = (if sl = 0 \<or> src ! (sl - 1) \<noteq> newline then int sl + 1 else int sl);
          assertC (cbuf_is_valid dst);
          (nfree, dst) \<leftarrow> make_room mem dst len;
          let len = (if c_overwrite dst = CBUF_NO_DROP then if len > c_size dst - c_used dst then -1 else len
            else if c_overwrite dst = CBUF_WRAP_ONCE then if len > c_size dst then -1 else len else len);
          (ndrop, dst) \<leftarrow> (if len > 0 then do {
              let ndrop = (if len > c_size dst then len - c_size dst else 0);
              let ncopy = ncopy - ndrop;
              let psrc = drop (nat ndrop) src;
              (ndrop, dst) \<leftarrow> (if ncopy > 0 then do {
                  (n, psrc, d, dst) \<leftarrow> cbuf_writer mem dst ncopy cbuf_get_mem psrc (Some 0);
                  assertC (n = ncopy);
                  Some (ndrop + the d, dst)
                } else Some (ndrop, dst));
              if src ! nat (len - 1) \<noteq> newline then do {
                (n, psrc, d, dst) \<leftarrow> cbuf_writer mem dst 1 cbuf_get_mem [newline] (Some 0);
                assertC (n = 1);
                Some (ndrop + the d, dst)
              } else Some (ndrop, dst)
            } else Some (0, dst));
          assertC (cbuf_is_valid dst);
          Some (len, map_option (\<lambda>_. ndrop) nd, dst)
        })"


section \<open>File descriptors\<close>

text \<open>\<open>fd\<close> is the number of the descriptor; \<open>write\<close> and \<open>read\<close> act on the world it belongs to.\<close>

definition cbuf_peek_to_fd ::
    "(byte list \<Rightarrow> 'w \<Rightarrow> int \<times> bool \<times> 'w) \<Rightarrow> cbuf \<Rightarrow> int \<Rightarrow> int \<Rightarrow> 'w \<Rightarrow> (int \<times> 'w) option" where
  "cbuf_peek_to_fd write src fd len w =
     (if fd < 0 \<or> len < -1 then Some (-1, w)
      else do {
        assertC (cbuf_is_valid src);
        let len = (if len = -1 then c_used src else len);
        (n, w) \<leftarrow> (if len > 0 then cbuf_reader src len (cbuf_put_fd write) w else Some (0, w));
        assertC (cbuf_is_valid src);
        Some (n, w)
      })"

definition cbuf_read_to_fd ::
    "(byte list \<Rightarrow> 'w \<Rightarrow> int \<times> bool \<times> 'w) \<Rightarrow> cbuf \<Rightarrow> int \<Rightarrow> int \<Rightarrow> 'w \<Rightarrow> (int \<times> 'w \<times> cbuf) option" where
  "cbuf_read_to_fd write src fd len w =
     (if fd < 0 \<or> len < -1 then Some (-1, w, src)
      else do {
        assertC (cbuf_is_valid src);
        let len = (if len = -1 then c_used src else len);
        (n, w, src) \<leftarrow> (if len > 0 then do {
            (n, w) \<leftarrow> cbuf_reader src len (cbuf_put_fd write) w;
            src \<leftarrow> (if n > 0 then map_option snd (cbuf_dropper src n) else Some src);
            Some (n, w, src)
          } else Some (0, w, src));
        assertC (cbuf_is_valid src);
        Some (n, w, src)
      })"

definition cbuf_replay_to_fd ::
    "(byte list \<Rightarrow> 'w \<Rightarrow> int \<times> bool \<times> 'w) \<Rightarrow> cbuf \<Rightarrow> int \<Rightarrow> int \<Rightarrow> 'w \<Rightarrow> (int \<times> 'w) option" where
  "cbuf_replay_to_fd write src fd len w =
     (if fd < 0 \<or> len < -1 then Some (-1, w)
      else do {
        assertC (cbuf_is_valid src);
        let len = (if len = -1 then c_size src - c_used src else len);
        (n, w) \<leftarrow> (if len > 0 then cbuf_replayer src len (cbuf_put_fd write) w else Some (0, w));
        assertC (cbuf_is_valid src);
        Some (n, w)
      })"

definition cbuf_write_from_fd ::
    "memory \<Rightarrow> (nat \<Rightarrow> 'w \<Rightarrow> int \<times> bool \<times> byte list \<times> 'w) \<Rightarrow> cbuf \<Rightarrow> int \<Rightarrow> int \<Rightarrow> int option \<Rightarrow> 'w \<Rightarrow>
     (int \<times> int option \<times> 'w \<times> cbuf) option" where
  "cbuf_write_from_fd mem read dst fd len nd w =
     (let nd = map_option (\<lambda>_. 0) nd in
      if fd < 0 \<or> len < -1 then Some (-1, nd, w, dst)
      else do {
        assertC (cbuf_is_valid dst);
        let len = (if len = -1 then if c_size dst - c_used dst = 0 then CBUF_CHUNK else c_size dst - c_used dst else len);
        (n, w, nd, dst) \<leftarrow> (if len > 0 then cbuf_writer mem dst len (cbuf_get_fd read) w nd else Some (0, w, nd, dst));
        assertC (cbuf_is_valid dst);
        Some (n, nd, w, dst)
      })"


section \<open>Two buffers\<close>

text \<open>The buffers are different objects; \<open>same\<close> says whether the two arguments are the same pointer.\<close>

definition cbuf_copy ::
    "memory \<Rightarrow> bool \<Rightarrow> cbuf \<Rightarrow> cbuf \<Rightarrow> int \<Rightarrow> int option \<Rightarrow> (int \<times> int option \<times> cbuf) option" where
  "cbuf_copy mem same src dst len nd =
     (let nd = map_option (\<lambda>_. 0) nd in
      if same then Some (-1, nd, dst)
      else if len < -1 then Some (-1, nd, dst)
      else if len = 0 then Some (0, nd, dst)
      else do {
        assertC (cbuf_is_valid src);
        assertC (cbuf_is_valid dst);
        let len = (if len = -1 then c_used src else len);
        (n, nd, dst) \<leftarrow> (if len > 0 then cbuf_copier mem src dst len nd else Some (0, nd, dst));
        assertC (cbuf_is_valid src);
        assertC (cbuf_is_valid dst);
        Some (n, nd, dst)
      })"

definition cbuf_move ::
    "memory \<Rightarrow> bool \<Rightarrow> cbuf \<Rightarrow> cbuf \<Rightarrow> int \<Rightarrow> int option \<Rightarrow> (int \<times> int option \<times> cbuf \<times> cbuf) option" where
  "cbuf_move mem same src dst len nd =
     (let nd = map_option (\<lambda>_. 0) nd in
      if same then Some (-1, nd, src, dst)
      else if len < -1 then Some (-1, nd, src, dst)
      else if len = 0 then Some (0, nd, src, dst)
      else do {
        assertC (cbuf_is_valid src);
        assertC (cbuf_is_valid dst);
        let len = (if len = -1 then c_used src else len);
        (n, nd, src, dst) \<leftarrow> (if len > 0 then do {
            (n, nd, dst) \<leftarrow> cbuf_copier mem src dst len nd;
            src \<leftarrow> (if n > 0 then map_option snd (cbuf_dropper src n) else Some src);
            Some (n, nd, src, dst)
          } else Some (0, nd, src, dst));
        assertC (cbuf_is_valid src);
        assertC (cbuf_is_valid dst);
        Some (n, nd, src, dst)
      })"

end
