(* ===== verification/Cbuf_Laws.thy ===== *)
theory Cbuf_Laws
  imports Cbuf_Calls
begin

text \<open>
  What a circular buffer holds: its history, the bytes that end at \<^verbatim>\<open>i_in\<close>, of which the last \<^verbatim>\<open>used\<close> are
  unread and the rest can be replayed.  The data movers are characterised on these lists.
\<close>


section \<open>Views of a ring\<close>

text \<open>The \<open>k\<close> bytes that end before position \<open>p\<close>, positions taken modulo the length.\<close>

definition view :: "byte list \<Rightarrow> int \<Rightarrow> nat \<Rightarrow> byte list" where
  "view ds p k = map (\<lambda>i. ds ! nat ((p - int k + int i) mod int (length ds))) [0..<k]"

lemma length_view [simp]: "length (view ds p k) = k"
  by (simp add: view_def)

lemma view_0 [simp]: "view ds p 0 = []"
  by (simp add: view_def)

lemma view_Suc: "view ds (p + 1) (Suc k) = view ds p k @ [ds ! nat (p mod int (length ds))]"
  by (simp add: view_def)

lemma view_append: "view ds p (k + j) = view ds (p - int j) k @ view ds p j"
proof (rule nth_equalityI)
  fix i assume "i < length (view ds p (k + j))"
  then have i: "i < k + j" by simp
  show "view ds p (k + j) ! i = (view ds (p - int j) k @ view ds p j) ! i"
  proof (cases "i < k")
    case True
    have eq: "p - (int k + int j) + int i = p - int j - int k + int i" by simp
    show ?thesis using True i by (simp add: view_def nth_append eq)
  next
    case False
    have eq: "p - (int k + int j) + int i = p - int j + (int i - int k)" by simp
    have "i - k < j" using False i by simp
    then have "[0..<j] ! (i - k) = i - k" by simp
    then show ?thesis using False i by (simp add: view_def nth_append of_nat_diff eq)
  qed
qed simp

lemma view_mod: "view ds (p mod int (length ds)) k = view ds p k"
proof -
  have "(p mod N - int k + int i) mod N = (p - int k + int i) mod N" for i and N :: int
    by (metis add_diff_eq diff_add_eq mod_add_left_eq)
  then show ?thesis by (simp add: view_def)
qed

lemma view_cong_mod: "p mod int (length ds) = q mod int (length ds) \<Longrightarrow> view ds p k = view ds q k"
  by (metis view_mod)

lemma view_drop: "j \<le> k \<Longrightarrow> view ds p j = drop (k - j) (view ds p k)"
  using view_append [of ds p "k - j" j] by simp

lemma view_take: "view ds (p - int j) k = take k (view ds p (k + j))"
  by (simp add: view_append)

lemma view_nowrap:
  assumes "int k \<le> p" and "p \<le> int (length ds)"
  shows "view ds p k = take k (drop (nat p - k) ds)"
proof (rule nth_equalityI)
  show "length (view ds p k) = length (take k (drop (nat p - k) ds))" using assms by simp
  fix i assume "i < length (view ds p k)"
  then have i: "i < k" by simp
  have "(p - int k + int i) mod int (length ds) = p - int k + int i" using assms i by simp
  moreover have "nat (p - int k + int i) = nat p - k + i" using assms i by simp
  ultimately show "view ds p k ! i = take k (drop (nat p - k) ds) ! i" using assms i by (simp add: view_def)
qed

lemma view_update:
  assumes "k < length ds"
  shows "view (ds[nat (p mod int (length ds)) := b]) p k = view ds p k"
proof (rule nth_equalityI)
  fix i assume "i < length (view (ds[nat (p mod int (length ds)) := b]) p k)"
  then have i: "i < k" by simp
  let ?N = "int (length ds)"
  have N: "0 < ?N" using assms by (cases ds) auto
  have "(p - int k + int i) mod ?N \<noteq> p mod ?N"
  proof
    assume "(p - int k + int i) mod ?N = p mod ?N"
    then have "?N dvd p - (p - int k + int i)" using mod_eq_dvd_iff by metis
    then have "?N dvd int k - int i" by simp
    then show False using i assms zdvd_not_zless [of "int k - int i" ?N] by simp
  qed
  then have "nat ((p - int k + int i) mod ?N) \<noteq> nat (p mod ?N)" using N by (simp add: nat_eq_iff2)
  then show "view (ds[nat (p mod ?N) := b]) p k ! i = view ds p k ! i" using i by (simp add: view_def)
qed simp

lemma view_write:
  assumes "k < length ds"
  shows "view (ds[nat (p mod int (length ds)) := b]) (p + 1) (Suc k) = view ds p k @ [b]"
proof -
  have "nat (p mod int (length ds)) < length ds" using assms by (cases ds) (auto simp: nat_less_iff)
  then show ?thesis using view_update [OF assms] by (simp add: view_Suc)
qed

text \<open>Writing several bytes, cell by cell.\<close>

fun put_cells :: "byte list \<Rightarrow> int \<Rightarrow> byte list \<Rightarrow> byte list" where
  "put_cells ds p [] = ds"
| "put_cells ds p (b # bs) = put_cells (ds[nat (p mod int (length ds)) := b]) (p + 1) bs"

lemma length_put_cells [simp]: "length (put_cells ds p bs) = length ds"
  by (induction ds p bs rule: put_cells.induct) simp_all

lemma put_cells_mod: "put_cells ds (p mod int (length ds)) bs = put_cells ds p bs"
proof (induction bs arbitrary: ds p)
  case (Cons b bs)
  have "put_cells es (p mod int (length es) + 1) bs = put_cells es (p + 1) bs" for es
    using Cons.IH [of es "p mod int (length es) + 1"] Cons.IH [of es "p + 1"] by (simp add: mod_add_left_eq)
  from this [of "ds[nat (p mod int (length ds)) := b]"] show ?case by simp
qed simp

lemma put_cells_append: "put_cells ds p (bs @ cs) = put_cells (put_cells ds p bs) (p + int (length bs)) cs"
  by (induction ds p bs rule: put_cells.induct) (simp_all add: algebra_simps)

lemma view_put_cells:
  "m \<le> length ds \<Longrightarrow> k \<le> length ds \<Longrightarrow> k \<le> m + length bs \<Longrightarrow>
    view (put_cells ds p bs) (p + int (length bs)) k = drop (m + length bs - k) (view ds p m @ bs)"
proof (induction bs arbitrary: ds p m)
  case Nil
  then show ?case by (simp add: view_drop)
next
  case (Cons b bs)
  let ?ds = "ds[nat (p mod int (length ds)) := b]"
  show ?case
  proof (cases "m < length ds")
    case True
    have "view (put_cells ?ds (p + 1) bs) (p + 1 + int (length bs)) k =
        drop (Suc m + length bs - k) (view ?ds (p + 1) (Suc m) @ bs)"
      using Cons.prems True by (intro Cons.IH) simp_all
    then show ?thesis using view_write [OF True, of p b] by (simp add: algebra_simps del: drop_append)
  next
    case False
    then have m: "m = length ds" using Cons.prems by simp
    show ?thesis
    proof (cases m)
      case 0
      then show ?thesis using Cons.prems m by simp
    next
      case (Suc j)
      have "view (put_cells ?ds (p + 1) bs) (p + 1 + int (length bs)) k =
          drop (m + length bs - k) (view ?ds (p + 1) m @ bs)"
      proof (cases "k \<le> m + length bs")
        case True
        then show ?thesis using Cons.prems m by (intro Cons.IH) simp_all
      next
        case False
        then show ?thesis using Cons.prems m by simp
      qed
      moreover have "view ?ds (p + 1) m = view ds p j @ [b]"
        using view_write [of j ds p b] m Suc by simp
      moreover have "view ds p j = tl (view ds p m)" using view_drop [of j m ds p] Suc by (simp add: drop_Suc)
      moreover have "drop (m + length (b # bs) - k) (view ds p m @ b # bs) =
          drop (m + length bs - k) (tl (view ds p m) @ b # bs)"
      proof -
        have "m + length (b # bs) - k = Suc (m + length bs - k)" using Cons.prems m by simp
        moreover have "tl (view ds p m @ b # bs) = tl (view ds p m) @ b # bs"
          using Suc by (metis length_view list.size(3) nat.distinct(1) tl_append2)
        ultimately show ?thesis by (simp add: drop_Suc del: drop_append)
      qed
      ultimately show ?thesis by (simp add: algebra_simps del: drop_append)
    qed
  qed
qed

lemma store_block_cells:
  assumes "0 \<le> i" and "nat i + length bs \<le> length ds"
  shows "store_block i bs ds = Some (put_cells ds i bs)"
proof -
  have "put_cells ds i bs = memcpy_at (nat i) bs ds"
    using assms
  proof (induction bs arbitrary: i ds)
    case (Cons b bs)
    have mod: "i mod int (length ds) = i" using Cons.prems by simp
    have "put_cells (ds[nat i := b]) (i + 1) bs = memcpy_at (nat (i + 1)) bs (ds[nat i := b])"
      using Cons.prems by (intro Cons.IH) simp_all
    also have "\<dots> = memcpy_at (nat i) (b # bs) ds"
      using Cons.prems by (simp add: memcpy_at_def nat_add_distrib take_Suc_conv_app_nth)
    finally show ?case by (simp add: mod)
  qed simp
  then show ?thesis using assms by (simp add: store_block_def)
qed

lemma data_block_view:
  assumes "0 \<le> i" and "0 \<le> n" and "i + n \<le> int (length (c_data cb))"
  shows "data_block cb i n = Some (view (c_data cb) (i + n) (nat n))"
proof -
  have "nat (i + n) - nat n = nat i" "nat i + nat n \<le> length (c_data cb)" using assms by simp_all
  then show ?thesis using assms view_nowrap [of "nat n" "i + n" "c_data cb"] by (simp add: data_block_def)
qed


section \<open>Validity in modular form\<close>

lemma diff_mod:
  fixes x y N :: int
  assumes "0 \<le> x" "x < N" "0 \<le> y" "y < N"
  shows "(x - y) mod N = (if y \<le> x then x - y else x - y + N)"
  using assms mod_pos_pos_trivial [of "x - y" N] mod_pos_pos_trivial [of "x - y + N" N] by auto

lemma add_modulus_mod: "(x + N) mod N = x mod N" for x N :: int
  by simp

definition sizes_ok :: "cbuf \<Rightarrow> bool" where
  "sizes_ok cb \<longleftrightarrow> length (c_data cb) = nat (c_size cb + 1) \<and> c_alloc cb = c_size cb + 17 \<and> in_int (2 * c_size cb + 1) \<and> c_minsize cb > 0 \<and>
     c_size cb \<ge> c_minsize cb \<and> c_size cb \<le> c_maxsize cb \<and> (c_got_wrap cb \<or> c_i_rep cb = 0)"

definition indices_ok :: "cbuf \<Rightarrow> bool" where
  "indices_ok cb \<longleftrightarrow> c_i_in cb \<ge> 0 \<and> c_i_in cb \<le> c_size cb \<and> c_i_out cb \<ge> 0 \<and> c_i_out cb \<le> c_size cb \<and>
     c_i_rep cb \<ge> 0 \<and> c_i_rep cb \<le> c_size cb"

lemma valid_iff:
  "cbuf_is_valid cb \<longleftrightarrow> sizes_ok cb \<and> indices_ok cb \<and>
     c_used cb = (c_i_in cb - c_i_out cb) mod (c_size cb + 1) \<and> reused_bytes cb + c_used cb \<le> c_size cb"
proof (cases "sizes_ok cb \<and> indices_ok cb")
  case False
  then show ?thesis by (auto simp: cbuf_is_valid_def sizes_ok_def indices_ok_def CBUF_MAGIC_LEN_def)
next
  case True
  let ?N = "c_size cb + 1"
  have pos: "0 < c_size cb" using True by (simp add: sizes_ok_def)
  have idx: "0 \<le> c_i_in cb" "c_i_in cb < ?N" "0 \<le> c_i_out cb" "c_i_out cb < ?N" "0 \<le> c_i_rep cb" "c_i_rep cb < ?N"
    using True by (auto simp: indices_ok_def)
  have free: "(c_i_out cb - c_i_in cb - 1 + ?N) mod ?N =
      (if c_i_in cb < c_i_out cb then c_i_out cb - c_i_in cb - 1 else c_i_out cb - c_i_in cb - 1 + ?N)"
  proof (cases "c_i_in cb < c_i_out cb")
    case True
    then show ?thesis unfolding add_modulus_mod using idx mod_pos_pos_trivial [of "c_i_out cb - c_i_in cb - 1" ?N] by simp
  next
    case False
    then show ?thesis using idx mod_pos_pos_trivial [of "c_i_out cb - c_i_in cb - 1 + ?N" ?N] by simp
  qed
  have used: "(c_i_in cb - c_i_out cb) mod ?N =
      (if c_i_out cb \<le> c_i_in cb then c_i_in cb - c_i_out cb else c_i_in cb - c_i_out cb + ?N)"
    using idx by (intro diff_mod)
  have reused: "reused_bytes cb = (if c_i_rep cb \<le> c_i_out cb then c_i_out cb - c_i_rep cb else c_i_out cb - c_i_rep cb + ?N)"
    unfolding reused_bytes_def add_modulus_mod using idx by (intro diff_mod)
  show ?thesis
    using True pos idx unfolding cbuf_is_valid_def free used reused sizes_ok_def indices_ok_def CBUF_MAGIC_LEN_def
    by (auto split: if_splits)
qed

lemma validI:
  assumes "sizes_ok cb" and "indices_ok cb" and "c_used cb = (c_i_in cb - c_i_out cb) mod (c_size cb + 1)"
    and "reused_bytes cb + c_used cb \<le> c_size cb"
  shows "cbuf_is_valid cb"
  using assms valid_iff by blast

lemma valid_facts:
  assumes "cbuf_is_valid cb"
  shows "sizes_ok cb" and "indices_ok cb" and "0 < c_size cb"
    and "c_used cb = (c_i_in cb - c_i_out cb) mod (c_size cb + 1)"
    and "0 \<le> c_used cb" and "c_used cb \<le> c_size cb"
    and "0 \<le> reused_bytes cb" and "reused_bytes cb + c_used cb \<le> c_size cb"
    and "int (length (c_data cb)) = c_size cb + 1"
  using assms valid_iff [of cb] by (auto simp: sizes_ok_def reused_bytes_def cbuf_is_valid_def)

text \<open>
  The size of a valid buffer leaves room for the sums of its positions.  A call is within range if it asks for at most
  \<open>size_limit\<close> bytes, and the buffer cannot grow beyond that either.
\<close>

abbreviation size_limit :: int where "size_limit \<equiv> 1000000000"

lemma valid_size: "cbuf_is_valid cb \<Longrightarrow> c_size cb \<le> 1073741823"
  by (simp add: cbuf_is_valid_def in_int_def)

lemma valid_alloc: "cbuf_is_valid cb \<Longrightarrow> c_alloc cb = c_size cb + 17"
  by (simp add: cbuf_is_valid_def CBUF_MAGIC_LEN_def)

lemma valid_sums:
  assumes "cbuf_is_valid cb" and "0 \<le> n" and "n \<le> size_limit"
  shows "in_int (c_used cb + n)" and "in_int (c_i_in cb + n)"
  using valid_size [OF assms(1)] valid_facts(2,5,6) [OF assms(1)] assms(2,3) by (auto simp: in_int_def indices_ok_def)

definition roomy :: "cbuf \<Rightarrow> int \<Rightarrow> bool" where
  "roomy cb len \<longleftrightarrow> len \<le> size_limit \<and> (c_size cb = c_maxsize cb \<or> c_maxsize cb \<le> size_limit)"

lemma roomyI: "c_maxsize cb \<le> size_limit \<Longrightarrow> len \<le> size_limit \<Longrightarrow> roomy cb len"
  by (simp add: roomy_def)

lemma roomy_len: "roomy cb len \<Longrightarrow> len \<le> size_limit"
  by (simp add: roomy_def)

lemma roomy_less: "roomy cb len \<Longrightarrow> k \<le> len \<Longrightarrow> roomy cb k"
  by (auto simp: roomy_def)

lemma roomy_grow:
  assumes "roomy cb len" and "cbuf_is_valid cb'" and "c_size cb \<le> c_size cb'" and "c_maxsize cb' = c_maxsize cb"
  shows "roomy cb' len"
  using assms valid_facts(1) [OF assms(2)] by (auto simp: roomy_def sizes_ok_def)

text \<open>The three contents.\<close>

definition unread :: "cbuf \<Rightarrow> byte list" where
  "unread cb = view (c_data cb) (c_i_in cb) (nat (c_used cb))"

definition replayable :: "cbuf \<Rightarrow> byte list" where
  "replayable cb = view (c_data cb) (c_i_out cb) (nat (reused_bytes cb))"

definition history :: "cbuf \<Rightarrow> byte list" where
  "history cb = view (c_data cb) (c_i_in cb) (nat (reused_bytes cb + c_used cb))"

lemma history_split:
  assumes "cbuf_is_valid cb"
  shows "history cb = replayable cb @ unread cb"
proof -
  note v = valid_facts [OF assms]
  have "nat (reused_bytes cb + c_used cb) = nat (reused_bytes cb) + nat (c_used cb)"
    using v(5,7) by (rule nat_add_distrib [rotated])
  moreover have "view (c_data cb) (c_i_in cb - c_used cb) k = view (c_data cb) (c_i_out cb) k" for k
    by (rule view_cong_mod) (simp add: v(9) v(4) mod_diff_right_eq)
  ultimately show ?thesis
    using v by (simp add: history_def unread_def replayable_def view_append)
qed

lemma unread_history: "cbuf_is_valid cb \<Longrightarrow> unread cb = drop (nat (reused_bytes cb)) (history cb)"
  using valid_facts(7) by (simp add: history_split replayable_def)

lemma length_unread [simp]: "length (unread cb) = nat (c_used cb)"
  by (simp add: unread_def)

lemma length_replayable [simp]: "length (replayable cb) = nat (reused_bytes cb)"
  by (simp add: replayable_def)

lemma length_history [simp]: "length (history cb) = nat (reused_bytes cb + c_used cb)"
  by (simp add: history_def)

end
