(* ===== verification/Cbuf_Moves.thy ===== *)
theory Cbuf_Moves
  imports Cbuf_Laws
begin

text \<open>
  The data movers of \<^verbatim>\<open>cbuf.c\<close> on the contents of a buffer.  The input and output functions are the
  interfaces \<open>sink\<close> and \<open>source\<close>; memory is an instance of both.
\<close>


section \<open>Metadata\<close>

lemma mod_shift: "((x + y) mod N - z) mod N = (x - z + y) mod N" for x y z N :: int
  by (simp add: mod_simps algebra_simps)

lemma reused_eq: "reused_bytes cb = (c_i_out cb - c_i_rep cb) mod (c_size cb + 1)"
  unfolding reused_bytes_def by (rule add_modulus_mod)

lemma drop_valid:
  assumes v: "cbuf_is_valid cb" and len: "0 \<le> len" "len \<le> c_used cb"
  defines "cb' \<equiv> cb\<lparr>c_used := c_used cb - len, c_i_out := (c_i_out cb + len) mod (c_size cb + 1)\<rparr>"
  shows "cbuf_is_valid cb'" and "reused_bytes cb' = reused_bytes cb + len"
    and "history cb' = history cb" and "unread cb' = drop (nat len) (unread cb)"
proof -
  let ?N = "c_size cb + 1"
  note f = valid_facts [OF v]
  have "reused_bytes cb' = ((c_i_out cb - c_i_rep cb) mod ?N + len) mod ?N"
    by (simp add: reused_eq cb'_def mod_simps algebra_simps)
  also have "\<dots> = (reused_bytes cb + len) mod ?N" by (simp only: reused_eq)
  also have "\<dots> = reused_bytes cb + len" using f len by (intro mod_pos_pos_trivial) auto
  finally show r: "reused_bytes cb' = reused_bytes cb + len" .
  have "(c_i_in cb - (c_i_out cb + len) mod ?N) mod ?N = (c_used cb - len) mod ?N"
    by (simp add: f(4) mod_simps algebra_simps)
  also have "\<dots> = c_used cb - len" using f len by (intro mod_pos_pos_trivial) auto
  finally have used: "(c_i_in cb - (c_i_out cb + len) mod ?N) mod ?N = c_used cb - len" .
  show "cbuf_is_valid cb'"
    by (rule validI) (use f r used pos_mod_bound [of ?N "c_i_out cb + len"] in
      \<open>simp_all add: cb'_def sizes_ok_def indices_ok_def\<close>)
  show "history cb' = history cb" using r by (simp add: history_def cb'_def)
  have "nat (c_used cb - len) = nat (c_used cb) - nat len" using len by simp
  then show "unread cb' = drop (nat len) (unread cb)"
    using view_drop [of "nat (c_used cb) - nat len" "nat (c_used cb)" "c_data cb" "c_i_in cb"] len
    by (simp add: unread_def cb'_def)
qed

lemma dropper_ok:
  assumes v: "cbuf_is_valid cb" and len: "0 < len" "len \<le> c_used cb"
  shows "cbuf_dropper cb len =
    Some (len, cb\<lparr>c_used := c_used cb - len, c_i_out := (c_i_out cb + len) mod (c_size cb + 1)\<rparr>)"
proof -
  note v' = drop_valid(1) [OF v less_imp_le [OF len(1)] len(2)]
  show ?thesis using len v' by (simp add: cbuf_dropper_def cbuf_shrink_def Let_def)
qed

lemma rewind_valid:
  assumes v: "cbuf_is_valid cb" and len: "0 \<le> len" "len \<le> reused_bytes cb"
  defines "cb' \<equiv> cb\<lparr>c_used := c_used cb + len, c_i_out := (c_i_out cb - len + (c_size cb + 1)) mod (c_size cb + 1)\<rparr>"
  shows "cbuf_is_valid cb'" and "reused_bytes cb' = reused_bytes cb - len" and "history cb' = history cb"
proof -
  let ?N = "c_size cb + 1"
  note f = valid_facts [OF v]
  have le: "reused_bytes cb - len \<le> c_size cb" using f len by linarith
  have c': "cb' = cb\<lparr>c_used := c_used cb + len, c_i_out := (c_i_out cb - len) mod ?N\<rparr>"
    unfolding cb'_def add_modulus_mod ..
  have "reused_bytes cb' = ((c_i_out cb - c_i_rep cb) mod ?N - len) mod ?N"
    by (simp add: reused_eq c' mod_simps algebra_simps)
  also have "\<dots> = (reused_bytes cb - len) mod ?N" by (simp only: reused_eq)
  also have "\<dots> = reused_bytes cb - len" using f len le by (intro mod_pos_pos_trivial) linarith+
  finally show r: "reused_bytes cb' = reused_bytes cb - len" .
  have "(c_i_in cb - (c_i_out cb - len) mod ?N) mod ?N = (c_used cb + len) mod ?N"
    by (simp add: f(4) mod_simps algebra_simps)
  also have "\<dots> = c_used cb + len" using f len by (intro mod_pos_pos_trivial) auto
  finally have used: "(c_i_in cb - (c_i_out cb - len) mod ?N) mod ?N = c_used cb + len" .
  show "cbuf_is_valid cb'"
    by (rule validI) (use f le r used len pos_mod_bound [of ?N "c_i_out cb - len"] in
      \<open>simp_all add: c' sizes_ok_def indices_ok_def\<close>)
  show "history cb' = history cb" using r by (simp add: history_def c')
qed

text \<open>After \<open>n\<close> bytes were written into the array of a valid buffer.\<close>

lemma advance_ok:
  assumes v: "cbuf_is_valid cb" and n: "0 < n" "n \<le> size_limit" and len: "length ds = length (c_data cb)"
  shows "\<exists>cb'. cbuf_advance (cb\<lparr>c_data := ds\<rparr>) n (c_size cb - c_used cb) ((c_i_in cb + n) mod (c_size cb + 1)) = Some cb' \<and>
    cbuf_is_valid cb' \<and> c_data cb' = ds \<and> c_i_in cb' = (c_i_in cb + n) mod (c_size cb + 1) \<and>
    c_used cb' = min (c_used cb + n) (c_size cb) \<and>
    reused_bytes cb' + c_used cb' = min (reused_bytes cb + c_used cb + n) (c_size cb) \<and>
    c_size cb' = c_size cb \<and> c_minsize cb' = c_minsize cb \<and> c_maxsize cb' = c_maxsize cb \<and> c_alloc cb' = c_alloc cb \<and>
    c_overwrite cb' = c_overwrite cb"
proof -
  let ?N = "c_size cb + 1" and ?r = "reused_bytes cb" and ?u = "c_used cb"
  let ?in = "(c_i_in cb + n) mod ?N"
  note f = valid_facts [OF v] and sums = valid_sums [OF v less_imp_le [OF n(1)] n(2)]
  have in_range: "0 \<le> ?in" "?in \<le> c_size cb" using f pos_mod_bound [of ?N "c_i_in cb + n"] by simp_all
  have r: "(c_i_out cb - c_i_rep cb + ?N) mod ?N = ?r" by (simp only: reused_bytes_def)
  have used: "(?in - c_i_out cb) mod ?N = (?u + n) mod ?N"
    by (simp add: f(4) mod_simps algebra_simps)
  define rep where "rep = (?in + 1) mod ?N"
  have rep_range: "0 \<le> rep" "rep \<le> c_size cb" using f pos_mod_bound [of ?N "?in + 1"] by (simp_all add: rep_def)
  have minus: "(- 1 - x) mod ?N = (c_size cb - x) mod ?N" for x
    using add_modulus_mod [of "- 1 - x" ?N] by (simp add: algebra_simps)
  have minus1: "(- 1) mod ?N = c_size cb" using minus [of 0] f by simp
  consider "n \<le> c_size cb - ?u - ?r" | "c_size cb - ?u - ?r < n \<and> n \<le> c_size cb - ?u" | "c_size cb - ?u < n" by linarith
  then show ?thesis
  proof cases
    case 1
    let ?cb = "cb\<lparr>c_data := ds, c_used := ?u + n, c_i_in := ?in\<rparr>"
    have "(?u + n) mod ?N = ?u + n" using 1 f n by (intro mod_pos_pos_trivial) auto
    with used have "(?in - c_i_out cb) mod ?N = ?u + n" by simp
    moreover have rr: "reused_bytes ?cb = ?r" by (simp add: reused_eq)
    ultimately have "cbuf_is_valid ?cb"
      using f 1 n in_range len by (intro validI) (simp_all add: sizes_ok_def indices_ok_def)
    then show ?thesis using 1 n f sums rr r
      by (intro exI [of _ ?cb]) (simp add: cbuf_advance_def)
  next
    case 2
    let ?cb = "cb\<lparr>c_data := ds, c_used := ?u + n, c_i_in := ?in, c_got_wrap := True, c_i_rep := rep\<rparr>"
    have "(?u + n) mod ?N = ?u + n" using 2 f n by (intro mod_pos_pos_trivial) auto
    with used have u: "(?in - c_i_out cb) mod ?N = ?u + n" by simp
    have "reused_bytes ?cb = (- 1 - (?in - c_i_out cb) mod ?N) mod ?N"
      by (simp add: reused_eq rep_def mod_simps algebra_simps)
    also have "\<dots> = (c_size cb - (?u + n)) mod ?N"
      unfolding u by (rule minus)
    also have "\<dots> = c_size cb - (?u + n)" using 2 f n by (intro mod_pos_pos_trivial) auto
    finally have rr: "reused_bytes ?cb = c_size cb - (?u + n)" .
    have "cbuf_is_valid ?cb"
      using f 2 n in_range rep_range len u rr by (intro validI) (simp_all add: sizes_ok_def indices_ok_def)
    then show ?thesis using 2 n f sums rr r rep_def
      by (intro exI [of _ ?cb]) (simp add: cbuf_advance_def)
  next
    case 3
    let ?cb = "cb\<lparr>c_data := ds, c_used := c_size cb, c_i_in := ?in, c_got_wrap := True, c_i_rep := rep, c_i_out := rep\<rparr>"
    have "(?in - rep) mod ?N = (- 1) mod ?N" by (simp add: rep_def mod_simps)
    then have u: "(?in - rep) mod ?N = c_size cb" using minus1 by simp
    have rr: "reused_bytes ?cb = 0" by (simp add: reused_eq)
    have "cbuf_is_valid ?cb"
      using f 3 n in_range rep_range len u rr by (intro validI) (simp_all add: sizes_ok_def indices_ok_def)
    then show ?thesis using 3 n f sums rr r rep_def
      by (intro exI [of _ ?cb]) (simp add: cbuf_advance_def)
  qed
qed


section \<open>Growing\<close>

text \<open>The array before and after \<^verbatim>\<open>realloc\<close> and \<^verbatim>\<open>memmove\<close>.\<close>

lemma view_wrap:
  assumes "0 \<le> i" and "i \<le> int (length ds)" and "k \<le> length ds"
  shows "view ds i (k + nat i) = drop (length ds - k) ds @ take (nat i) ds"
proof -
  have "view ds (i - i) k = view ds (int (length ds)) k" by (rule view_cong_mod) simp
  also have "\<dots> = drop (length ds - k) ds" using assms view_nowrap [of k "int (length ds)" ds] by simp
  finally have "view ds (i - int (nat i)) k = drop (length ds - k) ds" using assms by simp
  moreover have "view ds i (nat i) = take (nat i) ds" using assms view_nowrap [of "nat i" i ds] by simp
  ultimately show ?thesis by (simp add: view_append)
qed

lemma take_memcpy_before: "k \<le> off \<Longrightarrow> off \<le> length mem \<Longrightarrow> take k (memcpy_at off xs mem) = take k mem"
  by (simp add: memcpy_at_def min_absorb1)

definition same_content :: "cbuf \<Rightarrow> cbuf \<Rightarrow> bool" where
  "same_content cb cb' \<longleftrightarrow> history cb' = history cb \<and> c_used cb' = c_used cb \<and> reused_bytes cb' = reused_bytes cb \<and>
     c_overwrite cb' = c_overwrite cb \<and> c_minsize cb' = c_minsize cb \<and> c_maxsize cb' = c_maxsize cb"

lemma same_content_refl [simp]: "same_content cb cb"
  by (simp add: same_content_def)

lemma grow_straight:
  assumes v: "cbuf_is_valid cb" and rep: "c_i_rep cb \<le> c_i_in cb"
    and size: "c_size cb < S" "S \<le> c_maxsize cb" "A = S + 17" "S \<le> size_limit" and len: "length ds = nat (S + 1) - length (c_data cb)"
  defines "cb' \<equiv> cb\<lparr>c_alloc := A, c_size := S, c_data := c_data cb @ ds\<rparr>"
  shows "cbuf_is_valid cb'" and "same_content cb cb'"
proof -
  note f = valid_facts [OF v]
  have out: "c_i_rep cb \<le> c_i_out cb" "c_i_out cb \<le> c_i_in cb"
    using v rep by (auto simp: cbuf_is_valid_def split: if_splits)
  have idx: "0 \<le> c_i_rep cb" "c_i_in cb \<le> c_size cb" using f by (auto simp: indices_ok_def)
  have used: "c_used cb = c_i_in cb - c_i_out cb"
    unfolding f(4) using out idx by (intro mod_pos_pos_trivial) linarith+
  have used': "(c_i_in cb - c_i_out cb) mod (S + 1) = c_i_in cb - c_i_out cb"
    using out idx size by (intro mod_pos_pos_trivial) linarith+
  have r: "reused_bytes cb = c_i_out cb - c_i_rep cb"
    unfolding reused_eq using out idx by (intro mod_pos_pos_trivial) linarith+
  have "(c_i_out cb - c_i_rep cb) mod (S + 1) = c_i_out cb - c_i_rep cb"
    using out idx size by (intro mod_pos_pos_trivial) linarith+
  then have r': "reused_bytes cb' = reused_bytes cb" by (simp add: reused_eq cb'_def r [unfolded reused_eq])
  have L: "length (c_data cb) = nat (c_size cb + 1)" using f(9) by simp
  show "cbuf_is_valid cb'"
    by (rule validI) (use f size len L used used' r' in \<open>simp_all add: cb'_def sizes_ok_def indices_ok_def in_int_def\<close>)
  have "view (c_data cb @ ds) (c_i_in cb) k = view (c_data cb) (c_i_in cb) k" if "int k \<le> c_i_in cb" for k
    using view_nowrap [OF that, of "c_data cb @ ds"] view_nowrap [OF that, of "c_data cb"] idx f(9) that
    by (simp add: drop_append take_append)
  then show "same_content cb cb'"
    using r' used out idx by (simp add: same_content_def history_def cb'_def r)
qed

lemma grow_wrapped:
  assumes v: "cbuf_is_valid cb" and rep: "c_i_in cb < c_i_rep cb"
    and size: "c_size cb < S" "S \<le> c_maxsize cb" "A = S + 17" "S \<le> size_limit" and len: "length ds = nat (S + 1) - length (c_data cb)"
  defines "m \<equiv> S + 1 - (c_size cb + 1 - c_i_rep cb)"
  defines "cb' \<equiv> cb\<lparr>c_alloc := A, c_size := S,
    c_data := memcpy_at (nat m) (drop (nat (c_i_rep cb)) (c_data cb)) (c_data cb @ ds),
    c_i_out := (if c_i_out cb \<ge> c_i_rep cb then c_i_out cb + (m - c_i_rep cb) else c_i_out cb), c_i_rep := m\<rparr>"
  shows "cbuf_is_valid cb'" and "same_content cb cb'"
proof -
  let ?N = "c_size cb + 1" and ?ds = "c_data cb"
  note f = valid_facts [OF v]
  have idx: "0 \<le> c_i_in cb" "c_i_rep cb \<le> c_size cb" "0 \<le> c_i_out cb" "c_i_out cb \<le> c_size cb"
    using f by (auto simp: indices_ok_def)
  have out: "c_i_out cb \<le> c_i_in cb \<or> c_i_rep cb \<le> c_i_out cb"
    using v rep by (auto simp: cbuf_is_valid_def split: if_splits)
  have L: "length ?ds = nat ?N" using f(9) by simp
  have m: "c_i_rep cb < m" "m \<le> S" using size idx by (simp_all add: m_def)
  define D where "D = memcpy_at (nat m) (drop (nat (c_i_rep cb)) ?ds) (?ds @ ds)"
  have fit: "nat m + length (drop (nat (c_i_rep cb)) ?ds) = length (?ds @ ds)"
    using L len size idx rep by (simp add: m_def)
  have LD: "length D = nat (S + 1)" using length_memcpy_at [OF eq_refl [OF fit]] L len size by (simp add: D_def)
  have D1: "drop (nat m) D = drop (nat (c_i_rep cb)) ?ds" using fit by (simp add: D_def memcpy_at_def)
  have D2: "take (nat (c_i_in cb)) D = take (nat (c_i_in cb)) ?ds"
  proof -
    have "nat (c_i_in cb) \<le> nat m" "nat m \<le> length (?ds @ ds)" "nat (c_i_in cb) \<le> length ?ds" using m rep idx L fit by simp_all
    then show ?thesis using take_memcpy_before [of "nat (c_i_in cb)" "nat m" "?ds @ ds"] by (simp add: D_def)
  qed
  have total: "reused_bytes cb + c_used cb = c_i_in cb - c_i_rep cb + ?N \<and>
      c_used cb = (if c_i_out cb \<le> c_i_in cb then c_i_in cb - c_i_out cb else c_i_in cb - c_i_out cb + ?N)"
    unfolding reused_eq f(4) using out idx rep diff_mod [of "c_i_out cb" ?N "c_i_rep cb"] diff_mod [of "c_i_in cb" ?N "c_i_out cb"]
    by auto
  have out': "0 \<le> c_i_out cb'" "c_i_out cb' \<le> S" using idx out m size by (auto simp: cb'_def m_def)
  have used': "(c_i_in cb - c_i_out cb') mod (S + 1) = c_used cb"
    using total out out' idx rep size diff_mod [of "c_i_in cb" "S + 1" "c_i_out cb'"]
    by (auto simp: cb'_def m_def split: if_splits)
  have r': "reused_bytes cb' = reused_bytes cb"
  proof -
    have "reused_bytes cb' = (c_i_out cb' - m) mod (S + 1)" by (simp add: reused_eq cb'_def)
    also have "\<dots> = (if m \<le> c_i_out cb' then c_i_out cb' - m else c_i_out cb' - m + (S + 1))"
      using out' m idx rep by (intro diff_mod) linarith+
    also have "\<dots> = reused_bytes cb" using total out idx rep m by (auto simp: cb'_def m_def split: if_splits)
    finally show ?thesis .
  qed
  show "cbuf_is_valid cb'"
  proof (rule validI)
    have "c_got_wrap cb" using f(1) rep idx by (auto simp: sizes_ok_def)
    then show "sizes_ok cb'" using f size LD by (simp add: sizes_ok_def in_int_def cb'_def D_def [symmetric])
    show "indices_ok cb'" using out' m idx rep size by (simp add: indices_ok_def cb'_def)
    show "c_used cb' = (c_i_in cb' - c_i_out cb') mod (c_size cb' + 1)" using used' by (simp add: cb'_def)
    show "reused_bytes cb' + c_used cb' \<le> c_size cb'" using r' f size by (simp add: cb'_def)
  qed
  have k: "nat (c_i_in cb - c_i_rep cb + ?N) = nat (?N - c_i_rep cb) + nat (c_i_in cb)" using idx by simp
  have "view ?ds (c_i_in cb) (nat (?N - c_i_rep cb) + nat (c_i_in cb)) = drop (nat (c_i_rep cb)) ?ds @ take (nat (c_i_in cb)) ?ds"
  proof -
    have "length ?ds - nat (?N - c_i_rep cb) = nat (c_i_rep cb)" using L idx rep by simp
    then show ?thesis using view_wrap [of "c_i_in cb" ?ds "nat (?N - c_i_rep cb)"] L idx rep by simp
  qed
  moreover have "view D (c_i_in cb) (nat (?N - c_i_rep cb) + nat (c_i_in cb)) = drop (nat m) D @ take (nat (c_i_in cb)) D"
  proof -
    have "length D - nat (?N - c_i_rep cb) = nat m" using LD idx rep size by (simp add: m_def)
    then show ?thesis using view_wrap [of "c_i_in cb" D "nat (?N - c_i_rep cb)"] LD idx rep size m by simp
  qed
  ultimately have "view D (c_i_in cb) (nat (reused_bytes cb + c_used cb)) = history cb"
    unfolding history_def conjunct1 [OF total] k D1 D2 by simp
  then have "history cb' = history cb" using r' by (simp add: history_def cb'_def D_def)
  then show "same_content cb cb'" using r' by (simp add: same_content_def cb'_def)
qed


lemma grow_ok:
  assumes v: "cbuf_is_valid cb" and n: "0 < n" and room: "roomy cb n"
  shows "\<exists>g cb'. cbuf_grow mem cb n = Some (g, cb') \<and> g = c_size cb' - c_size cb \<and> 0 \<le> g \<and>
    cbuf_is_valid cb' \<and> same_content cb cb' \<and>
    ((\<forall>m. mem m \<noteq> None) \<longrightarrow> min n (c_maxsize cb - c_size cb) \<le> g)"
proof (cases "c_size cb = c_maxsize cb")
  case True
  then show ?thesis using n v by (simp add: cbuf_grow_def)
next
  case False
  note f = valid_facts [OF v]
  define meta where "meta = c_alloc cb - c_size cb"
  define m1 where "m1 = c_alloc cb + n + (CBUF_CHUNK - (c_alloc cb + n) mod CBUF_CHUNK)"
  define m where "m = min m1 (c_maxsize cb + meta)"
  have sz: "c_size cb < c_maxsize cb" "0 < meta" "c_size cb < c_alloc cb" "meta = 17"
    using f False by (auto simp: sizes_ok_def meta_def)
  have limits: "n \<le> size_limit" "c_maxsize cb \<le> size_limit" using room False by (simp_all add: roomy_def)
  have chunk: "0 \<le> (c_alloc cb + n) mod CBUF_CHUNK" "(c_alloc cb + n) mod CBUF_CHUNK < CBUF_CHUNK" by (simp_all add: CBUF_CHUNK_def)
  then have m1: "c_alloc cb + n < m1" by (simp add: m1_def)
  have ints: "in_int (c_alloc cb + n)" "in_int m1" "in_int (c_maxsize cb + meta)"
    unfolding in_int_def m1_def using limits sz(1,3,4) chunk f(3) n valid_alloc [OF v] by (auto simp: CBUF_CHUNK_def)
  have m: "c_alloc cb < m" using m1 n sz by (simp add: m_def meta_def)
  show ?thesis
  proof (cases "mem m")
    case None
    then have "cbuf_grow mem cb n = Some (0, cb)" using False n v sz(1-3) m ints
      by (simp add: cbuf_grow_def Let_def del: min_less_iff_conj flip: meta_def m1_def m_def)
    moreover have "(\<forall>m. mem m \<noteq> None) \<longrightarrow> min n (c_maxsize cb - c_size cb) \<le> 0" using None by blast
    ultimately show ?thesis using v by (intro exI [of _ 0] exI [of _ cb] conjI) simp_all
  next
    case (Some junk)
    define ds where "ds = map junk [length (c_data cb)..<nat (m - meta + 1)]"
    have mm: "m \<le> c_maxsize cb + meta" by (simp add: m_def)
    have S: "c_size cb < m - meta" "m - meta \<le> c_maxsize cb" "m = m - meta + 17" "m - meta \<le> size_limit"
      using m mm sz meta_def limits by linarith+
    have len: "length ds = nat (m - meta + 1) - length (c_data cb)" by (simp add: ds_def)
    have big: "min n (c_maxsize cb - c_size cb) \<le> m - meta - c_size cb" using m1 sz by (simp add: m_def meta_def)
    have L: "length (c_data cb) = nat (c_size cb + 1)" using f(9) by simp
    show ?thesis
    proof (cases "c_i_rep cb > c_i_in cb")
      case False
      define cb' where "cb' = cb\<lparr>c_alloc := m, c_size := m - meta, c_data := c_data cb @ ds\<rparr>"
      have cb': "cbuf_is_valid cb'" "same_content cb cb'"
        using grow_straight [OF v _ S len] False by (simp_all add: cb'_def)
      have "cbuf_grow mem cb n = Some (m - meta - c_size cb, cb')"
        using \<open>c_size cb \<noteq> c_maxsize cb\<close> n sz(1-3) m ints Some False cb'(1)
        by (simp add: cbuf_grow_def Let_def cb'_def ds_def del: min_less_iff_conj flip: meta_def m1_def m_def)
      then show ?thesis using cb' S big by (intro exI conjI) (assumption | simp add: cb'_def)+
    next
      case True
      let ?n = "c_size cb + 1 - c_i_rep cb"
      define k where "k = m - meta + 1 - ?n"
      define cb1 where "cb1 = cb\<lparr>c_alloc := m, c_size := m - meta, c_data := c_data cb @ ds\<rparr>"
      define cb' where "cb' = cb\<lparr>c_alloc := m, c_size := m - meta,
        c_data := memcpy_at (nat k) (drop (nat (c_i_rep cb)) (c_data cb)) (c_data cb @ ds),
        c_i_out := (if c_i_out cb \<ge> c_i_rep cb then c_i_out cb + (k - c_i_rep cb) else c_i_out cb), c_i_rep := k\<rparr>"
      have cb': "cbuf_is_valid cb'" "same_content cb cb'"
        unfolding cb'_def k_def by (rule grow_wrapped [OF v True S len])+
      have rep: "0 \<le> c_i_rep cb" "c_i_rep cb \<le> c_size cb" using f by (auto simp: indices_ok_def)
      have block: "data_block cb1 (c_i_rep cb) ?n = Some (drop (nat (c_i_rep cb)) (c_data cb))"
      proof -
        have "nat ?n = length (c_data cb) - nat (c_i_rep cb)" "nat (c_i_rep cb) \<le> length (c_data cb)" using rep L by simp_all
        then show ?thesis using rep by (simp add: data_block_def cb1_def)
      qed
      have store: "store_block k (drop (nat (c_i_rep cb)) (c_data cb)) (c_data cb @ ds) =
          Some (memcpy_at (nat k) (drop (nat (c_i_rep cb)) (c_data cb)) (c_data cb @ ds))"
        using rep L len S by (simp add: store_block_def k_def)
      have k: "m - meta + (c_i_rep cb - c_size cb) = k" "k - c_i_rep cb = m - meta - c_size cb" by (simp_all add: k_def)
      have "cbuf_grow mem cb n = Some (m - meta - c_size cb, cb')"
        using \<open>c_size cb \<noteq> c_maxsize cb\<close> n sz(1-3) m ints Some True cb'(1) block store
        by (cases "c_i_rep cb \<le> c_i_out cb")
          (simp_all add: cbuf_grow_def Let_def cb'_def ds_def cb1_def k del: min_less_iff_conj flip: meta_def m1_def m_def)
      then show ?thesis using cb' S big by (intro exI conjI) (assumption | simp add: cb'_def)+
    qed
  qed
qed

end
