(* ===== verification/Cbuf_Io.thy ===== *)
theory Cbuf_Io
  imports Cbuf_Moves
begin

text \<open>
  The copying loops of \<^verbatim>\<open>cbuf.c\<close> against the interfaces of its input and output functions, and the reader,
  replayer, writer and copier built on them.
\<close>


section \<open>Sinks\<close>

text \<open>
  A sink with room for \<open>k\<close> more bytes takes a prefix of each block it is given, or reports an error
  with a count that is not positive; \<open>out\<close> is what it has taken and \<open>cap\<close> a size that does not change.
\<close>

locale sink =
  fixes room :: "'s \<Rightarrow> nat \<Rightarrow> bool" and out :: "'s \<Rightarrow> byte list" and cap :: "'s \<Rightarrow> nat"
    and putf :: "'s putf"
  assumes put_ok: "room s k \<Longrightarrow> bs \<noteq> [] \<Longrightarrow> length bs \<le> k \<Longrightarrow> \<exists>m s'. putf bs s = Some (m, s') \<and>
    m \<le> int (length bs) \<and> out s' = out s @ take (nat m) bs \<and> cap s' = cap s \<and> room s' (k - nat m)"
begin

lemma put_loop_ok:
  "int (length (c_data cb)) = c_size cb + 1 \<Longrightarrow> 0 \<le> i \<Longrightarrow> i \<le> c_size cb \<Longrightarrow> 0 \<le> nleft \<Longrightarrow> room s (nat nleft) \<Longrightarrow>
    \<exists>nleft' m' s'. put_loop putf cb nleft i m s = Some (nleft', m', s') \<and> 0 \<le> nleft' \<and> nleft' \<le> nleft \<and>
      out s' = out s @ take (nat (nleft - nleft')) (view (c_data cb) (i + nleft) (nat nleft)) \<and> cap s' = cap s \<and>
      (nleft' = nleft \<and> 0 < nleft \<longrightarrow> m' \<le> 0)"
proof (induction "nat nleft" arbitrary: nleft i m s rule: less_induct)
  case less
  let ?ds = "c_data cb" and ?N = "c_size cb + 1"
  note len = less.prems(1)
  show ?case
  proof (cases "0 < nleft")
    case False
    then show ?thesis using less.prems by (subst put_loop.simps) simp
  next
    case True
    define n where "n = min nleft (?N - i)"
    have n: "0 < n" "n \<le> nleft" "i + n \<le> ?N" using True less.prems by (simp_all add: n_def)
    let ?bs = "view ?ds (i + n) (nat n)"
    have block: "data_block cb i n = Some ?bs" using n less.prems by (intro data_block_view) simp_all
    have "length ?bs = nat n" "nat n > 0" using n by simp_all
    then have ne: "?bs \<noteq> []" by (metis list.size(3) less_irrefl)
    obtain m1 s1 where p: "putf ?bs s = Some (m1, s1)" "m1 \<le> n" "out s1 = out s @ take (nat m1) ?bs"
        "cap s1 = cap s" "room s1 (nat nleft - nat m1)"
      using put_ok [OF less.prems(5) ne] n nat_mono [OF n(2)] by auto
    have split: "view ?ds (i + nleft) (nat nleft) = ?bs @ view ?ds (i + nleft) (nat (nleft - n))"
      using view_append [of ?ds "i + nleft" "nat n" "nat (nleft - n)"] n by (simp add: nat_diff_distrib)
    show ?thesis
    proof (cases "m1 = n")
      case False
      define nleft' where "nleft' = (if m1 > 0 then nleft - m1 else nleft)"
      have "put_loop putf cb nleft i m s = Some (nleft', m1, s1)"
        using True False by (subst put_loop.simps) (simp add: p block nleft'_def flip: n_def)
      moreover have "take (nat (nleft - nleft')) (view ?ds (i + nleft) (nat nleft)) = take (nat m1) ?bs"
        using p(2) n by (simp add: split nleft'_def)
      ultimately show ?thesis using p n True by (auto simp: nleft'_def)
    next
      case m1: True
      let ?i = "(i + n) mod ?N"
      have step: "put_loop putf cb nleft i m s = put_loop putf cb (nleft - n) ?i n s1"
        using True m1 n by (subst put_loop.simps) (simp add: p block flip: n_def)
      have i: "0 \<le> ?i" "?i \<le> c_size cb" using less.prems pos_mod_bound [of ?N "i + n"] by simp_all
      have room: "room s1 (nat (nleft - n))" using p(5) m1 n by (simp add: nat_diff_distrib)
      have view: "view ?ds (?i + (nleft - n)) k = view ?ds (i + nleft) k" for k
        by (rule view_cong_mod) (simp add: len mod_simps)
      have "nat (nleft - n) < nat nleft" "0 \<le> nleft - n" using n True by simp_all
      from less.hyps [OF this(1) len i this(2) room, of n] obtain nleft' m' s' where r:
        "put_loop putf cb (nleft - n) ?i n s1 = Some (nleft', m', s')" "0 \<le> nleft'" "nleft' \<le> nleft - n"
        "out s' = out s1 @ take (nat (nleft - n - nleft')) (view ?ds (i + nleft) (nat (nleft - n)))"
        "cap s' = cap s1"
        unfolding view by blast
      have "out s' = out s @ take (nat (nleft - nleft')) (view ?ds (i + nleft) (nat nleft))"
      proof -
        have "nat (nleft - nleft') - nat n = nat (nleft - n - nleft')" "nat n \<le> nat (nleft - nleft')" using r n by simp_all
        then show ?thesis using r(4) p(3) m1 by (simp add: split)
      qed
      then show ?thesis unfolding step using r n p(4) by auto
    qed
  qed
qed

end

text \<open>A sink that takes everything.\<close>

locale full_sink = sink +
  assumes full: "room s k \<Longrightarrow> bs \<noteq> [] \<Longrightarrow> length bs \<le> k \<Longrightarrow> putf bs s = Some (m, s') \<Longrightarrow> m = int (length bs)"


section \<open>Sources\<close>

text \<open>
  A source that can deliver \<open>k\<close> bytes delivers at most what it is asked for, or reports the end or an error
  with a count that is not positive; \<open>del s s' bs\<close> says that \<open>bs\<close> was delivered between two states.
\<close>

locale source =
  fixes room :: "'s \<Rightarrow> nat \<Rightarrow> bool" and del :: "'s \<Rightarrow> 's \<Rightarrow> byte list \<Rightarrow> bool" and getf :: "'s getf"
  assumes get_ok: "room s k \<Longrightarrow> 0 < n \<Longrightarrow> n \<le> k \<Longrightarrow> \<exists>m bs s'. getf n s = Some (m, bs, s') \<and>
      m \<le> int n \<and> length bs = nat m \<and> room s' (k - nat m) \<and> del s s' bs"
    and del_refl: "del s s []"
    and del_trans: "del s s1 as \<Longrightarrow> del s1 s2 bs \<Longrightarrow> del s s2 (as @ bs)"
begin

lemma get_loop_ok:
  "int (length ds) = c_size cb + 1 \<Longrightarrow> 0 \<le> i \<Longrightarrow> i \<le> c_size cb \<Longrightarrow> 0 \<le> nleft \<Longrightarrow> room s (nat nleft) \<Longrightarrow>
    \<exists>nleft' m' s' bs. get_loop getf cb nleft i m ds s =
        Some (nleft', (i + int (length bs)) mod (c_size cb + 1), m', put_cells ds i bs, s') \<and>
      0 \<le> nleft' \<and> nleft' = nleft - int (length bs) \<and> del s s' bs \<and> (bs = [] \<and> 0 < nleft \<longrightarrow> m' \<le> 0)"
proof (induction "nat nleft" arbitrary: nleft i m ds s rule: less_induct)
  case less
  let ?N = "c_size cb + 1"
  have imod: "i mod ?N = i" using less.prems by simp
  show ?case
  proof (cases "0 < nleft")
    case False
    then show ?thesis using less.prems del_refl [of s] imod
      by (subst get_loop.simps) (auto intro!: exI [of _ "[]"])
  next
    case True
    define n where "n = min nleft (?N - i)"
    have n: "0 < n" "n \<le> nleft" "i + n \<le> ?N" using True less.prems by (simp_all add: n_def)
    obtain m1 bs s1 where g: "getf (nat n) s = Some (m1, bs, s1)" "m1 \<le> n" "length bs = nat m1"
        "room s1 (nat nleft - nat m1)" "del s s1 bs"
      using get_ok [OF less.prems(5), of "nat n"] n nat_mono [OF n(2)] by auto
    have store: "store_block i bs ds = Some (put_cells ds i bs)"
      using g n less.prems by (intro store_block_cells) simp_all
    show ?thesis
    proof (cases "m1 = n")
      case False
      have "get_loop getf cb nleft i m ds s = Some (nleft - int (length bs), (i + int (length bs)) mod ?N, m1, put_cells ds i bs, s1)"
        using True False g(3) imod by (subst get_loop.simps) (simp add: g(1) store flip: n_def)
      then show ?thesis using g n
        by - (rule exI [of _ "nleft - int (length bs)"], rule exI [of _ m1], rule exI [of _ s1], rule exI [of _ bs], auto)
    next
      case m1: True
      let ?i = "(i + n) mod ?N"
      have step: "get_loop getf cb nleft i m ds s = get_loop getf cb (nleft - n) ?i n (put_cells ds i bs) s1"
        using True m1 n by (subst get_loop.simps) (simp add: g(1) store flip: n_def)
      have i: "0 \<le> ?i" "?i \<le> c_size cb" using less.prems pos_mod_bound [of ?N "i + n"] by simp_all
      have room: "room s1 (nat (nleft - n))" using g(4) m1 n by (simp add: nat_diff_distrib)
      have len: "int (length (put_cells ds i bs)) = ?N" using less.prems by simp
      have "nat (nleft - n) < nat nleft" "0 \<le> nleft - n" using n True by simp_all
      from less.hyps [OF this(1) len i this(2) room, of n] obtain nleft' m' s' cs where r:
        "get_loop getf cb (nleft - n) ?i n (put_cells ds i bs) s1 =
          Some (nleft', (?i + int (length cs)) mod ?N, m', put_cells (put_cells ds i bs) ?i cs, s')"
        "0 \<le> nleft'" "nleft' = nleft - n - int (length cs)" "del s1 s' cs" by blast
      have "put_cells (put_cells ds i bs) ?i cs = put_cells ds i (bs @ cs)"
        using put_cells_mod [of "put_cells ds i bs" "i + n" cs] len g m1 n by (simp add: put_cells_append)
      moreover have "(?i + int (length cs)) mod ?N = (i + int (length (bs @ cs))) mod ?N"
        using g m1 n by (simp add: mod_simps algebra_simps)
      moreover have "nleft' = nleft - int (length (bs @ cs))" using r(3) g m1 n by simp
      moreover have "bs @ cs \<noteq> []" using g m1 n by auto
      ultimately show ?thesis unfolding step using r(1,2) del_trans [OF g(5) r(4)]
        by - (rule exI [of _ nleft'], rule exI [of _ m'], rule exI [of _ s'], rule exI [of _ "bs @ cs"], auto)
    qed
  qed
qed

end

locale full_source = source +
  assumes full: "room s k \<Longrightarrow> 0 < n \<Longrightarrow> n \<le> k \<Longrightarrow> getf n s = Some (m, bs, s') \<Longrightarrow> m = int n"


section \<open>Memory\<close>

definition mem_room :: "byte list \<times> nat \<Rightarrow> nat \<Rightarrow> bool" where
  "mem_room d k \<longleftrightarrow> snd d + k \<le> length (fst d)"

definition mem_out :: "byte list \<times> nat \<Rightarrow> byte list" where
  "mem_out d = take (snd d) (fst d)"

definition mem_cap :: "byte list \<times> nat \<Rightarrow> nat" where
  "mem_cap d = length (fst d)"

interpretation mem_sink: full_sink mem_room mem_out mem_cap cbuf_put_mem
proof unfold_locales
  fix s :: "byte list \<times> nat" and k and bs :: "byte list" assume "mem_room s k" "length bs \<le> k"
  then show "\<exists>m s'. cbuf_put_mem bs s = Some (m, s') \<and> m \<le> int (length bs) \<and>
      mem_out s' = mem_out s @ take (nat m) bs \<and> mem_cap s' = mem_cap s \<and> mem_room s' (k - nat m)"
    using take_memcpy_at [of "snd s" bs "fst s"]
    by (auto simp: cbuf_put_mem_def mem_room_def mem_out_def mem_cap_def split: prod.splits)
qed (auto simp: cbuf_put_mem_def split: prod.splits if_splits)

definition mem_holds :: "byte list \<Rightarrow> nat \<Rightarrow> bool" where
  "mem_holds s k \<longleftrightarrow> k \<le> length s"

definition mem_del :: "byte list \<Rightarrow> byte list \<Rightarrow> byte list \<Rightarrow> bool" where
  "mem_del s s' bs \<longleftrightarrow> s = bs @ s'"

interpretation mem_source: full_source mem_holds mem_del cbuf_get_mem
  by unfold_locales (auto simp: cbuf_get_mem_def mem_holds_def mem_del_def)

end
