(* ===== verification/Cbuf_Movers.thy ===== *)
theory Cbuf_Movers
  imports Cbuf_Io
begin

text \<open>
  Reader, replayer, writer and copier of \<^verbatim>\<open>cbuf.c\<close> on the contents of the buffers, for any sink and source.
\<close>


section \<open>Reading and replaying\<close>

context sink
begin

lemma reader_ok:
  assumes v: "cbuf_is_valid cb" and len: "0 < len" and room: "room s (nat (min len (c_used cb)))"
  shows "\<exists>n s'. cbuf_reader cb len putf s = Some (n, s') \<and> n \<le> min len (c_used cb) \<and>
    out s' = out s @ take (nat n) (unread cb) \<and> cap s' = cap s"
proof -
  note f = valid_facts [OF v]
  define k where "k = min len (c_used cb)"
  show ?thesis
  proof (cases "k = 0")
    case True
    then have "cbuf_reader cb len putf s = Some (0, s)" using len unfolding cbuf_reader_def Let_def k_def [symmetric] by simp
    moreover have "0 \<le> min len (c_used cb)" using True by (simp add: k_def)
    ultimately show ?thesis by simp
  next
    case False
    have "0 \<le> k" using len f(5) by (simp add: k_def)
    with False have k: "0 < k" by simp
    have k: "0 < k" "k \<le> c_used cb" "k \<le> len" by (rule k, simp_all add: k_def)
    have room': "room s (nat k)" using room by (simp add: k_def)
    have idx: "0 \<le> c_i_out cb" "c_i_out cb \<le> c_size cb" using f(2) by (auto simp: indices_ok_def)
    have view: "view (c_data cb) (c_i_out cb + k) (nat k) = take (nat k) (unread cb)"
    proof -
      have "c_i_in cb mod (c_size cb + 1) = (c_i_out cb + c_used cb) mod (c_size cb + 1)"
        by (simp add: f(4) mod_simps)
      then have "unread cb = view (c_data cb) (c_i_out cb + c_used cb) (nat k + nat (c_used cb - k))"
        using k f(5) view_cong_mod [of "c_i_in cb" "c_data cb" "c_i_out cb + c_used cb"]
        by (simp add: unread_def f(9) flip: nat_add_distrib)
      moreover have "view (c_data cb) (c_i_out cb + c_used cb - int (nat (c_used cb - k))) (nat k) =
          view (c_data cb) (c_i_out cb + k) (nat k)" using k by simp
      ultimately show ?thesis by (metis view_take)
    qed
    from put_loop_ok [OF f(9) idx less_imp_le [OF k(1)] room', of 0, unfolded view]
    obtain nleft m s' where r: "put_loop putf cb k (c_i_out cb) 0 s = Some (nleft, m, s')" "0 \<le> nleft" "nleft \<le> k"
        "out s' = out s @ take (nat (k - nleft)) (take (nat k) (unread cb))" "cap s' = cap s" "nleft = k \<longrightarrow> m \<le> 0"
      using k(1) by blast
    show ?thesis
    proof (cases "nleft = k")
      case True
      then have "cbuf_reader cb len putf s = Some (m, s')"
        using len False r by (simp add: cbuf_reader_def flip: k_def)
      then show ?thesis using r True k unfolding k_def [symmetric] by auto
    next
      case nl: False
      then have "cbuf_reader cb len putf s = Some (k - nleft, s')"
        using len False r by (simp add: cbuf_reader_def flip: k_def)
      moreover have "take (nat (k - nleft)) (take (nat k) (unread cb)) = take (nat (k - nleft)) (unread cb)"
        using r by (simp add: min_absorb1)
      ultimately show ?thesis using r k unfolding k_def [symmetric] by auto
    qed
  qed
qed

text \<open>The replayed bytes are the most recent ones.\<close>

lemma replayer_ok:
  assumes v: "cbuf_is_valid cb" and len: "0 < len" and room: "room s (nat (min len (reused_bytes cb)))"
  defines "k \<equiv> min len (reused_bytes cb)"
  shows "\<exists>n s'. cbuf_replayer cb len putf s = Some (n, s') \<and> n \<le> k \<and>
    out s' = out s @ take (nat n) (drop (nat (reused_bytes cb - k)) (replayable cb)) \<and> cap s' = cap s"
proof -
  let ?N = "c_size cb + 1"
  note f = valid_facts [OF v]
  have r: "(c_i_out cb - c_i_rep cb + ?N) mod ?N = reused_bytes cb" by (simp only: reused_bytes_def)
  show ?thesis
  proof (cases "k = 0")
    case True
    then have "cbuf_replayer cb len putf s = Some (0, s)"
      using len unfolding cbuf_replayer_def r Let_def k_def [symmetric] by simp
    then show ?thesis using True by simp
  next
    case False
    have "0 \<le> k" using len f(7) by (simp add: k_def)
    with False have k: "0 < k" by simp
    have k: "0 < k" "k \<le> reused_bytes cb" by (rule k, simp add: k_def)
    have room': "room s (nat k)" using room by (simp add: k_def)
    let ?i = "(c_i_out cb - k + ?N) mod ?N"
    have idx: "0 \<le> ?i" "?i \<le> c_size cb" using f(3) pos_mod_bound [of ?N "c_i_out cb - k + ?N"] by simp_all
    have "view (c_data cb) (?i + k) (nat k) = view (c_data cb) (c_i_out cb) (nat k)"
      by (rule view_cong_mod) (simp add: f(9) mod_simps)
    also have "\<dots> = drop (nat (reused_bytes cb - k)) (replayable cb)"
      using view_drop [of "nat k" "nat (reused_bytes cb)" "c_data cb" "c_i_out cb"] k
      by (simp add: replayable_def nat_diff_distrib nat_mono)
    finally have view: "view (c_data cb) (?i + k) (nat k) = drop (nat (reused_bytes cb - k)) (replayable cb)" .
    from put_loop_ok [OF f(9) idx less_imp_le [OF k(1)] room', of 0, unfolded view]
    obtain nleft m s' where p: "put_loop putf cb k ?i 0 s = Some (nleft, m, s')" "0 \<le> nleft" "nleft \<le> k"
        "out s' = out s @ take (nat (k - nleft)) (drop (nat (reused_bytes cb - k)) (replayable cb))" "cap s' = cap s" "nleft = k \<longrightarrow> m \<le> 0"
      using k(1) by blast
    have rep: "cbuf_replayer cb len putf s = (if k - nleft = 0 then Some (m, s') else Some (k - nleft, s'))"
      using len False p unfolding cbuf_replayer_def r Let_def k_def [symmetric] by simp
    show ?thesis using p k rep by (cases "nleft = k") auto
  qed
qed

end

context full_sink
begin

lemma put_loop_full:
  "int (length (c_data cb)) = c_size cb + 1 \<Longrightarrow> 0 \<le> i \<Longrightarrow> i \<le> c_size cb \<Longrightarrow> 0 \<le> nleft \<Longrightarrow> room s (nat nleft) \<Longrightarrow>
    put_loop putf cb nleft i m s = Some (nleft', m', s') \<Longrightarrow> nleft' = 0"
proof (induction "nat nleft" arbitrary: nleft i m s rule: less_induct)
  case less
  let ?N = "c_size cb + 1"
  show ?case
  proof (cases "0 < nleft")
    case False
    then show ?thesis using less.prems by (subst (asm) put_loop.simps) simp
  next
    case True
    define n where "n = min nleft (?N - i)"
    have n: "0 < n" "n \<le> nleft" "i + n \<le> ?N" using True less.prems by (simp_all add: n_def)
    let ?bs = "view (c_data cb) (i + n) (nat n)"
    have block: "data_block cb i n = Some ?bs" using n less.prems by (intro data_block_view) simp_all
    have "length ?bs = nat n" "nat n > 0" using n by simp_all
    then have ne: "?bs \<noteq> []" by (metis list.size(3) less_irrefl)
    obtain m1 s1 where p: "putf ?bs s = Some (m1, s1)" "room s1 (nat nleft - nat m1)"
      using put_ok [OF less.prems(5) ne] n nat_mono [OF n(2)] by auto
    have m1: "m1 = n" using full [OF less.prems(5) ne _ p(1)] n nat_mono [OF n(2)] by simp
    have step: "put_loop putf cb nleft i m s = put_loop putf cb (nleft - n) ((i + n) mod ?N) n s1"
      using True m1 n by (subst put_loop.simps) (simp add: p block flip: n_def)
    have i: "0 \<le> (i + n) mod ?N" "(i + n) mod ?N \<le> c_size cb" using less.prems pos_mod_bound [of ?N "i + n"] by simp_all
    have room: "room s1 (nat (nleft - n))" using p(2) m1 n by (simp add: nat_diff_distrib)
    have "nat (nleft - n) < nat nleft" "0 \<le> nleft - n" using n True by simp_all
    from less.hyps [OF this(1) less.prems(1) i this(2) room] less.prems(6) show ?thesis unfolding step by blast
  qed
qed

lemma reader_full:
  assumes v: "cbuf_is_valid cb" and len: "0 < len" and room: "room s (nat (min len (c_used cb)))"
    and r: "cbuf_reader cb len putf s = Some (n, s')"
  shows "n = min len (c_used cb)"
proof -
  note f = valid_facts [OF v]
  define k where "k = min len (c_used cb)"
  have idx: "0 \<le> c_i_out cb" "c_i_out cb \<le> c_size cb" using f(2) by (auto simp: indices_ok_def)
  have k: "0 \<le> k" using len f by (simp add: k_def)
  have room': "room s (nat k)" using room by (simp add: k_def)
  obtain nleft m s1 where p: "put_loop putf cb k (c_i_out cb) 0 s = Some (nleft, m, s1)"
    using put_loop_ok [OF f(9) idx k room', of 0] by auto
  have "nleft = 0" by (rule put_loop_full [OF f(9) idx k room' p])
  then show ?thesis using r len p k unfolding cbuf_reader_def Let_def k_def [symmetric]
    by (auto split: if_splits)
qed

lemma replayer_full:
  assumes v: "cbuf_is_valid cb" and len: "0 < len" and room: "room s (nat (min len (reused_bytes cb)))"
    and r: "cbuf_replayer cb len putf s = Some (n, s')"
  shows "n = min len (reused_bytes cb)"
proof -
  let ?N = "c_size cb + 1"
  note f = valid_facts [OF v]
  define k where "k = min len (reused_bytes cb)"
  let ?i = "(c_i_out cb - k + ?N) mod ?N"
  have re: "(c_i_out cb - c_i_rep cb + ?N) mod ?N = reused_bytes cb" by (simp only: reused_bytes_def)
  have idx: "0 \<le> ?i" "?i \<le> c_size cb" using f(3) pos_mod_bound [of ?N "c_i_out cb - k + ?N"] by simp_all
  have k: "0 \<le> k" using len f by (simp add: k_def)
  have room': "room s (nat k)" using room by (simp add: k_def)
  obtain nleft m s1 where p: "put_loop putf cb k ?i 0 s = Some (nleft, m, s1)"
    using put_loop_ok [OF f(9) idx k room', of 0] by auto
  have "nleft = 0" by (rule put_loop_full [OF f(9) idx k room' p])
  then show ?thesis using r len p k unfolding cbuf_replayer_def re Let_def k_def [symmetric]
    by (auto split: if_splits)
qed

end


section \<open>Writing\<close>

definition keep_last :: "nat \<Rightarrow> 'b list \<Rightarrow> 'b list" where
  "keep_last k xs = drop (length xs - k) xs"

lemma keep_last_all [simp]: "length xs \<le> k \<Longrightarrow> keep_last k xs = xs"
  by (simp add: keep_last_def)

lemma length_keep_last [simp]: "length (keep_last k xs) = min k (length xs)"
  by (simp add: keep_last_def min_def)

lemma keep_last_append:
  "keep_last k (xs @ ys) = (if k \<le> length ys then keep_last k ys else keep_last (k - length ys) xs @ ys)"
  by (auto simp: keep_last_def)

lemma keep_last_keep_last: "keep_last k (xs @ keep_last k ys) = keep_last k (xs @ ys)"
  by (cases "length ys \<le> k") (auto simp: keep_last_append)

text \<open>The bytes \<open>bs\<close> were written: the buffer keeps as many of the most recent bytes as it can.\<close>

definition wrote :: "cbuf \<Rightarrow> byte list \<Rightarrow> cbuf \<Rightarrow> bool" where
  "wrote cb bs cb' \<longleftrightarrow> history cb' = keep_last (nat (c_size cb')) (history cb @ bs) \<and>
     c_used cb' = min (c_used cb + int (length bs)) (c_size cb') \<and>
     c_overwrite cb' = c_overwrite cb \<and> c_minsize cb' = c_minsize cb \<and> c_maxsize cb' = c_maxsize cb"

lemma wrote_unread:
  assumes v: "cbuf_is_valid cb" and v': "cbuf_is_valid cb'" and w: "wrote cb bs cb'"
  shows "unread cb' = keep_last (nat (c_size cb')) (unread cb @ bs)"
proof -
  let ?S = "nat (c_size cb')"
  note f = valid_facts [OF v] and f' = valid_facts [OF v']
  have h: "history cb' = keep_last ?S (replayable cb @ unread cb @ bs)"
    using w history_split [OF v] by (simp add: wrote_def)
  have "unread cb' = keep_last (nat (c_used cb')) (history cb')"
    using history_split [OF v'] f' by (simp add: keep_last_def nat_add_distrib)
  moreover have u: "nat (c_used cb') = min ?S (length (unread cb @ bs))"
    using w f(5) by (auto simp: wrote_def min_def)
  ultimately show ?thesis unfolding h u by (auto simp: keep_last_def min_def)
qed

lemma same_content_trans: "same_content a b \<Longrightarrow> same_content b c \<Longrightarrow> same_content a c"
  by (simp add: same_content_def)

lemma same_content_unread:
  assumes "cbuf_is_valid cb" and "cbuf_is_valid cb'" and "same_content cb cb'"
  shows "unread cb' = unread cb" and "replayable cb' = replayable cb"
proof -
  have "replayable cb' @ unread cb' = replayable cb @ unread cb"
    using history_split [OF assms(1)] history_split [OF assms(2)] assms(3) by (simp add: same_content_def)
  moreover have "length (replayable cb') = length (replayable cb)" using assms(3) by (simp add: same_content_def)
  ultimately show "unread cb' = unread cb" and "replayable cb' = replayable cb"
    using append_eq_append_conv by blast+
qed

lemma wrote_none: "cbuf_is_valid cb' \<Longrightarrow> same_content cb cb' \<Longrightarrow> wrote cb [] cb'"
  using valid_facts [of cb'] by (auto simp: wrote_def same_content_def min_def)

lemma wrote_same: "same_content cb cb1 \<Longrightarrow> wrote cb1 bs cb' \<Longrightarrow> wrote cb bs cb'"
  by (simp add: wrote_def same_content_def)

lemma make_room_ok:
  assumes v: "cbuf_is_valid cb" and lim: "roomy cb len"
  shows "\<exists>cb1. make_room mem cb len = Some (c_size cb1 - c_used cb1, cb1) \<and> cbuf_is_valid cb1 \<and> same_content cb cb1 \<and>
    c_size cb \<le> c_size cb1 \<and> ((\<forall>m. mem m \<noteq> None) \<longrightarrow> min (c_used cb + len) (c_maxsize cb) \<le> c_size cb1)"
proof (cases "len > c_size cb - c_used cb \<and> c_size cb < c_maxsize cb")
  case False
  moreover have "c_size cb \<le> c_maxsize cb" using valid_facts(1) [OF v] by (simp add: sizes_ok_def)
  ultimately show ?thesis using v by (auto simp: make_room_def Let_def)
next
  case True
  then have "0 < len - (c_size cb - c_used cb)" by simp
  moreover have "roomy cb (len - (c_size cb - c_used cb))" using valid_facts(6) [OF v] by (intro roomy_less [OF lim]) simp
  ultimately have "0 < len - (c_size cb - c_used cb)" "roomy cb (len - (c_size cb - c_used cb))" by blast+
  from grow_ok [OF v this, of mem] obtain g cb1 where
    "cbuf_grow mem cb (len - (c_size cb - c_used cb)) = Some (g, cb1)" "g = c_size cb1 - c_size cb" "0 \<le> g"
    "cbuf_is_valid cb1" "same_content cb cb1"
    "(\<forall>m. mem m \<noteq> None) \<longrightarrow> min (len - (c_size cb - c_used cb)) (c_maxsize cb - c_size cb) \<le> g" by blast
  then show ?thesis using True by (auto simp: make_room_def Let_def same_content_def)
qed

text \<open>Bytes stored at \<^verbatim>\<open>i_in\<close>, then the metadata.\<close>

lemma advance_written:
  assumes v: "cbuf_is_valid cb" and bs: "bs \<noteq> []" and lim: "int (length bs) \<le> size_limit"
  shows "\<exists>cb'. cbuf_advance (cb\<lparr>c_data := put_cells (c_data cb) (c_i_in cb) bs\<rparr>) (int (length bs)) (c_size cb - c_used cb)
      ((c_i_in cb + int (length bs)) mod (c_size cb + 1)) = Some cb' \<and>
    cbuf_is_valid cb' \<and> wrote cb bs cb' \<and> c_size cb' = c_size cb"
proof -
  let ?ds = "put_cells (c_data cb) (c_i_in cb) bs" and ?n = "int (length bs)"
  note f = valid_facts [OF v]
  have n: "0 < ?n" using bs by simp
  from advance_ok [OF v n lim, of ?ds] obtain cb' where
    a: "cbuf_advance (cb\<lparr>c_data := ?ds\<rparr>) ?n (c_size cb - c_used cb) ((c_i_in cb + ?n) mod (c_size cb + 1)) = Some cb'"
      "cbuf_is_valid cb'" "c_data cb' = ?ds" "c_i_in cb' = (c_i_in cb + ?n) mod (c_size cb + 1)"
      "c_used cb' = min (c_used cb + ?n) (c_size cb)"
      "reused_bytes cb' + c_used cb' = min (reused_bytes cb + c_used cb + ?n) (c_size cb)"
      "c_size cb' = c_size cb" "c_minsize cb' = c_minsize cb" "c_maxsize cb' = c_maxsize cb" "c_overwrite cb' = c_overwrite cb"
    by auto
  define h where "h = nat (reused_bytes cb + c_used cb)"
  define k where "k = nat (reused_bytes cb' + c_used cb')"
  have h: "h \<le> length (c_data cb)" "int h = reused_bytes cb + c_used cb" using f by (simp_all add: h_def)
  have k: "k \<le> length (c_data cb)" "k \<le> h + length bs" "k = min (nat (c_size cb)) (h + length bs)"
    using a(6) f h by (simp_all add: k_def)
  have "history cb' = view ?ds (c_i_in cb + ?n) k"
    unfolding history_def a(3) k_def [symmetric] by (rule view_cong_mod) (simp add: a(4) f(9))
  also have "\<dots> = drop (h + length bs - k) (history cb @ bs)"
    using view_put_cells [OF h(1) k(1,2)] by (simp only: history_def h_def)
  also have "\<dots> = keep_last (nat (c_size cb')) (history cb @ bs)"
    by (simp add: keep_last_def k(3) a(7) h_def min_def)
  finally show ?thesis using a by (auto simp: wrote_def)
qed

definition accepted :: "cbuf \<Rightarrow> int \<Rightarrow> int" where
  "accepted cb len = (if c_overwrite cb = CBUF_NO_DROP then min len (c_size cb - c_used cb)
     else if c_overwrite cb = CBUF_WRAP_ONCE then min len (c_size cb) else len)"

lemma accepted_bounds:
  assumes v: "cbuf_is_valid cb" and len: "0 < len"
  shows "0 \<le> accepted cb len" and "accepted cb len \<le> len" and "c_overwrite cb \<noteq> CBUF_NO_DROP \<Longrightarrow> 0 < accepted cb len"
  using valid_facts [OF v] len by (auto simp: accepted_def)

context source
begin

lemma writer_ok:
  assumes v: "cbuf_is_valid cb" and lim: "roomy cb len" and len: "0 < len" and room: "room s (nat len)"
    and room_le: "\<And>k. k \<le> nat len \<Longrightarrow> room s k"
  shows "\<exists>n s' nd' cb1 cb' bs. cbuf_writer mem cb len getf s nd = Some (n, s', nd', cb') \<and>
    cbuf_is_valid cb1 \<and> same_content cb cb1 \<and> cbuf_is_valid cb' \<and> wrote cb bs cb' \<and> c_size cb' = c_size cb1 \<and>
    make_room mem cb len = Some (c_size cb1 - c_used cb1, cb1) \<and>
    int (length bs) \<le> accepted cb1 len \<and> del s s' bs \<and>
    (if bs = [] then n \<le> 0 else n = int (length bs) \<and> nd' = map_option (\<lambda>_. max 0 (n - (c_size cb1 - c_used cb1))) nd) \<and>
    (accepted cb1 len = 0 \<longrightarrow> n = -1)"
proof -
  obtain cb1 where r: "make_room mem cb len = Some (c_size cb1 - c_used cb1, cb1)" and v1: "cbuf_is_valid cb1"
    and same: "same_content cb cb1" using make_room_ok [OF v lim] by blast
  note f = valid_facts [OF v1] and acc = accepted_bounds [OF v1 len]
  let ?a = "accepted cb1 len"
  have idx: "0 \<le> c_i_in cb1" "c_i_in cb1 \<le> c_size cb1" using f(2) by (auto simp: indices_ok_def)
  show ?thesis
  proof (cases "?a = 0")
    case True
    then have "c_overwrite cb1 = CBUF_NO_DROP" using acc(3) by force
    then have "cbuf_writer mem cb len getf s nd = Some (-1, s, nd, cb1)"
      using len r True by (simp add: cbuf_writer_def Let_def accepted_def)
    then show ?thesis using r v1 same True del_refl [of s] wrote_none [OF v1 same] by auto
  next
    case False
    have "room s (nat ?a)" using acc by (intro room_le) (simp add: nat_mono)
    from get_loop_ok [OF f(9) idx acc(1) this, of 0] False acc(1) obtain m s' bs where
      g: "get_loop getf cb1 ?a (c_i_in cb1) 0 (c_data cb1) s = Some (?a - int (length bs),
        (c_i_in cb1 + int (length bs)) mod (c_size cb1 + 1), m, put_cells (c_data cb1) (c_i_in cb1) bs, s')"
        "0 \<le> ?a - int (length bs)" "del s s' bs" "bs = [] \<longrightarrow> m \<le> 0" by auto
    have no: "\<not> (c_overwrite cb1 = CBUF_NO_DROP \<and> ?a = 0)" using False by simp
    have w: "cbuf_writer mem cb len getf s nd = (if bs = [] then Some (m, s', nd, cb1)
        else do { dst \<leftarrow> cbuf_advance (cb1\<lparr>c_data := put_cells (c_data cb1) (c_i_in cb1) bs\<rparr>) (int (length bs))
            (c_size cb1 - c_used cb1) ((c_i_in cb1 + int (length bs)) mod (c_size cb1 + 1));
          Some (int (length bs), s', map_option (\<lambda>_. max 0 (int (length bs) - (c_size cb1 - c_used cb1))) nd, dst) })"
      using len no g unfolding cbuf_writer_def Let_def r accepted_def [symmetric]
      by (auto simp: r accepted_def [symmetric] split: if_splits)
    show ?thesis
    proof (cases "bs = []")
      case True
      then show ?thesis using w r v1 same g False wrote_none [OF v1 same] by auto
    next
      case ne: False
      have "int (length bs) \<le> size_limit" using g(2) acc(2) roomy_len [OF lim] by simp
      then obtain cb' where a: "cbuf_advance (cb1\<lparr>c_data := put_cells (c_data cb1) (c_i_in cb1) bs\<rparr>) (int (length bs))
          (c_size cb1 - c_used cb1) ((c_i_in cb1 + int (length bs)) mod (c_size cb1 + 1)) = Some cb'"
          "cbuf_is_valid cb'" "wrote cb1 bs cb'" "c_size cb' = c_size cb1"
        using advance_written [OF v1 ne] by blast
      have "wrote cb bs cb'" by (rule wrote_same [OF same a(3)])
      then show ?thesis using w ne a r v1 same g False by auto
    qed
  qed
qed

end

end
