(* ===== verification/Cbuf_Copy.thy ===== *)
theory Cbuf_Copy
  imports Cbuf_Movers
begin

text \<open>
  Copying between two buffers: the loop of \<^verbatim>\<open>cbuf_copier\<close> wraps around both arrays independently.
\<close>

lemma copy_loop_ok:
  "int (length (c_data src)) = c_size src + 1 \<Longrightarrow> 0 \<le> i \<Longrightarrow> i \<le> c_size src \<Longrightarrow>
    int (length ds) = c_size dst + 1 \<Longrightarrow> 0 \<le> j \<Longrightarrow> j \<le> c_size dst \<Longrightarrow> 0 \<le> n \<Longrightarrow>
    copy_loop src dst n i j ds =
      Some ((j + n) mod (c_size dst + 1), put_cells ds j (view (c_data src) (i + n) (nat n)))"
proof (induction "nat n" arbitrary: n i j ds rule: less_induct)
  case less
  let ?S = "c_size src + 1" and ?D = "c_size dst + 1" and ?bytes = "c_data src"
  show ?case
  proof (cases "0 < n")
    case False
    then have "n = 0" using less.prems by simp
    then show ?thesis using less.prems by (subst copy_loop.simps) simp
  next
    case True
    define k where "k = min (min (?S - i) (?D - j)) n"
    have k: "0 < k" "k \<le> n" "i + k \<le> ?S" "j + k \<le> ?D" using True less.prems by (simp_all add: k_def)
    let ?bs = "view ?bytes (i + k) (nat k)"
    have block: "data_block src i k = Some ?bs" using k less.prems by (intro data_block_view) simp_all
    have store: "store_block j ?bs ds = Some (put_cells ds j ?bs)" using k less.prems by (intro store_block_cells) simp_all
    let ?i = "(i + k) mod ?S" and ?j = "(j + k) mod ?D"
    have step: "copy_loop src dst n i j ds = copy_loop src dst (n - k) ?i ?j (put_cells ds j ?bs)"
      using True by (subst copy_loop.simps) (simp add: Let_def block store flip: k_def)
    have idx: "0 \<le> ?i" "?i \<le> c_size src" "0 \<le> ?j" "?j \<le> c_size dst"
      using less.prems pos_mod_bound [of ?S "i + k"] pos_mod_bound [of ?D "j + k"] by simp_all
    have "nat (n - k) < nat n" "0 \<le> n - k" "int (length (put_cells ds j ?bs)) = ?D" using k True less.prems by simp_all
    from less.hyps [OF this(1) less.prems(1) idx(1,2) this(3) idx(3,4) this(2)]
    have ih: "copy_loop src dst (n - k) ?i ?j (put_cells ds j ?bs) =
      Some ((?j + (n - k)) mod ?D, put_cells (put_cells ds j ?bs) ?j (view ?bytes (?i + (n - k)) (nat (n - k))))" .
    have "view ?bytes (?i + (n - k)) m = view ?bytes (i + n) m" for m
      by (rule view_cong_mod) (simp add: less.prems(1) mod_simps)
    moreover have "put_cells (put_cells ds j ?bs) ?j cs = put_cells ds j (?bs @ cs)" for cs
      using put_cells_mod [of "put_cells ds j ?bs" "j + k" cs] less.prems(4) k by (simp add: put_cells_append)
    moreover have "view ?bytes (i + n) (nat n) = ?bs @ view ?bytes (i + n) (nat (n - k))"
      using view_append [of ?bytes "i + n" "nat k" "nat (n - k)"] k by (simp add: nat_diff_distrib)
    moreover have "(?j + (n - k)) mod ?D = (j + n) mod ?D" by (simp add: mod_simps)
    ultimately show ?thesis unfolding step ih by simp
  qed
qed

lemma unread_at:
  assumes v: "cbuf_is_valid cb" and k: "0 \<le> k" "0 \<le> n" "k + n \<le> c_used cb"
  shows "view (c_data cb) ((c_i_out cb + k) mod (c_size cb + 1) + n) (nat n) = take (nat n) (drop (nat k) (unread cb))"
proof -
  note f = valid_facts [OF v]
  let ?N = "c_size cb + 1" and ?ds = "c_data cb"
  have "unread cb = view ?ds (c_i_out cb + c_used cb) (nat (c_used cb))"
    unfolding unread_def by (rule view_cong_mod) (simp add: f(9) f(4) mod_simps)
  then have "drop (nat k) (unread cb) = view ?ds (c_i_out cb + c_used cb) (nat (c_used cb - k))"
    using view_drop [of "nat (c_used cb - k)" "nat (c_used cb)" ?ds "c_i_out cb + c_used cb"] k
    by (simp add: nat_diff_distrib)
  also have "nat (c_used cb - k) = nat n + nat (c_used cb - k - n)" using k by simp
  finally have "take (nat n) (drop (nat k) (unread cb)) =
      view ?ds (c_i_out cb + c_used cb - int (nat (c_used cb - k - n))) (nat n)"
    using view_take [of ?ds "c_i_out cb + c_used cb" "nat (c_used cb - k - n)" "nat n"] by simp
  also have "c_i_out cb + c_used cb - int (nat (c_used cb - k - n)) = c_i_out cb + k + n" using k by simp
  also have "view ?ds (c_i_out cb + k + n) (nat n) = view ?ds ((c_i_out cb + k) mod ?N + n) (nat n)"
    by (rule view_cong_mod) (simp add: f(9) mod_simps)
  finally show ?thesis by simp
qed

text \<open>Only the bytes that will survive are copied, but the effect is that of writing all of them.\<close>

lemma copier_ok:
  assumes vs: "cbuf_is_valid src" and vd: "cbuf_is_valid dst" and len: "0 < len" and used: "0 < c_used src"
    and lim: "roomy dst (min len (c_used src))"
  shows "\<exists>n nd' dst1 dst'. cbuf_copier mem src dst len nd = Some (n, nd', dst') \<and>
    cbuf_is_valid dst1 \<and> same_content dst dst1 \<and> make_room mem dst (min len (c_used src)) = Some (c_size dst1 - c_used dst1, dst1) \<and>
    cbuf_is_valid dst' \<and> c_size dst' = c_size dst1 \<and>
    (if accepted dst1 (min len (c_used src)) = 0 then n = -1 \<and> dst' = dst1
     else n = accepted dst1 (min len (c_used src)) \<and> wrote dst (take (nat n) (unread src)) dst' \<and>
       nd' = map_option (\<lambda>_. max 0 (n - c_size dst1 + c_used dst1)) nd)"
proof -
  define k where "k = min len (c_used src)"
  have k: "0 < k" "k \<le> c_used src" using len used by (simp_all add: k_def)
  obtain dst1 where r: "make_room mem dst k = Some (c_size dst1 - c_used dst1, dst1)" and v1: "cbuf_is_valid dst1"
    and same: "same_content dst dst1" using make_room_ok [OF vd lim] unfolding k_def by blast
  note f = valid_facts [OF v1] and fs = valid_facts [OF vs] and acc = accepted_bounds [OF v1 k(1)]
  define a where "a = accepted dst1 k"
  have idx: "0 \<le> c_i_in dst1" "c_i_in dst1 \<le> c_size dst1" "0 \<le> c_i_out src" "c_i_out src \<le> c_size src"
    using f(2) fs(2) by (auto simp: indices_ok_def)
  show ?thesis
  proof (cases "a = 0")
    case True
    then have "c_overwrite dst1 = CBUF_NO_DROP" using acc(3) by (force simp: a_def)
    then have "cbuf_copier mem src dst len nd = Some (-1, nd, dst1)"
      using len r True k unfolding cbuf_copier_def Let_def k_def [symmetric] a_def accepted_def by simp
    then show ?thesis using r v1 same True unfolding k_def [symmetric] a_def by auto
  next
    case False
    have a: "0 < a" "a \<le> c_used src" using acc k False by (simp_all add: a_def)
    let ?S = "c_size dst1"
    define skip where "skip = (if a > ?S then a - ?S else 0)"
    define m where "m = a - skip"
    have m: "0 < m" "0 \<le> skip" "skip + m = a" "m = min a ?S" using a f(3) by (auto simp: m_def skip_def)
    define i where "i = (c_i_out src + skip) mod (c_size src + 1)"
    have i: "0 \<le> i" "i \<le> c_size src" using fs(3) pos_mod_bound [of "c_size src + 1" "c_i_out src + skip"] by (simp_all add: i_def)
    define bs where "bs = take (nat m) (drop (nat skip) (unread src))"
    have "nat m \<le> nat (c_used src) - nat skip" using m(1-3) a by linarith
    then have len_bs: "int (length bs) = m" using m(1) by (simp add: bs_def)
    have view: "view (c_data src) (i + m) (nat m) = bs"
      unfolding i_def bs_def using m a by (intro unread_at [OF vs]) simp_all
    have loop: "copy_loop src dst1 m i (c_i_in dst1) (c_data dst1) =
        Some ((c_i_in dst1 + m) mod (?S + 1), put_cells (c_data dst1) (c_i_in dst1) bs)"
      using copy_loop_ok [OF fs(9) i f(9) idx(1,2), of m] m view by simp
    have "bs \<noteq> []" "int (length bs) \<le> size_limit"
      using len_bs m acc(2) roomy_len [OF lim] by (auto simp: a_def k_def min_le_iff_disj)
    from advance_written [OF v1 this] obtain dst' where
      adv: "cbuf_advance (dst1\<lparr>c_data := put_cells (c_data dst1) (c_i_in dst1) bs\<rparr>) m (?S - c_used dst1)
        ((c_i_in dst1 + m) mod (?S + 1)) = Some dst'"
      and d: "cbuf_is_valid dst'" "wrote dst1 bs dst'" "c_size dst' = ?S"
      unfolding len_bs by blast
    have no: "\<not> (c_overwrite dst1 = CBUF_NO_DROP \<and> a = 0)" using False by simp
    have copy: "cbuf_copier mem src dst len nd = Some (a, map_option (\<lambda>_. max 0 (a - ?S + c_used dst1)) nd, dst')"
    proof (cases "a > ?S")
      case True
      then have mi: "m = ?S" "i = (c_i_out src + (a - ?S)) mod (c_size src + 1)" by (simp_all add: m_def skip_def i_def)
      show ?thesis
        using len k no m(1) True loop adv unfolding cbuf_copier_def Let_def k_def [symmetric] mi
        by (simp add: r accepted_def [symmetric] a_def [symmetric])
    next
      case not_over: False
      then have mi: "m = a" "i = c_i_out src" using idx by (simp_all add: m_def skip_def i_def)
      show ?thesis
        using len k no m(1) not_over loop adv unfolding cbuf_copier_def Let_def k_def [symmetric] mi
        by (simp add: r accepted_def [symmetric] a_def [symmetric])
    qed
    have "bs = keep_last (nat ?S) (take (nat a) (unread src))"
    proof -
      have "take (nat a) (unread src) = take (nat skip) (unread src) @ bs"
        using m a by (simp add: bs_def take_add [symmetric] nat_add_distrib [symmetric])
      moreover have "length (take (nat a) (unread src)) - nat ?S = nat skip"
        using a f(3) by (auto simp: skip_def min_def)
      moreover have "length (take (nat skip) (unread src)) = nat skip" using m a by simp
      ultimately show ?thesis by (simp add: keep_last_def)
    qed
    moreover have "min (c_used dst1 + int (length bs)) ?S = min (c_used dst1 + int (length (take (nat a) (unread src)))) ?S"
      using len_bs m a f(5) by (auto simp: min_def)
    ultimately have "wrote dst1 (take (nat a) (unread src)) dst'"
      using d(2,3) unfolding wrote_def by (simp add: keep_last_keep_last)
    then have "wrote dst (take (nat a) (unread src)) dst'" by (rule wrote_same [OF same])
    moreover have "accepted dst1 k = a" by (simp add: a_def)
    ultimately show ?thesis using copy r v1 same d False unfolding k_def [symmetric] by auto
  qed
qed

end
