(* ===== verification/Cbuf_Lines.thy ===== *)
theory Cbuf_Lines
  imports Cbuf_Copy
begin

text \<open>
  Searching lines: the two loops of \<^verbatim>\<open>cbuf.c\<close> as scans of the unread bytes and of the bytes that can be
  replayed, and what the scans find.
\<close>


section \<open>The scan of the unread bytes\<close>

fun scan :: "byte list \<Rightarrow> int \<Rightarrow> int \<Rightarrow> int \<Rightarrow> int \<Rightarrow> int \<Rightarrow> int \<times> int \<times> int" where
  "scan [] n m l chars lines = (m, l, lines)"
| "scan (d # ds) n m l chars lines =
     (if (if chars > 0 then chars - 1 else chars) = 0 \<or> (if d = newline \<and> lines > 0 then lines - 1 else lines) = 0
      then (if d = newline then n + 1 else m, if d = newline then l + 1 else l,
        if d = newline \<and> lines > 0 then lines - 1 else lines)
      else scan ds (n + 1) (if d = newline then n + 1 else m) (if d = newline then l + 1 else l)
        (if chars > 0 then chars - 1 else chars) (if d = newline \<and> lines > 0 then lines - 1 else lines))"

lemma view_single: "view ds (p + 1) 1 = [ds ! nat (p mod int (length ds))]"
  using view_Suc [of ds p 0] by simp

lemma data_at_unread:
  assumes v: "cbuf_is_valid cb" and k: "k < nat (c_used cb)"
  shows "data_at cb ((c_i_out cb + int k) mod (c_size cb + 1)) = Some (unread cb ! k)"
proof -
  note f = valid_facts [OF v]
  let ?p = "(c_i_out cb + int k) mod (c_size cb + 1)"
  have p: "0 \<le> ?p" "?p < c_size cb + 1" using f(3) by (simp, intro pos_mod_bound, simp)
  have "view (c_data cb) (?p + 1) 1 = take 1 (drop k (unread cb))"
    using unread_at [OF v, of "int k" 1] k by simp
  also have "\<dots> = [unread cb ! k]" using k by (simp add: take_Suc_conv_app_nth)
  finally have "c_data cb ! nat ?p = unread cb ! k" using view_single [of "c_data cb" ?p] f(9) by simp
  then show ?thesis using p f(9) by (simp add: data_at_def nat_less_iff)
qed

lemma unread_index:
  assumes v: "cbuf_is_valid cb" and k: "k \<le> nat (c_used cb)"
  shows "(c_i_out cb + int k) mod (c_size cb + 1) = c_i_in cb \<longleftrightarrow> k = nat (c_used cb)"
proof -
  note f = valid_facts [OF v]
  let ?N = "c_size cb + 1"
  have in_mod: "(c_i_out cb + c_used cb) mod ?N = c_i_in cb"
    using f(2) by (simp add: f(4) mod_simps indices_ok_def)
  show ?thesis
  proof
    assume "(c_i_out cb + int k) mod ?N = c_i_in cb"
    then have "(c_i_out cb + int k) mod ?N = (c_i_out cb + c_used cb) mod ?N" using in_mod by simp
    then have "?N dvd (c_i_out cb + c_used cb) - (c_i_out cb + int k)" by (metis mod_eq_dvd_iff)
    then have "?N dvd c_used cb - int k" by simp
    moreover have "0 \<le> c_used cb - int k" "c_used cb - int k < ?N" using k f(5,6) by linarith+
    ultimately have "c_used cb - int k = 0" using zdvd_not_zless [of "c_used cb - int k" ?N] by linarith
    then show "k = nat (c_used cb)" by simp
  qed (use in_mod f(5) in simp)
qed

lemma unread_loop_scan:
  assumes v: "cbuf_is_valid cb"
  shows "k \<le> nat (c_used cb) \<Longrightarrow>
    unread_loop cb ((c_i_out cb + int k) mod (c_size cb + 1)) n m l chars lines =
      Some (scan (drop k (unread cb)) n m l chars lines)"
proof (induction "nat (c_used cb) - k" arbitrary: k n m l chars lines)
  case 0
  then have "k = nat (c_used cb)" by simp
  then show ?case using unread_index [OF v, of k] by (subst unread_loop.simps) simp
next
  case (Suc d)
  then have k: "k < nat (c_used cb)" by simp
  have ne: "(c_i_out cb + int k) mod (c_size cb + 1) \<noteq> c_i_in cb" using unread_index [OF v, of k] k by auto
  have drop: "drop k (unread cb) = unread cb ! k # drop (Suc k) (unread cb)" using k by (simp add: Cons_nth_drop_Suc)
  have next_i: "((c_i_out cb + int k) mod (c_size cb + 1) + 1) mod (c_size cb + 1) = (c_i_out cb + int (Suc k)) mod (c_size cb + 1)"
    by (simp add: mod_simps algebra_simps)
  have "d = nat (c_used cb) - Suc k" "Suc k \<le> nat (c_used cb)" using Suc(2) k by simp_all
  note ih = Suc(1) [OF this]
  show ?case
    unfolding drop scan.simps
    by (subst unread_loop.simps) (simp add: ne data_at_unread [OF v k] next_i ih del: of_nat_Suc)
qed

lemma scan_bounds:
  "0 \<le> m \<Longrightarrow> m \<le> n \<Longrightarrow> 0 \<le> fst (scan ds n m l chars lines) \<and> fst (scan ds n m l chars lines) \<le> n + int (length ds)"
proof (induction ds arbitrary: n m l chars lines)
  case (Cons d ds)
  have "0 \<le> (if d = newline then n + 1 else m)" "(if d = newline then n + 1 else m) \<le> n + 1" using Cons.prems by auto
  note ih = Cons.IH [OF this]
  show ?case
    using Cons.prems ih [of "if d = newline then l + 1 else l" "if chars > 0 then chars - 1 else chars"
        "if d = newline \<and> lines > 0 then lines - 1 else lines"]
    unfolding scan.simps length_Cons of_nat_Suc by (cases "d = newline") auto
qed simp

text \<open>Full lines in front of the rest.\<close>

definition text_lines :: "byte list list \<Rightarrow> byte list" where
  "text_lines ls = concat (map (\<lambda>x. x @ [newline]) ls)"

lemma text_lines_simps [simp]:
  "text_lines [] = []" "text_lines (x # ls) = x @ newline # text_lines ls"
  by (simp_all add: text_lines_def)

lemma scan_plain:
  "newline \<notin> set xs \<Longrightarrow> chars < 0 \<Longrightarrow> 0 < lines \<Longrightarrow>
    scan (xs @ ys) n m l chars lines = scan ys (n + int (length xs)) m l chars lines"
proof (induction xs arbitrary: n)
  case (Cons x xs)
  then show ?case by (auto simp: algebra_simps)
qed simp

lemma scan_lines:
  "\<forall>x\<in>set ls. newline \<notin> set x \<Longrightarrow> chars < 0 \<Longrightarrow> ls \<noteq> [] \<Longrightarrow>
    scan (text_lines ls @ rest) n m l chars (int (length ls)) =
      (n + int (length (text_lines ls)), l + int (length ls), 0)"
proof (induction ls arbitrary: n m l)
  case (Cons x ls)
  show ?case
  proof (cases "ls = []")
    case True
    then show ?thesis using Cons.prems scan_plain [of x chars 1 "newline # rest" n m l] by simp
  next
    case False
    have "scan (text_lines (x # ls) @ rest) n m l chars (int (length (x # ls))) =
        scan (newline # text_lines ls @ rest) (n + int (length x)) m l chars (int (length (x # ls)))"
      using scan_plain [of x chars "int (length (x # ls))" "newline # text_lines ls @ rest" n m l] Cons.prems by simp
    also have "\<dots> = scan (text_lines ls @ rest) (n + int (length x) + 1) (n + int (length x) + 1) (l + 1) chars (int (length ls))"
      using Cons.prems False by simp
    finally show ?thesis using Cons.IH [of "n + int (length x) + 1"] Cons.prems False by (simp add: algebra_simps)
  qed
qed simp

lemma scan_few:
  "chars < 0 \<Longrightarrow> int (count_list ds newline) < lines \<Longrightarrow> 0 < snd (snd (scan ds n m l chars lines))"
proof (induction ds arbitrary: n m l lines)
  case (Cons d ds)
  show ?case
  proof (cases "d = newline")
    case True
    then have "lines \<noteq> 1" using Cons.prems by auto
    then show ?thesis using True Cons.prems Cons.IH [of "lines - 1"] by auto
  next
    case False
    then show ?thesis using Cons.prems Cons.IH [of lines] by auto
  qed
qed simp

lemma find_unread_scan:
  assumes v: "cbuf_is_valid cb" and lines: "-1 \<le> lines" "lines \<noteq> 0" and used: "0 < c_used cb"
    and chars: "lines = -1 \<longrightarrow> 0 < chars"
  shows "cbuf_find_unread_line cb chars lines =
    (case scan (unread cb) 0 0 0 (if lines > 0 then -1 else chars) lines of
      (m, l, left) \<Rightarrow> if left > 0 then Some (0, 0) else Some (m, l))"
proof -
  have "c_i_out cb mod (c_size cb + 1) = c_i_out cb" using valid_facts(2) [OF v] by (simp add: indices_ok_def)
  then have "unread_loop cb (c_i_out cb) n m l c k = Some (scan (unread cb) n m l c k)" for n m l c k
    using unread_loop_scan [OF v, of 0] by simp
  moreover have "(lines \<le> -1 \<and> chars \<le> 0) = False" using lines chars by auto
  ultimately show ?thesis using lines(2) used
    unfolding cbuf_find_unread_line_def Let_def assertC_True [OF lines(1)]
    by (cases "lines \<le> - 1") (simp_all split: prod.split)
qed

lemma find_unread_ok:
  assumes v: "cbuf_is_valid cb" and lines: "-1 \<le> lines"
  shows "\<exists>n k. cbuf_find_unread_line cb chars lines = Some (n, k) \<and> 0 \<le> n \<and> n \<le> c_used cb"
proof (cases "lines = 0 \<or> (lines = -1 \<and> chars \<le> 0) \<or> c_used cb = 0")
  case True
  then show ?thesis using lines valid_facts(5) [OF v] by (auto simp: cbuf_find_unread_line_def)
next
  case False
  then have "0 < c_used cb" using valid_facts(5) [OF v] by linarith
  from find_unread_scan [OF v lines _ this, of chars] False
  have s: "cbuf_find_unread_line cb chars lines =
    (case scan (unread cb) 0 0 0 (if lines > 0 then -1 else chars) lines of
      (m, l, left) \<Rightarrow> if left > 0 then Some (0, 0) else Some (m, l))" by auto
  obtain m l left where r: "scan (unread cb) 0 0 0 (if lines > 0 then -1 else chars) lines = (m, l, left)"
    using prod_cases3 by blast
  have "0 \<le> m" "m \<le> c_used cb"
    using scan_bounds [of 0 0 "unread cb" 0 "if lines > 0 then -1 else chars" lines] r valid_facts(5) [OF v] by auto
  then show ?thesis using s r \<open>0 < c_used cb\<close> by auto
qed

text \<open>Asked for some full lines, the search finds exactly them, or nothing if there are too few.\<close>

lemma find_unread_lines:
  assumes v: "cbuf_is_valid cb" and u: "unread cb = text_lines ls @ rest" and ls: "ls \<noteq> []" "\<forall>x\<in>set ls. newline \<notin> set x"
  shows "cbuf_find_unread_line cb chars (int (length ls)) = Some (int (length (text_lines ls)), int (length ls))"
proof -
  have "text_lines ls \<noteq> []" using ls by (cases ls) auto
  then have "unread cb \<noteq> []" using u by simp
  then have "0 < c_used cb" by (metis length_unread length_0_conv nat_0_iff not_le)
  from find_unread_scan [OF v _ _ this, of "int (length ls)" chars] scan_lines [OF ls(2) _ ls(1), of "-1" rest 0 0 0]
  show ?thesis using ls u by simp
qed

lemma find_unread_few:
  assumes v: "cbuf_is_valid cb" and few: "int (count_list (unread cb) newline) < lines"
  shows "cbuf_find_unread_line cb chars lines = Some (0, 0)"
proof (cases "c_used cb = 0")
  case True
  then show ?thesis using few by (simp add: cbuf_find_unread_line_def)
next
  case False
  then have used: "0 < c_used cb" using valid_facts(5) [OF v] by linarith
  obtain m l left where r: "scan (unread cb) 0 0 0 (-1) lines = (m, l, left)" using prod_cases3 by blast
  then have "0 < left" using scan_few [of "-1" "unread cb" lines 0 0 0] few by simp
  moreover have "0 < lines" using few by simp
  ultimately show ?thesis using find_unread_scan [OF v _ _ used, of lines chars] r by simp
qed


section \<open>The scan of the replayable bytes, backwards\<close>

fun rscan :: "byte list \<Rightarrow> int \<Rightarrow> int \<Rightarrow> int \<Rightarrow> int \<Rightarrow> int \<Rightarrow> int \<times> int \<times> int \<times> int \<times> int" where
  "rscan [] n m l chars lines = (n, m, l, chars, lines)"
| "rscan (d # ds) n m l chars lines =
     (if (if chars > 0 then chars - 1 else chars) = 0 \<or> (if d = newline \<and> lines > 0 then lines - 1 else lines) = 0
      then (n + 1, if d = newline then n else m, if d = newline then l + 1 else l,
        if chars > 0 then chars - 1 else chars, if d = newline \<and> lines > 0 then lines - 1 else lines)
      else rscan ds (n + 1) (if d = newline then n else m) (if d = newline then l + 1 else l)
        (if chars > 0 then chars - 1 else chars) (if d = newline \<and> lines > 0 then lines - 1 else lines))"

lemma rscan_bounds:
  "0 \<le> m \<Longrightarrow> m \<le> n \<Longrightarrow> rscan ds n m l chars lines = (n', m', l', chars', lines') \<Longrightarrow>
    0 \<le> m' \<and> m' \<le> n' \<and> n' \<le> n + int (length ds)"
proof (induction ds arbitrary: n m l chars lines)
  case (Cons d ds)
  have "0 \<le> (if d = newline then n else m)" "(if d = newline then n else m) \<le> n + 1" using Cons.prems by auto
  note ih = Cons.IH [OF this]
  show ?case using Cons.prems ih by (fastforce split: if_splits)
qed simp

lemma replay_index:
  assumes v: "cbuf_is_valid cb" and k: "int k \<le> reused_bytes cb"
  shows "(c_i_out cb - int k) mod (c_size cb + 1) = c_i_rep cb \<longleftrightarrow> int k = reused_bytes cb"
proof -
  note f = valid_facts [OF v]
  let ?N = "c_size cb + 1"
  have rep: "(c_i_out cb - reused_bytes cb) mod ?N = c_i_rep cb"
    using f(2) by (simp add: reused_eq mod_simps indices_ok_def)
  show ?thesis
  proof
    assume "(c_i_out cb - int k) mod ?N = c_i_rep cb"
    then have "(c_i_out cb - int k) mod ?N = (c_i_out cb - reused_bytes cb) mod ?N" using rep by simp
    then have "?N dvd (c_i_out cb - int k) - (c_i_out cb - reused_bytes cb)" by (metis mod_eq_dvd_iff)
    then have "?N dvd reused_bytes cb - int k" by simp
    moreover have "0 \<le> reused_bytes cb - int k" "reused_bytes cb - int k < ?N" using k f by linarith+
    ultimately have "reused_bytes cb - int k = 0" using zdvd_not_zless [of "reused_bytes cb - int k" ?N] by linarith
    then show "int k = reused_bytes cb" by simp
  qed (use rep in simp)
qed

lemma data_at_replay:
  assumes v: "cbuf_is_valid cb" and k: "int k < reused_bytes cb"
  shows "data_at cb (((c_i_out cb - int k) mod (c_size cb + 1) + c_size cb) mod (c_size cb + 1)) = Some (rev (replayable cb) ! k)"
proof -
  note f = valid_facts [OF v]
  let ?N = "c_size cb + 1" and ?ds = "c_data cb"
  let ?p = "((c_i_out cb - int k) mod ?N + c_size cb) mod ?N"
  have p: "0 \<le> ?p" "?p < ?N" using f(3) by (simp, intro pos_mod_bound, simp)
  have "?p = (c_i_out cb - int k - 1 + ?N) mod ?N" by (simp add: mod_simps algebra_simps)
  then have pm: "?p = (c_i_out cb - int k - 1) mod ?N" by (simp only: add_modulus_mod)
  let ?r = "nat (reused_bytes cb)"
  have r: "k < ?r" using k by simp
  have "replayable cb ! (?r - Suc k) = ?ds ! nat ((c_i_out cb - int ?r + int (?r - Suc k)) mod ?N)"
    using r by (simp add: replayable_def view_def f(9))
  also have "c_i_out cb - int ?r + int (?r - Suc k) = c_i_out cb - int k - 1" using r by simp
  finally have "rev (replayable cb) ! k = ?ds ! nat ?p" using r by (simp add: rev_nth pm)
  then show ?thesis using p f(9) by (simp add: data_at_def nat_less_iff)
qed

lemma replay_loop_scan:
  assumes v: "cbuf_is_valid cb"
  shows "int k \<le> reused_bytes cb \<Longrightarrow>
    replay_loop cb ((c_i_out cb - int k) mod (c_size cb + 1)) n m l chars lines =
      Some (rscan (drop k (rev (replayable cb))) n m l chars lines)"
proof (induction "nat (reused_bytes cb) - k" arbitrary: k n m l chars lines)
  case 0
  then have "int k = reused_bytes cb" by simp
  then show ?case using replay_index [OF v, of k] by (subst replay_loop.simps) simp
next
  case (Suc d)
  then have k: "int k < reused_bytes cb" by simp
  have ne: "(c_i_out cb - int k) mod (c_size cb + 1) \<noteq> c_i_rep cb" using replay_index [OF v, of k] k by auto
  have drop: "drop k (rev (replayable cb)) = rev (replayable cb) ! k # drop (Suc k) (rev (replayable cb))"
    using k by (simp add: Cons_nth_drop_Suc)
  have "((c_i_out cb - int k) mod (c_size cb + 1) + c_size cb) mod (c_size cb + 1) =
      (c_i_out cb - int (Suc k) + (c_size cb + 1)) mod (c_size cb + 1)"
    by (simp add: mod_simps algebra_simps)
  then have next_i: "((c_i_out cb - int k) mod (c_size cb + 1) + c_size cb) mod (c_size cb + 1) =
      (c_i_out cb - int (Suc k)) mod (c_size cb + 1)"
    by (simp only: add_modulus_mod)
  have "d = nat (reused_bytes cb) - Suc k" "int (Suc k) \<le> reused_bytes cb" using Suc(2) k by simp_all
  note ih = Suc(1) [OF this]
  have data: "data_at cb ((c_i_out cb - int (Suc k)) mod (c_size cb + 1)) = Some (rev (replayable cb) ! k)"
    using data_at_replay [OF v k] unfolding next_i .
  show ?case
    unfolding drop rscan.simps
    by (subst replay_loop.simps) (simp add: ne next_i data ih del: of_nat_Suc)
qed

lemma find_replay_ok:
  assumes v: "cbuf_is_valid cb" and lines: "-1 \<le> lines" "in_int (lines + 1)" and chars: "in_int (chars + 1)"
  shows "\<exists>n k nl. cbuf_find_replay_line cb chars lines = Some (n, k, nl) \<and> 0 \<le> n \<and> n \<le> reused_bytes cb \<and> (nl = 0 \<or> nl = 1)"
proof -
  note f = valid_facts [OF v]
  have out: "c_i_out cb mod (c_size cb + 1) = c_i_out cb" using f(2) by (simp add: indices_ok_def)
  show ?thesis
  proof (cases "lines = 0 \<or> (lines = -1 \<and> chars \<le> 0) \<or> c_i_out cb = c_i_rep cb")
    case True
    then show ?thesis using lines f(7) by (auto simp: cbuf_find_replay_line_def)
  next
    case False
    then have "reused_bytes cb \<noteq> 0" using replay_index [OF v, of 0] f(7) out by auto
    then have r: "0 < reused_bytes cb" using f(7) by linarith
    have d: "data_at cb ((c_i_out cb + c_size cb) mod (c_size cb + 1)) = Some (rev (replayable cb) ! 0)"
      using data_at_replay [OF v, of 0] r out by simp
    have loop: "replay_loop cb (c_i_out cb) 0 0 l c k = Some (rscan (rev (replayable cb)) 0 0 l c k)" for l c k
      using replay_loop_scan [OF v, of 0] out f(7) by simp
    have len: "int (length (rev (replayable cb))) = reused_bytes cb" using f(7) by simp
    have not_early: "\<not> (lines = 0 \<or> lines \<le> -1 \<and> chars \<le> 0)" using False lines by auto
    define c where "c = (if lines > 0 then -1 else chars + 1)"
    define nl where "nl = (if rev (replayable cb) ! 0 \<noteq> newline then 1 else 0 :: int)"
    define c1 where "c1 = (if rev (replayable cb) ! 0 \<noteq> newline then c - 1 else c)"
    define k1 where "k1 = (if rev (replayable cb) ! 0 \<noteq> newline then lines else if lines > 0 then lines + 1 else lines)"
    define l1 where "l1 = (if rev (replayable cb) ! 0 \<noteq> newline then 0 else -1 :: int)"
    obtain n m l ch k where s: "rscan (rev (replayable cb)) 0 0 l1 c1 k1 = (n, m, l, ch, k)"
      using prod_cases5 by blast
    have b: "0 \<le> m" "m \<le> n" "n \<le> reused_bytes cb" using rscan_bounds [OF _ _ s] len by auto
    have "cbuf_find_replay_line cb chars lines =
        (let (m, l, k) = (if \<not> c_got_wrap cb \<and> (ch > 0 \<or> k > 0) then (n, l + 1, if k > 0 then k - 1 else k) else (m, l, k))
         in if k > 0 then Some (0, 0, nl) else Some (m, l, nl))"
      using lines chars not_early False d loop s
      by (simp add: cbuf_find_replay_line_def nl_def c1_def k1_def l1_def c_def Let_def split: if_splits)
    then show ?thesis using b f(7) by (auto simp: nl_def split: if_splits)
  qed
qed

end
