(* ===== verification/Cbuf_Effects.thy ===== *)
theory Cbuf_Effects
  imports Cbuf_Lines
begin

text \<open>
  The calls of \<^verbatim>\<open>cbuf.h\<close> on a valid buffer: what they return and what the buffer holds afterwards.
\<close>


section \<open>Memory that delivers everything\<close>

context full_source
begin

lemma get_loop_full:
  "int (length ds) = c_size cb + 1 \<Longrightarrow> 0 \<le> i \<Longrightarrow> i \<le> c_size cb \<Longrightarrow> 0 \<le> nleft \<Longrightarrow> room s (nat nleft) \<Longrightarrow>
    get_loop getf cb nleft i m ds s = Some (nleft', i', m', ds', s') \<Longrightarrow> nleft' = 0"
proof (induction "nat nleft" arbitrary: nleft i m ds s rule: less_induct)
  case less
  let ?N = "c_size cb + 1"
  show ?case
  proof (cases "0 < nleft")
    case False
    then show ?thesis using less.prems by (subst (asm) get_loop.simps) simp
  next
    case True
    define n where "n = min nleft (?N - i)"
    have n: "0 < n" "n \<le> nleft" "i + n \<le> ?N" using True less.prems by (simp_all add: n_def)
    have pos: "0 < nat n" "nat n \<le> nat nleft" using n nat_mono by auto
    obtain m1 bs s1 where g: "getf (nat n) s = Some (m1, bs, s1)" "length bs = nat m1" "room s1 (nat nleft - nat m1)"
      using get_ok [OF less.prems(5) pos] by auto
    have m1: "m1 = n" using full [OF less.prems(5) pos g(1)] n by simp
    have store: "store_block i bs ds = Some (put_cells ds i bs)"
      using g(2) m1 n less.prems by (intro store_block_cells) simp_all
    have step: "get_loop getf cb nleft i m ds s = get_loop getf cb (nleft - n) ((i + n) mod ?N) n (put_cells ds i bs) s1"
      using True m1 n by (subst get_loop.simps) (simp add: g(1) store flip: n_def)
    have i: "0 \<le> (i + n) mod ?N" "(i + n) mod ?N \<le> c_size cb" using less.prems pos_mod_bound [of ?N "i + n"] by simp_all
    have room: "room s1 (nat (nleft - n))" using g(3) m1 n by (simp add: nat_diff_distrib)
    have "nat (nleft - n) < nat nleft" "0 \<le> nleft - n" "int (length (put_cells ds i bs)) = ?N" using n True less.prems by simp_all
    from less.hyps [OF this(1) this(3) i this(2) room] less.prems(6) show ?thesis unfolding step by blast
  qed
qed

lemma writer_full:
  assumes v1: "cbuf_is_valid cb1" and len: "0 < len" and room: "room s (nat (accepted cb1 len))"
    and r: "make_room mem cb len = Some (c_size cb1 - c_used cb1, cb1)" and a: "accepted cb1 len \<noteq> 0"
    and w: "cbuf_writer mem cb len getf s nd = Some (n, s', nd', cb')"
  shows "n = accepted cb1 len"
proof -
  note f = valid_facts [OF v1] and acc = accepted_bounds [OF v1 len]
  have idx: "0 \<le> c_i_in cb1" "c_i_in cb1 \<le> c_size cb1" using f(2) by (auto simp: indices_ok_def)
  from get_loop_ok [OF f(9) idx acc(1) room, of 0] obtain nleft m s1 i ds where
    g: "get_loop getf cb1 (accepted cb1 len) (c_i_in cb1) 0 (c_data cb1) s = Some (nleft, i, m, ds, s1)" by blast
  have "nleft = 0" by (rule get_loop_full [OF f(9) idx acc(1) room g])
  with g have g: "get_loop getf cb1 (accepted cb1 len) (c_i_in cb1) 0 (c_data cb1) s = Some (0, i, m, ds, s1)" by simp
  have no: "\<not> (c_overwrite cb1 = CBUF_NO_DROP \<and> accepted cb1 len = 0)" using a by simp
  show ?thesis using w len no a acc(1) g unfolding cbuf_writer_def Let_def
    by (auto simp: r accepted_def [symmetric] bind_eq_Some_conv split: if_splits)
qed

end

lemma mem_writer:
  assumes v: "cbuf_is_valid cb" and lim: "roomy cb len" and len: "0 < len" "nat len \<le> length src"
  shows "\<exists>n nd' cb1 cb'. cbuf_writer mem cb len cbuf_get_mem src nd = Some (n, drop (nat n) src, nd', cb') \<and>
    cbuf_is_valid cb1 \<and> same_content cb cb1 \<and> make_room mem cb len = Some (c_size cb1 - c_used cb1, cb1) \<and>
    cbuf_is_valid cb' \<and> c_size cb' = c_size cb1 \<and>
    n = (if accepted cb1 len = 0 then -1 else accepted cb1 len) \<and> wrote cb (take (nat n) src) cb' \<and>
    (accepted cb1 len \<noteq> 0 \<longrightarrow> nd' = map_option (\<lambda>_. max 0 (n - (c_size cb1 - c_used cb1))) nd)"
proof -
  have room: "mem_holds src k" if "k \<le> nat len" for k using that len by (simp add: mem_holds_def)
  obtain n s' nd' cb1 cb' bs where w: "cbuf_writer mem cb len cbuf_get_mem src nd = Some (n, s', nd', cb')"
    and r: "cbuf_is_valid cb1" "same_content cb cb1" "cbuf_is_valid cb'" "wrote cb bs cb'" "c_size cb' = c_size cb1"
      "make_room mem cb len = Some (c_size cb1 - c_used cb1, cb1)" "int (length bs) \<le> accepted cb1 len" "mem_del src s' bs"
      "if bs = [] then n \<le> 0 else n = int (length bs) \<and> nd' = map_option (\<lambda>_. max 0 (n - (c_size cb1 - c_used cb1))) nd"
      "accepted cb1 len = 0 \<longrightarrow> n = -1"
    using mem_source.writer_ok [OF v lim len(1) room [OF order_refl] room, of mem nd] by blast
  note acc = accepted_bounds [OF r(1) len(1)]
  show ?thesis
  proof (cases "accepted cb1 len = 0")
    case True
    then have "bs = []" "n = -1" using r(7,10) by auto
    then show ?thesis using w r True by (auto simp: mem_del_def)
  next
    case False
    have "n = accepted cb1 len"
      by (rule mem_source.writer_full [OF r(1) len(1) _ r(6) False w]) (use acc in \<open>auto intro!: room nat_mono\<close>)
    moreover from this have "bs \<noteq> []" using r(9) acc(1) False by (auto split: if_splits)
    ultimately have "n = int (length bs)" "src = bs @ s'" using r(8,9) by (auto simp: mem_del_def)
    then show ?thesis using w r False \<open>n = accepted cb1 len\<close> \<open>bs \<noteq> []\<close> by auto
  qed
qed

lemma mem_reader:
  assumes v: "cbuf_is_valid cb" and len: "0 < len" "nat len \<le> length mem"
  shows "\<exists>mem' off. cbuf_reader cb len cbuf_put_mem (mem, 0) = Some (min len (c_used cb), mem', off) \<and>
    length mem' = length mem \<and> take (nat (min len (c_used cb))) mem' = take (nat (min len (c_used cb))) (unread cb)"
proof -
  note f = valid_facts [OF v]
  let ?k = "min len (c_used cb)"
  have room: "mem_room (mem, 0) (nat ?k)" using len nat_mono [of ?k len] by (simp add: mem_room_def)
  obtain n mem' off where r: "cbuf_reader cb len cbuf_put_mem (mem, 0) = Some (n, mem', off)"
    "mem_out (mem', off) = mem_out (mem, 0) @ take (nat n) (unread cb)" "mem_cap (mem', off) = mem_cap (mem, 0)"
    using mem_sink.reader_ok [OF v len(1) room] by auto
  have n: "n = ?k" by (rule mem_sink.reader_full [OF v len(1) room r(1)])
  have off: "take off mem' = take (nat n) (unread cb)" using r(2) by (simp add: mem_out_def)
  then have "min off (length mem') = nat n" using n f(5) len(1) by (metis length_take length_unread min.absorb2 min.cobounded2 min.commute nat_mono)
  then have "take (nat n) mem' = take (nat n) (unread cb)" using off by (metis take_take take_all min.cobounded2 min.commute nle_le)
  then show ?thesis using r n by (simp add: mem_cap_def)
qed

lemma mem_replayer:
  assumes v: "cbuf_is_valid cb" and len: "0 < len" "nat len \<le> length mem"
  defines "k \<equiv> min len (reused_bytes cb)"
  shows "\<exists>mem' off. cbuf_replayer cb len cbuf_put_mem (mem, 0) = Some (k, mem', off) \<and>
    length mem' = length mem \<and> take (nat k) mem' = drop (nat (reused_bytes cb - k)) (replayable cb)"
proof -
  note f = valid_facts [OF v]
  have room: "mem_room (mem, 0) (nat (min len (reused_bytes cb)))"
    using len nat_mono [of "min len (reused_bytes cb)" len] by (simp add: mem_room_def)
  obtain n mem' off where r: "cbuf_replayer cb len cbuf_put_mem (mem, 0) = Some (n, mem', off)"
    "mem_out (mem', off) = mem_out (mem, 0) @ take (nat n) (drop (nat (reused_bytes cb - k)) (replayable cb))"
    "mem_cap (mem', off) = mem_cap (mem, 0)"
    using mem_sink.replayer_ok [OF v len(1) room] unfolding k_def by auto
  have n: "n = k" unfolding k_def by (rule mem_sink.replayer_full [OF v len(1) room r(1)])
  have k: "0 \<le> k" "k \<le> reused_bytes cb" using len(1) f(7) by (auto simp: k_def)
  have all: "take (nat k) (drop (nat (reused_bytes cb - k)) (replayable cb)) = drop (nat (reused_bytes cb - k)) (replayable cb)"
    using k by (simp add: nat_diff_distrib)
  have off: "take off mem' = drop (nat (reused_bytes cb - k)) (replayable cb)" using r(2) by (simp add: mem_out_def n all)
  then have "length (take off mem') = nat k" using k by (simp add: nat_diff_distrib)
  then have "take (nat k) mem' = take off mem'" by (metis length_take take_take min.commute min.idem take_all nle_le min.absorb1 min.absorb2)
  then show ?thesis using r n off by (simp add: mem_cap_def)
qed



section \<open>Bytes\<close>

text \<open>The first \<open>n\<close> unread bytes became replayable; everything else is as it was.\<close>

definition taken :: "cbuf \<Rightarrow> int \<Rightarrow> cbuf \<Rightarrow> bool" where
  "taken cb n cb' \<longleftrightarrow> cbuf_is_valid cb' \<and> history cb' = history cb \<and> unread cb' = drop (nat n) (unread cb) \<and>
     c_size cb' = c_size cb \<and> c_overwrite cb' = c_overwrite cb \<and> c_minsize cb' = c_minsize cb \<and> c_maxsize cb' = c_maxsize cb \<and>
     c_used cb' = c_used cb - n"

lemma taken_0: "cbuf_is_valid cb \<Longrightarrow> taken cb 0 cb"
  by (simp add: taken_def)

lemma dropper_taken:
  assumes v: "cbuf_is_valid cb" and n: "0 \<le> n" "n \<le> c_used cb"
  shows "\<exists>cb'. (if n > 0 then map_option snd (cbuf_dropper cb n) else Some cb) = Some cb' \<and> taken cb n cb'"
proof (cases "n = 0")
  case True
  then show ?thesis using taken_0 [OF v] by simp
next
  case False
  then have "0 < n" using n by simp
  then show ?thesis using drop_valid [OF v n] dropper_ok [OF v _ n(2)] by (simp add: taken_def)
qed

lemma flush_ok:
  assumes v: "cbuf_is_valid cb"
  shows "\<exists>cb'. cbuf_flush cb = Some cb' \<and> cbuf_is_valid cb' \<and> history cb' = [] \<and> unread cb' = [] \<and>
    c_minsize cb' = c_minsize cb \<and> c_maxsize cb' = c_maxsize cb"
proof -
  note f = valid_facts [OF v]
  let ?cb = "cb\<lparr>c_used := 0, c_got_wrap := False, c_i_in := 0, c_i_out := 0, c_i_rep := 0\<rparr>"
  have "cbuf_is_valid ?cb"
    by (rule validI) (use f in \<open>simp_all add: sizes_ok_def indices_ok_def reused_eq\<close>)
  then show ?thesis using v
    by (simp add: cbuf_flush_def history_def unread_def reused_eq)
qed

lemma opt_set_ok:
  assumes v: "cbuf_is_valid cb"
  shows "\<exists>rc cb'. cbuf_opt_set cb name value = Some (rc, cb') \<and> cbuf_is_valid cb' \<and> unread cb' = unread cb \<and> history cb' = history cb \<and>
    c_minsize cb' = c_minsize cb \<and> c_maxsize cb' = c_maxsize cb"
proof -
  have "cbuf_is_valid (cb\<lparr>c_overwrite := x\<rparr>)" for x using v by (simp add: cbuf_is_valid_def)
  moreover have "unread (cb\<lparr>c_overwrite := x\<rparr>) = unread cb" "history (cb\<lparr>c_overwrite := x\<rparr>) = history cb" for x
    by (simp_all add: unread_def history_def reused_eq)
  ultimately show ?thesis using v by (simp add: cbuf_opt_set_def)
qed

lemma drop_call:
  assumes v: "cbuf_is_valid cb" and len: "-1 \<le> len"
  defines "n \<equiv> if len = -1 then c_used cb else min len (c_used cb)"
  shows "\<exists>cb'. cbuf_drop cb len = Some (n, cb') \<and> taken cb n cb'"
proof (cases "len = 0")
  case True
  then show ?thesis using valid_facts(5) [OF v] taken_0 [OF v] by (simp add: cbuf_drop_def n_def)
next
  case False
  have n: "0 \<le> n" "n \<le> c_used cb" using len False valid_facts(5) [OF v] by (auto simp: n_def)
  from dropper_taken [OF v n] obtain cb' where
    d: "(if n > 0 then map_option snd (cbuf_dropper cb n) else Some cb) = Some cb'" "taken cb n cb'" by blast
  then have "cbuf_is_valid cb'" by (simp add: taken_def)
  then show ?thesis using False len v d unfolding cbuf_drop_def n_def [symmetric] Let_def by simp
qed

lemma read_call:
  assumes v: "cbuf_is_valid cb" and len: "0 \<le> len" "nat len \<le> length mem"
  defines "n \<equiv> min len (c_used cb)"
  shows "\<exists>mem' cb'. cbuf_read cb (Some mem) len = Some (n, Some mem', cb') \<and> taken cb n cb' \<and>
    cbuf_peek cb (Some mem) len = Some (n, Some mem') \<and>
    length mem' = length mem \<and> take (nat n) mem' = take (nat n) (unread cb)"
proof (cases "len = 0")
  case True
  then show ?thesis using valid_facts(5) [OF v] taken_0 [OF v] by (simp add: cbuf_read_def cbuf_peek_def n_def)
next
  case False
  then have pos: "0 < len" using len by simp
  from mem_reader [OF v pos len(2)] obtain mem' off where
    r: "cbuf_reader cb len cbuf_put_mem (mem, 0) = Some (n, mem', off)" "length mem' = length mem"
      "take (nat n) mem' = take (nat n) (unread cb)" unfolding n_def by blast
  have n: "0 \<le> n" "n \<le> c_used cb" using pos valid_facts(5) [OF v] by (auto simp: n_def)
  from dropper_taken [OF v n] obtain cb' where
    d: "(if n > 0 then map_option snd (cbuf_dropper cb n) else Some cb) = Some cb'" "taken cb n cb'" by blast
  then have "cbuf_is_valid cb'" by (simp add: taken_def)
  then show ?thesis using pos v r d by (simp add: cbuf_read_def cbuf_peek_def)
qed

lemma replay_call:
  assumes v: "cbuf_is_valid cb" and len: "0 \<le> len" "nat len \<le> length mem"
  defines "n \<equiv> min len (reused_bytes cb)"
  shows "\<exists>mem'. cbuf_replay cb (Some mem) len = Some (n, Some mem') \<and>
    length mem' = length mem \<and> take (nat n) mem' = drop (nat (reused_bytes cb - n)) (replayable cb)"
proof (cases "len = 0")
  case True
  then show ?thesis using valid_facts(7) [OF v] by (simp add: cbuf_replay_def n_def)
next
  case False
  then have pos: "0 < len" using len by simp
  from mem_replayer [OF v pos len(2)] obtain mem' off where
    r: "cbuf_replayer cb len cbuf_put_mem (mem, 0) = Some (n, mem', off)" "length mem' = length mem"
      "take (nat n) mem' = drop (nat (reused_bytes cb - n)) (replayable cb)" unfolding n_def by blast
  then show ?thesis using pos v by (simp add: cbuf_replay_def)
qed

text \<open>The last \<open>n\<close> replayable bytes became unread again.\<close>

definition untaken :: "cbuf \<Rightarrow> int \<Rightarrow> cbuf \<Rightarrow> bool" where
  "untaken cb n cb' \<longleftrightarrow> cbuf_is_valid cb' \<and> history cb' = history cb \<and>
     unread cb' = drop (nat (reused_bytes cb - n)) (replayable cb) @ unread cb \<and> c_used cb' = c_used cb + n \<and>
     c_size cb' = c_size cb \<and> c_overwrite cb' = c_overwrite cb \<and> c_minsize cb' = c_minsize cb \<and> c_maxsize cb' = c_maxsize cb"

lemma rewind_untaken:
  assumes v: "cbuf_is_valid cb" and n: "0 \<le> n" "n \<le> reused_bytes cb"
  defines "cb' \<equiv> if n > 0 then cb\<lparr>c_used := c_used cb + n, c_i_out := (c_i_out cb - n + (c_size cb + 1)) mod (c_size cb + 1)\<rparr> else cb"
  shows "untaken cb n cb'"
proof (cases "n = 0")
  case True
  moreover have "drop (nat (reused_bytes cb)) (replayable cb) = []" by simp
  ultimately show ?thesis using v by (simp add: untaken_def cb'_def)
next
  case False
  then have cb': "cb' = cb\<lparr>c_used := c_used cb + n, c_i_out := (c_i_out cb - n + (c_size cb + 1)) mod (c_size cb + 1)\<rparr>"
    using n by (simp add: cb'_def)
  note r = rewind_valid [OF v n, folded cb']
  have "unread cb' = drop (nat (reused_bytes cb - n)) (replayable cb @ unread cb)"
    unfolding unread_history [OF r(1)] r(2,3) history_split [OF v] ..
  moreover have "nat (reused_bytes cb - n) \<le> length (replayable cb)" using n by (simp add: nat_mono)
  ultimately show ?thesis using r by (simp add: untaken_def cb')
qed

lemma rewind_call:
  assumes v: "cbuf_is_valid cb" and len: "-1 \<le> len"
  defines "n \<equiv> if len = -1 then reused_bytes cb else min len (reused_bytes cb)"
  shows "\<exists>cb'. cbuf_rewind cb len = Some (n, cb') \<and> untaken cb n cb'"
proof (cases "len = 0")
  case True
  then have "n = 0" using valid_facts(7) [OF v] by (simp add: n_def)
  then show ?thesis using True rewind_untaken [OF v, of 0] valid_facts(7) [OF v] by (simp add: cbuf_rewind_def)
next
  case False
  have n: "0 \<le> n" "n \<le> reused_bytes cb" using len False valid_facts(7) [OF v] by (auto simp: n_def)
  note u = rewind_untaken [OF v n]
  then have "cbuf_is_valid (if n > 0 then cb\<lparr>c_used := c_used cb + n, c_i_out := (c_i_out cb - n + (c_size cb + 1)) mod (c_size cb + 1)\<rparr> else cb)"
    by (simp only: untaken_def)
  then show ?thesis
    using False len v u unfolding cbuf_rewind_def reused_bytes_def [symmetric] Let_def n_def [symmetric] by simp
qed

lemma write_call:
  assumes v: "cbuf_is_valid cb" and lim: "roomy cb len" and len: "0 < len" "nat len \<le> length src"
  shows "\<exists>n nd' cb1 cb'. cbuf_write mem cb (Some src) len nd = Some (n, nd', cb') \<and>
    cbuf_is_valid cb1 \<and> same_content cb cb1 \<and> make_room mem cb len = Some (c_size cb1 - c_used cb1, cb1) \<and>
    cbuf_is_valid cb' \<and> c_size cb' = c_size cb1 \<and>
    n = (if accepted cb1 len = 0 then -1 else accepted cb1 len) \<and> wrote cb (take (nat n) src) cb' \<and>
    (accepted cb1 len \<noteq> 0 \<longrightarrow> nd' = map_option (\<lambda>_. max 0 (n - (c_size cb1 - c_used cb1))) nd)"
proof -
  let ?nd = "map_option (\<lambda>_. 0 :: int) nd"
  from mem_writer [OF v lim len, of mem ?nd] obtain n nd' cb1 cb' where
    w: "cbuf_writer mem cb len cbuf_get_mem src ?nd = Some (n, drop (nat n) src, nd', cb')"
    and r: "cbuf_is_valid cb1" "same_content cb cb1" "make_room mem cb len = Some (c_size cb1 - c_used cb1, cb1)"
      "cbuf_is_valid cb'" "c_size cb' = c_size cb1"
      "n = (if accepted cb1 len = 0 then -1 else accepted cb1 len)" "wrote cb (take (nat n) src) cb'"
      "accepted cb1 len \<noteq> 0 \<longrightarrow> nd' = map_option (\<lambda>_. max 0 (n - (c_size cb1 - c_used cb1))) ?nd" by metis
  have "cbuf_write mem cb (Some src) len nd = Some (n, nd', cb')"
    using v len w r(4) by (simp add: cbuf_write_def Let_def)
  moreover have "map_option (\<lambda>_. c) ?nd = map_option (\<lambda>_. c) nd" for c by (cases nd) simp_all
  ultimately show ?thesis using r by metis
qed

end
