(* ===== verification/Cbuf_Linecalls.thy ===== *)
theory Cbuf_Linecalls
  imports Cbuf_Effects
begin

text \<open>
  The calls of \<^verbatim>\<open>cbuf.h\<close> that work by lines, and those through file descriptors.
\<close>


section \<open>Taking lines\<close>

lemma drop_line_call:
  assumes v: "cbuf_is_valid cb" and a: "0 \<le> len" "-1 \<le> lines" "lines \<noteq> 0"
  shows "\<exists>n k cb'. cbuf_find_unread_line cb len lines = Some (n, k) \<and> cbuf_drop_line cb len lines = Some (n, cb') \<and>
    0 \<le> n \<and> taken cb n cb'"
proof -
  obtain n k where s: "cbuf_find_unread_line cb len lines = Some (n, k)" "0 \<le> n" "n \<le> c_used cb"
    using find_unread_ok [OF v a(2)] by blast
  from dropper_taken [OF v s(2,3)] obtain cb' where
    d: "(if n > 0 then map_option snd (cbuf_dropper cb n) else Some cb) = Some cb'" "taken cb n cb'" by blast
  then have "cbuf_is_valid cb'" by (simp add: taken_def)
  then show ?thesis using v a s d by (auto simp: cbuf_drop_line_def)
qed

text \<open>The caller gets the bytes, cut to what fits, and a terminator.\<close>

lemma copy_line_ok:
  assumes v: "cbuf_is_valid cb" and n: "0 < n" "n \<le> c_used cb" and len: "0 < len" "nat len \<le> length mem"
  shows "\<exists>mem'. copy_line cb n len mem = Some mem' \<and> length mem' = length mem \<and>
    take (nat (min n (len - 1)) + 1) mem' = take (nat (min n (len - 1))) (unread cb) @ [0]"
proof -
  define m where "m = min n (len - 1)"
  have m: "0 \<le> m" "m < len" "m \<le> c_used cb" using n len by (auto simp: m_def)
  have "\<exists>mem1. (if m > 0 then do { (l, mem, off) \<leftarrow> cbuf_reader cb m cbuf_put_mem (mem, 0); assertC (l = m); Some mem }
      else Some mem) = Some mem1 \<and> length mem1 = length mem \<and> take (nat m) mem1 = take (nat m) (unread cb)"
  proof (cases "m = 0")
    case False
    then have pos: "0 < m" "nat m \<le> length mem" using m len by auto
    have "min m (c_used cb) = m" using m by simp
    with mem_reader [OF v pos] show ?thesis using pos by auto
  qed simp
  then obtain mem1 where r: "(if m > 0 then do { (l, mem, off) \<leftarrow> cbuf_reader cb m cbuf_put_mem (mem, 0); assertC (l = m); Some mem }
      else Some mem) = Some mem1" "length mem1 = length mem" "take (nat m) mem1 = take (nat m) (unread cb)" by blast
  have fit: "nat m + length [0 :: byte] \<le> length mem1" using m len r(2) by simp
  have "store_block m [0] mem1 = Some (memcpy_at (nat m) [0] mem1)" using fit m by (simp add: store_block_def)
  moreover have "take (nat m + 1) (memcpy_at (nat m) [0] mem1) = take (nat m) (unread cb) @ [0]"
    using take_memcpy_at [OF fit] r(3) by simp
  ultimately show ?thesis using len m r length_memcpy_at [OF fit]
    unfolding copy_line_def m_def [symmetric] Let_def by auto
qed

lemma read_line_call:
  assumes v: "cbuf_is_valid cb" and a: "0 \<le> len" "-1 \<le> lines" "lines \<noteq> 0" "nat len \<le> length mem"
  shows "\<exists>n k mem' cb'. cbuf_find_unread_line cb (len - 1) lines = Some (n, k) \<and>
    cbuf_read_line cb (Some mem) len lines = Some (n, Some mem', cb') \<and>
    cbuf_peek_line cb (Some mem) len lines = Some (n, Some mem') \<and> 0 \<le> n \<and> taken cb n cb' \<and> length mem' = length mem \<and>
    (0 < n \<and> 0 < len \<longrightarrow> take (nat (min n (len - 1)) + 1) mem' = take (nat (min n (len - 1))) (unread cb) @ [0])"
proof -
  obtain n k where s: "cbuf_find_unread_line cb (len - 1) lines = Some (n, k)" "0 \<le> n" "n \<le> c_used cb"
    using find_unread_ok [OF v a(2)] by blast
  from dropper_taken [OF v s(2,3)] obtain cb' where
    d: "(if n > 0 then map_option snd (cbuf_dropper cb n) else Some cb) = Some cb'" "taken cb n cb'" by blast
  then have v': "cbuf_is_valid cb'" by (simp add: taken_def)
  have "\<exists>mem'. (if n > 0 then copy_line cb n len mem else Some mem) = Some mem' \<and> length mem' = length mem \<and>
      (0 < n \<and> 0 < len \<longrightarrow> take (nat (min n (len - 1)) + 1) mem' = take (nat (min n (len - 1))) (unread cb) @ [0])"
  proof (cases "0 < n \<and> 0 < len")
    case True
    then show ?thesis using copy_line_ok [OF v _ s(3) _ a(4)] by auto
  next
    case False
    then show ?thesis using a(1) by (auto simp: copy_line_def)
  qed
  then obtain mem' where c: "(if n > 0 then copy_line cb n len mem else Some mem) = Some mem'" "length mem' = length mem"
    "0 < n \<and> 0 < len \<longrightarrow> take (nat (min n (len - 1)) + 1) mem' = take (nat (min n (len - 1))) (unread cb) @ [0]" by blast
  have "cbuf_read_line cb (Some mem) len lines = Some (n, Some mem', cb')"
    using v v' a s c(1) d(1) by (simp add: cbuf_read_line_def)
  moreover have "cbuf_peek_line cb (Some mem) len lines = Some (n, Some mem')"
    using v a s c(1) by (simp add: cbuf_peek_line_def)
  ultimately show ?thesis using s d c by blast
qed

lemma rewind_line_call:
  assumes v: "cbuf_is_valid cb" and a: "0 \<le> len" "-1 \<le> lines" "lines \<noteq> 0" and lim: "in_int (lines + 1)" "in_int (len + 1)"
  shows "\<exists>n cb'. cbuf_rewind_line cb len lines = Some (n, cb') \<and> 0 \<le> n \<and> n \<le> reused_bytes cb \<and> untaken cb n cb'"
proof -
  obtain n k nl where s: "cbuf_find_replay_line cb len lines = Some (n, k, nl)" "0 \<le> n" "n \<le> reused_bytes cb"
    using find_replay_ok [OF v a(2) lim] by blast
  note u = rewind_untaken [OF v s(2,3)]
  then have "cbuf_is_valid (if n > 0 then cb\<lparr>c_used := c_used cb + n, c_i_out := (c_i_out cb - n + (c_size cb + 1)) mod (c_size cb + 1)\<rparr> else cb)"
    by (simp only: untaken_def)
  then have "cbuf_rewind_line cb len lines = Some (n, if n > 0 then cb\<lparr>c_used := c_used cb + n,
      c_i_out := (c_i_out cb - n + (c_size cb + 1)) mod (c_size cb + 1)\<rparr> else cb)"
    using v a s by (simp add: cbuf_rewind_line_def Let_def)
  then show ?thesis using s u by blast
qed

lemma replay_line_call:
  assumes v: "cbuf_is_valid cb" and a: "0 \<le> len" "-1 \<le> lines" "lines \<noteq> 0" "nat len \<le> length mem"
    and lim: "in_int (lines + 1)" "in_int len"
  shows "\<exists>n mem'. cbuf_replay_line cb (Some mem) len lines = Some (n, Some mem') \<and> length mem' = length mem"
proof -
  obtain n k nl where s: "cbuf_find_replay_line cb (len - 1) lines = Some (n, k, nl)" "0 \<le> n" "n \<le> reused_bytes cb" "nl = 0 \<or> nl = 1"
    using find_replay_ok [OF v a(2) lim(1), of "len - 1"] lim(2) by auto
  show ?thesis
  proof (cases "n > 0 \<and> len > 0")
    case False
    then show ?thesis using v a s by (auto simp: cbuf_replay_line_def)
  next
    case True
    define m where "m = max (min n (len - 1 - nl)) 0"
    have m: "0 \<le> m" "m \<le> n" "m + nl < len \<or> (m = 0 \<and> len = 1)" using True s(4) by (auto simp: m_def)
    have "\<exists>mem1. (if m > 0 then do { (l, mem, off) \<leftarrow> cbuf_replayer cb m cbuf_put_mem (mem, 0); assertC (l = m); Some mem }
        else Some mem) = Some mem1 \<and> length mem1 = length mem"
    proof (cases "m = 0")
      case False
      then have pos: "0 < m" "nat m \<le> length mem" using m a(4) s(4) by auto
      have "min m (reused_bytes cb) = m" using m s(3) by simp
      with mem_replayer [OF v pos] show ?thesis using pos by auto
    qed simp
    then obtain mem1 where r: "(if m > 0 then do { (l, mem, off) \<leftarrow> cbuf_replayer cb m cbuf_put_mem (mem, 0); assertC (l = m); Some mem }
        else Some mem) = Some mem1" "length mem1 = length mem" by blast
    have "\<exists>m2 mem2. (if nl \<noteq> 0 \<and> len > 1 then do { mem \<leftarrow> store_block m [newline] mem1; Some (m + 1, mem) } else Some (m, mem1)) =
        Some (m2, mem2) \<and> length mem2 = length mem \<and> 0 \<le> m2 \<and> m2 < len"
      using m a(4) s(4) r(2) True by (auto simp: store_block_def)
    then obtain m2 mem2 where n2: "(if nl \<noteq> 0 \<and> len > 1 then do { mem \<leftarrow> store_block m [newline] mem1; Some (m + 1, mem) } else Some (m, mem1)) =
        Some (m2, mem2)" "length mem2 = length mem" "0 \<le> m2" "m2 < len" by blast
    have fit: "nat m2 + length [0 :: byte] \<le> length mem2" using n2 a(4) by simp
    have "store_block m2 [0] mem2 = Some (memcpy_at (nat m2) [0] mem2)" using fit n2(3) by (simp add: store_block_def)
    then have "copy_replay cb n nl len mem = Some (memcpy_at (nat m2) [0] mem2)"
      unfolding copy_replay_def Let_def m_def [symmetric] assertC_True [OF s(4)] bind.bind_lunit r(1) n2(1) prod.case
        assertC_True [OF n2(4)] .
    then have "cbuf_replay_line cb (Some mem) len lines = Some (n + nl, Some (memcpy_at (nat m2) [0] mem2))"
      using v a s(1) True by (simp add: cbuf_replay_line_def)
    then show ?thesis using length_memcpy_at [OF fit] n2(2) by auto
  qed
qed


section \<open>Writing a line\<close>

lemma keep_last_keep: "keep_last k (keep_last k xs @ ys) = keep_last k (xs @ ys)"
proof (cases "length xs \<le> k")
  case False
  then show ?thesis by (simp add: keep_last_append) (simp add: keep_last_def add.commute)
qed simp

lemma wrote_trans:
  assumes "wrote cb as cb1" and "wrote cb1 bs cb2" and "c_size cb2 = c_size cb1"
  shows "wrote cb (as @ bs) cb2"
  using assms by (auto simp: wrote_def keep_last_keep)

text \<open>If a suffix fills the buffer, the bytes before it do not matter.\<close>

lemma wrote_suffix:
  assumes v: "cbuf_is_valid cb" "cbuf_is_valid cb'" and w: "wrote cb (drop d bs) cb'"
    and d: "d = 0 \<or> int (length (drop d bs)) = c_size cb'"
  shows "wrote cb bs cb'"
proof (cases "d = 0")
  case False
  then have l: "length (drop d bs) = nat (c_size cb')" "int (length (drop d bs)) = c_size cb'" using d by auto
  have "keep_last (nat (c_size cb')) (history cb @ drop d bs) = drop d bs" using l(1) by (simp add: keep_last_append)
  moreover have "keep_last (nat (c_size cb')) (history cb @ bs) = drop d bs"
  proof -
    have "history cb @ bs = (history cb @ take d bs) @ drop d bs" by simp
    then show ?thesis using l(1) keep_last_append [of "nat (c_size cb')" "history cb @ take d bs" "drop d bs"]
      by (simp del: append_assoc)
  qed
  ultimately show ?thesis using w l valid_facts(5) [OF v(1)] by (auto simp: wrote_def)
qed (use w in simp)

lemma make_room_idle: "len \<le> c_size cb - c_used cb \<or> c_size cb = c_maxsize cb \<Longrightarrow> make_room mem cb len = Some (c_size cb - c_used cb, cb)"
  by (auto simp: make_room_def)

definition fits :: "cbuf \<Rightarrow> int \<Rightarrow> bool" where
  "fits cb k \<longleftrightarrow> (c_overwrite cb = CBUF_NO_DROP \<longrightarrow> k \<le> c_size cb - c_used cb) \<and>
     (c_overwrite cb = CBUF_WRAP_ONCE \<longrightarrow> k \<le> c_size cb)"

lemma line_part:
  assumes v: "cbuf_is_valid cb" and lim: "roomy cb k" and k: "0 < k" "nat k \<le> length src" and fit: "fits cb k"
  shows "\<exists>d cb'. cbuf_writer mem cb k cbuf_get_mem src (Some 0) = Some (k, drop (nat k) src, Some d, cb') \<and>
    cbuf_is_valid cb' \<and> wrote cb (take (nat k) src) cb' \<and> c_size cb \<le> c_size cb' \<and>
    (k \<le> c_size cb - c_used cb \<or> c_size cb = c_maxsize cb \<longrightarrow> c_size cb' = c_size cb)"
proof -
  from mem_writer [OF v lim k, of mem "Some 0"] obtain n nd cb1 cb' where
    w: "cbuf_writer mem cb k cbuf_get_mem src (Some 0) = Some (n, drop (nat n) src, nd, cb')"
    and r: "cbuf_is_valid cb1" "same_content cb cb1" "make_room mem cb k = Some (c_size cb1 - c_used cb1, cb1)"
      "cbuf_is_valid cb'" "c_size cb' = c_size cb1"
      "n = (if accepted cb1 k = 0 then -1 else accepted cb1 k)" "wrote cb (take (nat n) src) cb'"
      "accepted cb1 k \<noteq> 0 \<longrightarrow> nd = map_option (\<lambda>_. max 0 (n - (c_size cb1 - c_used cb1))) (Some (0 :: int))" by metis
  have size: "c_size cb \<le> c_size cb1" using make_room_ok [OF v lim, of mem] r(3) by auto
  have "accepted cb1 k = k" using fit size r(2) by (auto simp: accepted_def fits_def same_content_def)
  then have n: "n = k" "nd = Some (max 0 (k - (c_size cb1 - c_used cb1)))" using r(6,8) k by auto
  have "c_size cb1 = c_size cb" if "k \<le> c_size cb - c_used cb \<or> c_size cb = c_maxsize cb"
    using make_room_idle [OF that, of mem] r(3) by simp
  then show ?thesis using w r n size by auto
qed

text \<open>The two writes of a line; \<open>cb\<close> is the buffer in which room was made.\<close>

lemma line_parts:
  assumes v: "cbuf_is_valid cb" and lim: "roomy cb (c + of_bool nl)" and sl: "0 \<le> c" "nat c \<le> length src" and nl: "nl \<longrightarrow> fits cb (c + 1)" and fit: "fits cb c"
    and some: "0 < c \<or> nl"
  shows "\<exists>d cb'. (do {
      (ndrop, dst) \<leftarrow> (if c > 0 then do {
          (n, psrc, d, dst) \<leftarrow> cbuf_writer mem cb c cbuf_get_mem src (Some 0);
          assertC (n = c);
          Some (nd + the d, dst)
        } else Some (nd, cb));
      if nl then do {
        (n, psrc, d, dst) \<leftarrow> cbuf_writer mem dst 1 cbuf_get_mem [newline] (Some 0);
        assertC (n = 1);
        Some (ndrop + the d, dst)
      } else Some (ndrop, dst) }) = Some (d, cb') \<and> cbuf_is_valid cb' \<and>
    c_minsize cb' = c_minsize cb \<and> c_maxsize cb' = c_maxsize cb \<and>
    (c + of_bool nl \<le> c_size cb - c_used cb \<or> c_size cb = c_maxsize cb \<longrightarrow>
      c_size cb' = c_size cb \<and> wrote cb (take (nat c) src @ (if nl then [newline] else [])) cb')"
proof -
  have "\<exists>d1 cb1. (if c > 0 then do { (n, psrc, d, dst) \<leftarrow> cbuf_writer mem cb c cbuf_get_mem src (Some 0);
        assertC (n = c); Some (nd + the d, dst) } else Some (nd, cb)) = Some (d1, cb1) \<and> cbuf_is_valid cb1 \<and>
      wrote cb (take (nat c) src) cb1 \<and> c_size cb \<le> c_size cb1 \<and>
      (c \<le> c_size cb - c_used cb \<or> c_size cb = c_maxsize cb \<longrightarrow> c_size cb1 = c_size cb)"
  proof (cases "c > 0")
    case True
    have "roomy cb c" by (rule roomy_less [OF lim]) simp
    from line_part [OF v this \<open>c > 0\<close> sl(2) fit, of mem] obtain d cb1 where
      "cbuf_writer mem cb c cbuf_get_mem src (Some 0) = Some (c, drop (nat c) src, Some d, cb1)" "cbuf_is_valid cb1"
      "wrote cb (take (nat c) src) cb1" "c_size cb \<le> c_size cb1"
      "c \<le> c_size cb - c_used cb \<or> c_size cb = c_maxsize cb \<longrightarrow> c_size cb1 = c_size cb" by blast
    then show ?thesis using True by auto
  next
    case False
    then show ?thesis using v sl wrote_none [OF v same_content_refl] by simp
  qed
  then obtain d1 cb1 where p: "(if c > 0 then do { (n, psrc, d, dst) \<leftarrow> cbuf_writer mem cb c cbuf_get_mem src (Some 0);
        assertC (n = c); Some (nd + the d, dst) } else Some (nd, cb)) = Some (d1, cb1)" "cbuf_is_valid cb1"
      "wrote cb (take (nat c) src) cb1" "c_size cb \<le> c_size cb1"
      "c \<le> c_size cb - c_used cb \<or> c_size cb = c_maxsize cb \<longrightarrow> c_size cb1 = c_size cb" by blast
  show ?thesis
  proof (cases nl)
    case False
    then show ?thesis unfolding p(1) bind.bind_lunit prod.case using p(2,3,5) by (auto simp: wrote_def)
  next
    case True
    have len: "int (length (take (nat c) src)) = c" using sl by simp
    have used: "c_used cb1 = min (c_used cb + c) (c_size cb1)" and eqs: "c_overwrite cb1 = c_overwrite cb" "c_maxsize cb1 = c_maxsize cb"
      using p(3) len by (simp_all add: wrote_def)
    have fit1: "fits cb1 1" using nl True p(4) used eqs sl(1) valid_facts(3) [OF p(2)] by (auto simp: fits_def)
    have lim1: "roomy cb1 1" using sl(1) True by (intro roomy_grow [OF roomy_less [OF lim] p(2,4) eqs(2)]) simp
    from line_part [OF p(2) lim1 _ _ fit1, of "[newline]" mem] obtain d cb' where
      q: "cbuf_writer mem cb1 1 cbuf_get_mem [newline] (Some 0) = Some (1, drop (nat 1) [newline], Some d, cb')"
        "cbuf_is_valid cb'" "wrote cb1 [newline] cb'"
        "1 \<le> c_size cb1 - c_used cb1 \<or> c_size cb1 = c_maxsize cb1 \<longrightarrow> c_size cb' = c_size cb1" by auto
    have "c_size cb' = c_size cb \<and> wrote cb (take (nat c) src @ [newline]) cb'"
      if "c + 1 \<le> c_size cb - c_used cb \<or> c_size cb = c_maxsize cb"
    proof -
      have "c_size cb1 = c_size cb" using p(5) that by auto
      moreover from this have "c_size cb' = c_size cb1" using q(4) that used eqs by auto
      ultimately show ?thesis using wrote_trans [OF p(3) q(3)] by simp
    qed
    moreover have "c_minsize cb' = c_minsize cb" "c_maxsize cb' = c_maxsize cb"
      using p(3) q(3) by (simp_all add: wrote_def)
    ultimately show ?thesis unfolding p(1) bind.bind_lunit prod.case using q(1,2) True by auto
  qed
qed


text \<open>The line that \<^verbatim>\<open>cbuf_write_line\<close> stores: the string, with a newline if it has none at its end.\<close>

definition line_text :: "byte list \<Rightarrow> byte list" where
  "line_text src = (let s = takeWhile (\<lambda>c. c \<noteq> 0) src in if s = [] \<or> last s \<noteq> newline then s @ [newline] else s)"

lemma line_text_not_Nil: "line_text src \<noteq> []"
  by (simp add: line_text_def Let_def)

lemma strlen_prefix:
  assumes "strlen src = Some sl"
  shows "takeWhile (\<lambda>c. c \<noteq> 0) src = take sl src" and "sl < length src" and "src ! sl = 0"
proof -
  have z: "0 \<in> set src" and l: "sl = length (takeWhile (\<lambda>c. c \<noteq> 0) src)" using assms by (auto simp: strlen_def split: if_splits)
  show "takeWhile (\<lambda>c. c \<noteq> 0) src = take sl src" unfolding l by (rule takeWhile_eq_take)
  show "sl < length src" unfolding l using z by (induction src) auto
  then show "src ! sl = 0" unfolding l using nth_length_takeWhile [of "\<lambda>c. c \<noteq> 0" src] by simp
qed

lemma line_text_strlen:
  assumes "strlen src = Some sl"
  defines "nl \<equiv> sl = 0 \<or> src ! (sl - 1) \<noteq> newline"
  shows "line_text src = take sl src @ (if nl then [newline] else [])"
    and "int (length (line_text src)) = int sl + of_bool nl"
    and "src ! nat (int sl + of_bool nl - 1) \<noteq> newline \<longleftrightarrow> nl"
proof -
  note p = strlen_prefix [OF assms(1)]
  have "last (take sl src) = src ! (sl - 1)" if "sl \<noteq> 0" using that p(2) by (cases sl) (simp_all add: take_Suc_conv_app_nth)
  moreover have "take sl src = [] \<longleftrightarrow> sl = 0" using p(2) by (cases src) auto
  ultimately show l: "line_text src = take sl src @ (if nl then [newline] else [])"
    by (auto simp: line_text_def Let_def p(1) nl_def)
  show "int (length (line_text src)) = int sl + of_bool nl" unfolding l using p(2) by simp
  show "src ! nat (int sl + of_bool nl - 1) \<noteq> newline \<longleftrightarrow> nl"
    using p(3) by (cases nl) (auto simp: nl_def newline_def nat_diff_distrib)
qed

text \<open>When the line is refused: it does not fit, or would not fit in an empty buffer.\<close>

definition refuses :: "cbuf \<Rightarrow> int \<Rightarrow> bool" where
  "refuses cb len \<longleftrightarrow> (c_overwrite cb = CBUF_NO_DROP \<and> len > c_size cb - c_used cb) \<or>
     (c_overwrite cb = CBUF_WRAP_ONCE \<and> len > c_size cb)"

lemma line_len: "(if c_overwrite cb = CBUF_NO_DROP then if len > c_size cb - c_used cb then -1 else len
    else if c_overwrite cb = CBUF_WRAP_ONCE then if len > c_size cb then -1 else len else len) = (if refuses cb len then -1 else len)"
  by (simp add: refuses_def)

lemma write_line_call:
  assumes v: "cbuf_is_valid cb" and sl: "strlen src = Some sl"
  defines "len \<equiv> int (length (line_text src))"
  assumes lim: "roomy cb len"
  shows "\<exists>cb1 nd' cb'. make_room mem cb len = Some (c_size cb1 - c_used cb1, cb1) \<and> same_content cb cb1 \<and>
    cbuf_write_line mem cb (Some src) nd = Some (if refuses cb1 len then -1 else len, nd', cb') \<and> cbuf_is_valid cb' \<and>
    c_minsize cb' = c_minsize cb \<and> c_maxsize cb' = c_maxsize cb \<and>
    (if refuses cb1 len then cb' = cb1
     else len \<le> c_size cb1 - c_used cb1 \<or> c_size cb1 = c_maxsize cb \<longrightarrow> c_size cb' = c_size cb1 \<and> wrote cb (line_text src) cb')"
proof -
  define nl where "nl = (sl = 0 \<or> src ! (sl - 1) \<noteq> newline)"
  note t = line_text_strlen [OF sl, folded nl_def] and p = strlen_prefix [OF sl]
  have len: "len = (if nl then int sl + 1 else int sl)" using t(2) by (simp add: len_def)
  have pos: "0 < len" using line_text_not_Nil [of src] by (simp add: len_def)
  have int_sl: "in_int (int sl + 1)" using len roomy_len [OF lim] by (auto simp: in_int_def split: if_splits)
  obtain cb1 where r: "make_room mem cb len = Some (c_size cb1 - c_used cb1, cb1)" "cbuf_is_valid cb1" "same_content cb cb1"
    and grown: "c_size cb \<le> c_size cb1" using make_room_ok [OF v lim] by blast
  have lim1: "roomy cb1 len" using r(3) by (intro roomy_grow [OF lim r(2) grown]) (simp add: same_content_def)
  note f = valid_facts [OF r(2)]
  show ?thesis
  proof (cases "refuses cb1 len")
    case True
    have "cbuf_write_line mem cb (Some src) nd = Some (-1, map_option (\<lambda>_. 0) (map_option (\<lambda>_. 0 :: int) nd), cb1)"
      using v r True unfolding cbuf_write_line_def Let_def option.case sl bind.bind_lunit assertC_True [OF int_sl] nl_def [symmetric] len [symmetric]
      by (simp add: line_len)
    then show ?thesis using r True by (auto simp: same_content_def)
  next
    case False
    define dr where "dr = (if len > c_size cb1 then len - c_size cb1 else 0)"
    have dr: "0 \<le> dr" "dr < len" "dr \<le> int sl" "dr = 0 \<or> len - dr = c_size cb1" using pos f(3) len by (auto simp: dr_def)
    let ?c = "int sl - dr"
    have fit: "fits cb1 k" if "k \<le> len" for k using False that by (auto simp: refuses_def fits_def)
    have "0 \<le> ?c" "nat ?c \<le> length (drop (nat dr) src)" "0 < ?c \<or> nl" using dr p(2) len by (auto split: if_splits)
    moreover have "nl \<longrightarrow> fits cb1 (?c + 1)" "fits cb1 ?c" using dr len by (auto intro!: fit split: if_splits)
    moreover have "roomy cb1 (?c + of_bool nl)" using dr(1) len by (intro roomy_less [OF lim1]) auto
    ultimately obtain d cb' where l: "(do {
      (ndrop, dst) \<leftarrow> (if ?c > 0 then do {
          (n, psrc, d, dst) \<leftarrow> cbuf_writer mem cb1 ?c cbuf_get_mem (drop (nat dr) src) (Some 0);
          assertC (n = ?c);
          Some (dr + the d, dst)
        } else Some (dr, cb1));
      if nl then do {
        (n, psrc, d, dst) \<leftarrow> cbuf_writer mem dst 1 cbuf_get_mem [newline] (Some 0);
        assertC (n = 1);
        Some (ndrop + the d, dst)
      } else Some (ndrop, dst) }) = Some (d, cb')" "cbuf_is_valid cb'"
      "c_minsize cb' = c_minsize cb1 \<and> c_maxsize cb' = c_maxsize cb1"
      "?c + of_bool nl \<le> c_size cb1 - c_used cb1 \<or> c_size cb1 = c_maxsize cb1 \<longrightarrow>
        c_size cb' = c_size cb1 \<and> wrote cb1 (take (nat ?c) (drop (nat dr) src) @ (if nl then [newline] else [])) cb'"
      using line_parts [OF r(2), of ?c nl "drop (nat dr) src" mem dr] by blast
    have nl': "src ! nat (len - 1) \<noteq> newline \<longleftrightarrow> nl" using t(3) by (simp add: len_def t(2))
    have w: "cbuf_write_line mem cb (Some src) nd = Some (len, map_option (\<lambda>_. d) (map_option (\<lambda>_. 0 :: int) nd), cb')"
      unfolding cbuf_write_line_def Let_def option.case sl bind.bind_lunit assertC_True [OF int_sl] nl_def [symmetric] len [symmetric] r(1) prod.case line_len
        dr_def [symmetric] assertC_True [OF v] if_not_P [OF False] if_P [OF pos] nl' l(1) assertC_True [OF l(2)] ..
    have "take (nat ?c) (drop (nat dr) src) @ (if nl then [newline] else []) = drop (nat dr) (line_text src)"
      using dr p(2) by (simp add: t(1) drop_take nat_diff_distrib)
    moreover have "int (length (drop (nat dr) (line_text src))) = len - dr" using dr by (simp add: len_def nat_diff_distrib)
    moreover have "?c + of_bool nl = len - dr" by (simp add: len)
    moreover have "c_maxsize cb1 = c_maxsize cb" using r(3) by (simp add: same_content_def)
    ultimately have "c_size cb' = c_size cb1 \<and> wrote cb1 (line_text src) cb'"
      if "len \<le> c_size cb1 - c_used cb1 \<or> c_size cb1 = c_maxsize cb"
      using l(4) that dr wrote_suffix [OF r(2) l(2), of "nat dr" "line_text src"] by auto
    moreover have "c_minsize cb' = c_minsize cb" "c_maxsize cb' = c_maxsize cb" using l(3) r(3) by (simp_all add: same_content_def)
    ultimately show ?thesis using w r False l(2) wrote_same [OF r(3)] by auto
  qed
qed

end
