(* ===== verification/Cbuf_Fd.thy ===== *)
theory Cbuf_Fd
  imports Cbuf_Linecalls Cbuf_Copy
begin

text \<open>
  The calls of \<^verbatim>\<open>cbuf.h\<close> through file descriptors, whose \<^verbatim>\<open>read\<close> and \<^verbatim>\<open>write\<close> are parameters, the calls
  on two buffers, and creation.
\<close>


section \<open>File descriptors\<close>

text \<open>
  \<^verbatim>\<open>write\<close> takes a prefix of the block or returns a negative count; it can be interrupted only finitely often.
  \<open>log\<close> is what it has taken so far.
\<close>

definition write_spec :: "('w \<Rightarrow> byte list) \<Rightarrow> ('w \<Rightarrow> nat) \<Rightarrow> (byte list \<Rightarrow> 'w \<Rightarrow> int \<times> bool \<times> 'w) \<Rightarrow> bool" where
  "write_spec log patience write \<longleftrightarrow> (\<forall>bs w. bs \<noteq> [] \<longrightarrow> (case write bs w of (n, eintr, w') \<Rightarrow>
     n \<le> int (length bs) \<and> log w' = log w @ take (nat n) bs \<and> (n < 0 \<and> eintr \<longrightarrow> patience w' < patience w)))"

text \<open>\<^verbatim>\<open>read\<close> delivers a prefix of what is still to come, \<open>inp\<close>.\<close>

definition read_spec :: "('w \<Rightarrow> byte list) \<Rightarrow> ('w \<Rightarrow> nat) \<Rightarrow> (nat \<Rightarrow> 'w \<Rightarrow> int \<times> bool \<times> byte list \<times> 'w) \<Rightarrow> bool" where
  "read_spec inp patience read \<longleftrightarrow> (\<forall>k w. 0 < k \<longrightarrow> (case read k w of (n, eintr, bs, w') \<Rightarrow>
     n \<le> int k \<and> length bs = nat n \<and> inp w = bs @ inp w' \<and> (n < 0 \<and> eintr \<longrightarrow> patience w' < patience w)))"

lemma put_fd_ok:
  assumes "write_spec log patience write" and "bs \<noteq> []"
  shows "\<exists>n w'. cbuf_put_fd write bs w = Some (n, w') \<and> n \<le> int (length bs) \<and> log w' = log w @ take (nat n) bs"
proof (induction "patience w" arbitrary: w rule: less_induct)
  case less
  obtain n e w1 where w: "write bs w = (n, e, w1)" by (cases "write bs w") auto
  have s: "n \<le> int (length bs)" "log w1 = log w @ take (nat n) bs" "n < 0 \<and> e \<longrightarrow> patience w1 < patience w"
    using assms w by (auto simp: write_spec_def dest!: spec [of _ bs] spec [of _ w])
  show ?case
  proof (cases "n < 0 \<and> e")
    case False
    then show ?thesis using w s by (subst cbuf_put_fd.simps) auto
  next
    case True
    then have "patience w1 < patience w" "log w1 = log w" using s by simp_all
    then show ?thesis using less [of w1] True w by (subst cbuf_put_fd.simps) simp
  qed
qed

lemma get_fd_ok:
  assumes "read_spec inp patience read" and "0 < k"
  shows "\<exists>n bs w'. cbuf_get_fd read k w = Some (n, bs, w') \<and> n \<le> int k \<and> length bs = nat n \<and> inp w = bs @ inp w'"
proof (induction "patience w" arbitrary: w rule: less_induct)
  case less
  obtain n e bs w1 where r: "read k w = (n, e, bs, w1)" by (cases "read k w") auto
  have s: "n \<le> int k" "length bs = nat n" "inp w = bs @ inp w1" "n < 0 \<and> e \<longrightarrow> patience w1 < patience w"
    using assms r by (auto simp: read_spec_def dest!: spec [of _ k] spec [of _ w])
  show ?case
  proof (cases "n < 0 \<and> e")
    case False
    then show ?thesis using r s by (subst cbuf_get_fd.simps) auto
  next
    case True
    then have "patience w1 < patience w" "inp w1 = inp w" using s by simp_all
    then show ?thesis using less [of w1] True r by (subst cbuf_get_fd.simps) simp
  qed
qed

lemma fd_sink: "write_spec log patience write \<Longrightarrow> sink (\<lambda>_ _. True) log (\<lambda>_. 0) (cbuf_put_fd write)"
  using put_fd_ok [of log patience "write"] by unfold_locales blast

definition fd_delivered :: "('w \<Rightarrow> byte list) \<Rightarrow> 'w \<Rightarrow> 'w \<Rightarrow> byte list \<Rightarrow> bool" where
  "fd_delivered inp w w' bs \<longleftrightarrow> inp w = bs @ inp w'"

lemma fd_source: "read_spec inp patience read \<Longrightarrow> source (\<lambda>_ _. True) (fd_delivered inp) (cbuf_get_fd read)"
  using get_fd_ok [of inp patience read] by unfold_locales (auto simp: fd_delivered_def)

lemma read_to_fd_call:
  assumes spec: "write_spec log patience write" and v: "cbuf_is_valid cb" and a: "0 \<le> fd" "-1 \<le> len"
  shows "\<exists>n w' cb'. cbuf_read_to_fd write cb fd len w = Some (n, w', cb') \<and>
    cbuf_peek_to_fd write cb fd len w = Some (n, w') \<and> n \<le> c_used cb \<and> (len \<noteq> -1 \<longrightarrow> n \<le> len) \<and>
    log w' = log w @ take (nat n) (unread cb) \<and> taken cb (max 0 n) cb'"
proof -
  have f: "0 \<le> c_used cb" using valid_facts(5) [OF v] .
  define k where "k = (if len = -1 then c_used cb else len)"
  show ?thesis
  proof (cases "k > 0")
    case False
    then have "c_used cb \<le> 0 \<or> len = 0" using a by (auto simp: k_def split: if_splits)
    then show ?thesis using v a f False taken_0 [OF v]
      unfolding cbuf_read_to_fd_def cbuf_peek_to_fd_def Let_def k_def [symmetric] by auto
  next
    case True
    from sink.reader_ok [OF fd_sink [OF spec] v True, of w] obtain n w' where
      r: "cbuf_reader cb k (cbuf_put_fd write) w = Some (n, w')" "n \<le> min k (c_used cb)" "log w' = log w @ take (nat n) (unread cb)"
      by auto
    have "0 \<le> max 0 n" "max 0 n \<le> c_used cb" using r(2) f by auto
    from dropper_taken [OF v this] obtain cb' where
      d: "(if n > 0 then map_option snd (cbuf_dropper cb n) else Some cb) = Some cb'" "taken cb (max 0 n) cb'"
      by (cases "n > 0") auto
    then have "cbuf_is_valid cb'" by (simp add: taken_def)
    moreover have "n \<le> c_used cb" "len \<noteq> -1 \<longrightarrow> n \<le> len" using r(2) by (auto simp: k_def)
    ultimately show ?thesis using True v a r d
      unfolding cbuf_read_to_fd_def cbuf_peek_to_fd_def Let_def k_def [symmetric] by auto
  qed
qed

lemma replay_to_fd_call:
  assumes spec: "write_spec log patience write" and v: "cbuf_is_valid cb" and a: "0 \<le> fd" "-1 \<le> len"
  shows "\<exists>n w' k. cbuf_replay_to_fd write cb fd len w = Some (n, w') \<and> n \<le> reused_bytes cb \<and> (len \<noteq> -1 \<longrightarrow> n \<le> len) \<and>
    log w' = log w @ take (nat n) (drop k (replayable cb))"
proof -
  note f = valid_facts [OF v]
  define k where "k = (if len = -1 then c_size cb - c_used cb else len)"
  show ?thesis
  proof (cases "k > 0")
    case False
    then show ?thesis using v a f(7) unfolding cbuf_replay_to_fd_def Let_def k_def [symmetric] by auto
  next
    case True
    from sink.replayer_ok [OF fd_sink [OF spec] v True, of w] obtain n w' where
      r: "cbuf_replayer cb k (cbuf_put_fd write) w = Some (n, w')" "n \<le> min k (reused_bytes cb)"
        "log w' = log w @ take (nat n) (drop (nat (reused_bytes cb - min k (reused_bytes cb))) (replayable cb))" by auto
    moreover have "n \<le> reused_bytes cb" "len \<noteq> -1 \<longrightarrow> n \<le> len" using r(2) by (auto simp: k_def)
    ultimately show ?thesis using True v a
      unfolding cbuf_replay_to_fd_def Let_def k_def [symmetric] by auto
  qed
qed

lemma write_from_fd_call:
  assumes spec: "read_spec inp patience read" and v: "cbuf_is_valid cb" and a: "0 \<le> fd" "-1 \<le> len"
    and lim: "c_maxsize cb \<le> size_limit" "len \<le> size_limit"
  shows "\<exists>n nd' w' cb' bs. cbuf_write_from_fd mem read cb fd len nd w = Some (n, nd', w', cb') \<and> cbuf_is_valid cb' \<and>
    inp w = bs @ inp w' \<and> wrote cb bs cb' \<and> (if bs = [] then n \<le> 0 else n = int (length bs)) \<and>
    (len \<noteq> -1 \<longrightarrow> n \<le> len) \<and> (c_overwrite cb = CBUF_NO_DROP \<longrightarrow> c_used cb + int (length bs) \<le> c_size cb')"
proof -
  note f = valid_facts [OF v]
  define k where "k = (if len = -1 then if c_size cb - c_used cb = 0 then CBUF_CHUNK else c_size cb - c_used cb else len)"
  show ?thesis
  proof (cases "k > 0")
    case False
    then show ?thesis using v a f(6) wrote_none [OF v same_content_refl]
      unfolding cbuf_write_from_fd_def Let_def k_def [symmetric] by (auto intro!: exI [of _ "[] :: byte list"] simp: k_def)
  next
    case True
    have "k \<le> size_limit" using lim f(1,5) by (auto simp: k_def sizes_ok_def CBUF_CHUNK_def)
    then have "roomy cb k" by (rule roomyI [OF lim(1)])
    from source.writer_ok [OF fd_source [OF spec] v this True, where s = w and mem = mem and nd = "map_option (\<lambda>_. 0) nd"] obtain n w' nd' cb1 cb' bs where
      w: "cbuf_writer mem cb k (cbuf_get_fd read) w (map_option (\<lambda>_. 0) nd) = Some (n, w', nd', cb')"
      and r: "cbuf_is_valid cb1" "same_content cb cb1" "cbuf_is_valid cb'" "wrote cb bs cb'" "c_size cb' = c_size cb1"
        "int (length bs) \<le> accepted cb1 k" "fd_delivered inp w w' bs" "if bs = [] then n \<le> 0 else n = int (length bs)" by auto
    have "n \<le> k" using r(8) accepted_bounds(2) [OF r(1) True] r(6) True by (auto split: if_splits)
    then have "len \<noteq> -1 \<longrightarrow> n \<le> len" by (auto simp: k_def)
    moreover have "c_overwrite cb = CBUF_NO_DROP \<longrightarrow> c_used cb + int (length bs) \<le> c_size cb'"
      using r(2,5,6) by (auto simp: accepted_def same_content_def)
    ultimately show ?thesis using True v a w r
      unfolding cbuf_write_from_fd_def Let_def k_def [symmetric] fd_delivered_def by auto
  qed
qed


section \<open>Two buffers\<close>

text \<open>The bytes \<open>n\<close> of \<open>src\<close> arrived in \<open>dst\<close>.\<close>

definition copied :: "cbuf \<Rightarrow> cbuf \<Rightarrow> int \<Rightarrow> cbuf \<Rightarrow> bool" where
  "copied src dst n dst' \<longleftrightarrow> cbuf_is_valid dst' \<and> wrote dst (take (nat n) (unread src)) dst' \<and> n \<le> c_used src \<and>
     (c_overwrite dst = CBUF_NO_DROP \<longrightarrow> c_used dst + max 0 n \<le> c_size dst')"

lemma copied_none:
  assumes "cbuf_is_valid src" and "cbuf_is_valid dst'" and "same_content dst dst'" and "n \<le> 0"
  shows "copied src dst n dst'"
  using wrote_none [OF assms(2,3)] assms valid_facts(5) [OF assms(1)] valid_facts(6) [OF assms(2)]
  by (auto simp: copied_def same_content_def)

lemma copier_copied:
  assumes vs: "cbuf_is_valid src" and vd: "cbuf_is_valid dst" and lim: "roomy dst (c_used src)" and len: "-1 \<le> len"
  defines "k \<equiv> if len = -1 then c_used src else len"
  shows "\<exists>n nd' dst'. (if k > 0 then cbuf_copier mem src dst k nd else Some (0, nd, dst)) = Some (n, nd', dst') \<and>
    copied src dst n dst' \<and> (len \<noteq> -1 \<longrightarrow> n \<le> len)"
proof -
  consider "k \<le> 0" | "0 < k" "c_used src = 0" | "0 < k" "0 < c_used src" using valid_facts(5) [OF vs] by linarith
  then show ?thesis
  proof cases
    case 1
    then show ?thesis using copied_none [OF vs vd same_content_refl, of 0] len by (auto simp: k_def)
  next
    case 2
    then show ?thesis using copied_none [OF vs vd same_content_refl, of 0] len by (auto simp: k_def cbuf_copier_def)
  next
    case 3
    have "roomy dst (min k (c_used src))" by (rule roomy_less [OF lim]) simp
    from copier_ok [OF vs vd 3 this, of mem nd] obtain n nd' dst1 dst' where
      c: "cbuf_copier mem src dst k nd = Some (n, nd', dst')" and v1: "cbuf_is_valid dst1" and s: "same_content dst dst1"
      and r: "cbuf_is_valid dst'" "c_size dst' = c_size dst1"
        "if accepted dst1 (min k (c_used src)) = 0 then n = -1 \<and> dst' = dst1
         else n = accepted dst1 (min k (c_used src)) \<and> wrote dst (take (nat n) (unread src)) dst' \<and>
           nd' = map_option (\<lambda>_. max 0 (n - c_size dst1 + c_used dst1)) nd" by blast
    show ?thesis
    proof (cases "accepted dst1 (min k (c_used src)) = 0")
      case True
      then have "n = -1" "dst' = dst1" using r(3) by simp_all
      then show ?thesis using c 3(1) copied_none [OF vs v1 s, of "-1"] len by (auto simp: k_def)
    next
      case False
      have m: "0 < min k (c_used src)" using 3 by simp
      have n: "n = accepted dst1 (min k (c_used src))" "wrote dst (take (nat n) (unread src)) dst'" using r(3) unfolding if_not_P [OF False] by blast+
      have "n \<le> min k (c_used src)" unfolding n(1) by (rule accepted_bounds(2) [OF v1 m])
      moreover have "c_overwrite dst = CBUF_NO_DROP \<longrightarrow> c_used dst + max 0 n \<le> c_size dst'"
        using s r(2) n(1) valid_facts(6) [OF v1] by (auto simp: accepted_def same_content_def)
      ultimately have "copied src dst n dst'" "len \<noteq> -1 \<longrightarrow> n \<le> len" using n r(1) by (auto simp: copied_def k_def)
      then show ?thesis using c 3(1) by auto
    qed
  qed
qed

lemma copy_call:
  assumes vs: "cbuf_is_valid src" and vd: "cbuf_is_valid dst" and lim: "roomy dst (c_used src)" and len: "-1 \<le> len"
  shows "\<exists>n nd' dst' src'. cbuf_copy mem False src dst len nd = Some (n, nd', dst') \<and>
    cbuf_move mem False src dst len nd = Some (n, nd', src', dst') \<and>
    copied src dst n dst' \<and> taken src (max 0 n) src' \<and> (len \<noteq> -1 \<longrightarrow> n \<le> len)"
proof (cases "len = 0")
  case True
  then show ?thesis using copied_none [OF vs vd same_content_refl, of 0] taken_0 [OF vs]
    by (simp add: cbuf_copy_def cbuf_move_def)
next
  case False
  define k where "k = (if len = -1 then c_used src else len)"
  let ?nd = "map_option (\<lambda>_. 0 :: int) nd"
  from copier_copied [OF vs vd lim len, of mem ?nd, folded k_def] obtain n nd' dst' where
    c: "(if k > 0 then cbuf_copier mem src dst k ?nd else Some (0, ?nd, dst)) = Some (n, nd', dst')" "copied src dst n dst'"
      "len \<noteq> -1 \<longrightarrow> n \<le> len" by blast
  have vd': "cbuf_is_valid dst'" and n: "0 \<le> max 0 n" "max 0 n \<le> c_used src"
    using c(2) valid_facts(5) [OF vs] by (auto simp: copied_def)
  from dropper_taken [OF vs n] obtain src' where
    d: "(if n > 0 then map_option snd (cbuf_dropper src n) else Some src) = Some src'" "taken src (max 0 n) src'"
    by (cases "n > 0") auto
  have vs': "cbuf_is_valid src'" using d(2) by (simp add: taken_def)
  have "cbuf_copy mem False src dst len nd = Some (n, nd', dst')"
    using False len vs vd vd' c(1) unfolding cbuf_copy_def Let_def k_def [symmetric] by simp
  moreover have "cbuf_move mem False src dst len nd = Some (n, nd', src', dst')"
    using False len vs vd vd' vs' c(1) d(1) unfolding cbuf_move_def Let_def k_def [symmetric]
    by (cases "k > 0") simp_all
  ultimately show ?thesis using c d by blast
qed


section \<open>Creation\<close>

lemma create_ok:
  assumes "0 < minsize" and "mem (minsize + 1 + 2 * CBUF_MAGIC_LEN) = Some junk" and "minsize \<le> size_limit"
  shows "\<exists>cb. cbuf_create mem minsize maxsize = Some (Some cb) \<and> cbuf_is_valid cb \<and> unread cb = [] \<and> history cb = [] \<and>
    c_size cb = minsize \<and> c_minsize cb = minsize \<and> c_maxsize cb = max minsize maxsize \<and> c_overwrite cb = CBUF_WRAP_MANY"
proof -
  define cb where "cb = \<lparr>c_alloc = minsize + 1 + 2 * CBUF_MAGIC_LEN, c_minsize = minsize, c_maxsize = (if maxsize > minsize then maxsize else minsize),
    c_size = minsize, c_used = 0, c_overwrite = CBUF_WRAP_MANY, c_got_wrap = False,
    c_i_in = 0, c_i_out = 0, c_i_rep = 0, c_data = map junk [0..<nat (minsize + 1)]\<rparr>"
  have v: "cbuf_is_valid cb" using assms(1,3) by (simp add: cb_def cbuf_is_valid_def CBUF_MAGIC_LEN_def in_int_def)
  moreover have "in_int (minsize + 1 + 2 * CBUF_MAGIC_LEN)" using assms(1,3) by (simp add: CBUF_MAGIC_LEN_def in_int_def)
  ultimately have "cbuf_create mem minsize maxsize = Some (Some cb)"
    using assms unfolding cbuf_create_def Let_def
    by (simp only: cb_def [symmetric] option.case if_not_P not_le not_not assertC_True bind.bind_lunit)
  moreover have "unread cb = []" "history cb = []" using assms(1) by (simp_all add: unread_def history_def cb_def reused_bytes_def)
  ultimately show ?thesis using v by (auto simp: cb_def)
qed

end
