(* ===== verification/Cbuf_Runs.thy ===== *)
theory Cbuf_Runs
  imports Cbuf_Fd
begin

text \<open>
  Sequences of calls of \<^verbatim>\<open>cbuf.h\<close> on one buffer: the type of the calls, what the caller has to guarantee,
  and that no call aborts or breaks the buffer.
\<close>


section \<open>Calls\<close>

text \<open>Memory of the caller is given by its content; the other buffer of a copy is given by its state.\<close>

datatype 'w cbuf_op =
    Flush | Get_opt int "int option" | Set_opt int int | Lines_used | Lines_reused
  | Drop int | Peek "byte list option" int | Read "byte list option" int | Replay "byte list option" int | Rewind int
  | Write "byte list option" int "int option"
  | Drop_line int int | Peek_line "byte list option" int int | Read_line "byte list option" int int
  | Replay_line "byte list option" int int | Rewind_line int int | Write_line "byte list option" "int option"
  | Peek_to int int 'w | Read_to int int 'w | Replay_to int int 'w | Write_from int int "int option" 'w
  | Copy_from cbuf int "int option" | Move_from cbuf int "int option" | Move_to cbuf int "int option"

fun cbuf_step ::
    "memory \<Rightarrow> (byte list \<Rightarrow> 'w \<Rightarrow> int \<times> bool \<times> 'w) \<Rightarrow> (nat \<Rightarrow> 'w \<Rightarrow> int \<times> bool \<times> byte list \<times> 'w) \<Rightarrow> 'w cbuf_op \<Rightarrow> cbuf \<Rightarrow> cbuf option" where
  "cbuf_step mem write read Flush cb = cbuf_flush cb"
| "cbuf_step mem write read (Get_opt name v) cb = map_option (\<lambda>_. cb) (cbuf_opt_get cb name v)"
| "cbuf_step mem write read (Set_opt name v) cb = map_option snd (cbuf_opt_set cb name v)"
| "cbuf_step mem write read Lines_used cb = map_option (\<lambda>_. cb) (cbuf_lines_used cb)"
| "cbuf_step mem write read Lines_reused cb = map_option (\<lambda>_. cb) (cbuf_lines_reused cb)"
| "cbuf_step mem write read (Drop len) cb = map_option snd (cbuf_drop cb len)"
| "cbuf_step mem write read (Peek m len) cb = map_option (\<lambda>_. cb) (cbuf_peek cb m len)"
| "cbuf_step mem write read (Read m len) cb = map_option (\<lambda>r. snd (snd r)) (cbuf_read cb m len)"
| "cbuf_step mem write read (Replay m len) cb = map_option (\<lambda>_. cb) (cbuf_replay cb m len)"
| "cbuf_step mem write read (Rewind len) cb = map_option snd (cbuf_rewind cb len)"
| "cbuf_step mem write read (Write m len nd) cb = map_option (\<lambda>r. snd (snd r)) (cbuf_write mem cb m len nd)"
| "cbuf_step mem write read (Drop_line len lines) cb = map_option snd (cbuf_drop_line cb len lines)"
| "cbuf_step mem write read (Peek_line m len lines) cb = map_option (\<lambda>_. cb) (cbuf_peek_line cb m len lines)"
| "cbuf_step mem write read (Read_line m len lines) cb = map_option (\<lambda>r. snd (snd r)) (cbuf_read_line cb m len lines)"
| "cbuf_step mem write read (Replay_line m len lines) cb = map_option (\<lambda>_. cb) (cbuf_replay_line cb m len lines)"
| "cbuf_step mem write read (Rewind_line len lines) cb = map_option snd (cbuf_rewind_line cb len lines)"
| "cbuf_step mem write read (Write_line m nd) cb = map_option (\<lambda>r. snd (snd r)) (cbuf_write_line mem cb m nd)"
| "cbuf_step mem write read (Peek_to fd len w) cb = map_option (\<lambda>_. cb) (cbuf_peek_to_fd write cb fd len w)"
| "cbuf_step mem write read (Read_to fd len w) cb = map_option (\<lambda>r. snd (snd r)) (cbuf_read_to_fd write cb fd len w)"
| "cbuf_step mem write read (Replay_to fd len w) cb = map_option (\<lambda>_. cb) (cbuf_replay_to_fd write cb fd len w)"
| "cbuf_step mem write read (Write_from fd len nd w) cb = map_option (\<lambda>r. snd (snd (snd r))) (cbuf_write_from_fd mem read cb fd len nd w)"
| "cbuf_step mem write read (Copy_from src len nd) cb = map_option (\<lambda>r. snd (snd r)) (cbuf_copy mem False src cb len nd)"
| "cbuf_step mem write read (Move_from src len nd) cb = map_option (\<lambda>r. snd (snd (snd r))) (cbuf_move mem False src cb len nd)"
| "cbuf_step mem write read (Move_to dst len nd) cb = map_option (\<lambda>r. fst (snd (snd r))) (cbuf_move mem False cb dst len nd)"

fun cbuf_run ::
    "memory \<Rightarrow> (byte list \<Rightarrow> 'w \<Rightarrow> int \<times> bool \<times> 'w) \<Rightarrow> (nat \<Rightarrow> 'w \<Rightarrow> int \<times> bool \<times> byte list \<times> 'w) \<Rightarrow> 'w cbuf_op list \<Rightarrow> cbuf \<Rightarrow> cbuf option" where
  "cbuf_run mem write read [] cb = Some cb"
| "cbuf_run mem write read (op # ops) cb = do { cb \<leftarrow> cbuf_step mem write read op cb; cbuf_run mem write read ops cb }"

text \<open>
  What the caller guarantees: its memory has the size it says, its string has an end, the other buffer is valid, no call
  writes more than \<open>size_limit\<close> bytes, and the numbers that are incremented are below the largest int.
\<close>

definition mem_fits :: "byte list option \<Rightarrow> int \<Rightarrow> bool" where
  "mem_fits m len \<longleftrightarrow> (case m of None \<Rightarrow> True | Some bs \<Rightarrow> nat len \<le> length bs)"

definition bounded :: "cbuf \<Rightarrow> bool" where
  "bounded cb \<longleftrightarrow> cbuf_is_valid cb \<and> c_maxsize cb \<le> size_limit"

lemma bounded_facts: "bounded cb \<Longrightarrow> cbuf_is_valid cb" "bounded cb \<Longrightarrow> c_maxsize cb \<le> size_limit"
  by (simp_all add: bounded_def)

lemma bounded_used: "bounded cb \<Longrightarrow> c_used cb \<le> size_limit"
  using valid_facts(1,6) [of cb] by (auto simp: bounded_def sizes_ok_def)

fun op_ok :: "'w cbuf_op \<Rightarrow> bool" where
  "op_ok (Peek m len) = mem_fits m len"
| "op_ok (Read m len) = mem_fits m len"
| "op_ok (Replay m len) = mem_fits m len"
| "op_ok (Write m len nd) = (mem_fits m len \<and> len \<le> size_limit)"
| "op_ok (Peek_line m len lines) = mem_fits m len"
| "op_ok (Read_line m len lines) = mem_fits m len"
| "op_ok (Replay_line m len lines) = (mem_fits m len \<and> in_int len \<and> in_int (lines + 1))"
| "op_ok (Rewind_line len lines) = (in_int (len + 1) \<and> in_int (lines + 1))"
| "op_ok (Write_line m nd) = (case m of None \<Rightarrow> True | Some bs \<Rightarrow> 0 \<in> set bs \<and> int (length bs) \<le> size_limit)"
| "op_ok (Write_from fd len nd w) = (len \<le> size_limit)"
| "op_ok (Copy_from src len nd) = bounded src"
| "op_ok (Move_from src len nd) = bounded src"
| "op_ok (Move_to dst len nd) = bounded dst"
| "op_ok _ = True"


section \<open>No call aborts\<close>

text \<open>The buffer stays valid and its bounds do not change.\<close>

definition keeps :: "cbuf \<Rightarrow> cbuf \<Rightarrow> bool" where
  "keeps cb cb' \<longleftrightarrow> cbuf_is_valid cb' \<and> c_minsize cb' = c_minsize cb \<and> c_maxsize cb' = c_maxsize cb"

definition safe_call :: "cbuf option \<Rightarrow> cbuf \<Rightarrow> bool" where
  "safe_call r cb \<longleftrightarrow> (\<exists>cb'. r = Some cb' \<and> keeps cb cb')"

lemma safe_callI: "r = Some cb' \<Longrightarrow> keeps cb cb' \<Longrightarrow> safe_call r cb"
  by (simp add: safe_call_def)

lemma keeps_refl: "cbuf_is_valid cb \<Longrightarrow> keeps cb cb"
  by (simp add: keeps_def)

lemma keeps_trans: "keeps a b \<Longrightarrow> keeps b c \<Longrightarrow> keeps a c"
  by (simp add: keeps_def)

lemma safe_same: "cbuf_is_valid cb \<Longrightarrow> r \<noteq> None \<Longrightarrow> safe_call (map_option (\<lambda>_. cb) r) cb"
  by (auto simp: safe_call_def keeps_refl)

lemma keeps_taken: "taken cb n cb' \<Longrightarrow> keeps cb cb'"
  by (simp add: taken_def keeps_def)

lemma keeps_untaken: "untaken cb n cb' \<Longrightarrow> keeps cb cb'"
  by (simp add: untaken_def keeps_def)

lemma keeps_written: "cbuf_is_valid cb' \<Longrightarrow> wrote cb bs cb' \<Longrightarrow> keeps cb cb'"
  by (simp add: wrote_def keeps_def)

lemma keeps_same: "cbuf_is_valid cb' \<Longrightarrow> same_content cb cb' \<Longrightarrow> keeps cb cb'"
  by (simp add: same_content_def keeps_def)

lemma safe_read:
  assumes v: "cbuf_is_valid cb" and m: "mem_fits m len"
  shows "safe_call (map_option (\<lambda>r. snd (snd r)) (cbuf_read cb m len)) cb" and "cbuf_peek cb m len \<noteq> None"
    and "cbuf_replay cb m len \<noteq> None"
proof -
  have "safe_call (map_option (\<lambda>r. snd (snd r)) (cbuf_read cb m len)) cb \<and> cbuf_peek cb m len \<noteq> None \<and> cbuf_replay cb m len \<noteq> None"
  proof (cases "m = None \<or> len < 0")
    case True
    then show ?thesis using keeps_refl [OF v]
      by (auto simp: cbuf_read_def cbuf_peek_def cbuf_replay_def safe_call_def split: option.splits)
  next
    case False
    then obtain bs where bs: "m = Some bs" "0 \<le> len" "nat len \<le> length bs" using m by (auto simp: mem_fits_def)
    obtain n mem' cb' where "cbuf_read cb m len = Some (n, Some mem', cb')" "taken cb n cb'" "cbuf_peek cb m len = Some (n, Some mem')"
      using read_call [OF v bs(2,3)] unfolding bs(1) [symmetric] by blast
    moreover obtain k mem2 where "cbuf_replay cb m len = Some (k, Some mem2)"
      using replay_call [OF v bs(2,3)] unfolding bs(1) [symmetric] by blast
    ultimately show ?thesis using keeps_taken by (auto simp: safe_call_def)
  qed
  then show "safe_call (map_option (\<lambda>r. snd (snd r)) (cbuf_read cb m len)) cb" and "cbuf_peek cb m len \<noteq> None"
    and "cbuf_replay cb m len \<noteq> None" by blast+
qed

lemma safe_lines:
  assumes v: "cbuf_is_valid cb" and m: "mem_fits m len"
  shows "safe_call (map_option (\<lambda>r. snd (snd r)) (cbuf_read_line cb m len lines)) cb" and "cbuf_peek_line cb m len lines \<noteq> None"
    and "in_int len \<Longrightarrow> in_int (lines + 1) \<Longrightarrow> cbuf_replay_line cb m len lines \<noteq> None"
proof -
  have "safe_call (map_option (\<lambda>r. snd (snd r)) (cbuf_read_line cb m len lines)) cb \<and> cbuf_peek_line cb m len lines \<noteq> None \<and>
    (in_int len \<longrightarrow> in_int (lines + 1) \<longrightarrow> cbuf_replay_line cb m len lines \<noteq> None)"
  proof (cases "m = None \<or> len < 0 \<or> lines < -1 \<or> lines = 0")
    case True
    then show ?thesis using keeps_refl [OF v]
      by (auto simp: cbuf_read_line_def cbuf_peek_line_def cbuf_replay_line_def safe_call_def split: option.splits)
  next
    case False
    then obtain bs where bs: "m = Some bs" "0 \<le> len" "-1 \<le> lines" "lines \<noteq> 0" "nat len \<le> length bs" using m by (auto simp: mem_fits_def)
    obtain n mem' cb' where "cbuf_read_line cb m len lines = Some (n, Some mem', cb')" "taken cb n cb'"
        "cbuf_peek_line cb m len lines = Some (n, Some mem')"
      using read_line_call [OF v bs(2-5)] unfolding bs(1) [symmetric] by blast
    moreover have "cbuf_replay_line cb m len lines \<noteq> None" if "in_int (lines + 1)" "in_int len"
      using replay_line_call [OF v bs(2-5) that] unfolding bs(1) [symmetric] by auto
    ultimately show ?thesis using keeps_taken by (auto simp: safe_call_def)
  qed
  then show "safe_call (map_option (\<lambda>r. snd (snd r)) (cbuf_read_line cb m len lines)) cb" and "cbuf_peek_line cb m len lines \<noteq> None"
    and "in_int len \<Longrightarrow> in_int (lines + 1) \<Longrightarrow> cbuf_replay_line cb m len lines \<noteq> None" by blast+
qed

lemma safe_drops:
  assumes v: "cbuf_is_valid cb"
  shows "safe_call (map_option snd (cbuf_drop cb len)) cb" and "safe_call (map_option snd (cbuf_rewind cb len)) cb"
    and "safe_call (map_option snd (cbuf_drop_line cb len lines)) cb"
    and "in_int (len + 1) \<Longrightarrow> in_int (lines + 1) \<Longrightarrow> safe_call (map_option snd (cbuf_rewind_line cb len lines)) cb"
proof -
  show "safe_call (map_option snd (cbuf_drop cb len)) cb"
    using drop_call [OF v, of len] keeps_refl [OF v] by (cases "len < -1") (auto simp: cbuf_drop_def safe_call_def keeps_taken)
  show "safe_call (map_option snd (cbuf_rewind cb len)) cb"
    using rewind_call [OF v, of len] keeps_refl [OF v] by (cases "len < -1") (auto simp: cbuf_rewind_def safe_call_def keeps_untaken)
  show "safe_call (map_option snd (cbuf_drop_line cb len lines)) cb"
  proof (cases "len < 0 \<or> lines < -1 \<or> lines = 0")
    case False
    then obtain n cb' where "cbuf_drop_line cb len lines = Some (n, cb')" "taken cb n cb'" using drop_line_call [OF v, of len lines] by auto
    then show ?thesis by (simp add: safe_call_def keeps_taken)
  qed (auto simp: cbuf_drop_line_def safe_call_def keeps_refl [OF v])
  show "safe_call (map_option snd (cbuf_rewind_line cb len lines)) cb" if lim: "in_int (len + 1)" "in_int (lines + 1)"
  proof (cases "len < 0 \<or> lines < -1 \<or> lines = 0")
    case False
    then obtain n cb' where "cbuf_rewind_line cb len lines = Some (n, cb')" "untaken cb n cb'" using rewind_line_call [OF v _ _ _ lim(2,1)] by auto
    then show ?thesis by (simp add: safe_call_def keeps_untaken)
  qed (auto simp: cbuf_rewind_line_def safe_call_def keeps_refl [OF v])
qed

lemma safe_write:
  assumes v: "bounded cb" and m: "mem_fits m len" and lim: "len \<le> size_limit"
  shows "safe_call (map_option (\<lambda>r. snd (snd r)) (cbuf_write mem cb m len nd)) cb"
proof (cases "m = None \<or> len \<le> 0")
  case True
  then show ?thesis using keeps_refl [OF bounded_facts(1) [OF v]] by (auto simp: cbuf_write_def Let_def safe_call_def split: option.splits)
next
  case False
  then obtain bs where bs: "m = Some bs" "0 < len" "nat len \<le> length bs" using m by (auto simp: mem_fits_def)
  then obtain n nd' cb' where "cbuf_write mem cb m len nd = Some (n, nd', cb')" "cbuf_is_valid cb'" "wrote cb (take (nat n) bs) cb'"
    using write_call [OF bounded_facts(1) [OF v] roomyI [OF bounded_facts(2) [OF v] lim] bs(2,3), of mem nd] by blast
  then show ?thesis by (simp add: safe_call_def keeps_written)
qed

lemma safe_write_line:
  assumes v: "bounded cb" and m: "\<And>bs. m = Some bs \<Longrightarrow> 0 \<in> set bs \<and> int (length bs) \<le> size_limit"
  shows "safe_call (map_option (\<lambda>r. snd (snd r)) (cbuf_write_line mem cb m nd)) cb"
proof (cases m)
  case None
  then show ?thesis using keeps_refl [OF bounded_facts(1) [OF v]] by (simp add: cbuf_write_line_def safe_call_def)
next
  case (Some bs)
  then obtain sl where sl: "strlen bs = Some sl" using m by (auto simp: strlen_def)
  have "int (length (line_text bs)) \<le> int (length bs)"
    using line_text_strlen(2) [OF sl] strlen_prefix(2) [OF sl] by (simp add: of_bool_def)
  then have "roomy cb (int (length (line_text bs)))" using m [OF Some] by (intro roomyI [OF bounded_facts(2) [OF v]]) simp
  from write_line_call [OF bounded_facts(1) [OF v] sl this, of mem nd] obtain r nd' cb' where
    "cbuf_write_line mem cb (Some bs) nd = Some (r, nd', cb')" "cbuf_is_valid cb'"
    "c_minsize cb' = c_minsize cb" "c_maxsize cb' = c_maxsize cb" by blast
  then show ?thesis using Some by (simp add: safe_call_def keeps_def)
qed


lemma find_lines_some:
  assumes "cbuf_is_valid cb"
  shows "cbuf_lines_used cb \<noteq> None" and "cbuf_lines_reused cb \<noteq> None"
  using assms find_unread_ok [OF assms, of "-1" "c_size cb"] find_replay_ok [OF assms, of "-1" "c_size cb"]
    valid_size [OF assms] valid_facts(3) [OF assms]
  by (auto simp: in_int_def cbuf_lines_used_def cbuf_lines_reused_def)

lemma safe_fds:
  assumes v: "cbuf_is_valid cb" and w: "write_spec log p write" and r: "read_spec inp q read"
  shows "safe_call (map_option (\<lambda>r. snd (snd r)) (cbuf_read_to_fd write cb fd len s)) cb" and "cbuf_peek_to_fd write cb fd len s \<noteq> None"
    and "cbuf_replay_to_fd write cb fd len s \<noteq> None"
    and "c_maxsize cb \<le> size_limit \<Longrightarrow> len \<le> size_limit \<Longrightarrow>
      safe_call (map_option (\<lambda>r. snd (snd (snd r))) (cbuf_write_from_fd mem read cb fd len nd s)) cb"
proof -
  have "(safe_call (map_option (\<lambda>r. snd (snd r)) (cbuf_read_to_fd write cb fd len s)) cb \<and> cbuf_peek_to_fd write cb fd len s \<noteq> None) \<and>
    cbuf_replay_to_fd write cb fd len s \<noteq> None \<and>
    (c_maxsize cb \<le> size_limit \<longrightarrow> len \<le> size_limit \<longrightarrow>
      safe_call (map_option (\<lambda>r. snd (snd (snd r))) (cbuf_write_from_fd mem read cb fd len nd s)) cb)"
  proof (cases "fd < 0 \<or> len < -1")
    case True
    then show ?thesis using keeps_refl [OF v]
      by (auto simp: cbuf_read_to_fd_def cbuf_peek_to_fd_def cbuf_replay_to_fd_def cbuf_write_from_fd_def Let_def safe_call_def)
  next
    case False
    then have a: "0 \<le> fd" "-1 \<le> len" by auto
    show ?thesis
    proof (intro conjI impI)
      show "safe_call (map_option (\<lambda>r. snd (snd r)) (cbuf_read_to_fd write cb fd len s)) cb" "cbuf_peek_to_fd write cb fd len s \<noteq> None"
        using read_to_fd_call [OF w v a, of s] by (auto simp: safe_call_def keeps_taken)
      show "cbuf_replay_to_fd write cb fd len s \<noteq> None" using replay_to_fd_call [OF w v a, of s] by auto
      assume lim: "c_maxsize cb \<le> size_limit" "len \<le> size_limit"
      show "safe_call (map_option (\<lambda>r. snd (snd (snd r))) (cbuf_write_from_fd mem read cb fd len nd s)) cb"
        using write_from_fd_call [OF r v a lim, of mem nd s] by (auto simp: safe_call_def keeps_written)
    qed
  qed
  then show "safe_call (map_option (\<lambda>r. snd (snd r)) (cbuf_read_to_fd write cb fd len s)) cb" and "cbuf_peek_to_fd write cb fd len s \<noteq> None"
    and "cbuf_replay_to_fd write cb fd len s \<noteq> None"
    and "c_maxsize cb \<le> size_limit \<Longrightarrow> len \<le> size_limit \<Longrightarrow>
      safe_call (map_option (\<lambda>r. snd (snd (snd r))) (cbuf_write_from_fd mem read cb fd len nd s)) cb" by blast+
qed

lemma safe_copy:
  assumes src: "bounded src" and dst: "bounded dst"
  shows "safe_call (map_option (\<lambda>r. snd (snd r)) (cbuf_copy mem False src dst len nd)) dst"
    and "safe_call (map_option (\<lambda>r. snd (snd (snd r))) (cbuf_move mem False src dst len nd)) dst"
    and "safe_call (map_option (\<lambda>r. fst (snd (snd r))) (cbuf_move mem False src dst len nd)) src"
proof -
  note vs = bounded_facts(1) [OF src] and vd = bounded_facts(1) [OF dst]
  have room: "roomy dst (c_used src)" by (rule roomyI [OF bounded_facts(2) [OF dst] bounded_used [OF src]])
  have "safe_call (map_option (\<lambda>r. snd (snd r)) (cbuf_copy mem False src dst len nd)) dst \<and>
    safe_call (map_option (\<lambda>r. snd (snd (snd r))) (cbuf_move mem False src dst len nd)) dst \<and>
    safe_call (map_option (\<lambda>r. fst (snd (snd r))) (cbuf_move mem False src dst len nd)) src"
  proof (cases "len < -1")
    case True
    then show ?thesis using keeps_refl [OF vs] keeps_refl [OF vd] by (simp add: cbuf_copy_def cbuf_move_def Let_def safe_call_def)
  next
    case False
    then have "-1 \<le> len" by simp
    from copy_call [OF vs vd room this, of mem nd] obtain n nd' dst' src' where
      "cbuf_copy mem False src dst len nd = Some (n, nd', dst')" "cbuf_move mem False src dst len nd = Some (n, nd', src', dst')"
      "copied src dst n dst'" "taken src (max 0 n) src'" by blast
    then show ?thesis by (auto simp: safe_call_def keeps_taken copied_def intro: keeps_written)
  qed
  then show "safe_call (map_option (\<lambda>r. snd (snd r)) (cbuf_copy mem False src dst len nd)) dst"
    and "safe_call (map_option (\<lambda>r. snd (snd (snd r))) (cbuf_move mem False src dst len nd)) dst"
    and "safe_call (map_option (\<lambda>r. fst (snd (snd r))) (cbuf_move mem False src dst len nd)) src" by blast+
qed

lemma step_safe:
  assumes b: "bounded cb" and w: "write_spec log p write" and r: "read_spec inp q read" and op: "op_ok op"
  shows "safe_call (cbuf_step mem write read op cb) cb"
proof -
  note v = bounded_facts(1) [OF b] and limit = bounded_facts(2) [OF b]
  note io = safe_fds [OF v w r] and m = safe_read [OF v] and l = safe_lines [OF v] and t = safe_drops [OF v]
  show ?thesis
  proof (cases op)
    case Flush
    then show ?thesis using flush_ok [OF v] by (auto simp: safe_call_def keeps_def)
  next
    case (Get_opt name val)
    then show ?thesis using v by (auto simp: cbuf_opt_get_def safe_call_def keeps_refl split: option.splits)
  next
    case (Set_opt name val)
    then show ?thesis using opt_set_ok [OF v, of name val] by (auto simp: safe_call_def keeps_def)
  next
    case (Write_line bs nd)
    then show ?thesis using op by (auto intro!: safe_write_line [OF b])
  next
    case Lines_used
    then show ?thesis using safe_same [OF v find_lines_some(1) [OF v]] by simp
  next
    case Lines_reused
    then show ?thesis using safe_same [OF v find_lines_some(2) [OF v]] by simp
  qed (use op in \<open>simp_all only: cbuf_step.simps op_ok.simps io m l t safe_write [OF b] safe_copy b v limit safe_same
      not_False_eq_True\<close>)
qed

lemma run_safe:
  assumes v: "bounded cb" and w: "write_spec log p write" and r: "read_spec inp q read" and ops: "list_all op_ok ops"
  shows "safe_call (cbuf_run mem write read ops cb) cb"
  using v ops
proof (induction ops arbitrary: cb)
  case Nil
  then show ?case by (simp add: safe_call_def keeps_refl bounded_def)
next
  case (Cons op ops)
  from step_safe [OF Cons.prems(1) w r, of op mem] Cons.prems(2) obtain cb1 where
    s: "cbuf_step mem write read op cb = Some cb1" "keeps cb cb1" by (auto simp: safe_call_def)
  then have "safe_call (cbuf_run mem write read ops cb1) cb1" using Cons by (simp add: keeps_def bounded_def)
  then show ?case using s keeps_trans by (auto simp: safe_call_def)
qed

end
