(* ===== verification/Cbuf_Spec.thy ===== *)
theory Cbuf_Spec
  imports Cbuf_Runs Fifo
begin

text \<open>
  What the circular buffers of \<^verbatim>\<open>cbuf.c\<close> promise: a buffer is a bounded queue of bytes that keeps the most
  recent ones, with a window of bytes already read that can be replayed and unread.  Where a call can grow the buffer, its
  maximal size and the length of the call are bounded by \<open>size_limit\<close>, so that no int overflows.
\<close>


section \<open>Samples\<close>

definition ample :: memory where "ample n = Some (\<lambda>_. 0)"

lemma ample_some: "ample n \<noteq> None"
  by (simp add: ample_def)

text \<open>A world of a log and an input, on which at most three bytes are moved at a time.\<close>

definition slow_write :: "byte list \<Rightarrow> byte list \<times> byte list \<Rightarrow> int \<times> bool \<times> (byte list \<times> byte list)" where
  "slow_write bs w = (int (min 3 (length bs)), False, (fst w @ take 3 bs, snd w))"

definition slow_read :: "nat \<Rightarrow> byte list \<times> byte list \<Rightarrow> int \<times> bool \<times> byte list \<times> (byte list \<times> byte list)" where
  "slow_read k w = (int (min (min 3 k) (length (snd w))), False, take (min 3 k) (snd w), (fst w, drop (min 3 k) (snd w)))"

lemma slow_write_spec: "write_spec fst (\<lambda>_. 0) slow_write"
  by (auto simp: write_spec_def slow_write_def min_def)

lemma slow_read_spec: "read_spec snd (\<lambda>_. 0) slow_read"
  by (auto simp: read_spec_def slow_read_def min_def)

definition fresh :: "int \<Rightarrow> int \<Rightarrow> cbuf" where
  "fresh minsize maxsize = the (the (cbuf_create ample minsize maxsize))"

lemma fresh_create:
  assumes "0 < minsize" and "minsize \<le> size_limit"
  shows "cbuf_create ample minsize maxsize = Some (Some (fresh minsize maxsize))" and "cbuf_is_valid (fresh minsize maxsize)"
    and "unread (fresh minsize maxsize) = []" and "c_size (fresh minsize maxsize) = minsize"
    and "c_maxsize (fresh minsize maxsize) = max minsize maxsize" and "c_overwrite (fresh minsize maxsize) = CBUF_WRAP_MANY"
    and "c_used (fresh minsize maxsize) = 0" and "history (fresh minsize maxsize) = []"
proof -
  from create_ok [OF assms(1) _ assms(2), of ample "\<lambda>_. 0" maxsize] obtain cb where
    c: "cbuf_create ample minsize maxsize = Some (Some cb)" "cbuf_is_valid cb" "unread cb = []" "history cb = []" "c_size cb = minsize"
      "c_maxsize cb = max minsize maxsize" "c_overwrite cb = CBUF_WRAP_MANY" by (auto simp: ample_def)
  moreover have "c_used cb = 0" using c(3) length_unread [of cb] valid_facts(5) [OF c(2)] by simp
  moreover have "fresh minsize maxsize = cb" by (simp add: fresh_def c(1))
  ultimately show "cbuf_create ample minsize maxsize = Some (Some (fresh minsize maxsize))" "cbuf_is_valid (fresh minsize maxsize)"
    "unread (fresh minsize maxsize) = []" "c_size (fresh minsize maxsize) = minsize" "history (fresh minsize maxsize) = []"
    "c_maxsize (fresh minsize maxsize) = max minsize maxsize" "c_overwrite (fresh minsize maxsize) = CBUF_WRAP_MANY"
    "c_used (fresh minsize maxsize) = 0" by simp_all
qed

text \<open>The buffer of size 8 after \<^verbatim>\<open>hi\<close> and a newline were written to it.\<close>

definition greeting :: "byte list" where "greeting = [104, 105, 10]"

lemma sample_buffer:
  obtains cb where "cbuf_is_valid cb" and "unread cb = greeting" and "c_used cb = 3" and "c_size cb = 8" and "c_maxsize cb = 8"
    and "c_overwrite cb = CBUF_WRAP_MANY"
proof -
  note f = fresh_create [of 8 8, simplified]
  from write_call [OF f(2), of 3 greeting ample None] f(5) obtain n nd' cb1 cb' where
    w: "make_room ample (fresh 8 8) 3 = Some (c_size cb1 - c_used cb1, cb1)" "cbuf_is_valid cb'" "c_size cb' = c_size cb1"
      "same_content (fresh 8 8) cb1"
      "n = (if accepted cb1 3 = 0 then -1 else accepted cb1 3)" "wrote (fresh 8 8) (take (nat n) greeting) cb'"
    by (auto simp: greeting_def roomy_def)
  have size: "c_size cb1 = 8" using w(1) f by (simp add: make_room_def)
  have "accepted cb1 3 = 3" using w(4) f by (simp add: accepted_def same_content_def)
  then have n: "n = 3" using w(5) by simp
  show thesis
  proof (rule that [OF w(2)])
    show "unread cb' = greeting" using wrote_unread [OF f(2) w(2,6)] f size w(3) by (simp add: n greeting_def)
  qed (use w f size n in \<open>simp_all add: wrote_def greeting_def\<close>)
qed


section \<open>All calls\<close>

lemma create_valid:
  assumes "cbuf_create mem minsize maxsize = Some (Some cb)"
  shows "cbuf_is_valid cb" and "c_minsize cb = minsize" and "c_maxsize cb = max minsize maxsize"
  using assms by (auto simp: cbuf_create_def Let_def bind_eq_Some_conv assertC_def split: if_splits option.splits)

lemma create_bounded:
  "cbuf_create mem minsize maxsize = Some (Some cb) \<Longrightarrow> max minsize maxsize \<le> size_limit \<Longrightarrow> bounded cb"
  using create_valid [of mem minsize maxsize cb] by (simp add: bounded_def)






section \<open>Bytes\<close>

lemma ample_room:
  assumes v: "cbuf_is_valid cb" and lim: "roomy cb len" and r: "make_room mem cb len = Some (c_size cb1 - c_used cb1, cb1)" and ample: "\<forall>m. mem m \<noteq> None"
  shows "min (c_used cb + len) (c_maxsize cb) \<le> c_size cb1"
  using make_room_ok [OF v lim, of mem] r ample by auto



text \<open>
  The limit on the maximal size is needed: in \<^verbatim>\<open>cbuf_grow\<close> the sum of the maximal size and the 17 bytes of overhead
  must be an int.  A buffer with a larger maximal size, such as \<^verbatim>\<open>INT_MAX\<close> for no limit, aborts at the first write that
  needs it to grow.
\<close>

theorem cbuf_grow_overflows:
  assumes "cbuf_is_valid cb" and "c_size cb < c_maxsize cb" and "2147483647 < c_maxsize cb + 17"
    and "0 < len" and "c_size cb - c_used cb < len"
  shows "cbuf_write mem cb (Some src) len nd = None"
proof -
  have "\<not> in_int (c_maxsize cb + (c_alloc cb - c_size cb))" using assms(3) by (simp add: in_int_def valid_alloc [OF assms(1)])
  then have "cbuf_grow mem cb (len - (c_size cb - c_used cb)) = None" using assms(2)
    by (simp add: cbuf_grow_def Let_def assertC_def)
  then show ?thesis using assms(1,2,4,5) by (simp add: cbuf_write_def cbuf_writer_def make_room_def Let_def)
qed

theorem cbuf_grow_overflows_witness:
  "cbuf_write ample (fresh 2 2147483647) (Some greeting) 3 None = None"
  using cbuf_grow_overflows [of "fresh 2 2147483647" 3 ample greeting None] fresh_create [of 2 2147483647] by simp

text \<open>One byte in, one byte out.\<close>

definition put_byte :: "memory \<Rightarrow> cbuf \<Rightarrow> byte \<Rightarrow> cbuf option" where
  "put_byte mem cb b = map_option (\<lambda>r. snd (snd r)) (cbuf_write mem cb (Some [b]) 1 None)"

definition get_byte :: "cbuf \<Rightarrow> (byte option \<times> cbuf) option" where
  "get_byte cb = do {
     (n, mem, cb) \<leftarrow> cbuf_read cb (Some [0]) 1;
     Some (if n = 0 then None else map_option hd mem, cb)
   }"

definition ring :: "int \<Rightarrow> cbuf \<Rightarrow> byte list \<Rightarrow> bool" where
  "ring S cb bs \<longleftrightarrow> cbuf_is_valid cb \<and> c_size cb = S \<and> c_maxsize cb = S \<and> c_overwrite cb = CBUF_WRAP_MANY \<and> unread cb = bs"

definition ring_join :: "int \<Rightarrow> byte list \<Rightarrow> byte \<Rightarrow> byte list" where
  "ring_join S bs b = keep_last (nat S) (bs @ [b])"

lemma put_byte_ring:
  assumes "ring S cb bs"
  shows "\<exists>cb'. put_byte mem cb b = Some cb' \<and> ring S cb' (ring_join S bs b)"
proof -
  have v: "cbuf_is_valid cb" and s: "c_size cb = S" "c_maxsize cb = S" "c_overwrite cb = CBUF_WRAP_MANY" "unread cb = bs"
    using assms by (simp_all add: ring_def)
  have "roomy cb 1" using s by (simp add: roomy_def)
  from write_call [OF v this, of "[b]" mem None] obtain n nd' cb1 cb' where
    w: "cbuf_write mem cb (Some [b]) 1 None = Some (n, nd', cb')"
    and r: "same_content cb cb1" "make_room mem cb 1 = Some (c_size cb1 - c_used cb1, cb1)"
      "cbuf_is_valid cb'" "c_size cb' = c_size cb1" "n = (if accepted cb1 1 = 0 then -1 else accepted cb1 1)"
      "wrote cb (take (nat n) [b]) cb'" by auto
  have "cb1 = cb" using r(2) s by (simp add: make_room_def)
  moreover from this have "n = 1" using r(5) s by (simp add: accepted_def)
  ultimately have "ring S cb' (ring_join S bs b)"
    using r s wrote_unread [OF v r(3,6)] by (simp add: ring_def ring_join_def wrote_def)
  then show ?thesis using w by (simp add: put_byte_def)
qed

lemma get_byte_ring:
  assumes "ring S cb bs"
  shows "\<exists>cb'. get_byte cb = Some (if bs = [] then None else Some (hd bs), cb') \<and> ring S cb' (tl bs)"
proof -
  have v: "cbuf_is_valid cb" and u: "unread cb = bs" using assms by (simp_all add: ring_def)
  from read_call [OF v, of 1 "[0]"] obtain mem' cb' where
    r: "cbuf_read cb (Some [0]) 1 = Some (min 1 (c_used cb), Some mem', cb')" "taken cb (min 1 (c_used cb)) cb'"
      "length mem' = 1" "take (nat (min 1 (c_used cb))) mem' = take (nat (min 1 (c_used cb))) bs" unfolding u by auto
  have used: "c_used cb = int (length bs)" using length_unread [of cb] valid_facts(5) [OF v] by (simp add: u)
  show ?thesis
  proof (cases bs)
    case Nil
    then show ?thesis using r(1,2) used assms by (auto simp: get_byte_def ring_def taken_def)
  next
    case (Cons b cs)
    then have "min 1 (c_used cb) = 1" using used by simp
    moreover from this r(3,4) have "mem' = [b]" by (cases mem') (auto simp: Cons)
    ultimately show ?thesis using r(1,2) assms Cons by (auto simp: get_byte_def ring_def taken_def)
  qed
qed

interpretation byte_ring: container "ring S" "ring_join S" "put_byte mem" get_byte for S mem
proof unfold_locales
  show "\<exists>cb'. put_byte mem cb b = Some cb' \<and> ring S cb' (ring_join S bs b)" if "ring S cb bs" for cb bs b
    by (rule put_byte_ring [OF that])
  show "\<exists>cb'. get_byte cb = Some (None, cb') \<and> ring S cb' []" if "ring S cb []" for cb
    using get_byte_ring [OF that] by simp
  show "\<exists>cb'. get_byte cb = Some (Some b, cb') \<and> ring S cb' bs" if "ring S cb (b # bs)" for cb b bs
    using get_byte_ring [OF that] by simp
qed

text \<open>
  C9: A buffer of fixed size \<open>S\<close> in its default mode is a ring: any sequence of single-byte writes and reads sees
  what it would see of a queue that forgets its oldest byte when it holds more than \<open>S\<close>.
\<close>

theorem cbuf_is_ring:
  assumes "ring S cb bs"
  shows "\<exists>cb'. run_container (put_byte mem) get_byte cs cb = Some (fst (run_model (ring_join S) cs bs), cb') \<and>
    ring S cb' (snd (run_model (ring_join S) cs bs))"
  by (rule byte_ring.run_simulates [OF assms])

lemma fresh_ring: "0 < S \<Longrightarrow> S \<le> size_limit \<Longrightarrow> ring S (fresh S S) []"
  by (simp add: ring_def fresh_create)

theorem cbuf_is_ring_witness:
  "\<exists>cb'. run_container (put_byte ample) get_byte [Put 1, Put 2, Put 3, Get, Get, Get] (fresh 2 2) =
    Some ([Some 2, Some 3, None], cb') \<and> ring 2 cb' []"
  using cbuf_is_ring [OF fresh_ring [of 2], of ample "[Put 1, Put 2, Put 3, Get, Get, Get]"]
  by (simp add: ring_join_def keep_last_def)

lemma taken_replayable:
  assumes v: "cbuf_is_valid cb" and t: "taken cb n cb1" and n: "0 \<le> n" "n \<le> c_used cb"
  shows "replayable cb1 = replayable cb @ take (nat n) (unread cb)" and "reused_bytes cb1 = reused_bytes cb + n"
proof -
  have v1: "cbuf_is_valid cb1" and t': "history cb1 = history cb" "unread cb1 = drop (nat n) (unread cb)"
    using t by (simp_all add: taken_def)
  have "replayable cb1 @ drop (nat n) (unread cb) = (replayable cb @ take (nat n) (unread cb)) @ drop (nat n) (unread cb)"
    using history_split [OF v] history_split [OF v1] t' by simp
  then show r: "replayable cb1 = replayable cb @ take (nat n) (unread cb)" by (simp only: append_same_eq)
  have "nat (reused_bytes cb1) = nat (reused_bytes cb) + nat n" using arg_cong [OF r, of length] n by (simp add: min_absorb2 nat_mono)
  then show "reused_bytes cb1 = reused_bytes cb + n" using valid_facts(7) [OF v] valid_facts(7) [OF v1] n by linarith
qed

text \<open>
  Bytes that were read can be read again: after \<^verbatim>\<open>cbuf_read\<close>, \<^verbatim>\<open>cbuf_replay\<close> of the same number gives the
  same bytes, and \<^verbatim>\<open>cbuf_rewind\<close> makes exactly these bytes unread again.
\<close>

theorem cbuf_read_rewind:
  assumes "cbuf_is_valid cb" and "0 \<le> len" and "nat len \<le> length m" and "len \<le> int (length m2)"
  shows "\<exists>n m' cb1 m2' cb2. cbuf_read cb (Some m) len = Some (n, Some m', cb1) \<and> n = min len (c_used cb) \<and>
    take (nat n) m' = take (nat n) (unread cb) \<and>
    cbuf_replay cb1 (Some m2) n = Some (n, Some m2') \<and> take (nat n) m2' = take (nat n) m' \<and>
    cbuf_rewind cb1 n = Some (n, cb2) \<and> unread cb2 = unread cb \<and> c_used cb2 = c_used cb"
proof -
  define n where "n = min len (c_used cb)"
  from read_call [OF assms(1-3)] obtain m' cb1 where
    r: "cbuf_read cb (Some m) len = Some (n, Some m', cb1)" "taken cb n cb1" "take (nat n) m' = take (nat n) (unread cb)"
    unfolding n_def by blast
  have n: "0 \<le> n" "n \<le> c_used cb" "nat n \<le> length m2" using assms(2,4) valid_facts(5) [OF assms(1)] by (auto simp: n_def)
  note t = taken_replayable [OF assms(1) r(2) n(1,2)]
  have v1: "cbuf_is_valid cb1" and u1: "unread cb1 = drop (nat n) (unread cb)" "c_used cb1 = c_used cb - n"
    using r(2) by (simp_all add: taken_def)
  have pos: "0 \<le> reused_bytes cb" by (rule valid_facts(7) [OF assms(1)])
  have k: "min n (reused_bytes cb1) = n" using t(2) pos by simp
  have last: "drop (nat (reused_bytes cb1 - n)) (replayable cb1) = take (nat n) (unread cb)" using t by simp
  from replay_call [OF v1 n(1,3)] obtain m2' where
    p: "cbuf_replay cb1 (Some m2) n = Some (n, Some m2')" "take (nat n) m2' = take (nat n) (unread cb)" unfolding k last by blast
  have "-1 \<le> n" "n \<noteq> -1" using n by auto
  with rewind_call [OF v1, of n] obtain cb2 where
    w: "cbuf_rewind cb1 n = Some (n, cb2)" "untaken cb1 n cb2" unfolding k by auto
  have "unread cb2 = unread cb" using w(2) last u1 by (simp add: untaken_def)
  moreover have "c_used cb2 = c_used cb" using w(2) u1 by (simp add: untaken_def)
  ultimately show ?thesis using r p w n_def by auto
qed

theorem cbuf_read_rewind_witness:
  "\<exists>cb m' cb1 cb2. unread cb = greeting \<and> cbuf_read cb (Some [0, 0]) 2 = Some (2, Some m', cb1) \<and> take 2 m' = [104, 105] \<and>
    cbuf_rewind cb1 2 = Some (2, cb2) \<and> unread cb2 = greeting"
proof -
  obtain cb where cb: "cbuf_is_valid cb" "unread cb = greeting" "c_used cb = 3" by (rule sample_buffer)
  from cbuf_read_rewind [OF cb(1), of 2 "[0, 0]" "[0, 0]"] show ?thesis
    using cb(2) by (auto simp: cb(2,3) greeting_def intro!: exI [of _ cb])
qed


section \<open>Lines\<close>

lemma wrote_ample:
  assumes v: "cbuf_is_valid cb" and sl: "strlen src = Some sl" and ample: "\<forall>m. mem m \<noteq> None"
  defines "len \<equiv> int (length (line_text src))"
  assumes fit: "c_used cb + len \<le> c_maxsize cb" and lim: "roomy cb len"
  shows "\<exists>nd' cb'. cbuf_write_line mem cb (Some src) nd = Some (len, nd', cb') \<and> cbuf_is_valid cb' \<and>
    unread cb' = unread cb @ line_text src"
proof -
  from write_line_call [OF v sl lim [unfolded len_def], of mem nd, folded len_def] obtain cb1 nd' cb' where
    r: "make_room mem cb len = Some (c_size cb1 - c_used cb1, cb1)" "same_content cb cb1"
      "cbuf_write_line mem cb (Some src) nd = Some (if refuses cb1 len then -1 else len, nd', cb')" "cbuf_is_valid cb'"
      "if refuses cb1 len then cb' = cb1
       else len \<le> c_size cb1 - c_used cb1 \<or> c_size cb1 = c_maxsize cb \<longrightarrow> c_size cb' = c_size cb1 \<and> wrote cb (line_text src) cb'"
    by blast
  have size: "c_used cb + len \<le> c_size cb1" using ample_room [OF v lim r(1) ample] fit by simp
  moreover have "c_used cb1 = c_used cb" using r(2) by (simp add: same_content_def)
  moreover have used: "0 \<le> c_used cb" by (rule valid_facts(5) [OF v])
  ultimately have "\<not> refuses cb1 len" "c_size cb' = c_size cb1 \<and> wrote cb (line_text src) cb'"
    using r(5) by (auto simp: refuses_def split: if_splits)
  moreover from this have "unread cb' = keep_last (nat (c_size cb')) (unread cb @ line_text src)"
    using wrote_unread [OF v r(4)] by blast
  moreover have "length (unread cb @ line_text src) \<le> nat (c_size cb1)" using size used by (simp add: len_def)
  ultimately show ?thesis using r(3,4) by auto
qed

text \<open>
  Asked for a number of lines that is there, \<^verbatim>\<open>cbuf_read_line\<close> returns their length and delivers exactly these
  lines, terminated, and they are no longer unread; the line after them is untouched.  If there are fewer lines, it
  returns 0 and the buffer is as it was.
\<close>

theorem cbuf_read_line_exact:
  assumes "cbuf_is_valid cb" and "0 \<le> len" and "nat len \<le> length m" and "0 < lines"
  shows "(\<forall>ls rest. unread cb = text_lines ls @ rest \<and> int (length ls) = lines \<and> (\<forall>x\<in>set ls. newline \<notin> set x) \<and>
        int (length (text_lines ls)) < len \<longrightarrow>
      (\<exists>m' cb'. cbuf_read_line cb (Some m) len lines = Some (int (length (text_lines ls)), Some m', cb') \<and>
        take (length (text_lines ls) + 1) m' = text_lines ls @ [0] \<and> unread cb' = rest \<and> cbuf_is_valid cb')) \<and>
    (int (count_list (unread cb) newline) < lines \<longrightarrow>
      (\<exists>m' cb'. cbuf_read_line cb (Some m) len lines = Some (0, Some m', cb') \<and> unread cb' = unread cb))"
proof (intro conjI allI impI)
  have a: "-1 \<le> lines" "lines \<noteq> 0" using assms(4) by simp_all
  from read_line_call [OF assms(1,2) a assms(3)] obtain n k m' cb' where
    f: "cbuf_find_unread_line cb (len - 1) lines = Some (n, k)" "cbuf_read_line cb (Some m) len lines = Some (n, Some m', cb')"
      "0 \<le> n" "taken cb n cb'"
      "0 < n \<and> 0 < len \<longrightarrow> take (nat (min n (len - 1)) + 1) m' = take (nat (min n (len - 1))) (unread cb) @ [0]" by blast
  {
    fix ls rest assume h: "unread cb = text_lines ls @ rest \<and> int (length ls) = lines \<and> (\<forall>x\<in>set ls. newline \<notin> set x) \<and>
        int (length (text_lines ls)) < len"
    then have "ls \<noteq> []" using assms(4) by auto
    moreover from this have "text_lines ls \<noteq> []" by (cases ls) auto
    ultimately have n: "n = int (length (text_lines ls))" "0 < n" "nat (min n (len - 1)) = length (text_lines ls)"
      using find_unread_lines [OF assms(1), of ls rest "len - 1"] h f(1) by auto
    have "take (length (text_lines ls) + 1) m' = text_lines ls @ [0]" using f(5) n h by simp
    moreover have "unread cb' = rest" "cbuf_is_valid cb'" using f(4) n(1) h by (simp_all add: taken_def)
    ultimately show "\<exists>m' cb'. cbuf_read_line cb (Some m) len lines = Some (int (length (text_lines ls)), Some m', cb') \<and>
        take (length (text_lines ls) + 1) m' = text_lines ls @ [0] \<and> unread cb' = rest \<and> cbuf_is_valid cb'"
      using f(2) n(1) by blast
  next
    assume "int (count_list (unread cb) newline) < lines"
    then have "n = 0" using find_unread_few [OF assms(1), of lines "len - 1"] f(1) by simp
    then show "\<exists>m' cb'. cbuf_read_line cb (Some m) len lines = Some (0, Some m', cb') \<and> unread cb' = unread cb"
      using f(2,4) by (simp add: taken_def)
  }
qed

theorem cbuf_read_line_exact_witness:
  "\<exists>cb m' cb'. unread cb = greeting \<and> cbuf_read_line cb (Some (replicate 8 1)) 8 1 = Some (3, Some m', cb') \<and>
    take 4 m' = [104, 105, 10, 0] \<and> unread cb' = []"
proof -
  obtain cb where cb: "cbuf_is_valid cb" "unread cb = greeting" by (rule sample_buffer)
  have u: "unread cb = text_lines [[104, 105]] @ []" by (simp add: cb(2) greeting_def newline_def)
  have all: "\<forall>ls rest. unread cb = text_lines ls @ rest \<and> int (length ls) = 1 \<and> (\<forall>x\<in>set ls. newline \<notin> set x) \<and>
        int (length (text_lines ls)) < 8 \<longrightarrow>
      (\<exists>m' cb'. cbuf_read_line cb (Some (replicate 8 1)) 8 1 = Some (int (length (text_lines ls)), Some m', cb') \<and>
        take (length (text_lines ls) + 1) m' = text_lines ls @ [0] \<and> unread cb' = rest \<and> cbuf_is_valid cb')"
    using cbuf_read_line_exact [OF cb(1), of 8 "replicate 8 1" 1] by simp
  have four: "Suc (Suc (Suc (Suc 0))) = 4" by simp
  from all [rule_format, of "[[104, 105]]" "[]"] u show ?thesis
    by - (rule exI [of _ cb], auto simp: newline_def cb(2) greeting_def four)
qed

text \<open>
  C25: A line written with \<^verbatim>\<open>cbuf_write_line\<close> behind \<open>k\<close> lines already there comes out of \<^verbatim>\<open>cbuf_read_line\<close> unchanged
  after these lines were dropped, with a newline if it had none, and the buffer is empty then.  The maximal size is at
  most a gigabyte (\<open>size_limit\<close>), and the line fits.
\<close>

theorem cbuf_line_roundtrip:
  assumes "cbuf_is_valid cb" and "unread cb = text_lines ls" and "\<forall>x\<in>set ls. newline \<notin> set x" and "ls \<noteq> []"
    and "strlen src = Some sl" and "line_text src = x @ [newline]" and "newline \<notin> set x" and "\<forall>n. mem n \<noteq> None"
    and "c_used cb + int (length x) + 1 \<le> c_maxsize cb" and "int (length x) + 1 < len" and "nat len \<le> length m"
    and "c_maxsize cb \<le> size_limit"
  shows "\<exists>n cb1 nd' k cb2 m' cb3. cbuf_write_line mem cb (Some src) nd = Some (n, nd', cb1) \<and> n = int (length x) + 1 \<and>
    cbuf_drop_line cb1 0 (int (length ls)) = Some (k, cb2) \<and>
    cbuf_read_line cb2 (Some m) len 1 = Some (n, Some m', cb3) \<and> take (nat n + 1) m' = x @ [newline, 0] \<and> unread cb3 = []"
proof -
  have len: "int (length (line_text src)) = int (length x) + 1" by (simp add: assms(6))
  have fit: "c_used cb + int (length (line_text src)) \<le> c_maxsize cb" using assms(9) by (simp add: len)
  then have "roomy cb (int (length (line_text src)))"
    using valid_facts(5) [OF assms(1)] assms(12) by (intro roomyI [OF assms(12)]) simp
  from wrote_ample [OF assms(1,5,8) fit this, of nd] obtain nd' cb1 where
    w: "cbuf_write_line mem cb (Some src) nd = Some (int (length x) + 1, nd', cb1)" "cbuf_is_valid cb1"
      "unread cb1 = text_lines ls @ x @ [newline]" unfolding len using assms(2,6) by auto
  have pos: "0 \<le> (0 :: int)" "-1 \<le> int (length ls)" "int (length ls) \<noteq> 0" using assms(4) by auto
  from drop_line_call [OF w(2) pos] obtain k j cb2 where
    d: "cbuf_find_unread_line cb1 0 (int (length ls)) = Some (k, j)" "cbuf_drop_line cb1 0 (int (length ls)) = Some (k, cb2)"
      "taken cb1 k cb2" by blast
  have "k = int (length (text_lines ls))" using find_unread_lines [OF w(2,3) assms(4,3), of 0] d(1) by simp
  then have u: "unread cb2 = text_lines [x] @ []" and v2: "cbuf_is_valid cb2" using d(3) w(3) by (simp_all add: taken_def)
  have a: "0 \<le> len" "-1 \<le> (1 :: int)" "(1 :: int) \<noteq> 0" using assms(10) by simp_all
  from read_line_call [OF v2 a assms(11)] obtain n i m' cb3 where
    r: "cbuf_find_unread_line cb2 (len - 1) 1 = Some (n, i)" "cbuf_read_line cb2 (Some m) len 1 = Some (n, Some m', cb3)" "taken cb2 n cb3"
      "0 < n \<and> 0 < len \<longrightarrow> take (nat (min n (len - 1)) + 1) m' = take (nat (min n (len - 1))) (unread cb2) @ [0]" by blast
  have n: "n = int (length x) + 1" using find_unread_lines [OF v2 u, of "len - 1"] assms(7) r(1) by simp
  have m: "nat (min n (len - 1)) = length x + 1" "nat n = length x + 1" using n assms(10) by auto
  have "take (nat n + 1) m' = x @ [newline, 0]" using r(4) n m assms(10) by (simp add: u)
  moreover have "unread cb3 = []" using r(3) m by (simp add: taken_def u)
  ultimately show ?thesis using w(1) d(2) r(2) n by blast
qed

theorem cbuf_line_roundtrip_witness:
  "\<exists>cb cb1 nd' k cb2 m' cb3. unread cb = greeting \<and> cbuf_write_line ample cb (Some [89, 111, 0]) None = Some (3, nd', cb1) \<and>
    cbuf_drop_line cb1 0 1 = Some (k, cb2) \<and> cbuf_read_line cb2 (Some (replicate 5 1)) 5 1 = Some (3, Some m', cb3) \<and>
    take 4 m' = [89, 111, 10, 0] \<and> unread cb3 = []"
proof -
  obtain cb where cb: "cbuf_is_valid cb" "unread cb = greeting" "c_used cb = 3" "c_size cb = 8" "c_maxsize cb = 8" by (rule sample_buffer)
  have u: "unread cb = text_lines [[104, 105]]" by (simp add: cb(2) greeting_def newline_def)
  have "strlen [89, 111, 0 :: byte] = Some 2" "line_text [89, 111, 0] = [89, 111] @ [newline]"
    by (simp_all add: strlen_def line_text_def newline_def)
  from cbuf_line_roundtrip [OF cb(1) u _ _ this, of ample 5 "replicate 5 1" None] show ?thesis
    using cb by - (rule exI [of _ cb], auto simp: newline_def ample_some)
qed


section \<open>Moving and relaying\<close>

text \<open>
  \<^verbatim>\<open>cbuf_move\<close> into a buffer that must not drop loses, doubles and reorders nothing: what was unread in the two buffers
  is unread in them afterwards, in the same order.  The number it returns is the number of bytes that moved, and
  \<^verbatim>\<open>cbuf_copy\<close> returns the same number and leaves the same target.
\<close>

theorem cbuf_move_conserves:
  assumes "cbuf_is_valid src" and "cbuf_is_valid dst" and "-1 \<le> len" and "c_overwrite dst = CBUF_NO_DROP"
    and "c_maxsize src \<le> size_limit" and "c_maxsize dst \<le> size_limit"
  shows "\<exists>n nd' src' dst'. cbuf_move mem False src dst len nd = Some (n, nd', src', dst') \<and>
    cbuf_copy mem False src dst len nd = Some (n, nd', dst') \<and>
    cbuf_is_valid src' \<and> cbuf_is_valid dst' \<and> unread dst' @ unread src' = unread dst @ unread src \<and>
    int (length (unread dst')) = int (length (unread dst)) + max 0 n"
proof -
  have "bounded src" using assms(1,5) by (simp add: bounded_def)
  note lim = roomyI [OF assms(6) bounded_used [OF this]]
  from copy_call [OF assms(1,2) lim assms(3), of mem nd] obtain n nd' dst' src' where
    c: "cbuf_copy mem False src dst len nd = Some (n, nd', dst')" "cbuf_move mem False src dst len nd = Some (n, nd', src', dst')"
      "copied src dst n dst'" "taken src (max 0 n) src'" by blast
  have v: "cbuf_is_valid dst'" and w: "wrote dst (take (nat n) (unread src)) dst'" and n: "n \<le> c_used src"
    "c_used dst + max 0 n \<le> c_size dst'" using c(3) assms(4) by (simp_all add: copied_def)
  have nn: "nat (max 0 n) = nat n" by simp
  have pos: "0 \<le> c_used src" "0 \<le> c_used dst" using valid_facts(5) assms(1,2) by auto
  have len: "int (length (take (nat n) (unread src))) = max 0 n" using n(1) pos by auto
  have "length (unread dst @ take (nat n) (unread src)) \<le> nat (c_size dst')" using len n(2) pos by simp
  then have u: "unread dst' = unread dst @ take (nat n) (unread src)"
    unfolding wrote_unread [OF assms(2) v w] by (rule keep_last_all)
  moreover have "unread src' = drop (nat n) (unread src)" "cbuf_is_valid src'" using c(4) unfolding taken_def nn by blast+
  ultimately show ?thesis using c(1,2) v len by (simp del: int_nat_eq length_unread)
qed

theorem cbuf_move_conserves_witness:
  "\<exists>cb dst n nd' src' dst'. unread cb = greeting \<and> cbuf_move ample False cb dst 2 None = Some (n, nd', src', dst') \<and>
    unread dst' @ unread src' = greeting"
proof -
  obtain cb where cb: "cbuf_is_valid cb" "unread cb = greeting" "c_maxsize cb = 8" by (rule sample_buffer)
  have "cbuf_is_valid ((fresh 8 8)\<lparr>c_overwrite := CBUF_NO_DROP\<rparr>)" "unread ((fresh 8 8)\<lparr>c_overwrite := CBUF_NO_DROP\<rparr>) = []"
    using fresh_create(2,3) [of 8 8] by (simp_all add: cbuf_is_valid_def unread_def)
  with cbuf_move_conserves [OF cb(1) this(1), of 2 ample None] cb(2,3) fresh_create(5) [of 8 8] show ?thesis
    by - (rule exI [of _ cb], rule exI [of _ "(fresh 8 8)\<lparr>c_overwrite := CBUF_NO_DROP\<rparr>"], auto)
qed

text \<open>A relay reads from one descriptor into the buffer and writes from the buffer to another one.\<close>

datatype relay_call = Fill int | Drain int

fun relay ::
    "memory \<Rightarrow> (byte list \<Rightarrow> 'w \<Rightarrow> int \<times> bool \<times> 'w) \<Rightarrow> (nat \<Rightarrow> 'v \<Rightarrow> int \<times> bool \<times> byte list \<times> 'v) \<Rightarrow> int \<Rightarrow> int \<Rightarrow>
     relay_call list \<Rightarrow> cbuf \<Rightarrow> 'v \<Rightarrow> 'w \<Rightarrow> (cbuf \<times> 'v \<times> 'w) option" where
  "relay mem write read ifd ofd [] cb v w = Some (cb, v, w)"
| "relay mem write read ifd ofd (Fill len # cs) cb v w = do {
     (n, nd, v, cb) \<leftarrow> cbuf_write_from_fd mem read cb ifd len None v;
     relay mem write read ifd ofd cs cb v w }"
| "relay mem write read ifd ofd (Drain len # cs) cb v w = do {
     (n, w, cb) \<leftarrow> cbuf_read_to_fd write cb ofd len w;
     relay mem write read ifd ofd cs cb v w }"

definition call_len :: "relay_call \<Rightarrow> int" where
  "call_len c = (case c of Fill len \<Rightarrow> len | Drain len \<Rightarrow> len)"

text \<open>
  C8: Through a buffer that must not drop, any interleaving of filling and draining, with partial and failing reads and
  writes in between, delivers the input: what was written, then what is in the buffer, then what is still to come is
  always the same sequence of bytes.  The buffer and each call are at most a gigabyte (\<open>size_limit\<close>).
\<close>

theorem cbuf_relay_lossless:
  assumes "write_spec log p write" and "read_spec inp q read" and "0 \<le> ifd" and "0 \<le> ofd"
    and "cbuf_is_valid cb" and "c_overwrite cb = CBUF_NO_DROP" and "c_maxsize cb \<le> size_limit"
    and "\<forall>c\<in>set cs. -1 \<le> call_len c \<and> call_len c \<le> size_limit"
  shows "\<exists>cb' v' w'. relay mem write read ifd ofd cs cb v w = Some (cb', v', w') \<and> cbuf_is_valid cb' \<and>
    log w' @ unread cb' @ inp v' = log w @ unread cb @ inp v"
  using assms(5-8)
proof (induction cs arbitrary: cb v w)
  case (Cons c cs)
  have len: "-1 \<le> call_len c" "call_len c \<le> size_limit" and rest: "\<forall>c\<in>set cs. -1 \<le> call_len c \<and> call_len c \<le> size_limit"
    using Cons.prems(4) by simp_all
  show ?case
  proof (cases c)
    case (Fill len)
    then have l: "-1 \<le> len" "len \<le> size_limit" using len by (simp_all add: call_len_def)
    from write_from_fd_call [OF assms(2) Cons.prems(1) assms(3) l(1) Cons.prems(3) l(2), of mem None v] obtain n nd' v1 cb1 bs where
      r: "cbuf_write_from_fd mem read cb ifd len None v = Some (n, nd', v1, cb1)" "cbuf_is_valid cb1" "inp v = bs @ inp v1"
        "wrote cb bs cb1" "c_used cb + int (length bs) \<le> c_size cb1" using Cons.prems(2) by blast
    have "length (unread cb @ bs) \<le> nat (c_size cb1)" using r(5) valid_facts(5) [OF Cons.prems(1)] by simp
    then have "unread cb1 = unread cb @ bs" unfolding wrote_unread [OF Cons.prems(1) r(2,4)] by (rule keep_last_all)
    moreover have "c_overwrite cb1 = CBUF_NO_DROP" "c_maxsize cb1 \<le> size_limit" using r(4) Cons.prems(2,3) by (simp_all add: wrote_def)
    ultimately show ?thesis using Cons.IH [OF r(2) _ _ rest, of v1 w] r(1,3) Fill by simp
  next
    case (Drain len)
    then have l: "-1 \<le> len" using len by (simp add: call_len_def)
    from read_to_fd_call [OF assms(1) Cons.prems(1) assms(4) l, of w] obtain n w1 cb1 where
      r: "cbuf_read_to_fd write cb ofd len w = Some (n, w1, cb1)" "log w1 = log w @ take (nat n) (unread cb)" "taken cb (max 0 n) cb1"
      by blast
    have "nat (max 0 n) = nat n" by simp
    then have "cbuf_is_valid cb1" "unread cb1 = drop (nat n) (unread cb)" "c_overwrite cb1 = CBUF_NO_DROP" "c_maxsize cb1 \<le> size_limit"
      using r(3) Cons.prems(2,3) unfolding taken_def by metis+
    moreover from this(2) have same: "log w1 @ unread cb1 @ inp v = log w @ unread cb @ inp v"
      by (simp only: r(2) append_assoc) (metis append_assoc append_take_drop_id)
    ultimately show ?thesis using Cons.IH [of cb1 v w1, unfolded same] rest r(1) Drain by simp
  qed
qed simp

theorem cbuf_relay_lossless_witness:
  "\<exists>cb' v' w'. relay ample slow_write slow_read 0 1 [Fill 4, Drain 2, Fill (-1), Drain (-1)]
      ((fresh 2 8)\<lparr>c_overwrite := CBUF_NO_DROP\<rparr>) ([], [1, 2, 3, 4, 5, 6, 7]) ([], []) = Some (cb', v', w') \<and>
    fst w' @ unread cb' @ snd v' = [1, 2, 3, 4, 5, 6, 7]"
proof -
  have "cbuf_is_valid ((fresh 2 8)\<lparr>c_overwrite := CBUF_NO_DROP\<rparr>)" "unread ((fresh 2 8)\<lparr>c_overwrite := CBUF_NO_DROP\<rparr>) = []"
    "c_maxsize ((fresh 2 8)\<lparr>c_overwrite := CBUF_NO_DROP\<rparr>) = 8"
    using fresh_create(2,3,5) [of 2 8] by (simp_all add: cbuf_is_valid_def unread_def)
  with cbuf_relay_lossless [OF slow_write_spec slow_read_spec _ _ this(1), of 0 1 "[Fill 4, Drain 2, Fill (-1), Drain (-1)]" ample
      "([], [1, 2, 3, 4, 5, 6, 7])" "([], [])"]
  show ?thesis by (auto simp: call_len_def)
qed

end
