(* ===== verification/Wire.thy ===== *)
theory Wire
  imports Pack Complex_Main
begin

text \<open>
  Messages as sequences of fields: what the pack and unpack functions of the records share.  A pack function is a
  list of field writers, an unpack function a chain of field readers; the rules here compose the contracts of the
  fields to those of the message.  At the end, the C type \<^verbatim>\<open>float\<close>.
\<close>

named_theorems wire_writes "rules that compose the writers of the fields of a message"
named_theorems wire_len "the sizes of encoded fields"
named_theorems wire_reads "rules that compose the readers of the fields of a message"
named_theorems wire_safe "rules that show that a reader stays inside the buffer"


section \<open>Sequences of fields\<close>

definition pack_all :: "unit M list \<Rightarrow> unit M" where
  "pack_all ms = foldr thenM ms (ret ())"

lemma pack_all_simps [simp]: "pack_all [] = ret ()" "pack_all (m # ms) = thenM m (pack_all ms)"
  by (simp_all add: pack_all_def)

lemma writes_nil [wire_writes]: "writes (pack_all []) (concat []) (sum_list [])"
  by (simp add: writes_ret)

lemma writes_cons [wire_writes]:
  "writes m bs k \<Longrightarrow> length bs \<le> k \<Longrightarrow> writes (pack_all ms) (concat bss) (sum_list ks) \<Longrightarrow>
    writes (pack_all (m # ms)) (concat (bs # bss)) (sum_list (k # ks))"
  using writes_thenM [of m bs k "pack_all ms"] by simp

lemma writes_replicate:
  "writes m bs k \<Longrightarrow> length bs \<le> k \<Longrightarrow>
    writes (pack_all (replicate n m)) (concat (replicate n bs)) (sum_list (replicate n k))"
  by (induction n) (auto intro: writes_ret writes_thenM)

lemma pack_all_fault: "pack_all ms b = Ok () b' \<Longrightarrow> pack_all (ms @ fault # ns) b = Fault"
  by (induction ms arbitrary: b) (auto simp: thenM_def bindM_def ret_def fault_def split: res.splits)

lemma reads_nil [wire_reads]: "x = y \<Longrightarrow> reads (ret x) y (concat [])"
  by (simp add: reads_ret)

lemma reads_cons [wire_reads]:
  "reads m x bs \<Longrightarrow> reads (f x) y (concat bss) \<Longrightarrow> reads (bindM m f) y (concat (bs # bss))"
  using reads_bindM [of m x bs f y] by simp

text \<open>The codecs of the scalar fields, through the checked macros of \<^verbatim>\<open>pack.h\<close>.\<close>

context codec_fixed
begin

lemma checked_codec: "codec_fixed pk (checked unpk) enc budget okv width"
proof
  fix b assume "wf_buf b" "length (to_come b) < width"
  then show "checked unpk b = Err b" by (simp add: checked_def wf_buf_def [of b] short_err)
qed (auto intro: pk_writes enc_budget enc_width reads_checked unpk_reads reader_checked unpk_reader)

end

interpretation s64: codec_fixed pack_time safe_unpack_time "be_bytes 8" "\<lambda>_. 8" "\<lambda>_. True" 8
  unfolding safe_unpack_time_def by (rule ct.checked_codec)

interpretation s32: codec_fixed pack32 safe_unpack32 "be_bytes 4" "\<lambda>_. 4" "\<lambda>_. True" 4
  unfolding safe_unpack32_def by (rule c32.checked_codec)

interpretation s16: codec_fixed pack16 safe_unpack16 "be_bytes 2" "\<lambda>_. 2" "\<lambda>_. True" 2
  unfolding safe_unpack16_def by (rule c16.checked_codec)

lemmas scalar_writes [wire_writes] =
  s64.pk_writes [OF TrueI] s32.pk_writes [OF TrueI] s16.pk_writes [OF TrueI] cstrs.pk_writes

lemmas scalar_reads [wire_reads] =
  s64.unpk_reads [OF TrueI] s32.unpk_reads [OF TrueI] s16.unpk_reads [OF TrueI] cstrs.unpk_reads

lemmas scalar_len [wire_len] = length_be_bytes cstrs.enc_budget


section \<open>Readers that also write\<close>

text \<open>
  \<open>robust m\<close>: on any well-formed buffer with less than 2 GiB to come \<open>m\<close> stays inside its memory and leaves it so.
\<close>

fun safe_res :: "'a res \<Rightarrow> bool" where
  "safe_res (Ok _ b) = legible b"
| "safe_res (Err b) = legible b"
| "safe_res Fault = False"

definition robust :: "'a M \<Rightarrow> bool" where
  "robust m \<longleftrightarrow> (\<forall>b. legible b \<longrightarrow> safe_res (m b))"

lemma robustI: "(\<And>b. legible b \<Longrightarrow> safe_res (m b)) \<Longrightarrow> robust m"
  by (simp add: robust_def)

lemma robustD: "robust m \<Longrightarrow> legible b \<Longrightarrow> safe_res (m b)"
  by (simp add: robust_def)

lemma robust_reader: "reader m \<Longrightarrow> robust m"
proof (rule robustI)
  fix b assume "reader m" and leg: "legible b"
  then have "case m b of Ok _ b' \<Rightarrow> moved b b' | Err b' \<Rightarrow> moved b b' | Fault \<Rightarrow> False" by (simp add: reader_def)
  then show "safe_res (m b)" using moved_legible [OF _ leg] by (cases "m b") simp_all
qed

text \<open>A scalar that is packed leaves less to come, or has enlarged the buffer because little was left.\<close>

lemma reserve_legible:
  assumes "legible b" and "n \<le> 16384" and "reserve n b = Some b'"
  shows "legible b'"
proof (cases "b' = b")
  case False
  have wf: "wf_buf b" using assms(1) by (simp add: legible_def)
  have e: "b' = enlarge BUF_SIZE b" "unat (remaining_buf b) < n" "\<not> MAX_BUF_SIZE - BUF_SIZE < bsize b"
    using False assms(3) by (auto simp: reserve_def split: if_splits)
  have "unat (MAX_BUF_SIZE - BUF_SIZE) = pack_limit" by (simp add: MAX_BUF_SIZE_def BUF_SIZE_def pack_limit_def)
  then have "unat (bsize b) + unat BUF_SIZE \<le> 0xffff0000" using e(3) by (simp add: word_less_nat_alt pack_limit_def)
  note l = enlarge_wf [OF wf this]
  have "length (to_come b') = unat (bsize b) + 16384 - unat (processed b)"
    using l by (simp add: e(1) length_to_come unat_remaining_buf)
  also have "\<dots> \<le> INT_MAX" using e(2) assms(2) wf by (simp add: unat_remaining_buf INT_MAX_def)
  finally show ?thesis using l(1) by (simp add: legible_def e(1))
qed (use assms(1) in simp)

lemma robust_pack_scalar:
  assumes "length bs \<le> 16384"
  shows "robust (pack_scalar bs)"
proof (rule robustI)
  fix b assume leg: "legible b"
  then have wf: "wf_buf b" by (simp add: legible_def)
  show "safe_res (pack_scalar bs b)"
  proof (cases "reserve (length bs) b")
    case None
    then show ?thesis using leg by (simp add: pack_scalar_def)
  next
    case (Some b1)
    then have b1: "legible b1" "length bs \<le> length (to_come b1)"
      using reserve_legible [OF leg assms] reserve_wf [OF wf assms] by auto
    then have wf1: "wf_buf b1" by (simp add: legible_def)
    obtain b2 where b2: "put_bytes bs b1 = Ok () b2" "wf_buf b2" "written b2 = written b1 @ bs" "bsize b2 = bsize b1"
      using put_bytes_wf [OF wf1 b1(2)] .
    then have "length (to_come b2) \<le> length (to_come b1)"
      using length_written [OF b2(2)] length_written [OF wf1] wf1 by (simp add: length_to_come unat_remaining_buf)
    then show ?thesis using Some b2(1,2) b1(1) by (simp add: pack_scalar_def legible_def)
  qed
qed

lemma robust_ret [wire_safe]: "robust (ret x)"
  by (simp add: robust_def ret_def)

lemma robust_bindM [wire_safe]:
  assumes "robust m" and "\<And>x. robust (f x)"
  shows "robust (bindM m f)"
proof (rule robustI)
  fix b assume wf: "legible b"
  show "safe_res (bindM m f b)"
    using robustD [OF assms(1) wf] robustD [OF assms(2)] by (cases "m b") (auto simp: bindM_def)
qed

lemma robust_thenM [wire_safe]: "robust m \<Longrightarrow> robust n \<Longrightarrow> robust (thenM m n)"
  by (simp add: thenM_def robust_bindM)

lemma robust_if [wire_safe]: "robust m \<Longrightarrow> robust n \<Longrightarrow> robust (if c then m else n)"
  by simp

lemma robust_n [wire_safe]: "robust m \<Longrightarrow> robust (unpack_n m n)"
  by (induction n) (auto intro!: wire_safe)

lemma robust_pack_all: "\<forall>m\<in>set ms. robust m \<Longrightarrow> robust (pack_all ms)"
  by (induction ms) (auto intro!: wire_safe)

lemmas robust_scalars [wire_safe] =
  robust_reader [OF s64.unpk_reader] robust_reader [OF s32.unpk_reader] robust_reader [OF s16.unpk_reader]
  robust_reader [OF cstrs.unpk_reader]

lemma robust_pack_scalars [wire_safe]:
  "robust (pack_time t)" "robust (pack32 v)" "robust (pack16 w)"
  by (auto simp: pack_time_def pack32_def pack16_def intro!: robust_pack_scalar)

text \<open>
  \<open>consumes m x bs\<close>: on a buffer whose rest starts with \<open>bs\<close>, \<open>m\<close> returns \<open>x\<close> and leaves what follows
  \<open>bs\<close>; unlike in \<^const>\<open>reads\<close>, what has been passed may change.
\<close>

definition consumes :: "'a M \<Rightarrow> 'a \<Rightarrow> byte list \<Rightarrow> bool" where
  "consumes m x bs \<longleftrightarrow> (\<forall>b rest. wf_buf b \<longrightarrow> to_come b = bs @ rest \<longrightarrow>
     (\<exists>b'. m b = Ok x b' \<and> wf_buf b' \<and> to_come b' = rest))"

lemma consumesI:
  "(\<And>b rest. wf_buf b \<Longrightarrow> to_come b = bs @ rest \<Longrightarrow> \<exists>b'. m b = Ok x b' \<and> wf_buf b' \<and> to_come b' = rest) \<Longrightarrow>
    consumes m x bs"
  by (simp add: consumes_def)

lemma consumesE:
  assumes "consumes m x bs" and "wf_buf b" and "to_come b = bs @ rest"
  obtains b' where "m b = Ok x b'" and "wf_buf b'" and "to_come b' = rest"
  using assms by (auto simp: consumes_def)

lemma reads_consumes: "reads m x bs \<Longrightarrow> consumes m x bs"
  unfolding consumes_def reads_def
  by (auto simp: wf_skip to_come_skip)

lemma consumes_nil: "x = y \<Longrightarrow> consumes (ret x) y (concat [])"
  by (simp add: consumes_def ret_def)

lemma consumes_cons:
  assumes "consumes m x bs" and "consumes (f x) y (concat bss)"
  shows "consumes (bindM m f) y (concat (bs # bss))"
proof (rule consumesI)
  fix b rest assume wf: "wf_buf b" and u: "to_come b = concat (bs # bss) @ rest"
  then have "to_come b = bs @ (concat bss @ rest)" by simp
  then obtain b1 where b1: "m b = Ok x b1" "wf_buf b1" "to_come b1 = concat bss @ rest"
    by (rule consumesE [OF assms(1) wf])
  show "\<exists>b'. bindM m f b = Ok y b' \<and> wf_buf b' \<and> to_come b' = rest"
    using consumesE [OF assms(2) b1(2,3)] b1(1) by (auto simp: bindM_def)
qed

lemma consumes_thenM: "consumes m x bs \<Longrightarrow> consumes n y cs \<Longrightarrow> consumes (thenM m n) y (bs @ cs)"
  using consumes_cons [of m x bs "\<lambda>_. n" y "[cs]"] by (simp add: thenM_def)

lemma writes_then_consumes:
  assumes m: "writes m bs k" and r: "consumes r x bs" and wf: "wf_buf b"
    and room: "unat (processed b) + k \<le> pack_limit"
  shows "\<exists>b' b''. m b = Ok () b' \<and> wf_buf b' \<and> written b' = written b @ bs \<and>
    r (set_buf_offset (processed b) b') = Ok x b'' \<and> wf_buf b''"
proof -
  from assms obtain b' where b': "m b = Ok () b'" "wf_buf b'" "written b' = written b @ bs"
    unfolding writes_def by blast
  let ?r = "set_buf_offset (processed b) b'"
  have len: "unat (processed b') = unat (processed b) + length bs"
    using b' wf by (metis length_append length_written)
  have wf': "wf_buf ?r" using b'(2) len by (simp add: wf_buf_def set_buf_offset_def)
  have "head b' = (written b @ bs) @ to_come b'"
    unfolding b'(3) [symmetric] by (simp add: written_def to_come_def)
  then have "to_come ?r = bs @ to_come b'"
    using length_written [OF wf]
    by (subst to_come_def) (simp add: set_buf_offset_def append_eq_conv_conj)
  then obtain b'' where "r ?r = Ok x b''" "wf_buf b''" using consumesE [OF r wf'] by metis
  then show ?thesis using b' by blast
qed

text \<open>A scalar packed while reading overwrites as many bytes as it has.\<close>

lemma pack_scalar_consumes:
  assumes "length cs = length bs"
  shows "consumes (pack_scalar bs) () cs"
  unfolding consumes_def
proof (intro allI impI)
  fix b rest assume wf: "wf_buf b" and u: "to_come b = cs @ rest"
  have len: "length bs \<le> length (to_come b)" using u assms by simp
  then have r: "reserve (length bs) b = Some b" using wf by (simp add: reserve_def length_to_come)
  obtain b' where b': "put_bytes bs b = Ok () b'" "wf_buf b'" using put_bytes_wf [OF wf len] by metis
  have le: "unat (processed b) + length bs \<le> length (head b)" using len wf by (auto simp: wf_buf_def to_come_def)
  then have "b' = b\<lparr>head := memcpy_at (unat (processed b)) bs (head b), processed := processed b + of_nat (length bs)\<rparr>"
    using b'(1) by (simp add: put_bytes_def)
  then have "to_come b' = drop (unat (processed b) + length bs) (memcpy_at (unat (processed b)) bs (head b))"
    using processed_skip [OF wf len] by (simp add: to_come_def skip_def)
  also have "\<dots> = drop (length bs) (to_come b)" unfolding drop_memcpy_at [OF le] by (simp add: to_come_def add.commute)
  finally have "to_come b' = rest" using u assms by simp
  then show "\<exists>b'. pack_scalar bs b = Ok () b' \<and> wf_buf b' \<and> to_come b' = rest"
    using b' r by (auto simp: pack_scalar_def)
qed


section \<open>Errors that are ignored\<close>

text \<open>A call whose return code is not looked at: the caller goes on where the call stopped.\<close>

definition attempt :: "'a M \<Rightarrow> 'a option M" where
  "attempt m b = (case m b of Ok x b' \<Rightarrow> Ok (Some x) b' | Err b' \<Rightarrow> Ok None b' | Fault \<Rightarrow> Fault)"

lemma attempt_reads: "reads m x bs \<Longrightarrow> reads (attempt m) (Some x) bs"
  by (auto simp: reads_def attempt_def)

lemma attempt_consumes: "consumes m x bs \<Longrightarrow> consumes (attempt m) (Some x) bs"
proof (rule consumesI)
  fix b rest assume "consumes m x bs" "wf_buf b" "to_come b = bs @ rest"
  then obtain b' where "m b = Ok x b'" "wf_buf b'" "to_come b' = rest" by (rule consumesE)
  then show "\<exists>b'. attempt m b = Ok (Some x) b' \<and> wf_buf b' \<and> to_come b' = rest" by (simp add: attempt_def)
qed

lemma robust_attempt [wire_safe]:
  assumes "robust m"
  shows "robust (attempt m)"
proof (rule robustI)
  fix b assume wf: "legible b"
  show "safe_res (attempt m b)" using robustD [OF assms wf] by (cases "m b") (auto simp: attempt_def)
qed

text \<open>
  Filling a structure field by field: at the first error the structure keeps what was filled in, and the flag says
  that not all was.
\<close>

definition fill :: "'a M \<Rightarrow> ('a \<Rightarrow> 's \<Rightarrow> 's) \<Rightarrow> ('s \<Rightarrow> (bool \<times> 's) M) \<Rightarrow> 's \<Rightarrow> (bool \<times> 's) M" where
  "fill m upd k s = bindM (attempt m) (\<lambda>v. case v of None \<Rightarrow> ret (False, s) | Some x \<Rightarrow> k (upd x s))"

lemma fill_reads:
  "reads m x bs \<Longrightarrow> reads (k (upd x s)) y (concat bss) \<Longrightarrow> reads (fill m upd k s) y (concat (bs # bss))"
  unfolding fill_def by (rule reads_cons [OF attempt_reads]) simp_all

lemma robust_fill [wire_safe]: "robust m \<Longrightarrow> (\<And>s. robust (k s)) \<Longrightarrow> robust (fill m upd k s)"
  unfolding fill_def by (intro wire_safe) (auto split: option.splits intro: wire_safe)


section \<open>Single precision\<close>

text \<open>
  The code keeps averages and totals in \<^verbatim>\<open>float\<close> fields.  A finite float is a rational number; \<open>fl32\<close> rounds to
  24 significant bits, ties to even, with the spacing \<^verbatim>\<open>2 ^ (- 149)\<close> of the least floats as a bound below, as IEEE
  arithmetic does.  Infinities and NaN, the results above the largest float, are not modelled.
\<close>

fun bits :: "nat \<Rightarrow> nat" where
  "bits n = (if n = 0 then 0 else Suc (bits (n div 2)))"

declare bits.simps [simp del]

definition round_even :: "rat \<Rightarrow> int" where
  "round_even y = (let q = \<lfloor>y\<rfloor>; r = y - of_int q in if r < 1 / 2 \<or> r = 1 / 2 \<and> even q then q else q + 1)"

definition fl32 :: "rat \<Rightarrow> rat" where
  "fl32 x = (let a = \<bar>x\<bar> * 2 ^ 149; u = 2 ^ (bits (nat \<lfloor>a\<rfloor>) - 24) in sgn x * (of_int (round_even (a / u)) * u / 2 ^ 149))"

text \<open>The conversion to \<^verbatim>\<open>uint32_t\<close> cuts the fraction off; it is undefined when the result does not fit.\<close>

definition cut :: "rat \<Rightarrow> int" where
  "cut v = (if v < 0 then \<lceil>v\<rceil> else \<lfloor>v\<rfloor>)"

definition f2u :: "rat \<Rightarrow> u32 option" where
  "f2u v = (if - 1 < v \<and> v < 2 ^ 32 then Some (of_int (cut v)) else None)"

text \<open>The other way, from \<^verbatim>\<open>uint32_t\<close>.\<close>

definition u2f :: "u32 \<Rightarrow> rat" where
  "u2f w = fl32 (of_int (uint w))"

lemma bits_le: "n < 2 ^ k \<Longrightarrow> bits n \<le> k"
proof (induction k arbitrary: n)
  case (Suc k)
  then show ?case by (cases "n = 0") (simp_all add: bits.simps [of n] bits.simps [of 0] less_mult_imp_div_less mult.commute)
qed (simp add: bits.simps)

text \<open>A whole number whose last bits are zero is not rounded as long as 24 bits are left.\<close>

lemma round_even_whole: "round_even (of_nat n) = int n"
  by (simp add: round_even_def)

lemma fl32_exact:
  assumes "2 ^ k dvd n" and "n < 2 ^ (24 + k)"
  shows "fl32 (of_nat n) = of_nat n"
proof -
  let ?m = "n * 2 ^ 149" and ?a = "of_nat n * 2 ^ 149 :: rat"
  have a: "?a = of_nat ?m" by simp
  have fl: "nat \<lfloor>?a\<rfloor> = ?m" unfolding a by (simp only: floor_of_nat nat_int)
  define e where "e = bits ?m - 24"
  have "?m < 2 ^ (24 + (k + 149))" using assms(2) by (simp add: power_add)
  then have "e \<le> k + 149" using bits_le [of ?m "24 + (k + 149)"] by (simp add: e_def)
  moreover have "2 ^ (k + 149) dvd ?m" using assms(1) by (simp add: power_add)
  ultimately have "2 ^ e dvd ?m" by (meson dvd_trans le_imp_power_dvd)
  then obtain q where q: "?m = 2 ^ e * q" by (rule dvdE)
  then have a': "?a = 2 ^ e * of_nat q" unfolding a by simp
  then have d: "?a / 2 ^ e = of_nat q" by simp
  have "fl32 (of_nat n) = sgn (of_nat n) * (of_nat q * 2 ^ e / 2 ^ 149)"
    unfolding fl32_def Let_def abs_of_nat fl e_def [symmetric] d round_even_whole of_int_of_nat_eq ..
  also have "of_nat q * 2 ^ e = ?a" unfolding a' by (rule mult.commute)
  finally show ?thesis by (cases "n = 0") simp_all
qed

lemma fl32_small: "n < 2 ^ 24 \<Longrightarrow> fl32 (of_nat n) = of_nat n"
  by (rule fl32_exact [of 0]) simp_all

lemma fl32_numeral [simp]: "(numeral k :: nat) < 16777216 \<Longrightarrow> fl32 (numeral k) = numeral k"
  using fl32_small [of "numeral k"] by simp

lemma fl32_0 [simp]: "fl32 0 = 0"
  by (simp add: fl32_def)

lemma cut_of_int [simp]: "cut (of_int i) = i"
  by (simp add: cut_def)

lemma cut_numbers [simp]: "cut 0 = 0" "cut (of_nat n) = int n" "cut (numeral k) = numeral k"
  by (simp_all add: cut_def)

end
