(* ===== verification/Jobacct.thy ===== *)
theory Jobacct
  imports Wire
begin

text \<open>
  The job accounting records of \<^verbatim>\<open>src/src/common/jobacct_common.c\<close>: what \<^verbatim>\<open>sacct\<close> shows of a job and
  its steps, how it goes over the wire in the three protocol versions, and the usage counters that the tasks of a
  step are summed up in.

  A \<^verbatim>\<open>List\<close> of steps is the list of its data, \<^const>\<open>None\<close> for NULL.  The pointer \<^verbatim>\<open>job_ptr\<close> from a step back to
  its job is not part of the record.  Memory from \<^verbatim>\<open>xmalloc\<close> is zero.
\<close>

definition NO_VAL :: u32 where "NO_VAL = 0xfffffffe"

definition mult :: u32 where "mult = 1000"


section \<open>Records\<close>

record jobacct_id =
  taskid :: u16
  nodeid :: u32

record sacct =
  sa_max_vsize :: u32
  sa_max_vsize_id :: jobacct_id
  sa_ave_vsize :: rat
  sa_max_rss :: u32
  sa_max_rss_id :: jobacct_id
  sa_ave_rss :: rat
  sa_max_pages :: u32
  sa_max_pages_id :: jobacct_id
  sa_ave_pages :: rat
  sa_min_cpu :: rat
  sa_min_cpu_id :: jobacct_id
  sa_ave_cpu :: rat

record jobacct_step_rec =
  st_elapsed :: u32
  st_end :: u64
  st_exitcode :: i32
  st_ncpus :: u32
  st_nnodes :: u32
  st_nodes :: cptr
  st_ntasks :: u32
  st_requid :: u32
  st_sacct :: sacct
  st_start :: u64
  st_state :: u32
  st_stepid :: u32
  st_stepname :: cptr
  st_suspended :: u32
  st_sys_cpu_sec :: u32
  st_sys_cpu_usec :: u32
  st_task_dist :: u16
  st_tot_cpu_sec :: u32
  st_tot_cpu_usec :: u32
  st_user_cpu_sec :: u32
  st_user_cpu_usec :: u32

record jobacct_job_rec =
  j_alloc_cpus :: u32
  j_alloc_nodes :: u32
  j_account :: cptr
  j_associd :: u32
  j_blockid :: cptr
  j_cluster :: cptr
  j_elapsed :: u32
  j_eligible :: u64
  j_end :: u64
  j_exitcode :: i32
  j_first_step :: "jobacct_step_rec option"
  j_gid :: u32
  j_jobid :: u32
  j_jobname :: cptr
  j_lft :: u32
  j_partition :: cptr
  j_nodes :: cptr
  j_priority :: u32
  j_qos :: u16
  j_req_cpus :: u32
  j_requid :: u32
  j_resvid :: u32
  j_sacct :: sacct
  j_show_full :: u32
  j_start :: u64
  j_state :: u32
  j_steps :: "jobacct_step_rec list option"
  j_submit :: u64
  j_suspended :: u32
  j_sys_cpu_sec :: u32
  j_sys_cpu_usec :: u32
  j_timelimit :: u32
  j_tot_cpu_sec :: u32
  j_tot_cpu_usec :: u32
  j_track_steps :: u16
  j_uid :: u32
  j_user :: cptr
  j_user_cpu_sec :: u32
  j_user_cpu_usec :: u32
  j_wckey :: cptr
  j_wckeyid :: u32

record jobacct_selected_step =
  sel_jobid :: u32
  sel_stepid :: u32

record jobacctinfo =
  ji_pid :: i32
  ji_sys_cpu_sec :: u32
  ji_sys_cpu_usec :: u32
  ji_user_cpu_sec :: u32
  ji_user_cpu_usec :: u32
  ji_max_vsize :: u32
  ji_max_vsize_id :: jobacct_id
  ji_tot_vsize :: u32
  ji_max_rss :: u32
  ji_max_rss_id :: jobacct_id
  ji_tot_rss :: u32
  ji_max_pages :: u32
  ji_max_pages_id :: jobacct_id
  ji_tot_pages :: u32
  ji_min_cpu :: u32
  ji_min_cpu_id :: jobacct_id
  ji_tot_cpu :: u32

definition zero_id :: jobacct_id where "zero_id = \<lparr>taskid = 0, nodeid = 0\<rparr>"

definition zero_sacct :: sacct where
  "zero_sacct = \<lparr>sa_max_vsize = 0, sa_max_vsize_id = zero_id, sa_ave_vsize = 0, sa_max_rss = 0, sa_max_rss_id = zero_id,
     sa_ave_rss = 0, sa_max_pages = 0, sa_max_pages_id = zero_id, sa_ave_pages = 0, sa_min_cpu = 0,
     sa_min_cpu_id = zero_id, sa_ave_cpu = 0\<rparr>"


section \<open>Records over the wire\<close>

definition pack_jobacct_id :: "jobacct_id \<Rightarrow> unit M" where
  "pack_jobacct_id i = pack_all [pack32 (nodeid i), pack16 (taskid i)]"

definition unpack_jobacct_id :: "jobacct_id \<Rightarrow> (bool \<times> jobacct_id) M" where
  "unpack_jobacct_id =
     fill safe_unpack32 (\<lambda>x i. i\<lparr>nodeid := x\<rparr>) (fill safe_unpack16 (\<lambda>x i. i\<lparr>taskid := x\<rparr>) (\<lambda>i. ret (True, i)))"

text \<open>
  Floats become integers in thousandths: \<^verbatim>\<open>temp = ave * mult\<close> multiplies in floating point and converts the product,
  \<^verbatim>\<open>temp = (uint32_t) ave * mult\<close> converts first.
\<close>

definition pack_product :: "rat \<Rightarrow> unit M" where
  "pack_product v = (case f2u (fl32 (v * 1000)) of None \<Rightarrow> fault | Some t \<Rightarrow> pack32 t)"

definition pack_converted :: "rat \<Rightarrow> unit M" where
  "pack_converted v = (case f2u v of None \<Rightarrow> fault | Some t \<Rightarrow> pack32 (t * mult))"

definition pack_sacct :: "sacct option \<Rightarrow> unit M" where
  "pack_sacct so = (case so of
       None \<Rightarrow> pack_all (replicate 8 (pack32 0) @ concat (replicate 4 [pack32 0, pack16 0]))
     | Some s \<Rightarrow> pack_all [pack32 (sa_max_vsize s), pack_product (sa_ave_vsize s), pack32 (sa_max_rss s),
         pack_converted (sa_ave_rss s), pack32 (sa_max_pages s), pack_converted (sa_ave_pages s),
         pack_converted (sa_min_cpu s), pack_converted (sa_ave_cpu s), pack_jobacct_id (sa_max_vsize_id s),
         pack_jobacct_id (sa_max_rss_id s), pack_jobacct_id (sa_max_pages_id s), pack_jobacct_id (sa_min_cpu_id s)])"

text \<open>A structure inside the one that is filled in.\<close>

definition fill_in :: "('t \<Rightarrow> (bool \<times> 't) M) \<Rightarrow> ('s \<Rightarrow> 't) \<Rightarrow> (('t \<Rightarrow> 't) \<Rightarrow> 's \<Rightarrow> 's) \<Rightarrow> ('s \<Rightarrow> (bool \<times> 's) M) \<Rightarrow> 's \<Rightarrow> (bool \<times> 's) M" where
  "fill_in m sel upd k s = bindM (m (sel s)) (\<lambda>(ok, t). if ok then k (upd (\<lambda>_. t) s) else ret (False, upd (\<lambda>_. t) s))"

definition thousandths :: "u32 \<Rightarrow> rat" where
  "thousandths temp = u2f (temp div mult)"

definition unpack_sacct :: "sacct \<Rightarrow> (bool \<times> sacct) M" where
  "unpack_sacct =
     fill safe_unpack32 (\<lambda>x s. s\<lparr>sa_max_vsize := x\<rparr>) (
     fill safe_unpack32 (\<lambda>temp s. s\<lparr>sa_ave_vsize := thousandths temp\<rparr>) (
     fill safe_unpack32 (\<lambda>x s. s\<lparr>sa_max_rss := x\<rparr>) (
     fill safe_unpack32 (\<lambda>temp s. s\<lparr>sa_ave_rss := thousandths temp\<rparr>) (
     fill safe_unpack32 (\<lambda>x s. s\<lparr>sa_max_pages := x\<rparr>) (
     fill safe_unpack32 (\<lambda>temp s. s\<lparr>sa_ave_pages := thousandths temp\<rparr>) (
     fill safe_unpack32 (\<lambda>temp s. s\<lparr>sa_min_cpu := thousandths temp\<rparr>) (
     fill safe_unpack32 (\<lambda>temp s. s\<lparr>sa_ave_cpu := thousandths temp\<rparr>) (
     fill_in unpack_jobacct_id sa_max_vsize_id sa_max_vsize_id_update (
     fill_in unpack_jobacct_id sa_max_rss_id sa_max_rss_id_update (
     fill_in unpack_jobacct_id sa_max_pages_id sa_max_pages_id_update (
     fill_in unpack_jobacct_id sa_min_cpu_id sa_min_cpu_id_update (\<lambda>s. ret (True, s)))))))))))))"

definition create_jobacct_job_rec :: jobacct_job_rec where
  "create_jobacct_job_rec = \<lparr>j_alloc_cpus = 0, j_alloc_nodes = 0, j_account = None, j_associd = 0, j_blockid = None, j_cluster = None,
      j_elapsed = 0, j_eligible = 0, j_end = 0, j_exitcode = 0, j_first_step = None, j_gid = 0, j_jobid = 0,
      j_jobname = None, j_lft = NO_VAL, j_partition = None, j_nodes = None, j_priority = 0, j_qos = 0,
      j_req_cpus = 0, j_requid = - 1, j_resvid = NO_VAL,
      j_sacct = zero_sacct\<lparr>sa_min_cpu := u2f NO_VAL\<rparr>, j_show_full = 0, j_start = 0,
      j_state = 0, j_steps = Some [], j_submit = 0, j_suspended = 0, j_sys_cpu_sec = 0, j_sys_cpu_usec = 0,
      j_timelimit = 0, j_tot_cpu_sec = 0, j_tot_cpu_usec = 0, j_track_steps = 0, j_uid = 0, j_user = None,
      j_user_cpu_sec = 0, j_user_cpu_usec = 0, j_wckey = None, j_wckeyid = 0\<rparr>"

definition create_jobacct_step_rec :: jobacct_step_rec where
  "create_jobacct_step_rec = \<lparr>st_elapsed = NO_VAL, st_end = 0, st_exitcode = NO_VAL, st_ncpus = NO_VAL, st_nnodes = 0, st_nodes = None,
      st_ntasks = 0, st_requid = - 1, st_sacct = zero_sacct, st_start = 0, st_state = NO_VAL, st_stepid = NO_VAL,
      st_stepname = None, st_suspended = 0, st_sys_cpu_sec = 0, st_sys_cpu_usec = 0, st_task_dist = 0,
      st_tot_cpu_sec = NO_VAL, st_tot_cpu_usec = NO_VAL, st_user_cpu_sec = 0, st_user_cpu_usec = 0\<rparr>"

definition pack_step_v5 :: "jobacct_step_rec \<Rightarrow> unit M" where
  "pack_step_v5 step = pack_all [
      pack32 (st_elapsed step), pack_time (st_end step), pack32 (st_exitcode step), pack32 (st_ncpus step),
      pack32 (st_nnodes step), packstr (st_nodes step), pack32 (st_ntasks step), pack32 (st_requid step),
      pack_sacct (Some (st_sacct step)), pack_time (st_start step), pack16 (ucast (st_state step)),
      pack32 (st_stepid step), packstr (st_stepname step), pack32 (st_suspended step), pack32 (st_sys_cpu_sec step),
      pack32 (st_sys_cpu_usec step), pack16 (st_task_dist step), pack32 (st_tot_cpu_sec step),
      pack32 (st_tot_cpu_usec step), pack32 (st_user_cpu_sec step), pack32 (st_user_cpu_usec step)]"

definition pack_step_old :: "jobacct_step_rec \<Rightarrow> unit M" where
  "pack_step_old step = pack_all [
      pack32 (st_elapsed step), pack_time (st_end step), pack32 (st_exitcode step), pack32 NO_VAL,
      pack32 (st_ncpus step), packstr (st_nodes step), pack32 (st_requid step), pack_sacct (Some (st_sacct step)),
      pack_time (st_start step), pack16 (ucast (st_state step)), pack32 (st_stepid step), packstr (st_stepname step),
      pack32 (st_suspended step), pack32 (st_sys_cpu_sec step), pack32 (st_sys_cpu_usec step),
      pack32 (st_tot_cpu_sec step), pack32 (st_tot_cpu_usec step), pack32 (st_user_cpu_sec step),
      pack32 (st_user_cpu_usec step)]"

definition pack_jobacct_step_rec :: "u16 \<Rightarrow> jobacct_step_rec \<Rightarrow> unit M" where
  "pack_jobacct_step_rec rpc_version step = (if 5 \<le> rpc_version then pack_step_v5 step else pack_step_old step)"

definition unpack_step_v5 :: "jobacct_step_rec M" where
  "unpack_step_v5 =
     bindM safe_unpack32 (\<lambda>elapsed. bindM safe_unpack_time (\<lambda>end.
     bindM safe_unpack32 (\<lambda>exitcode. bindM safe_unpack32 (\<lambda>ncpus.
     bindM safe_unpack32 (\<lambda>nnodes. bindM safe_unpackstr_xmalloc (\<lambda>nodes.
     bindM safe_unpack32 (\<lambda>ntasks. bindM safe_unpack32 (\<lambda>requid.
     bindM (unpack_sacct zero_sacct) (\<lambda>(rc, sacct). bindM safe_unpack_time (\<lambda>start.
     bindM safe_unpack16 (\<lambda>state. bindM safe_unpack32 (\<lambda>stepid.
     bindM safe_unpackstr_xmalloc (\<lambda>stepname. bindM safe_unpack32 (\<lambda>suspended.
     bindM safe_unpack32 (\<lambda>sys_cpu_sec. bindM safe_unpack32 (\<lambda>sys_cpu_usec.
     bindM safe_unpack16 (\<lambda>task_dist. bindM safe_unpack32 (\<lambda>tot_cpu_sec.
     bindM safe_unpack32 (\<lambda>tot_cpu_usec. bindM safe_unpack32 (\<lambda>user_cpu_sec.
     bindM safe_unpack32 (\<lambda>user_cpu_usec.
     ret \<lparr>st_elapsed = elapsed, st_end = end, st_exitcode = exitcode, st_ncpus = ncpus, st_nnodes = nnodes,
           st_nodes = nodes, st_ntasks = ntasks, st_requid = requid, st_sacct = sacct, st_start = start,
           st_state = ucast state, st_stepid = stepid, st_stepname = stepname, st_suspended = suspended,
           st_sys_cpu_sec = sys_cpu_sec, st_sys_cpu_usec = sys_cpu_usec, st_task_dist = task_dist,
           st_tot_cpu_sec = tot_cpu_sec, st_tot_cpu_usec = tot_cpu_usec, st_user_cpu_sec = user_cpu_sec,
           st_user_cpu_usec = user_cpu_usec\<rparr>)))))))))))))))))))))"

definition unpack_step_old :: "jobacct_step_rec M" where
  "unpack_step_old =
     bindM safe_unpack32 (\<lambda>elapsed. bindM safe_unpack_time (\<lambda>end.
     bindM safe_unpack32 (\<lambda>exitcode. bindM safe_unpack32 (\<lambda>_. bindM safe_unpack32 (\<lambda>ncpus.
     bindM safe_unpackstr_xmalloc (\<lambda>nodes. bindM safe_unpack32 (\<lambda>requid.
     bindM (unpack_sacct zero_sacct) (\<lambda>(rc, sacct). bindM safe_unpack_time (\<lambda>start.
     bindM safe_unpack16 (\<lambda>state. bindM safe_unpack32 (\<lambda>stepid.
     bindM safe_unpackstr_xmalloc (\<lambda>stepname. bindM safe_unpack32 (\<lambda>suspended.
     bindM safe_unpack32 (\<lambda>sys_cpu_sec. bindM safe_unpack32 (\<lambda>sys_cpu_usec.
     bindM safe_unpack32 (\<lambda>tot_cpu_sec. bindM safe_unpack32 (\<lambda>tot_cpu_usec.
     bindM safe_unpack32 (\<lambda>user_cpu_sec. bindM safe_unpack32 (\<lambda>user_cpu_usec.
     ret \<lparr>st_elapsed = elapsed, st_end = end, st_exitcode = exitcode, st_ncpus = ncpus, st_nnodes = 0,
           st_nodes = nodes, st_ntasks = 0, st_requid = requid, st_sacct = sacct, st_start = start,
           st_state = ucast state, st_stepid = stepid, st_stepname = stepname, st_suspended = suspended,
           st_sys_cpu_sec = sys_cpu_sec, st_sys_cpu_usec = sys_cpu_usec, st_task_dist = 0,
           st_tot_cpu_sec = tot_cpu_sec, st_tot_cpu_usec = tot_cpu_usec, st_user_cpu_sec = user_cpu_sec,
           st_user_cpu_usec = user_cpu_usec\<rparr>)))))))))))))))))))"

definition unpack_jobacct_step_rec :: "u16 \<Rightarrow> jobacct_step_rec M" where
  "unpack_jobacct_step_rec rpc_version = (if 5 \<le> rpc_version then unpack_step_v5 else unpack_step_old)"

text \<open>The steps of a job: their number, then one after the other; a step that cannot be read is left out.\<close>

definition pack_steps :: "u16 \<Rightarrow> jobacct_step_rec list option \<Rightarrow> unit M" where
  "pack_steps rpc_version steps = (case steps of None \<Rightarrow> pack32 0
     | Some ss \<Rightarrow> thenM (pack32 (of_nat (length ss))) (pack_each (pack_jobacct_step_rec rpc_version) ss))"

definition unpack_steps :: "u16 \<Rightarrow> jobacct_step_rec list M" where
  "unpack_steps rpc_version = bindM safe_unpack32 (\<lambda>count.
     bindM (unpack_n (attempt (unpack_jobacct_step_rec rpc_version)) (unat count)) (\<lambda>rs. ret (map the (filter (\<lambda>r. r \<noteq> None) rs))))"

definition first_of :: "jobacct_step_rec list \<Rightarrow> jobacct_step_rec option" where
  "first_of ss = (case ss of [] \<Rightarrow> None | s # _ \<Rightarrow> Some s)"

definition pack_job_v5 :: "u16 \<Rightarrow> jobacct_job_rec \<Rightarrow> unit M" where
  "pack_job_v5 rpc_version job = pack_all [
      pack32 (j_alloc_cpus job), pack32 (j_alloc_nodes job), pack32 (j_associd job), packstr (j_account job),
      packstr (j_blockid job), packstr (j_cluster job), pack32 (j_elapsed job), pack_time (j_eligible job),
      pack_time (j_end job), pack32 (j_exitcode job), pack32 (j_gid job), pack32 (j_jobid job),
      packstr (j_jobname job), pack32 (j_lft job), packstr (j_partition job), packstr (j_nodes job),
      pack32 (j_priority job), pack16 (j_qos job), pack32 (j_resvid job), pack32 (j_req_cpus job),
      pack32 (j_requid job), pack_sacct (Some (j_sacct job)), pack32 (j_show_full job), pack_time (j_start job),
      pack16 (ucast (j_state job)), pack_steps rpc_version (j_steps job), pack_time (j_submit job),
      pack32 (j_suspended job), pack32 (j_sys_cpu_sec job), pack32 (j_sys_cpu_usec job), pack32 (j_timelimit job),
      pack32 (j_tot_cpu_sec job), pack32 (j_tot_cpu_usec job), pack16 (j_track_steps job), pack32 (j_uid job),
      packstr (j_user job), pack32 (j_user_cpu_sec job), pack32 (j_user_cpu_usec job), packstr (j_wckey job),
      pack32 (j_wckeyid job)]"

definition pack_job_v4 :: "u16 \<Rightarrow> jobacct_job_rec \<Rightarrow> unit M" where
  "pack_job_v4 rpc_version job = pack_all [
      pack32 (j_alloc_cpus job), pack32 (j_associd job), packstr (j_account job), packstr (j_blockid job),
      packstr (j_cluster job), pack32 (j_elapsed job), pack_time (j_eligible job), pack_time (j_end job),
      pack32 (j_exitcode job), pack32 (j_gid job), pack32 (j_jobid job), packstr (j_jobname job), pack32 (j_lft job),
      packstr (j_partition job), packstr (j_nodes job), pack32 (j_priority job), pack16 (j_qos job),
      pack32 (j_req_cpus job), pack32 (j_requid job), pack_sacct (Some (j_sacct job)), pack32 (j_show_full job),
      pack_time (j_start job), pack16 (ucast (j_state job)), pack_steps rpc_version (j_steps job),
      pack_time (j_submit job), pack32 (j_suspended job), pack32 (j_sys_cpu_sec job), pack32 (j_sys_cpu_usec job),
      pack32 (j_tot_cpu_sec job), pack32 (j_tot_cpu_usec job), pack16 (j_track_steps job), pack32 (j_uid job),
      packstr (j_user job), pack32 (j_user_cpu_sec job), pack32 (j_user_cpu_usec job), packstr (j_wckey job),
      pack32 (j_wckeyid job)]"

definition pack_job_old :: "u16 \<Rightarrow> jobacct_job_rec \<Rightarrow> unit M" where
  "pack_job_old rpc_version job = pack_all [
      pack32 (j_alloc_cpus job), pack32 (j_associd job), packstr (j_account job), packstr (j_blockid job),
      packstr (j_cluster job), pack32 (j_elapsed job), pack_time (j_eligible job), pack_time (j_end job),
      pack32 (j_exitcode job), pack32 (j_gid job), pack32 (j_jobid job), packstr (j_jobname job), pack32 (j_lft job),
      packstr (j_partition job), packstr (j_nodes job), pack32 (j_priority job), pack16 (j_qos job),
      pack32 (j_req_cpus job), pack32 (j_requid job), pack_sacct (Some (j_sacct job)), pack32 (j_show_full job),
      pack_time (j_start job), pack16 (ucast (j_state job)), pack_steps rpc_version (j_steps job),
      pack_time (j_submit job), pack32 (j_suspended job), pack32 (j_sys_cpu_sec job), pack32 (j_sys_cpu_usec job),
      pack32 (j_tot_cpu_sec job), pack32 (j_tot_cpu_usec job), pack16 (j_track_steps job), pack32 (j_uid job),
      packstr (j_user job), pack32 (j_user_cpu_sec job), pack32 (j_user_cpu_usec job)]"

definition pack_jobacct_job_rec :: "u16 \<Rightarrow> jobacct_job_rec \<Rightarrow> unit M" where
  "pack_jobacct_job_rec rpc_version job = (if 5 \<le> rpc_version then pack_job_v5 rpc_version job
     else if 4 \<le> rpc_version then pack_job_v4 rpc_version job else pack_job_old rpc_version job)"

text \<open>
  In all three branches the code calls \<^verbatim>\<open>_pack_sacct\<close> where it should call \<^verbatim>\<open>_unpack_sacct\<close>: it writes
  the zeros of the fresh record over the message.
\<close>

definition unpack_job_v5 :: "u16 \<Rightarrow> jobacct_job_rec M" where
  "unpack_job_v5 rpc_version =
     bindM safe_unpack32 (\<lambda>alloc_cpus. bindM safe_unpack32 (\<lambda>alloc_nodes.
     bindM safe_unpack32 (\<lambda>associd. bindM safe_unpackstr_xmalloc (\<lambda>account.
     bindM safe_unpackstr_xmalloc (\<lambda>blockid. bindM safe_unpackstr_xmalloc (\<lambda>cluster.
     bindM safe_unpack32 (\<lambda>elapsed. bindM safe_unpack_time (\<lambda>eligible.
     bindM safe_unpack_time (\<lambda>end. bindM safe_unpack32 (\<lambda>exitcode.
     bindM safe_unpack32 (\<lambda>gid. bindM safe_unpack32 (\<lambda>jobid.
     bindM safe_unpackstr_xmalloc (\<lambda>jobname. bindM safe_unpack32 (\<lambda>lft.
     bindM safe_unpackstr_xmalloc (\<lambda>partition. bindM safe_unpackstr_xmalloc (\<lambda>nodes.
     bindM safe_unpack32 (\<lambda>priority. bindM safe_unpack16 (\<lambda>qos.
     bindM safe_unpack32 (\<lambda>resvid. bindM safe_unpack32 (\<lambda>req_cpus.
     bindM safe_unpack32 (\<lambda>requid. thenM (pack_sacct (Some zero_sacct)) (
     bindM safe_unpack32 (\<lambda>show_full. bindM safe_unpack_time (\<lambda>start.
     bindM safe_unpack16 (\<lambda>state. bindM (unpack_steps rpc_version) (\<lambda>steps.
     bindM safe_unpack_time (\<lambda>submit. bindM safe_unpack32 (\<lambda>suspended.
     bindM safe_unpack32 (\<lambda>sys_cpu_sec. bindM safe_unpack32 (\<lambda>sys_cpu_usec.
     bindM safe_unpack32 (\<lambda>timelimit. bindM safe_unpack32 (\<lambda>tot_cpu_sec.
     bindM safe_unpack32 (\<lambda>tot_cpu_usec. bindM safe_unpack16 (\<lambda>track_steps.
     bindM safe_unpack32 (\<lambda>uid. bindM safe_unpackstr_xmalloc (\<lambda>user.
     bindM safe_unpack32 (\<lambda>user_cpu_sec. bindM safe_unpack32 (\<lambda>user_cpu_usec.
     bindM safe_unpackstr_xmalloc (\<lambda>wckey. bindM safe_unpack32 (\<lambda>wckeyid.
     ret \<lparr>j_alloc_cpus = alloc_cpus, j_alloc_nodes = alloc_nodes, j_account = account, j_associd = associd,
           j_blockid = blockid, j_cluster = cluster, j_elapsed = elapsed, j_eligible = eligible, j_end = end,
           j_exitcode = exitcode, j_first_step = first_of steps, j_gid = gid, j_jobid = jobid, j_jobname = jobname,
           j_lft = lft, j_partition = partition, j_nodes = nodes, j_priority = priority, j_qos = qos,
           j_req_cpus = req_cpus, j_requid = requid, j_resvid = resvid, j_sacct = zero_sacct,
           j_show_full = show_full, j_start = start, j_state = ucast state, j_steps = Some steps, j_submit = submit,
           j_suspended = suspended, j_sys_cpu_sec = sys_cpu_sec, j_sys_cpu_usec = sys_cpu_usec,
           j_timelimit = timelimit, j_tot_cpu_sec = tot_cpu_sec, j_tot_cpu_usec = tot_cpu_usec,
           j_track_steps = track_steps, j_uid = uid, j_user = user, j_user_cpu_sec = user_cpu_sec,
           j_user_cpu_usec = user_cpu_usec, j_wckey = wckey, j_wckeyid = wckeyid\<rparr>))))))))))))))))))))))))))))))))))))))))"

definition unpack_job_v4 :: "u16 \<Rightarrow> jobacct_job_rec M" where
  "unpack_job_v4 rpc_version =
     bindM safe_unpack32 (\<lambda>alloc_cpus. bindM safe_unpack32 (\<lambda>associd.
     bindM safe_unpackstr_xmalloc (\<lambda>account. bindM safe_unpackstr_xmalloc (\<lambda>blockid.
     bindM safe_unpackstr_xmalloc (\<lambda>cluster. bindM safe_unpack32 (\<lambda>elapsed.
     bindM safe_unpack_time (\<lambda>eligible. bindM safe_unpack_time (\<lambda>end.
     bindM safe_unpack32 (\<lambda>exitcode. bindM safe_unpack32 (\<lambda>gid. bindM safe_unpack32 (\<lambda>jobid.
     bindM safe_unpackstr_xmalloc (\<lambda>jobname. bindM safe_unpack32 (\<lambda>lft.
     bindM safe_unpackstr_xmalloc (\<lambda>partition. bindM safe_unpackstr_xmalloc (\<lambda>nodes.
     bindM safe_unpack32 (\<lambda>priority. bindM safe_unpack16 (\<lambda>qos.
     bindM safe_unpack32 (\<lambda>req_cpus. bindM safe_unpack32 (\<lambda>requid.
     thenM (pack_sacct (Some zero_sacct)) (bindM safe_unpack32 (\<lambda>show_full.
     bindM safe_unpack_time (\<lambda>start. bindM safe_unpack16 (\<lambda>state.
     bindM (unpack_steps rpc_version) (\<lambda>steps. bindM safe_unpack_time (\<lambda>submit.
     bindM safe_unpack32 (\<lambda>suspended. bindM safe_unpack32 (\<lambda>sys_cpu_sec.
     bindM safe_unpack32 (\<lambda>sys_cpu_usec. bindM safe_unpack32 (\<lambda>tot_cpu_sec.
     bindM safe_unpack32 (\<lambda>tot_cpu_usec. bindM safe_unpack16 (\<lambda>track_steps.
     bindM safe_unpack32 (\<lambda>uid. bindM safe_unpackstr_xmalloc (\<lambda>user.
     bindM safe_unpack32 (\<lambda>user_cpu_sec. bindM safe_unpack32 (\<lambda>user_cpu_usec.
     bindM safe_unpackstr_xmalloc (\<lambda>wckey. bindM safe_unpack32 (\<lambda>wckeyid.
     ret \<lparr>j_alloc_cpus = alloc_cpus, j_alloc_nodes = 0, j_account = account, j_associd = associd,
           j_blockid = blockid, j_cluster = cluster, j_elapsed = elapsed, j_eligible = eligible, j_end = end,
           j_exitcode = exitcode, j_first_step = first_of steps, j_gid = gid, j_jobid = jobid, j_jobname = jobname,
           j_lft = lft, j_partition = partition, j_nodes = nodes, j_priority = priority, j_qos = qos,
           j_req_cpus = req_cpus, j_requid = requid, j_resvid = 0, j_sacct = zero_sacct, j_show_full = show_full,
           j_start = start, j_state = ucast state, j_steps = Some steps, j_submit = submit, j_suspended = suspended,
           j_sys_cpu_sec = sys_cpu_sec, j_sys_cpu_usec = sys_cpu_usec, j_timelimit = 0, j_tot_cpu_sec = tot_cpu_sec,
           j_tot_cpu_usec = tot_cpu_usec, j_track_steps = track_steps, j_uid = uid, j_user = user,
           j_user_cpu_sec = user_cpu_sec, j_user_cpu_usec = user_cpu_usec, j_wckey = wckey, j_wckeyid = wckeyid\<rparr>)))))))))))))))))))))))))))))))))))))"

definition unpack_job_old :: "u16 \<Rightarrow> jobacct_job_rec M" where
  "unpack_job_old rpc_version =
     bindM safe_unpack32 (\<lambda>alloc_cpus. bindM safe_unpack32 (\<lambda>associd.
     bindM safe_unpackstr_xmalloc (\<lambda>account. bindM safe_unpackstr_xmalloc (\<lambda>blockid.
     bindM safe_unpackstr_xmalloc (\<lambda>cluster. bindM safe_unpack32 (\<lambda>elapsed.
     bindM safe_unpack_time (\<lambda>eligible. bindM safe_unpack_time (\<lambda>end.
     bindM safe_unpack32 (\<lambda>exitcode. bindM safe_unpack32 (\<lambda>gid. bindM safe_unpack32 (\<lambda>jobid.
     bindM safe_unpackstr_xmalloc (\<lambda>jobname. bindM safe_unpack32 (\<lambda>lft.
     bindM safe_unpackstr_xmalloc (\<lambda>partition. bindM safe_unpackstr_xmalloc (\<lambda>nodes.
     bindM safe_unpack32 (\<lambda>priority. bindM safe_unpack16 (\<lambda>qos.
     bindM safe_unpack32 (\<lambda>req_cpus. bindM safe_unpack32 (\<lambda>requid.
     thenM (pack_sacct (Some zero_sacct)) (bindM safe_unpack32 (\<lambda>show_full.
     bindM safe_unpack_time (\<lambda>start. bindM safe_unpack16 (\<lambda>state.
     bindM (unpack_steps rpc_version) (\<lambda>steps. bindM safe_unpack_time (\<lambda>submit.
     bindM safe_unpack32 (\<lambda>suspended. bindM safe_unpack32 (\<lambda>sys_cpu_sec.
     bindM safe_unpack32 (\<lambda>sys_cpu_usec. bindM safe_unpack32 (\<lambda>tot_cpu_sec.
     bindM safe_unpack32 (\<lambda>tot_cpu_usec. bindM safe_unpack16 (\<lambda>track_steps.
     bindM safe_unpack32 (\<lambda>uid. bindM safe_unpackstr_xmalloc (\<lambda>user.
     bindM safe_unpack32 (\<lambda>user_cpu_sec. bindM safe_unpack32 (\<lambda>user_cpu_usec.
     ret \<lparr>j_alloc_cpus = alloc_cpus, j_alloc_nodes = 0, j_account = account, j_associd = associd,
           j_blockid = blockid, j_cluster = cluster, j_elapsed = elapsed, j_eligible = eligible, j_end = end,
           j_exitcode = exitcode, j_first_step = first_of steps, j_gid = gid, j_jobid = jobid, j_jobname = jobname,
           j_lft = lft, j_partition = partition, j_nodes = nodes, j_priority = priority, j_qos = qos,
           j_req_cpus = req_cpus, j_requid = requid, j_resvid = 0, j_sacct = zero_sacct, j_show_full = show_full,
           j_start = start, j_state = ucast state, j_steps = Some steps, j_submit = submit, j_suspended = suspended,
           j_sys_cpu_sec = sys_cpu_sec, j_sys_cpu_usec = sys_cpu_usec, j_timelimit = 0, j_tot_cpu_sec = tot_cpu_sec,
           j_tot_cpu_usec = tot_cpu_usec, j_track_steps = track_steps, j_uid = uid, j_user = user,
           j_user_cpu_sec = user_cpu_sec, j_user_cpu_usec = user_cpu_usec, j_wckey = None, j_wckeyid = 0\<rparr>)))))))))))))))))))))))))))))))))))"

definition unpack_jobacct_job_rec :: "u16 \<Rightarrow> jobacct_job_rec M" where
  "unpack_jobacct_job_rec rpc_version = (if 5 \<le> rpc_version then unpack_job_v5 rpc_version
     else if 4 \<le> rpc_version then unpack_job_v4 rpc_version else unpack_job_old rpc_version)"

definition pack_jobacct_selected_step :: "jobacct_selected_step \<Rightarrow> unit M" where
  "pack_jobacct_selected_step step = pack_all [pack32 (sel_jobid step), pack32 (sel_stepid step)]"

definition unpack_jobacct_selected_step :: "jobacct_selected_step M" where
  "unpack_jobacct_selected_step =
     bindM safe_unpack32 (\<lambda>jobid. bindM safe_unpack32 (\<lambda>stepid. ret \<lparr>sel_jobid = jobid, sel_stepid = stepid\<rparr>))"

end
