(* ===== verification/Jobacct_Wire.thy ===== *)
theory Jobacct_Wire
  imports Jobacct
begin

text \<open>
  What the accounting records look like on the wire, and that the unpack functions read what the pack functions
  write, except where the code loses something.
\<close>


section \<open>Usage\<close>

definition enc_id :: "jobacct_id \<Rightarrow> byte list" where
  "enc_id i = concat [be_bytes 4 (nodeid i), be_bytes 2 (taskid i)]"

lemma length_enc_id [simp]: "length (enc_id i) = 6"
  by (simp add: enc_id_def)

lemma pack_id_writes [wire_writes]: "writes (pack_jobacct_id i) (enc_id i) 6"
  using writes_cons [OF scalar_writes(2) _ writes_cons [OF scalar_writes(3) _ writes_nil], of "nodeid i" "taskid i"]
  by (simp add: pack_jobacct_id_def enc_id_def)

lemma unpack_id_reads: "reads (unpack_jobacct_id i0) (True, i) (enc_id i)"
  unfolding unpack_jobacct_id_def enc_id_def
  by (rule fill_reads wire_reads)+ simp

lemma fill_in_reads:
  "(\<And>t0. reads (m t0) (True, t) bs) \<Longrightarrow> reads (k (upd (\<lambda>_. t) s)) y (concat bss) \<Longrightarrow>
    reads (fill_in m sel upd k s) y (concat (bs # bss))"
  unfolding fill_in_def by (rule reads_cons) auto

text \<open>
  The averages for which the conversions to thousandths are defined.  What arrives is whole: the fraction is cut off, and
  the thousandths are taken modulo \<^verbatim>\<open>2 ^ 32\<close> for all but the virtual memory, whose thousandths are those of the rounded
  product.
\<close>

definition sacct_ok :: "sacct \<Rightarrow> bool" where
  "sacct_ok s \<longleftrightarrow> list_all (\<lambda>v. 0 \<le> v \<and> v < 2 ^ 32) [fl32 (sa_ave_vsize s * 1000), sa_ave_rss s, sa_ave_pages s, sa_min_cpu s, sa_ave_cpu s]"

definition product :: "rat \<Rightarrow> u32" where
  "product v = of_int \<lfloor>fl32 (v * 1000)\<rfloor>"

definition thousand :: "rat \<Rightarrow> u32" where
  "thousand v = of_int \<lfloor>v\<rfloor> * mult"

definition arrives :: "rat \<Rightarrow> rat" where
  "arrives v = of_int (\<lfloor>v\<rfloor> * 1000 mod 2 ^ 32 div 1000)"

definition cut_usage :: "sacct \<Rightarrow> sacct" where
  "cut_usage s = s\<lparr>sa_ave_vsize := of_int (\<lfloor>fl32 (sa_ave_vsize s * 1000)\<rfloor> div 1000), sa_ave_rss := arrives (sa_ave_rss s),
     sa_ave_pages := arrives (sa_ave_pages s), sa_min_cpu := arrives (sa_min_cpu s), sa_ave_cpu := arrives (sa_ave_cpu s)\<rparr>"

definition enc_sacct :: "sacct \<Rightarrow> byte list" where
  "enc_sacct s = concat [be_bytes 4 (sa_max_vsize s), be_bytes 4 (product (sa_ave_vsize s)), be_bytes 4 (sa_max_rss s),
     be_bytes 4 (thousand (sa_ave_rss s)), be_bytes 4 (sa_max_pages s), be_bytes 4 (thousand (sa_ave_pages s)),
     be_bytes 4 (thousand (sa_min_cpu s)), be_bytes 4 (thousand (sa_ave_cpu s)), enc_id (sa_max_vsize_id s),
     enc_id (sa_max_rss_id s), enc_id (sa_max_pages_id s), enc_id (sa_min_cpu_id s)]"

lemma length_enc_sacct [simp]: "length (enc_sacct s) = 56"
  by (simp add: enc_sacct_def)

lemma f2u_nonneg: "0 \<le> v \<Longrightarrow> v < 2 ^ 32 \<Longrightarrow> f2u v = Some (of_int \<lfloor>v\<rfloor>)"
  by (simp add: f2u_def cut_def)

lemma floor_u32: "0 \<le> v \<Longrightarrow> v < 2 ^ 32 \<Longrightarrow> 0 \<le> \<lfloor>v :: rat\<rfloor> \<and> \<lfloor>v\<rfloor> < 2 ^ 32"
  by (simp add: floor_less_iff)

lemma thousandths_word: "0 \<le> i \<Longrightarrow> i < 2 ^ 32 \<Longrightarrow> thousandths (of_int i) = of_int (i div 1000)"
proof -
  assume i: "0 \<le> i" "i < 2 ^ 32"
  then have u: "uint (of_int i div mult :: u32) = i div 1000"
    by (simp add: uint_div mult_def uint_word_of_int)
  obtain n where n: "i div 1000 = int n" using i(1) by (metis nonneg_int_cases pos_imp_zdiv_nonneg_iff zero_less_numeral)
  have "i < 4294967296" using i(2) by simp
  then have "int n < 4294968" unfolding n [symmetric] by linarith
  then have "n < 2 ^ 24" by simp
  then have "fl32 (of_int (int n)) = of_int (int n)" using fl32_small [of n] by simp
  then show ?thesis unfolding thousandths_def u2f_def u n .
qed

lemma thousandths_product: "0 \<le> fl32 (v * 1000) \<Longrightarrow> fl32 (v * 1000) < 2 ^ 32 \<Longrightarrow> thousandths (product v) = of_int (\<lfloor>fl32 (v * 1000)\<rfloor> div 1000)"
  unfolding product_def using floor_u32 by (intro thousandths_word) blast+

lemma thousandths_thousand: "thousandths (thousand v) = arrives v"
proof -
  have "thousand v = of_int (\<lfloor>v\<rfloor> * 1000 mod 2 ^ 32)"
    unfolding thousand_def mult_def by (rule word_uint_eq_iff [THEN iffD2]) (simp add: uint_word_ariths uint_word_of_int mod_simps)
  then show ?thesis unfolding arrives_def by (simp only:) (intro thousandths_word, simp_all)
qed

text \<open>Whole averages arrive as they are, below the bounds from which on a product is rounded or wraps.\<close>

definition whole_usage :: "sacct \<Rightarrow> bool" where
  "whole_usage s \<longleftrightarrow> (\<exists>m r p c a. s = s\<lparr>sa_ave_vsize := of_nat m, sa_ave_rss := of_nat r, sa_ave_pages := of_nat p, sa_min_cpu := of_nat c,
     sa_ave_cpu := of_nat a\<rparr> \<and> m < 134218 \<and> list_all (\<lambda>n. n < 4294968) [r, p, c, a])"

lemma product_exact: "v < 134218 \<Longrightarrow> fl32 (of_nat v * 1000) = of_nat (v * 1000)"
  using fl32_exact [of 3 "v * 1000"] by simp

lemma arrives_floor: "0 \<le> v \<Longrightarrow> v < 4294968 \<Longrightarrow> arrives v = of_int \<lfloor>v\<rfloor>"
proof -
  assume "0 \<le> v" "v < 4294968"
  then have i: "0 \<le> \<lfloor>v\<rfloor>" "\<lfloor>v\<rfloor> < 4294968" by (simp_all add: floor_less_iff)
  have "i * 1000 mod 2 ^ 32 div 1000 = i" if "0 \<le> i" "i < 4294968" for i :: int
  proof -
    have "i * 1000 mod 2 ^ 32 = i * 1000" using that by (intro mod_pos_pos_trivial) simp_all
    then show ?thesis by simp
  qed
  from this [OF i] show ?thesis unfolding arrives_def by (simp only:)
qed

lemma arrives_whole: "n < 4294968 \<Longrightarrow> arrives (of_nat n) = of_nat n"
  using arrives_floor [of "of_nat n"] by simp

lemma cut_usage_whole: "whole_usage s \<Longrightarrow> cut_usage s = s"
proof -
  assume "whole_usage s"
  then obtain m r p c a where s: "s = s\<lparr>sa_ave_vsize := of_nat m, sa_ave_rss := of_nat r, sa_ave_pages := of_nat p,
      sa_min_cpu := of_nat c, sa_ave_cpu := of_nat a\<rparr>" and lt: "m < 134218" "r < 4294968" "p < 4294968" "c < 4294968" "a < 4294968"
    by (auto simp: whole_usage_def)
  have v: "\<lfloor>fl32 (of_nat m * 1000)\<rfloor> div 1000 = int m" unfolding product_exact [OF lt(1)] floor_of_nat by simp
  show ?thesis
    by (subst s, subst (2) s) (simp add: cut_usage_def v arrives_whole lt del: of_int_of_nat_eq)
qed

lemma pack_converted_writes: "0 \<le> v \<Longrightarrow> v < 2 ^ 32 \<Longrightarrow> writes (pack_converted v) (be_bytes 4 (thousand v)) 4"
  by (simp add: pack_converted_def f2u_nonneg thousand_def s32.pk_writes)

lemma pack_product_writes: "0 \<le> fl32 (v * 1000) \<Longrightarrow> fl32 (v * 1000) < 2 ^ 32 \<Longrightarrow> writes (pack_product v) (be_bytes 4 (product v)) 4"
  by (simp add: pack_product_def f2u_nonneg product_def s32.pk_writes)

lemma pack_sacct_writes [wire_writes]:
  assumes "sacct_ok s"
  shows "writes (pack_sacct (Some s)) (enc_sacct s) 56"
proof -
  have "writes (pack_sacct (Some s)) (enc_sacct s) (sum_list [4, 4, 4, 4, 4, 4, 4, 4, 6, 6, 6, 6])"
    unfolding pack_sacct_def enc_sacct_def option.case using assms
    by (intro wire_writes pack_converted_writes pack_product_writes) (simp_all add: sacct_ok_def)
  then show ?thesis by simp
qed

lemma unpack_sacct_reads:
  assumes "sacct_ok s"
  shows "reads (unpack_sacct s0) (True, cut_usage s) (enc_sacct s)"
  unfolding unpack_sacct_def enc_sacct_def
  by (rule fill_reads fill_in_reads unpack_id_reads wire_reads)+
    (use assms in \<open>simp add: sacct_ok_def thousandths_thousand thousandths_product cut_usage_def\<close>)


section \<open>Steps\<close>

definition enc_step_v5 :: "jobacct_step_rec \<Rightarrow> byte list" where
  "enc_step_v5 step = concat [
      be_bytes 4 (st_elapsed step), be_bytes 8 (st_end step), be_bytes 4 (st_exitcode step),
      be_bytes 4 (st_ncpus step), be_bytes 4 (st_nnodes step), str_enc (st_nodes step), be_bytes 4 (st_ntasks step),
      be_bytes 4 (st_requid step), enc_sacct (st_sacct step), be_bytes 8 (st_start step),
      be_bytes 2 (ucast (st_state step) :: u16), be_bytes 4 (st_stepid step), str_enc (st_stepname step),
      be_bytes 4 (st_suspended step), be_bytes 4 (st_sys_cpu_sec step), be_bytes 4 (st_sys_cpu_usec step),
      be_bytes 2 (st_task_dist step), be_bytes 4 (st_tot_cpu_sec step), be_bytes 4 (st_tot_cpu_usec step),
      be_bytes 4 (st_user_cpu_sec step), be_bytes 4 (st_user_cpu_usec step)]"

definition budget_step_v5 :: "jobacct_step_rec \<Rightarrow> nat" where
  "budget_step_v5 step = sum_list [
      4, 8, 4, 4, 4, str_budget (st_nodes step), 4, 4, 56, 8, 2, 4, str_budget (st_stepname step), 4, 4, 4, 2, 4, 4,
      4, 4]"

definition enc_step_old :: "jobacct_step_rec \<Rightarrow> byte list" where
  "enc_step_old step = concat [
      be_bytes 4 (st_elapsed step), be_bytes 8 (st_end step), be_bytes 4 (st_exitcode step), be_bytes 4 NO_VAL,
      be_bytes 4 (st_ncpus step), str_enc (st_nodes step), be_bytes 4 (st_requid step), enc_sacct (st_sacct step),
      be_bytes 8 (st_start step), be_bytes 2 (ucast (st_state step) :: u16), be_bytes 4 (st_stepid step),
      str_enc (st_stepname step), be_bytes 4 (st_suspended step), be_bytes 4 (st_sys_cpu_sec step),
      be_bytes 4 (st_sys_cpu_usec step), be_bytes 4 (st_tot_cpu_sec step), be_bytes 4 (st_tot_cpu_usec step),
      be_bytes 4 (st_user_cpu_sec step), be_bytes 4 (st_user_cpu_usec step)]"

definition budget_step_old :: "jobacct_step_rec \<Rightarrow> nat" where
  "budget_step_old step = sum_list [
      4, 8, 4, 4, 4, str_budget (st_nodes step), 4, 56, 8, 2, 4, str_budget (st_stepname step), 4, 4, 4, 4, 4, 4, 4]"

definition enc_step :: "u16 \<Rightarrow> jobacct_step_rec \<Rightarrow> byte list" where
  "enc_step rpc_version step = (if 5 \<le> rpc_version then enc_step_v5 step else enc_step_old step)"

definition budget_step :: "u16 \<Rightarrow> jobacct_step_rec \<Rightarrow> nat" where
  "budget_step rpc_version step = (if 5 \<le> rpc_version then budget_step_v5 step else budget_step_old step)"

definition step_ok :: "jobacct_step_rec \<Rightarrow> bool" where
  "step_ok step \<longleftrightarrow> str_ok (st_nodes step) \<and> str_ok (st_stepname step) \<and> sacct_ok (st_sacct step) \<and> st_state step < 65536"

text \<open>What arrives: averages without their fractions; the old protocol does not carry the numbers of nodes and tasks and the distribution.\<close>

definition step_of_wire :: "u16 \<Rightarrow> jobacct_step_rec \<Rightarrow> jobacct_step_rec" where
  "step_of_wire rpc_version step =
     (let step = step\<lparr>st_sacct := cut_usage (st_sacct step)\<rparr>
      in if 5 \<le> rpc_version then step else step\<lparr>st_nnodes := 0, st_ntasks := 0, st_task_dist := 0\<rparr>)"

lemma ucast_state: "s < 65536 \<Longrightarrow> ucast (ucast (s :: u32) :: u16) = s"
proof -
  assume "s < 65536"
  then have "unat s < 2 ^ 16" by (simp add: word_less_nat_alt)
  then have "unat (take_bit 16 s) = unat s" by (simp only: unsigned_take_bit_eq take_bit_nat_eq_self)
  then show "ucast (ucast s :: u16) = s" by (intro word_unat_eq_iff [THEN iffD2]) (simp add: unsigned_ucast_eq)
qed

lemma pack_step_writes:
  assumes "step_ok step"
  shows "writes (pack_jobacct_step_rec v step) (enc_step v step) (budget_step v step)"
proof -
  have "writes (pack_step_v5 step) (enc_step_v5 step) (budget_step_v5 step)"
    unfolding pack_step_v5_def enc_step_v5_def budget_step_v5_def
    using assms by (intro wire_writes) (simp_all add: wire_len step_ok_def)
  moreover have "writes (pack_step_old step) (enc_step_old step) (budget_step_old step)"
    unfolding pack_step_old_def enc_step_old_def budget_step_old_def
    using assms by (intro wire_writes) (simp_all add: wire_len step_ok_def)
  ultimately show ?thesis by (simp add: pack_jobacct_step_rec_def enc_step_def budget_step_def)
qed

lemma enc_step_budget: "step_ok step \<Longrightarrow> length (enc_step v step) \<le> budget_step v step"
  using cstrs.enc_budget
  by (auto simp: enc_step_def budget_step_def enc_step_v5_def enc_step_old_def budget_step_v5_def budget_step_old_def step_ok_def
      intro!: add_mono)

lemma sacct_reads:
  "sacct_ok s \<Longrightarrow> reads (f True (cut_usage s)) y (concat bss) \<Longrightarrow>
    reads (bindM (unpack_sacct s0) (\<lambda>(rc, s). f rc s)) y (concat (enc_sacct s # bss))"
  by (rule reads_cons [OF unpack_sacct_reads]) simp_all

lemma unpack_step_reads:
  assumes "step_ok step"
  shows "reads (unpack_jobacct_step_rec v) (step_of_wire v step) (enc_step v step)"
proof -
  have ok: "str_ok (st_nodes step)" "str_ok (st_stepname step)" "sacct_ok (st_sacct step)"
    using assms by (simp_all add: step_ok_def)
  have st: "ucast (ucast (st_state step) :: u16) = st_state step" using assms by (intro ucast_state) (simp add: step_ok_def)
  have "reads unpack_step_v5 (step\<lparr>st_sacct := cut_usage (st_sacct step)\<rparr>) (enc_step_v5 step)"
    unfolding unpack_step_v5_def enc_step_v5_def
    by (rule sacct_reads wire_reads ok)+ (simp add: st)
  moreover have "reads unpack_step_old (step\<lparr>st_sacct := cut_usage (st_sacct step), st_nnodes := 0, st_ntasks := 0, st_task_dist := 0\<rparr>) (enc_step_old step)"
    unfolding unpack_step_old_def enc_step_old_def
    by (rule sacct_reads wire_reads ok)+ (simp add: st)
  ultimately show ?thesis by (simp add: unpack_jobacct_step_rec_def enc_step_def step_of_wire_def Let_def)
qed


section \<open>Jobs\<close>

lemma pack_each_writes:
  assumes "\<And>x. x \<in> set xs \<Longrightarrow> writes (pk x) (enc x) (budget x)" and "\<And>x. x \<in> set xs \<Longrightarrow> length (enc x) \<le> budget x"
  shows "writes (pack_each pk xs) (concat (map enc xs)) (sum_list (map budget xs))"
  using assms by (induction xs) (auto intro!: writes_ret writes_thenM)

lemma concat_budget:
  "(\<And>x. x \<in> set xs \<Longrightarrow> length (enc x) \<le> budget x) \<Longrightarrow> length (concat (map enc xs)) \<le> sum_list (map budget xs)"
  by (induction xs) (auto intro: add_mono)

lemma attempts_read:
  assumes "\<And>x. x \<in> set xs \<Longrightarrow> reads unpk (f x) (enc x)"
  shows "reads (unpack_n (attempt unpk) (length xs)) (map (\<lambda>x. Some (f x)) xs) (concat (map enc xs))"
  using assms
proof (induction xs)
  case (Cons x xs)
  then have "reads (attempt unpk) (Some (f x)) (enc x)"
    "reads (unpack_n (attempt unpk) (length xs)) (map (\<lambda>x. Some (f x)) xs) (concat (map enc xs))"
    by (simp_all add: attempt_reads)
  then show ?case by (auto intro!: reads_bindM reads_map)
qed (simp add: reads_ret)

definition steps_of :: "jobacct_step_rec list option \<Rightarrow> jobacct_step_rec list" where
  "steps_of steps = (case steps of None \<Rightarrow> [] | Some ss \<Rightarrow> ss)"

definition steps_ok :: "jobacct_step_rec list option \<Rightarrow> bool" where
  "steps_ok steps \<longleftrightarrow> list_all step_ok (steps_of steps) \<and> length (steps_of steps) < 2 ^ 32"

definition enc_steps :: "u16 \<Rightarrow> jobacct_step_rec list option \<Rightarrow> byte list" where
  "enc_steps rpc_version steps = be_bytes 4 (of_nat (length (steps_of steps)) :: u32) @ concat (map (enc_step rpc_version) (steps_of steps))"

definition budget_steps :: "u16 \<Rightarrow> jobacct_step_rec list option \<Rightarrow> nat" where
  "budget_steps rpc_version steps = 4 + sum_list (map (budget_step rpc_version) (steps_of steps))"

lemma pack_steps_writes [wire_writes]:
  assumes "steps_ok steps"
  shows "writes (pack_steps v steps) (enc_steps v steps) (budget_steps v steps)"
proof (cases steps)
  case None
  have "writes (pack32 0) (be_bytes 4 (0 :: u32)) 4" by (rule s32.pk_writes) simp
  then show ?thesis by (simp add: None pack_steps_def enc_steps_def budget_steps_def steps_of_def)
next
  case (Some ss)
  have "list_all step_ok ss" using assms by (simp add: Some steps_ok_def steps_of_def)
  then have "writes (pack_each (pack_jobacct_step_rec v) ss) (concat (map (enc_step v) ss)) (sum_list (map (budget_step v) ss))"
    by (intro pack_each_writes pack_step_writes enc_step_budget) (simp_all add: list_all_iff)
  then show ?thesis
    unfolding Some pack_steps_def enc_steps_def budget_steps_def steps_of_def option.case
    by (intro writes_thenM s32.pk_writes) simp_all
qed

lemma enc_steps_budget [wire_len]: "steps_ok steps \<Longrightarrow> length (enc_steps v steps) \<le> budget_steps v steps"
  using concat_budget [of "steps_of steps" "enc_step v" "budget_step v"] enc_step_budget
  by (simp add: steps_ok_def enc_steps_def budget_steps_def list_all_iff)

lemma unpack_steps_reads:
  assumes "steps_ok steps"
  shows "reads (unpack_steps v) (map (step_of_wire v) (steps_of steps)) (enc_steps v steps)"
proof -
  let ?ss = "steps_of steps"
  have n: "unat (of_nat (length ?ss) :: u32) = length ?ss"
    using assms by (simp add: steps_ok_def unat_of_nat take_bit_nat_eq_self)
  have r: "reads (unpack_n (attempt (unpack_jobacct_step_rec v)) (length ?ss)) (map (\<lambda>s. Some (step_of_wire v s)) ?ss) (concat (map (enc_step v) ?ss))"
    using assms by (intro attempts_read unpack_step_reads) (simp add: steps_ok_def list_all_iff)
  have all: "filter (\<lambda>r. r \<noteq> None) (map (\<lambda>s. Some (step_of_wire v s)) ?ss) = map (\<lambda>s. Some (step_of_wire v s)) ?ss"
    by (simp add: filter_map comp_def)
  have "reads (bindM (unpack_n (attempt (unpack_jobacct_step_rec v)) (length ?ss)) (\<lambda>rs. ret (map the (filter (\<lambda>r. r \<noteq> None) rs))))
      (map (step_of_wire v) ?ss) (concat (map (enc_step v) ?ss))"
    by (rule reads_map [OF r]) (simp add: all comp_def)
  then show ?thesis unfolding unpack_steps_def enc_steps_def
    by (intro reads_bindM [OF s32.unpk_reads]) (simp_all add: n)
qed

definition enc_job_v5 :: "u16 \<Rightarrow> jobacct_job_rec \<Rightarrow> byte list" where
  "enc_job_v5 rpc_version job = concat [
      be_bytes 4 (j_alloc_cpus job), be_bytes 4 (j_alloc_nodes job), be_bytes 4 (j_associd job),
      str_enc (j_account job), str_enc (j_blockid job), str_enc (j_cluster job), be_bytes 4 (j_elapsed job),
      be_bytes 8 (j_eligible job), be_bytes 8 (j_end job), be_bytes 4 (j_exitcode job), be_bytes 4 (j_gid job),
      be_bytes 4 (j_jobid job), str_enc (j_jobname job), be_bytes 4 (j_lft job), str_enc (j_partition job),
      str_enc (j_nodes job), be_bytes 4 (j_priority job), be_bytes 2 (j_qos job), be_bytes 4 (j_resvid job),
      be_bytes 4 (j_req_cpus job), be_bytes 4 (j_requid job), enc_sacct (j_sacct job), be_bytes 4 (j_show_full job),
      be_bytes 8 (j_start job), be_bytes 2 (ucast (j_state job) :: u16), enc_steps rpc_version (j_steps job),
      be_bytes 8 (j_submit job), be_bytes 4 (j_suspended job), be_bytes 4 (j_sys_cpu_sec job),
      be_bytes 4 (j_sys_cpu_usec job), be_bytes 4 (j_timelimit job), be_bytes 4 (j_tot_cpu_sec job),
      be_bytes 4 (j_tot_cpu_usec job), be_bytes 2 (j_track_steps job), be_bytes 4 (j_uid job), str_enc (j_user job),
      be_bytes 4 (j_user_cpu_sec job), be_bytes 4 (j_user_cpu_usec job), str_enc (j_wckey job),
      be_bytes 4 (j_wckeyid job)]"

definition budget_job_v5 :: "u16 \<Rightarrow> jobacct_job_rec \<Rightarrow> nat" where
  "budget_job_v5 rpc_version job = sum_list [
      4, 4, 4, str_budget (j_account job), str_budget (j_blockid job), str_budget (j_cluster job), 4, 8, 8, 4, 4, 4,
      str_budget (j_jobname job), 4, str_budget (j_partition job), str_budget (j_nodes job), 4, 2, 4, 4, 4, 56, 4, 8,
      2, budget_steps rpc_version (j_steps job), 8, 4, 4, 4, 4, 4, 4, 2, 4, str_budget (j_user job), 4, 4,
      str_budget (j_wckey job), 4]"

definition enc_job_v4 :: "u16 \<Rightarrow> jobacct_job_rec \<Rightarrow> byte list" where
  "enc_job_v4 rpc_version job = concat [
      be_bytes 4 (j_alloc_cpus job), be_bytes 4 (j_associd job), str_enc (j_account job), str_enc (j_blockid job),
      str_enc (j_cluster job), be_bytes 4 (j_elapsed job), be_bytes 8 (j_eligible job), be_bytes 8 (j_end job),
      be_bytes 4 (j_exitcode job), be_bytes 4 (j_gid job), be_bytes 4 (j_jobid job), str_enc (j_jobname job),
      be_bytes 4 (j_lft job), str_enc (j_partition job), str_enc (j_nodes job), be_bytes 4 (j_priority job),
      be_bytes 2 (j_qos job), be_bytes 4 (j_req_cpus job), be_bytes 4 (j_requid job), enc_sacct (j_sacct job),
      be_bytes 4 (j_show_full job), be_bytes 8 (j_start job), be_bytes 2 (ucast (j_state job) :: u16),
      enc_steps rpc_version (j_steps job), be_bytes 8 (j_submit job), be_bytes 4 (j_suspended job),
      be_bytes 4 (j_sys_cpu_sec job), be_bytes 4 (j_sys_cpu_usec job), be_bytes 4 (j_tot_cpu_sec job),
      be_bytes 4 (j_tot_cpu_usec job), be_bytes 2 (j_track_steps job), be_bytes 4 (j_uid job), str_enc (j_user job),
      be_bytes 4 (j_user_cpu_sec job), be_bytes 4 (j_user_cpu_usec job), str_enc (j_wckey job),
      be_bytes 4 (j_wckeyid job)]"

definition budget_job_v4 :: "u16 \<Rightarrow> jobacct_job_rec \<Rightarrow> nat" where
  "budget_job_v4 rpc_version job = sum_list [
      4, 4, str_budget (j_account job), str_budget (j_blockid job), str_budget (j_cluster job), 4, 8, 8, 4, 4, 4,
      str_budget (j_jobname job), 4, str_budget (j_partition job), str_budget (j_nodes job), 4, 2, 4, 4, 56, 4, 8, 2,
      budget_steps rpc_version (j_steps job), 8, 4, 4, 4, 4, 4, 2, 4, str_budget (j_user job), 4, 4,
      str_budget (j_wckey job), 4]"

definition enc_job_old :: "u16 \<Rightarrow> jobacct_job_rec \<Rightarrow> byte list" where
  "enc_job_old rpc_version job = concat [
      be_bytes 4 (j_alloc_cpus job), be_bytes 4 (j_associd job), str_enc (j_account job), str_enc (j_blockid job),
      str_enc (j_cluster job), be_bytes 4 (j_elapsed job), be_bytes 8 (j_eligible job), be_bytes 8 (j_end job),
      be_bytes 4 (j_exitcode job), be_bytes 4 (j_gid job), be_bytes 4 (j_jobid job), str_enc (j_jobname job),
      be_bytes 4 (j_lft job), str_enc (j_partition job), str_enc (j_nodes job), be_bytes 4 (j_priority job),
      be_bytes 2 (j_qos job), be_bytes 4 (j_req_cpus job), be_bytes 4 (j_requid job), enc_sacct (j_sacct job),
      be_bytes 4 (j_show_full job), be_bytes 8 (j_start job), be_bytes 2 (ucast (j_state job) :: u16),
      enc_steps rpc_version (j_steps job), be_bytes 8 (j_submit job), be_bytes 4 (j_suspended job),
      be_bytes 4 (j_sys_cpu_sec job), be_bytes 4 (j_sys_cpu_usec job), be_bytes 4 (j_tot_cpu_sec job),
      be_bytes 4 (j_tot_cpu_usec job), be_bytes 2 (j_track_steps job), be_bytes 4 (j_uid job), str_enc (j_user job),
      be_bytes 4 (j_user_cpu_sec job), be_bytes 4 (j_user_cpu_usec job)]"

definition budget_job_old :: "u16 \<Rightarrow> jobacct_job_rec \<Rightarrow> nat" where
  "budget_job_old rpc_version job = sum_list [
      4, 4, str_budget (j_account job), str_budget (j_blockid job), str_budget (j_cluster job), 4, 8, 8, 4, 4, 4,
      str_budget (j_jobname job), 4, str_budget (j_partition job), str_budget (j_nodes job), 4, 2, 4, 4, 56, 4, 8, 2,
      budget_steps rpc_version (j_steps job), 8, 4, 4, 4, 4, 4, 2, 4, str_budget (j_user job), 4, 4]"

definition enc_job :: "u16 \<Rightarrow> jobacct_job_rec \<Rightarrow> byte list" where
  "enc_job rpc_version job = (if 5 \<le> rpc_version then enc_job_v5 rpc_version job
     else if 4 \<le> rpc_version then enc_job_v4 rpc_version job else enc_job_old rpc_version job)"

definition budget_job :: "u16 \<Rightarrow> jobacct_job_rec \<Rightarrow> nat" where
  "budget_job rpc_version job = (if 5 \<le> rpc_version then budget_job_v5 rpc_version job
     else if 4 \<le> rpc_version then budget_job_v4 rpc_version job else budget_job_old rpc_version job)"

definition job_ok :: "jobacct_job_rec \<Rightarrow> bool" where
  "job_ok job \<longleftrightarrow> str_ok (j_account job) \<and> str_ok (j_blockid job) \<and> str_ok (j_cluster job) \<and> str_ok (j_jobname job) \<and>
     str_ok (j_partition job) \<and> str_ok (j_nodes job) \<and> str_ok (j_user job) \<and> str_ok (j_wckey job) \<and>
     sacct_ok (j_sacct job) \<and> steps_ok (j_steps job) \<and> j_state job < 65536"

lemma pack_job_writes:
  assumes "job_ok job"
  shows "writes (pack_jobacct_job_rec v job) (enc_job v job) (budget_job v job)"
proof -
  have "writes (pack_job_v5 v job) (enc_job_v5 v job) (budget_job_v5 v job)"
    unfolding pack_job_v5_def enc_job_v5_def budget_job_v5_def
    using assms by (intro wire_writes) (simp_all add: wire_len job_ok_def)
  moreover have "writes (pack_job_v4 v job) (enc_job_v4 v job) (budget_job_v4 v job)"
    unfolding pack_job_v4_def enc_job_v4_def budget_job_v4_def
    using assms by (intro wire_writes) (simp_all add: wire_len job_ok_def)
  moreover have "writes (pack_job_old v job) (enc_job_old v job) (budget_job_old v job)"
    unfolding pack_job_old_def enc_job_old_def budget_job_old_def
    using assms by (intro wire_writes) (simp_all add: wire_len job_ok_def)
  ultimately show ?thesis by (simp add: pack_jobacct_job_rec_def enc_job_def budget_job_def)
qed

text \<open>
  What arrives: in every version the usage of the job itself is lost, because it is packed again instead of unpacked;
  the older versions do not carry all fields.
\<close>

definition job_of_wire :: "u16 \<Rightarrow> jobacct_job_rec \<Rightarrow> jobacct_job_rec" where
  "job_of_wire v job =
     (let ss = map (step_of_wire v) (steps_of (j_steps job));
        job = job\<lparr>j_sacct := zero_sacct, j_steps := Some ss, j_first_step := first_of ss\<rparr>;
        job = (if 5 \<le> v then job else job\<lparr>j_alloc_nodes := 0, j_resvid := 0, j_timelimit := 0\<rparr>)
      in if 4 \<le> v then job else job\<lparr>j_wckey := None, j_wckeyid := 0\<rparr>)"

lemma pack_scalars_consume:
  "consumes (pack32 x) () (be_bytes 4 (y :: u32))" "consumes (pack16 x') () (be_bytes 2 (y' :: u16))"
  by (simp_all add: pack32_def pack16_def pack_scalar_consumes)

lemma pack_all_consumes:
  "consumes (pack_all []) () (concat [])"
  "consumes m x bs \<Longrightarrow> consumes (pack_all ms) () (concat bss) \<Longrightarrow> consumes (pack_all (m # ms)) () (concat (bs # bss))"
  using consumes_nil [of "()" "()"] consumes_thenM [of m x bs "pack_all ms" "()" "concat bss"] by simp_all

lemma pack_id_consumes: "consumes (pack_jobacct_id i) () (enc_id i')"
  unfolding pack_jobacct_id_def enc_id_def by (rule pack_all_consumes pack_scalars_consume)+

lemma pack_zero_consumes: "consumes (pack_sacct (Some zero_sacct)) () (enc_sacct s)"
proof -
  have zero: "pack_product 0 = pack32 0" "pack_converted 0 = pack32 0"
    by (simp_all add: pack_product_def pack_converted_def f2u_def)
  have fields: "sa_ave_vsize zero_sacct = 0" "sa_ave_rss zero_sacct = 0" "sa_ave_pages zero_sacct = 0"
    "sa_min_cpu zero_sacct = 0" "sa_ave_cpu zero_sacct = 0" by (simp_all add: zero_sacct_def)
  show ?thesis unfolding pack_sacct_def enc_sacct_def option.case fields zero
    by (rule pack_all_consumes pack_id_consumes pack_scalars_consume)+
qed

lemma consumes_pack:
  "consumes m x bs \<Longrightarrow> consumes n y (concat bss) \<Longrightarrow> consumes (thenM m n) y (concat (bs # bss))"
  using consumes_thenM [of m x bs n y "concat bss"] by simp

lemmas consumes_scalars =
  reads_consumes [OF s64.unpk_reads [OF TrueI]] reads_consumes [OF s32.unpk_reads [OF TrueI]]
  reads_consumes [OF s16.unpk_reads [OF TrueI]] reads_consumes [OF cstrs.unpk_reads]

lemma unpack_job_consumes:
  assumes "job_ok job"
  shows "consumes (unpack_jobacct_job_rec v) (job_of_wire v job) (enc_job v job)"
proof -
  have ok: "str_ok (j_account job)" "str_ok (j_blockid job)" "str_ok (j_cluster job)" "str_ok (j_jobname job)"
    "str_ok (j_partition job)" "str_ok (j_nodes job)" "str_ok (j_user job)" "str_ok (j_wckey job)"
    using assms by (simp_all add: job_ok_def)
  have st: "ucast (ucast (j_state job) :: u16) = j_state job" using assms by (intro ucast_state) (simp add: job_ok_def)
  have steps: "consumes (unpack_steps v) (map (step_of_wire v) (steps_of (j_steps job))) (enc_steps v (j_steps job))"
    using assms by (intro reads_consumes unpack_steps_reads) (simp add: job_ok_def)
  have "consumes (unpack_job_v5 v) (job_of_wire v job) (enc_job_v5 v job)" if "5 \<le> v"
    using that order_trans [of 4 5 v] unfolding unpack_job_v5_def enc_job_v5_def
    by - ((rule consumes_pack pack_zero_consumes consumes_cons consumes_nil consumes_scalars steps ok)+, simp add: job_of_wire_def Let_def st)
  moreover have "consumes (unpack_job_v4 v) (job_of_wire v job) (enc_job_v4 v job)" if "\<not> 5 \<le> v" "4 \<le> v"
    using that unfolding unpack_job_v4_def enc_job_v4_def
    by - ((rule consumes_pack pack_zero_consumes consumes_cons consumes_nil consumes_scalars steps ok)+, simp add: job_of_wire_def Let_def st)
  moreover have "consumes (unpack_job_old v) (job_of_wire v job) (enc_job_old v job)" if "\<not> 5 \<le> v" "\<not> 4 \<le> v"
    using that unfolding unpack_job_old_def enc_job_old_def
    by - ((rule consumes_pack pack_zero_consumes consumes_cons consumes_nil consumes_scalars steps ok)+, simp add: job_of_wire_def Let_def st)
  ultimately show ?thesis by (simp add: unpack_jobacct_job_rec_def enc_job_def)
qed

end
