(* ===== verification/Jobacct_Tasks.thy ===== *)
theory Jobacct_Tasks
  imports Jobacct_Wire Clist_Spec
begin

text \<open>
  The usage counters of running tasks, from \<^verbatim>\<open>jobacct_common.c\<close>: setting and reading single counters, summing
  tasks up, the counters on the wire, and the list of watched tasks on top of \<^verbatim>\<open>list.c\<close>.  At the end
  \<^verbatim>\<open>aggregate_sacct\<close> of \<^verbatim>\<open>process.c\<close>.  A \<^const>\<open>None\<close> is undefined behaviour: a NULL pointer that is followed
  or a \<^verbatim>\<open>void *\<close> that points to the wrong type.  The mutex that serializes the calls is not modelled.
\<close>


section \<open>Counters of one task\<close>

definition jobacct_common_init_struct :: "jobacct_id option \<Rightarrow> jobacctinfo" where
  "jobacct_common_init_struct jobacct_id =
     (let i = (case jobacct_id of None \<Rightarrow> \<lparr>taskid = ucast NO_VAL, nodeid = NO_VAL\<rparr> | Some i \<Rightarrow> i) in
      \<lparr>ji_pid = 0, ji_sys_cpu_sec = 0, ji_sys_cpu_usec = 0, ji_user_cpu_sec = 0, ji_user_cpu_usec = 0,
       ji_max_vsize = 0, ji_max_vsize_id = i, ji_tot_vsize = 0, ji_max_rss = 0, ji_max_rss_id = i, ji_tot_rss = 0,
       ji_max_pages = 0, ji_max_pages_id = i, ji_tot_pages = 0, ji_min_cpu = NO_VAL, ji_min_cpu_id = i,
       ji_tot_cpu = 0\<rparr>)"

datatype jobacct_data_type =
    JOBACCT_DATA_TOTAL | JOBACCT_DATA_PIPE | JOBACCT_DATA_RUSAGE
  | JOBACCT_DATA_MAX_VSIZE | JOBACCT_DATA_MAX_VSIZE_ID | JOBACCT_DATA_TOT_VSIZE
  | JOBACCT_DATA_MAX_RSS | JOBACCT_DATA_MAX_RSS_ID | JOBACCT_DATA_TOT_RSS
  | JOBACCT_DATA_MAX_PAGES | JOBACCT_DATA_MAX_PAGES_ID | JOBACCT_DATA_TOT_PAGES
  | JOBACCT_DATA_MIN_CPU | JOBACCT_DATA_MIN_CPU_ID | JOBACCT_DATA_TOT_CPU

record rusage =
  ru_utime :: "u64 \<times> u64"
  ru_stime :: "u64 \<times> u64"

text \<open>What \<^verbatim>\<open>data\<close> points to; for the pipe, what became of the read or write of the whole structure.\<close>

datatype jobacct_data =
    Total_data jobacctinfo
  | Pipe_data bool jobacctinfo
  | Rusage_data rusage
  | Word_data u32
  | Id_data jobacct_id

definition total_of :: "jobacct_data \<Rightarrow> jobacctinfo option" where
  "total_of d = (case d of Total_data s \<Rightarrow> Some s | _ \<Rightarrow> None)"

definition rusage_of :: "jobacct_data \<Rightarrow> rusage option" where
  "rusage_of d = (case d of Rusage_data r \<Rightarrow> Some r | _ \<Rightarrow> None)"

definition word_of :: "jobacct_data \<Rightarrow> u32 option" where
  "word_of d = (case d of Word_data w \<Rightarrow> Some w | _ \<Rightarrow> None)"

definition id_of :: "jobacct_data \<Rightarrow> jobacct_id option" where
  "id_of d = (case d of Id_data i \<Rightarrow> Some i | _ \<Rightarrow> None)"

text \<open>The return code is whether the call succeeded.\<close>

definition jobacct_common_setinfo :: "jobacctinfo \<Rightarrow> jobacct_data_type \<Rightarrow> jobacct_data \<Rightarrow> (bool \<times> jobacctinfo) option" where
  "jobacct_common_setinfo j type data = (case type of
     JOBACCT_DATA_TOTAL \<Rightarrow> map_option (Pair True) (total_of data)
   | JOBACCT_DATA_PIPE \<Rightarrow> (case data of Pipe_data ok _ \<Rightarrow> Some (ok, j) | _ \<Rightarrow> None)
   | JOBACCT_DATA_RUSAGE \<Rightarrow> map_option (\<lambda>r. (True, j\<lparr>ji_user_cpu_sec := ucast (fst (ru_utime r)),
       ji_user_cpu_usec := ucast (snd (ru_utime r)), ji_sys_cpu_sec := ucast (fst (ru_stime r)),
       ji_sys_cpu_usec := ucast (snd (ru_stime r))\<rparr>)) (rusage_of data)
   | JOBACCT_DATA_MAX_RSS \<Rightarrow> map_option (\<lambda>w. (True, j\<lparr>ji_max_rss := w\<rparr>)) (word_of data)
   | JOBACCT_DATA_MAX_RSS_ID \<Rightarrow> map_option (\<lambda>i. (True, j\<lparr>ji_max_rss_id := i\<rparr>)) (id_of data)
   | JOBACCT_DATA_TOT_RSS \<Rightarrow> map_option (\<lambda>w. (True, j\<lparr>ji_tot_rss := w\<rparr>)) (word_of data)
   | JOBACCT_DATA_MAX_VSIZE \<Rightarrow> map_option (\<lambda>w. (True, j\<lparr>ji_max_vsize := w\<rparr>)) (word_of data)
   | JOBACCT_DATA_MAX_VSIZE_ID \<Rightarrow> map_option (\<lambda>i. (True, j\<lparr>ji_max_vsize_id := i\<rparr>)) (id_of data)
   | JOBACCT_DATA_TOT_VSIZE \<Rightarrow> map_option (\<lambda>w. (True, j\<lparr>ji_tot_vsize := w\<rparr>)) (word_of data)
   | JOBACCT_DATA_MAX_PAGES \<Rightarrow> map_option (\<lambda>w. (True, j\<lparr>ji_max_pages := w\<rparr>)) (word_of data)
   | JOBACCT_DATA_MAX_PAGES_ID \<Rightarrow> map_option (\<lambda>i. (True, j\<lparr>ji_max_pages_id := i\<rparr>)) (id_of data)
   | JOBACCT_DATA_TOT_PAGES \<Rightarrow> map_option (\<lambda>w. (True, j\<lparr>ji_tot_pages := w\<rparr>)) (word_of data)
   | JOBACCT_DATA_MIN_CPU \<Rightarrow> map_option (\<lambda>w. (True, j\<lparr>ji_min_cpu := w\<rparr>)) (word_of data)
   | JOBACCT_DATA_MIN_CPU_ID \<Rightarrow> map_option (\<lambda>i. (True, j\<lparr>ji_min_cpu_id := i\<rparr>)) (id_of data)
   | JOBACCT_DATA_TOT_CPU \<Rightarrow> map_option (\<lambda>w. (True, j\<lparr>ji_tot_cpu := w\<rparr>)) (word_of data))"

text \<open>
  \<open>data\<close> says of which type the target is; the result has the return code, the target after the call and the
  structure, which only a read from a pipe changes.
\<close>

definition getinfo_word :: "u32 \<Rightarrow> jobacctinfo \<Rightarrow> jobacct_data \<Rightarrow> (bool \<times> jobacct_data \<times> jobacctinfo) option" where
  "getinfo_word w j data = map_option (\<lambda>_. (True, Word_data w, j)) (word_of data)"

definition getinfo_id :: "jobacct_id \<Rightarrow> jobacctinfo \<Rightarrow> jobacct_data \<Rightarrow> (bool \<times> jobacct_data \<times> jobacctinfo) option" where
  "getinfo_id i j data = map_option (\<lambda>_. (True, Id_data i, j)) (id_of data)"

definition jobacct_common_getinfo ::
    "jobacctinfo \<Rightarrow> jobacct_data_type \<Rightarrow> jobacct_data \<Rightarrow> (bool \<times> jobacct_data \<times> jobacctinfo) option" where
  "jobacct_common_getinfo j type data = (case type of
     JOBACCT_DATA_TOTAL \<Rightarrow> map_option (\<lambda>_. (True, Total_data j, j)) (total_of data)
   | JOBACCT_DATA_PIPE \<Rightarrow> (case data of Pipe_data ok s \<Rightarrow> Some (ok, data, s) | _ \<Rightarrow> None)
   | JOBACCT_DATA_RUSAGE \<Rightarrow> map_option (\<lambda>_. (True, Rusage_data
       \<lparr>ru_utime = (ucast (ji_user_cpu_sec j), ucast (ji_user_cpu_usec j)),
        ru_stime = (ucast (ji_sys_cpu_sec j), ucast (ji_sys_cpu_usec j))\<rparr>, j)) (rusage_of data)
   | JOBACCT_DATA_MAX_RSS \<Rightarrow> getinfo_word (ji_max_rss j) j data
   | JOBACCT_DATA_MAX_RSS_ID \<Rightarrow> getinfo_id (ji_max_rss_id j) j data
   | JOBACCT_DATA_TOT_RSS \<Rightarrow> getinfo_word (ji_tot_rss j) j data
   | JOBACCT_DATA_MAX_VSIZE \<Rightarrow> getinfo_word (ji_max_vsize j) j data
   | JOBACCT_DATA_MAX_VSIZE_ID \<Rightarrow> getinfo_id (ji_max_vsize_id j) j data
   | JOBACCT_DATA_TOT_VSIZE \<Rightarrow> getinfo_word (ji_tot_vsize j) j data
   | JOBACCT_DATA_MAX_PAGES \<Rightarrow> getinfo_word (ji_max_pages j) j data
   | JOBACCT_DATA_MAX_PAGES_ID \<Rightarrow> getinfo_id (ji_max_pages_id j) j data
   | JOBACCT_DATA_TOT_PAGES \<Rightarrow> getinfo_word (ji_tot_pages j) j data
   | JOBACCT_DATA_MIN_CPU \<Rightarrow> getinfo_word (ji_min_cpu j) j data
   | JOBACCT_DATA_MIN_CPU_ID \<Rightarrow> getinfo_id (ji_min_cpu_id j) j data
   | JOBACCT_DATA_TOT_CPU \<Rightarrow> getinfo_word (ji_tot_cpu j) j data)"


section \<open>Summing up\<close>

text \<open>The loop that moves full seconds out of the microseconds.\<close>

function carry_usec :: "u32 \<Rightarrow> u32 \<Rightarrow> u32 \<times> u32" where
  "carry_usec sec usec = (if 1000000 \<le> usec then carry_usec (sec + 1) (usec - 1000000) else (sec, usec))"
  by auto
termination
  by (relation "measure (\<lambda>(sec, usec). unat usec)") (auto simp: word_le_nat_alt unat_sub)

declare carry_usec.simps [simp del]

text \<open>The parts of \<^verbatim>\<open>jobacct_common_aggregate\<close> in the order of the code.\<close>

definition aggregate_vsize :: "jobacctinfo \<Rightarrow> jobacctinfo \<Rightarrow> jobacctinfo" where
  "aggregate_vsize dest src =
     (let dest = (if ji_max_vsize dest < ji_max_vsize src
                  then dest\<lparr>ji_max_vsize := ji_max_vsize src, ji_max_vsize_id := ji_max_vsize_id src\<rparr> else dest)
      in dest\<lparr>ji_tot_vsize := ji_tot_vsize dest + ji_tot_vsize src\<rparr>)"

definition aggregate_rss :: "jobacctinfo \<Rightarrow> jobacctinfo \<Rightarrow> jobacctinfo" where
  "aggregate_rss dest src =
     (let dest = (if ji_max_rss dest < ji_max_rss src
                  then dest\<lparr>ji_max_rss := ji_max_rss src, ji_max_rss_id := ji_max_rss_id src\<rparr> else dest)
      in dest\<lparr>ji_tot_rss := ji_tot_rss dest + ji_tot_rss src\<rparr>)"

definition aggregate_pages :: "jobacctinfo \<Rightarrow> jobacctinfo \<Rightarrow> jobacctinfo" where
  "aggregate_pages dest src =
     (let dest = (if ji_max_pages dest < ji_max_pages src
                  then dest\<lparr>ji_max_pages := ji_max_pages src, ji_max_pages_id := ji_max_pages_id src\<rparr> else dest)
      in dest\<lparr>ji_tot_pages := ji_tot_pages dest + ji_tot_pages src\<rparr>)"

definition lowers :: "jobacctinfo \<Rightarrow> jobacctinfo \<Rightarrow> bool" where
  "lowers dest src \<longleftrightarrow> ji_min_cpu src < ji_min_cpu dest \<or> ji_min_cpu dest = NO_VAL"

definition known_cpu :: "jobacctinfo \<Rightarrow> jobacctinfo \<Rightarrow> jobacctinfo" where
  "known_cpu dest src = (if lowers dest src \<and> ji_min_cpu src = NO_VAL then src\<lparr>ji_min_cpu := 0\<rparr> else src)"

definition aggregate_min_cpu :: "jobacctinfo \<Rightarrow> jobacctinfo \<Rightarrow> jobacctinfo" where
  "aggregate_min_cpu dest src =
     (let dest = (if lowers dest src
                  then dest\<lparr>ji_min_cpu := ji_min_cpu (known_cpu dest src), ji_min_cpu_id := ji_min_cpu_id src\<rparr> else dest)
      in dest\<lparr>ji_tot_cpu := ji_tot_cpu dest + ji_tot_cpu src\<rparr>)"

definition unset_task :: u16 where "unset_task = ucast NO_VAL"

definition known_id :: "jobacct_id \<Rightarrow> jobacct_id \<Rightarrow> jobacct_id" where
  "known_id i k = (if taskid i = unset_task then k else i)"

definition aggregate_ids :: "jobacctinfo \<Rightarrow> jobacctinfo \<Rightarrow> jobacctinfo" where
  "aggregate_ids dest src = dest\<lparr>
     ji_max_vsize_id := known_id (ji_max_vsize_id dest) (ji_max_vsize_id src),
     ji_max_rss_id := known_id (ji_max_rss_id dest) (ji_max_rss_id src),
     ji_max_pages_id := known_id (ji_max_pages_id dest) (ji_max_pages_id src),
     ji_min_cpu_id := known_id (ji_min_cpu_id dest) (ji_min_cpu_id src)\<rparr>"

definition aggregate_times :: "jobacctinfo \<Rightarrow> jobacctinfo \<Rightarrow> jobacctinfo" where
  "aggregate_times dest src =
     (let user = carry_usec (ji_user_cpu_sec dest + ji_user_cpu_sec src) (ji_user_cpu_usec dest + ji_user_cpu_usec src);
          sys = carry_usec (ji_sys_cpu_sec dest + ji_sys_cpu_sec src) (ji_sys_cpu_usec dest + ji_sys_cpu_usec src)
      in dest\<lparr>ji_user_cpu_sec := fst user, ji_user_cpu_usec := snd user, ji_sys_cpu_sec := fst sys, ji_sys_cpu_usec := snd sys\<rparr>)"

text \<open>The result is \<^verbatim>\<open>dest\<close> and \<^verbatim>\<open>from\<close>, another structure, whose least CPU time may have changed.\<close>

definition jobacct_common_aggregate :: "jobacctinfo \<Rightarrow> jobacctinfo \<Rightarrow> jobacctinfo \<times> jobacctinfo" where
  "jobacct_common_aggregate dest src =
     (let dest = aggregate_vsize dest src;
          dest = aggregate_rss dest src;
          dest = aggregate_pages dest src;
          src' = known_cpu dest src;
          dest = aggregate_min_cpu dest src;
          dest = aggregate_ids dest src'
      in (aggregate_times dest src', src'))"

definition jobacct_common_2_sacct :: "jobacctinfo \<Rightarrow> sacct" where
  "jobacct_common_2_sacct j =
     \<lparr>sa_max_vsize = ji_max_vsize j, sa_max_vsize_id = ji_max_vsize_id j, sa_ave_vsize = u2f (ji_tot_vsize j),
      sa_max_rss = ji_max_rss j, sa_max_rss_id = ji_max_rss_id j, sa_ave_rss = u2f (ji_tot_rss j),
      sa_max_pages = ji_max_pages j, sa_max_pages_id = ji_max_pages_id j, sa_ave_pages = u2f (ji_tot_pages j),
      sa_min_cpu = u2f (ji_min_cpu j), sa_min_cpu_id = ji_min_cpu_id j, sa_ave_cpu = u2f (ji_tot_cpu j)\<rparr>"


section \<open>Counters over the wire\<close>

definition jobacct_common_pack :: "jobacctinfo option \<Rightarrow> unit M" where
  "jobacct_common_pack jo = (case jo of
       None \<Rightarrow> pack_all (replicate 16 (pack32 0) @ replicate 4 (pack16 0))
     | Some j \<Rightarrow> pack_all [pack32 (ji_user_cpu_sec j), pack32 (ji_user_cpu_usec j), pack32 (ji_sys_cpu_sec j),
         pack32 (ji_sys_cpu_usec j), pack32 (ji_max_vsize j), pack32 (ji_tot_vsize j), pack32 (ji_max_rss j),
         pack32 (ji_tot_rss j), pack32 (ji_max_pages j), pack32 (ji_tot_pages j), pack32 (ji_min_cpu j),
         pack32 (ji_tot_cpu j), pack_jobacct_id (ji_max_vsize_id j), pack_jobacct_id (ji_max_rss_id j),
         pack_jobacct_id (ji_max_pages_id j), pack_jobacct_id (ji_min_cpu_id j)])"

text \<open>A part whose error makes the whole call fail.\<close>

definition whole :: "(bool \<times> 't) M \<Rightarrow> 't M" where
  "whole m = bindM m (\<lambda>(ok, t). if ok then ret t else fail)"

definition jobacct_common_unpack :: "jobacctinfo M" where
  "jobacct_common_unpack =
     bindM safe_unpack32 (\<lambda>user_cpu_sec. bindM safe_unpack32 (\<lambda>user_cpu_usec.
     bindM safe_unpack32 (\<lambda>sys_cpu_sec. bindM safe_unpack32 (\<lambda>sys_cpu_usec.
     bindM safe_unpack32 (\<lambda>max_vsize. bindM safe_unpack32 (\<lambda>tot_vsize.
     bindM safe_unpack32 (\<lambda>max_rss. bindM safe_unpack32 (\<lambda>tot_rss.
     bindM safe_unpack32 (\<lambda>max_pages. bindM safe_unpack32 (\<lambda>tot_pages.
     bindM safe_unpack32 (\<lambda>min_cpu. bindM safe_unpack32 (\<lambda>tot_cpu.
     bindM (whole (unpack_jobacct_id zero_id)) (\<lambda>max_vsize_id. bindM (whole (unpack_jobacct_id zero_id)) (\<lambda>max_rss_id.
     bindM (whole (unpack_jobacct_id zero_id)) (\<lambda>max_pages_id. bindM (whole (unpack_jobacct_id zero_id)) (\<lambda>min_cpu_id.
     ret \<lparr>ji_pid = 0, ji_sys_cpu_sec = sys_cpu_sec, ji_sys_cpu_usec = sys_cpu_usec, ji_user_cpu_sec = user_cpu_sec,
          ji_user_cpu_usec = user_cpu_usec, ji_max_vsize = max_vsize, ji_max_vsize_id = max_vsize_id,
          ji_tot_vsize = tot_vsize, ji_max_rss = max_rss, ji_max_rss_id = max_rss_id, ji_tot_rss = tot_rss,
          ji_max_pages = max_pages, ji_max_pages_id = max_pages_id, ji_tot_pages = tot_pages, ji_min_cpu = min_cpu,
          ji_min_cpu_id = min_cpu_id, ji_tot_cpu = tot_cpu\<rparr>))))))))))))))))"


section \<open>The watched tasks\<close>

text \<open>The global variables; \<^verbatim>\<open>task_list\<close> is NULL until a plugin creates it.\<close>

record acct_state =
  jobacct_shutdown :: bool
  jobacct_suspended :: bool
  task_list :: "clist option"
  acct_store :: "jobacctinfo store"
  cont_id :: u32
  acct_job_id :: u32
  job_mem_limit :: u32
  pgid_plugin :: bool

definition jobacct_common_set_proctrack_container_id :: "u32 \<Rightarrow> acct_state \<Rightarrow> bool \<times> acct_state" where
  "jobacct_common_set_proctrack_container_id i s =
     (if pgid_plugin s then (True, s) else if i \<le> 0 then (False, s) else (True, s\<lparr>cont_id := i\<rparr>))"

definition jobacct_common_set_mem_limit :: "u32 \<Rightarrow> u32 \<Rightarrow> acct_state \<Rightarrow> bool \<times> acct_state" where
  "jobacct_common_set_mem_limit job_id mem_limit s =
     (if job_id = 0 \<or> mem_limit = 0 then (False, s)
      else (True, s\<lparr>acct_job_id := job_id, job_mem_limit := mem_limit * 1024\<rparr>))"

text \<open>
  \<^verbatim>\<open>jobacct_common_add_task\<close> copes with a NULL identifier when it fills in the structure but then prints the fields of
  the identifier.
\<close>

definition jobacct_common_add_task :: "i32 \<Rightarrow> jobacct_id option \<Rightarrow> acct_state \<Rightarrow> (bool \<times> acct_state) option" where
  "jobacct_common_add_task pid jobacct_id s =
     (let j = jobacct_common_init_struct jobacct_id in
      if sint pid \<le> 0 then Some (False, s)
      else case task_list s of None \<Rightarrow> Some (False, s)
        | Some l \<Rightarrow> do {
            i \<leftarrow> jobacct_id;
            (_, st, l) \<leftarrow> list_push (acct_store s) l (j\<lparr>ji_pid := pid, ji_min_cpu := 0\<rparr>);
            Some (True, s\<lparr>task_list := Some l, acct_store := st\<rparr>)
          })"

definition jobacct_common_stat_task :: "i32 \<Rightarrow> acct_state \<Rightarrow> (jobacctinfo option \<times> acct_state) option" where
  "jobacct_common_stat_task pid s = (case task_list s of None \<Rightarrow> Some (None, s)
     | Some l \<Rightarrow> do {
         let (a, st, l) = list_iterator_create (acct_store s) l;
         (j, l) \<leftarrow> list_find st l a (\<lambda>j. ji_pid j = pid);
         let (st, l) = list_iterator_destroy st l a;
         Some (j, s\<lparr>task_list := Some l, acct_store := st\<rparr>)
       })"

definition jobacct_common_remove_task :: "i32 \<Rightarrow> acct_state \<Rightarrow> (jobacctinfo option \<times> acct_state) option" where
  "jobacct_common_remove_task pid s = (case task_list s of None \<Rightarrow> Some (None, s)
     | Some l \<Rightarrow> do {
         let (a, st, l) = list_iterator_create (acct_store s) l;
         (j, l) \<leftarrow> list_find st l a (\<lambda>j. ji_pid j = pid);
         (st, l) \<leftarrow> (case j of None \<Rightarrow> Some (st, l) | Some _ \<Rightarrow> map_option snd (list_remove st l a));
         let (st, l) = list_iterator_destroy st l a;
         Some (j, s\<lparr>task_list := Some l, acct_store := st\<rparr>)
       })"

definition jobacct_common_endpoll :: "acct_state \<Rightarrow> acct_state" where
  "jobacct_common_endpoll s = s\<lparr>jobacct_shutdown := True\<rparr>"

definition jobacct_common_suspend_poll :: "acct_state \<Rightarrow> acct_state" where
  "jobacct_common_suspend_poll s = s\<lparr>jobacct_suspended := True\<rparr>"

definition jobacct_common_resume_poll :: "acct_state \<Rightarrow> acct_state" where
  "jobacct_common_resume_poll s = s\<lparr>jobacct_suspended := False\<rparr>"


section \<open>Usage of a job from its steps\<close>

definition aggregate_sacct :: "sacct \<Rightarrow> sacct \<Rightarrow> sacct" where
  "aggregate_sacct dest0 src =
     (let dest = (if sa_max_vsize dest0 < sa_max_vsize src
                  then dest0\<lparr>sa_max_vsize := sa_max_vsize src, sa_max_vsize_id := sa_max_vsize_id src\<rparr> else dest0);
          dest = dest\<lparr>sa_ave_vsize := fl32 (sa_ave_vsize dest + sa_ave_vsize src)\<rparr>;
          dest = (if sa_max_rss dest < sa_max_rss src
                  then dest\<lparr>sa_max_rss := sa_max_rss src, sa_max_rss_id := sa_max_rss_id src\<rparr> else dest);
          dest = dest\<lparr>sa_ave_rss := fl32 (sa_ave_rss dest + sa_ave_rss src)\<rparr>;
          dest = (if sa_max_pages dest < sa_max_pages src
                  then dest\<lparr>sa_max_pages := sa_max_pages src, sa_max_pages_id := sa_max_pages_id src\<rparr> else dest);
          dest = dest\<lparr>sa_ave_pages := fl32 (sa_ave_pages dest + sa_ave_pages src)\<rparr>;
          dest = (if sa_min_cpu src < sa_min_cpu dest \<or> sa_min_cpu dest = u2f NO_VAL
                  then dest\<lparr>sa_min_cpu := sa_min_cpu src, sa_min_cpu_id := sa_min_cpu_id src\<rparr> else dest)
      in dest\<lparr>sa_ave_cpu := fl32 (sa_ave_cpu dest + sa_ave_cpu src)\<rparr>)"

end
