(* ===== verification/Jobacct_Laws.thy ===== *)
theory Jobacct_Laws
  imports Jobacct_Tasks
begin

text \<open>
  Lemmas on the counters of tasks: what one step of summing up does to each counter, what it does over a whole list,
  and the list of watched tasks as a sequence.
\<close>


section \<open>Carrying microseconds\<close>

definition usecs :: "u32 \<Rightarrow> u32 \<Rightarrow> nat" where
  "usecs sec usec = unat sec * 1000000 + unat usec"

lemma carry_usec_value: "carry_usec sec usec = (sec + of_nat (unat usec div 1000000), of_nat (unat usec mod 1000000))"
proof (induction sec usec rule: carry_usec.induct)
  case (1 sec usec)
  show ?case
  proof (cases "1000000 \<le> usec")
    case True
    then have u: "unat (usec - 1000000) = unat usec - 1000000" and le: "1000000 \<le> unat usec"
      by (simp_all add: unat_sub word_le_nat_alt)
    have "carry_usec sec usec = carry_usec (sec + 1) (usec - 1000000)"
      using True by (subst carry_usec.simps) simp
    also have "\<dots> = (sec + 1 + of_nat ((unat usec - 1000000) div 1000000), of_nat ((unat usec - 1000000) mod 1000000))"
      using 1 True u by simp
    finally show ?thesis using le by (simp add: le_div_geq le_mod_geq)
  next
    case False
    then have "unat usec < 1000000" by (simp add: word_le_nat_alt)
    then show ?thesis using False by (subst carry_usec.simps) simp
  qed
qed

lemma carry_usec_bound: "unat (snd (carry_usec sec usec)) < 1000000"
proof -
  have "unat usec mod 1000000 < 1000000" by simp
  then show ?thesis unfolding carry_usec_value snd_conv by (simp add: unat_of_nat take_bit_nat_eq_self)
qed

lemma carry_usec_sum:
  assumes "unat u1 < 1000000" and "unat u2 < 1000000" and "usecs s1 u1 + usecs s2 u2 < 2 ^ 32 * 1000000"
  shows "usecs (fst (carry_usec (s1 + s2) (u1 + u2))) (snd (carry_usec (s1 + s2) (u1 + u2))) = usecs s1 u1 + usecs s2 u2"
proof -
  have u: "unat (u1 + u2) = unat u1 + unat u2" using assms(1,2) by (subst unat_add_lem [symmetric]) simp
  let ?c = "(unat u1 + unat u2) div 1000000" and ?m = "(unat u1 + unat u2) mod 1000000"
  have split: "unat u1 + unat u2 = ?c * 1000000 + ?m" by simp
  have c: "unat s1 + unat s2 + ?c < 2 ^ 32" using assms(3) split unfolding usecs_def by linarith
  then have s: "unat (s1 + s2) = unat s1 + unat s2" by (subst unat_add_lem [symmetric]) simp
  have oc: "unat (of_nat ?c :: u32) = ?c" using c by (simp add: unat_of_nat take_bit_nat_eq_self)
  have "unat (s1 + s2 + of_nat ?c) = unat s1 + unat s2 + ?c"
    using c s oc by (subst unat_add_lem [THEN iffD1]) simp_all
  moreover have "?m < 1000000" by simp
  then have "unat (of_nat ?m :: u32) = ?m" by (simp add: unat_of_nat take_bit_nat_eq_self)
  ultimately show ?thesis using split u unfolding carry_usec_value usecs_def fst_conv snd_conv by simp
qed


section \<open>One step of summing up\<close>

text \<open>A maximum or minimum with the task it belongs to.\<close>

fun keep_max :: "u32 \<times> jobacct_id \<Rightarrow> u32 \<times> jobacct_id \<Rightarrow> u32 \<times> jobacct_id" where
  "keep_max (v, i) (w, k) = (if v < w then (w, k) else (v, if taskid i = unset_task then k else i))"

fun keep_min :: "u32 \<times> jobacct_id \<Rightarrow> u32 \<times> jobacct_id \<Rightarrow> u32 \<times> jobacct_id" where
  "keep_min (v, i) (w, k) = (if w < v \<or> v = NO_VAL then (if w = NO_VAL then 0 else w, k)
     else (v, if taskid i = unset_task then k else i))"

definition summed :: "jobacctinfo \<Rightarrow> jobacctinfo \<Rightarrow> jobacctinfo" where
  "summed d f = fst (jobacct_common_aggregate d f)"

lemmas aggregate_parts = aggregate_vsize_def aggregate_rss_def aggregate_pages_def aggregate_min_cpu_def aggregate_ids_def
  aggregate_times_def known_cpu_def lowers_def known_id_def

lemma vsize_part [simp]:
  "ji_max_rss (aggregate_vsize d f) = ji_max_rss d" "ji_max_rss_id (aggregate_vsize d f) = ji_max_rss_id d"
  "ji_max_pages (aggregate_vsize d f) = ji_max_pages d" "ji_max_pages_id (aggregate_vsize d f) = ji_max_pages_id d"
  "ji_min_cpu (aggregate_vsize d f) = ji_min_cpu d" "ji_min_cpu_id (aggregate_vsize d f) = ji_min_cpu_id d"
  "ji_tot_rss (aggregate_vsize d f) = ji_tot_rss d" "ji_tot_pages (aggregate_vsize d f) = ji_tot_pages d"
  "ji_tot_cpu (aggregate_vsize d f) = ji_tot_cpu d" "ji_tot_vsize (aggregate_vsize d f) = ji_tot_vsize d + ji_tot_vsize f"
  "ji_user_cpu_sec (aggregate_vsize d f) = ji_user_cpu_sec d" "ji_user_cpu_usec (aggregate_vsize d f) = ji_user_cpu_usec d"
  "ji_sys_cpu_sec (aggregate_vsize d f) = ji_sys_cpu_sec d" "ji_sys_cpu_usec (aggregate_vsize d f) = ji_sys_cpu_usec d"
  by (simp_all add: aggregate_vsize_def)

lemma rss_part [simp]:
  "ji_max_vsize (aggregate_rss d f) = ji_max_vsize d" "ji_max_vsize_id (aggregate_rss d f) = ji_max_vsize_id d"
  "ji_max_pages (aggregate_rss d f) = ji_max_pages d" "ji_max_pages_id (aggregate_rss d f) = ji_max_pages_id d"
  "ji_min_cpu (aggregate_rss d f) = ji_min_cpu d" "ji_min_cpu_id (aggregate_rss d f) = ji_min_cpu_id d"
  "ji_tot_vsize (aggregate_rss d f) = ji_tot_vsize d" "ji_tot_pages (aggregate_rss d f) = ji_tot_pages d"
  "ji_tot_cpu (aggregate_rss d f) = ji_tot_cpu d" "ji_tot_rss (aggregate_rss d f) = ji_tot_rss d + ji_tot_rss f"
  "ji_user_cpu_sec (aggregate_rss d f) = ji_user_cpu_sec d" "ji_user_cpu_usec (aggregate_rss d f) = ji_user_cpu_usec d"
  "ji_sys_cpu_sec (aggregate_rss d f) = ji_sys_cpu_sec d" "ji_sys_cpu_usec (aggregate_rss d f) = ji_sys_cpu_usec d"
  by (simp_all add: aggregate_rss_def)

lemma pages_part [simp]:
  "ji_max_vsize (aggregate_pages d f) = ji_max_vsize d" "ji_max_vsize_id (aggregate_pages d f) = ji_max_vsize_id d"
  "ji_max_rss (aggregate_pages d f) = ji_max_rss d" "ji_max_rss_id (aggregate_pages d f) = ji_max_rss_id d"
  "ji_min_cpu (aggregate_pages d f) = ji_min_cpu d" "ji_min_cpu_id (aggregate_pages d f) = ji_min_cpu_id d"
  "ji_tot_vsize (aggregate_pages d f) = ji_tot_vsize d" "ji_tot_rss (aggregate_pages d f) = ji_tot_rss d"
  "ji_tot_cpu (aggregate_pages d f) = ji_tot_cpu d" "ji_tot_pages (aggregate_pages d f) = ji_tot_pages d + ji_tot_pages f"
  "ji_user_cpu_sec (aggregate_pages d f) = ji_user_cpu_sec d" "ji_user_cpu_usec (aggregate_pages d f) = ji_user_cpu_usec d"
  "ji_sys_cpu_sec (aggregate_pages d f) = ji_sys_cpu_sec d" "ji_sys_cpu_usec (aggregate_pages d f) = ji_sys_cpu_usec d"
  by (simp_all add: aggregate_pages_def)

lemma min_part [simp]:
  "ji_max_vsize (aggregate_min_cpu d f) = ji_max_vsize d" "ji_max_vsize_id (aggregate_min_cpu d f) = ji_max_vsize_id d"
  "ji_max_rss (aggregate_min_cpu d f) = ji_max_rss d" "ji_max_rss_id (aggregate_min_cpu d f) = ji_max_rss_id d"
  "ji_max_pages (aggregate_min_cpu d f) = ji_max_pages d" "ji_max_pages_id (aggregate_min_cpu d f) = ji_max_pages_id d"
  "ji_tot_vsize (aggregate_min_cpu d f) = ji_tot_vsize d" "ji_tot_rss (aggregate_min_cpu d f) = ji_tot_rss d"
  "ji_tot_pages (aggregate_min_cpu d f) = ji_tot_pages d" "ji_tot_cpu (aggregate_min_cpu d f) = ji_tot_cpu d + ji_tot_cpu f"
  "ji_user_cpu_sec (aggregate_min_cpu d f) = ji_user_cpu_sec d" "ji_user_cpu_usec (aggregate_min_cpu d f) = ji_user_cpu_usec d"
  "ji_sys_cpu_sec (aggregate_min_cpu d f) = ji_sys_cpu_sec d" "ji_sys_cpu_usec (aggregate_min_cpu d f) = ji_sys_cpu_usec d"
  by (simp_all add: aggregate_min_cpu_def)

lemma source_part [simp]:
  "ji_max_vsize_id (known_cpu d f) = ji_max_vsize_id f" "ji_max_rss_id (known_cpu d f) = ji_max_rss_id f"
  "ji_max_pages_id (known_cpu d f) = ji_max_pages_id f" "ji_min_cpu_id (known_cpu d f) = ji_min_cpu_id f"
  "ji_user_cpu_sec (known_cpu d f) = ji_user_cpu_sec f" "ji_user_cpu_usec (known_cpu d f) = ji_user_cpu_usec f"
  "ji_sys_cpu_sec (known_cpu d f) = ji_sys_cpu_sec f" "ji_sys_cpu_usec (known_cpu d f) = ji_sys_cpu_usec f"
  by (simp_all add: known_cpu_def)

lemma summed_parts:
  "summed d f = (let e = aggregate_pages (aggregate_rss (aggregate_vsize d f) f) f in
     aggregate_times (aggregate_ids (aggregate_min_cpu e f) (known_cpu e f)) (known_cpu e f))"
  by (simp add: summed_def jobacct_common_aggregate_def Let_def)

lemma summed_tot:
  "ji_tot_vsize (summed d f) = ji_tot_vsize d + ji_tot_vsize f" "ji_tot_rss (summed d f) = ji_tot_rss d + ji_tot_rss f"
  "ji_tot_pages (summed d f) = ji_tot_pages d + ji_tot_pages f" "ji_tot_cpu (summed d f) = ji_tot_cpu d + ji_tot_cpu f"
  by (simp_all add: summed_parts Let_def aggregate_times_def aggregate_ids_def)

lemma summed_max:
  "(ji_max_vsize (summed d f), ji_max_vsize_id (summed d f)) =
     keep_max (ji_max_vsize d, ji_max_vsize_id d) (ji_max_vsize f, ji_max_vsize_id f)"
  "(ji_max_rss (summed d f), ji_max_rss_id (summed d f)) =
     keep_max (ji_max_rss d, ji_max_rss_id d) (ji_max_rss f, ji_max_rss_id f)"
  "(ji_max_pages (summed d f), ji_max_pages_id (summed d f)) =
     keep_max (ji_max_pages d, ji_max_pages_id d) (ji_max_pages f, ji_max_pages_id f)"
  by (simp_all add: summed_parts Let_def aggregate_times_def aggregate_ids_def known_id_def)
    (simp_all add: aggregate_vsize_def aggregate_rss_def aggregate_pages_def)

lemma summed_min:
  "(ji_min_cpu (summed d f), ji_min_cpu_id (summed d f)) =
     keep_min (ji_min_cpu d, ji_min_cpu_id d) (ji_min_cpu f, ji_min_cpu_id f)"
  by (simp add: summed_parts Let_def aggregate_times_def aggregate_ids_def known_id_def)
    (simp add: aggregate_min_cpu_def known_cpu_def lowers_def)

lemma summed_cpu:
  "(ji_user_cpu_sec (summed d f), ji_user_cpu_usec (summed d f)) =
     carry_usec (ji_user_cpu_sec d + ji_user_cpu_sec f) (ji_user_cpu_usec d + ji_user_cpu_usec f)"
  "(ji_sys_cpu_sec (summed d f), ji_sys_cpu_usec (summed d f)) =
     carry_usec (ji_sys_cpu_sec d + ji_sys_cpu_sec f) (ji_sys_cpu_usec d + ji_sys_cpu_usec f)"
  by (simp_all add: summed_parts Let_def aggregate_times_def aggregate_ids_def)


section \<open>Summing up a list of tasks\<close>

definition sum_up :: "jobacctinfo \<Rightarrow> jobacctinfo list \<Rightarrow> jobacctinfo" where
  "sum_up d fs = foldl summed d fs"

lemma sum_up_simps [simp]: "sum_up d [] = d" "sum_up d (fs @ [f]) = summed (sum_up d fs) f"
  by (simp_all add: sum_up_def)

lemma sum_up_part:
  assumes "\<And>d f. part (summed d f) = step (part d) (sel f)"
  shows "part (sum_up d fs) = foldl step (part d) (map sel fs)"
  by (induction fs rule: rev_induct) (simp_all add: assms)

lemma keep_max_fold:
  assumes "xs \<noteq> []" and "\<forall>x\<in>set xs. taskid (snd x) \<noteq> unset_task" and "taskid i = unset_task"
  shows "foldl keep_max (0, i) xs \<in> set xs \<and> (\<forall>x\<in>set xs. fst x \<le> fst (foldl keep_max (0, i) xs))"
  using assms(1,2)
proof (induction xs rule: rev_induct)
  case (snoc x xs)
  obtain w k where x: "x = (w, k)" by fastforce
  show ?case
  proof (cases "xs = []")
    case True
    then show ?thesis using x assms(3) by (auto simp: word_gt_0)
  next
    case False
    obtain v j where r: "foldl keep_max (0, i) xs = (v, j)" by fastforce
    with snoc False have "(v, j) \<in> set xs" "\<forall>x\<in>set xs. fst x \<le> v" by simp_all
    moreover from this snoc have "taskid j \<noteq> unset_task" by auto
    ultimately show ?thesis by (auto simp: r x)
  qed
qed simp

lemma keep_min_fold:
  assumes "xs \<noteq> []" and "\<forall>x\<in>set xs. taskid (snd x) \<noteq> unset_task \<and> fst x \<noteq> NO_VAL"
  shows "foldl keep_min (NO_VAL, i) xs \<in> set xs \<and> (\<forall>x\<in>set xs. fst (foldl keep_min (NO_VAL, i) xs) \<le> fst x)"
  using assms
proof (induction xs rule: rev_induct)
  case (snoc x xs)
  obtain w k where x: "x = (w, k)" by fastforce
  show ?case
  proof (cases "xs = []")
    case True
    then show ?thesis using x snoc by auto
  next
    case False
    obtain v j where r: "foldl keep_min (NO_VAL, i) xs = (v, j)" by fastforce
    with snoc False have "(v, j) \<in> set xs" "\<forall>x\<in>set xs. v \<le> fst x" by simp_all
    moreover from this snoc have "taskid j \<noteq> unset_task" "v \<noteq> NO_VAL" by fastforce+
    ultimately show ?thesis using snoc(3) by (auto simp: r x)
  qed
qed simp

lemma carry_fold:
  assumes "\<forall>x\<in>set xs. unat (snd x) < 1000000" and "unat (snd p) < 1000000"
    and "usecs (fst p) (snd p) + sum_list (map (\<lambda>x. usecs (fst x) (snd x)) xs) < 2 ^ 32 * 1000000"
  shows "(let q = foldl (\<lambda>(s, u) (s', u'). carry_usec (s + s') (u + u')) p xs in
    unat (snd q) < 1000000 \<and> usecs (fst q) (snd q) = usecs (fst p) (snd p) + sum_list (map (\<lambda>x. usecs (fst x) (snd x)) xs))"
  using assms
proof (induction xs arbitrary: p)
  case (Cons x xs)
  obtain s u where p: "p = (s, u)" by fastforce
  obtain s' u' where x: "x = (s', u')" by fastforce
  let ?p = "carry_usec (s + s') (u + u')"
  have sum: "usecs (fst ?p) (snd ?p) = usecs s u + usecs s' u'"
    using Cons(2-4) by (intro carry_usec_sum) (simp_all add: p x)
  have "let q = foldl (\<lambda>(s, u) (s', u'). carry_usec (s + s') (u + u')) ?p xs in
      unat (snd q) < 1000000 \<and> usecs (fst q) (snd q) = usecs (fst ?p) (snd ?p) + sum_list (map (\<lambda>x. usecs (fst x) (snd x)) xs)"
    by (rule Cons(1)) (use Cons(2-4) carry_usec_bound sum in \<open>simp_all add: p x\<close>)
  then show ?case unfolding sum by (simp add: p x Let_def add.assoc)
qed (simp add: Let_def)

lemma foldl_words: "foldl (+) (v :: u32) ws = v + sum_list ws"
  by (induction ws arbitrary: v) (simp_all add: add.assoc)


section \<open>Counters on the wire\<close>

definition enc_info :: "jobacctinfo \<Rightarrow> byte list" where
  "enc_info j = concat [be_bytes 4 (ji_user_cpu_sec j), be_bytes 4 (ji_user_cpu_usec j), be_bytes 4 (ji_sys_cpu_sec j),
     be_bytes 4 (ji_sys_cpu_usec j), be_bytes 4 (ji_max_vsize j), be_bytes 4 (ji_tot_vsize j), be_bytes 4 (ji_max_rss j),
     be_bytes 4 (ji_tot_rss j), be_bytes 4 (ji_max_pages j), be_bytes 4 (ji_tot_pages j), be_bytes 4 (ji_min_cpu j),
     be_bytes 4 (ji_tot_cpu j), enc_id (ji_max_vsize_id j), enc_id (ji_max_rss_id j), enc_id (ji_max_pages_id j),
     enc_id (ji_min_cpu_id j)]"

lemma pack_info_writes: "writes (jobacct_common_pack (Some j)) (enc_info j) 72"
proof -
  have "writes (jobacct_common_pack (Some j)) (enc_info j) (sum_list [4, 4, 4, 4, 4, 4, 4, 4, 4, 4, 4, 4, 6, 6, 6, 6])"
    unfolding jobacct_common_pack_def enc_info_def option.case by (intro wire_writes) simp_all
  then show ?thesis by simp
qed

lemma whole_id_reads: "reads (whole (unpack_jobacct_id i0)) i (enc_id i)"
proof -
  have "reads (bindM (unpack_jobacct_id i0) (\<lambda>(ok, t). if ok then ret t else fail)) i (enc_id i @ [])"
    by (rule reads_bindM [OF unpack_id_reads]) (simp add: reads_ret)
  then show ?thesis by (simp add: whole_def)
qed

lemma unpack_info_reads: "reads jobacct_common_unpack (j\<lparr>ji_pid := 0\<rparr>) (enc_info j)"
  unfolding jobacct_common_unpack_def enc_info_def by (rule wire_reads reads_cons [OF whole_id_reads])+ simp


section \<open>The list of watched tasks\<close>

fun drop_first :: "('a \<Rightarrow> bool) \<Rightarrow> 'a list \<Rightarrow> 'a list" where
  "drop_first f [] = []"
| "drop_first f (x # xs) = (if f x then xs else x # drop_first f xs)"

lemma search_from_find:
  "k \<le> length xs \<Longrightarrow> fst (search_from f xs k) = find f (drop k xs) \<and>
    (fst (search_from f xs k) \<noteq> None \<longrightarrow> (\<exists>i < length xs. snd (search_from f xs k) = (Suc i, i) \<and>
       xs ! i = the (find f (drop k xs)) \<and> remove_at i xs = take k xs @ drop_first f (drop k xs)))"
proof (induction "length xs - k" arbitrary: k)
  case 0
  then show ?case by (subst search_from_step, subst (1) search_from_step) simp
next
  case (Suc d)
  then have k: "k < length xs" by simp
  then have dr: "drop k xs = xs ! k # drop (Suc k) xs" by (simp add: Cons_nth_drop_Suc)
  show ?case
  proof (cases "f (xs ! k)")
    case True
    then have "search_from f xs k = (Some (xs ! k), Suc k, k)" using k by (subst search_from_step) simp
    then show ?thesis using True k dr by (auto simp: remove_at_def)
  next
    case False
    then have "search_from f xs k = search_from f xs (Suc k)" using k by (subst search_from_step) simp
    then show ?thesis using Suc(1) [of "Suc k"] Suc(2) k dr False by (simp add: take_Suc_conv_app_nth)
  qed
qed

text \<open>An iterator that is created, used to look for an element and destroyed leaves no trace.\<close>

lemma lookup_is_list:
  assumes "is_list st l q" and "list_iterator_create st l = (a, st1, l1)"
  shows "\<exists>l2 c. list_find st1 l1 a f = Some (find f (q_data q), l2) \<and>
    is_list st1 l2 (set_cursor a c (q\<lparr>q_cursors := (a, 0, 0) # q_cursors q\<rparr>)) \<and>
    (find f (q_data q) \<noteq> None \<longrightarrow> (\<exists>i < length (q_data q). c = (Suc i, i) \<and> q_data q ! i = the (find f (q_data q)) \<and>
       remove_at i (q_data q) = drop_first f (q_data q)))"
proof -
  let ?q = "q\<lparr>q_cursors := (a, 0, 0) # q_cursors q\<rparr>"
  have "is_list st1 l1 ?q" by (rule iterator_create_is_list [OF assms])
  moreover have "cursor_of ?q a = Some (0, 0)" by (simp add: cursor_of_def)
  ultimately have "\<exists>l'. list_find st1 l1 a f = Some (fst (search_from f (q_data q) 0), l') \<and>
      is_list st1 l' (set_cursor a (snd (search_from f (q_data q) 0)) ?q)"
    using find_is_list [of st1 l1 ?q a "(0, 0)" f] by simp
  then obtain l' where "list_find st1 l1 a f = Some (fst (search_from f (q_data q) 0), l')"
      "is_list st1 l' (set_cursor a (snd (search_from f (q_data q) 0)) ?q)" by blast
  then show ?thesis using search_from_find [of 0 "q_data q" f]
    by - (rule exI [of _ l'], rule exI [of _ "snd (search_from f (q_data q) 0)"], auto)
qed

definition watched :: "acct_state \<Rightarrow> jobacctinfo list \<Rightarrow> bool" where
  "watched s ts \<longleftrightarrow> (\<exists>l. task_list s = Some l \<and> stands_for (acct_store s, l) ts)"

definition new_task :: "i32 \<Rightarrow> jobacct_id \<Rightarrow> jobacctinfo" where
  "new_task pid i = (jobacct_common_init_struct (Some i))\<lparr>ji_pid := pid, ji_min_cpu := 0\<rparr>"

lemma add_task_watched:
  assumes "watched s ts"
  shows "\<exists>s'. jobacct_common_add_task pid (Some i) s = Some (0 < sint pid, s') \<and>
    watched s' (if 0 < sint pid then new_task pid i # ts else ts)"
proof -
  from assms obtain l q where l: "task_list s = Some l" "is_list (acct_store s) l q" "q_data q = ts"
    by (auto simp: watched_def stands_for_def)
  obtain st' l' where "list_push (acct_store s) l (new_task pid i) = Some (new_task pid i, st', l')"
      "is_list st' l' (seq_insert 0 (new_task pid i) q)"
    using push_is_list [OF l(2), of "new_task pid i"] by blast
  then show ?thesis using l assms
    by (auto simp: jobacct_common_add_task_def new_task_def [symmetric] watched_def stands_for_def seq_insert_def Let_def
        intro!: exI [of _ "seq_insert 0 (new_task pid i) q"])
qed

lemma stat_task_watched:
  assumes "watched s ts"
  shows "\<exists>s'. jobacct_common_stat_task pid s = Some (find (\<lambda>j. ji_pid j = pid) ts, s') \<and> watched s' ts"
proof -
  from assms obtain l q where l: "task_list s = Some l" "is_list (acct_store s) l q" "q_data q = ts"
    by (auto simp: watched_def stands_for_def)
  obtain a st1 l1 where c: "list_iterator_create (acct_store s) l = (a, st1, l1)" by (metis prod_cases3)
  obtain l2 cu where f: "list_find st1 l1 a (\<lambda>j. ji_pid j = pid) = Some (find (\<lambda>j. ji_pid j = pid) ts, l2)"
      "is_list st1 l2 (set_cursor a cu (q\<lparr>q_cursors := (a, 0, 0) # q_cursors q\<rparr>))"
    using lookup_is_list [OF l(2) c, of "\<lambda>j. ji_pid j = pid"] l(3) by auto
  obtain st3 l3 where d: "list_iterator_destroy st1 l2 a = (st3, l3)" by fastforce
  note iterator_destroy_is_list [OF f(2) d]
  then have "stands_for (st3, l3) ts" using l(3) by (auto simp: stands_for_def)
  then show ?thesis using l(1) c f(1) d by (auto simp: jobacct_common_stat_task_def watched_def)
qed

lemma remove_task_watched:
  assumes "watched s ts"
  shows "\<exists>s'. jobacct_common_remove_task pid s = Some (find (\<lambda>j. ji_pid j = pid) ts, s') \<and>
    watched s' (drop_first (\<lambda>j. ji_pid j = pid) ts)"
proof -
  let ?p = "\<lambda>j. ji_pid j = pid"
  from assms obtain l q where l: "task_list s = Some l" "is_list (acct_store s) l q" "q_data q = ts"
    by (auto simp: watched_def stands_for_def)
  obtain a st1 l1 where c: "list_iterator_create (acct_store s) l = (a, st1, l1)" by (metis prod_cases3)
  let ?q = "q\<lparr>q_cursors := (a, 0, 0) # q_cursors q\<rparr>"
  obtain l2 cu where f: "list_find st1 l1 a ?p = Some (find ?p ts, l2)" "is_list st1 l2 (set_cursor a cu ?q)"
      "find ?p ts \<noteq> None \<longrightarrow> (\<exists>i < length ts. cu = (Suc i, i) \<and> ts ! i = the (find ?p ts) \<and> remove_at i ts = drop_first ?p ts)"
    using lookup_is_list [OF l(2) c, of ?p] l(3) by auto
  have "\<exists>st3 l3 q3. (case find ?p ts of None \<Rightarrow> Some (st1, l2) | Some _ \<Rightarrow> map_option snd (list_remove st1 l2 a)) = Some (st3, l3) \<and>
      is_list st3 l3 q3 \<and> q_data q3 = drop_first ?p ts"
  proof (cases "find ?p ts")
    case None
    then have "drop_first ?p ts = ts" by (induction ts) (auto split: if_splits)
    then show ?thesis using None f(2) l(3) by (auto intro!: exI)
  next
    case (Some j)
    then obtain i where i: "i < length ts" "cu = (Suc i, i)" "remove_at i ts = drop_first ?p ts" using f(3) by auto
    have "cursor_of (set_cursor a cu ?q) a = Some (Suc i, i)" using i(2) by (simp add: cursor_of_def [of ?q])
    from remove_is_list [OF f(2) this] obtain st3 l3 where
      "list_remove st1 l2 a = Some (Some (ts ! i), st3, l3)" "is_list st3 l3 (seq_remove i (set_cursor a cu ?q))"
      using l(3) by auto
    then show ?thesis using Some i(3) l(3)
      by (auto simp: seq_remove_def intro!: exI [of _ "seq_remove i (set_cursor a cu ?q)"])
  qed
  then obtain st3 l3 q3 where r: "(case find ?p ts of None \<Rightarrow> Some (st1, l2) | Some _ \<Rightarrow> map_option snd (list_remove st1 l2 a)) = Some (st3, l3)"
      "is_list st3 l3 q3" "q_data q3 = drop_first ?p ts" by blast
  obtain st4 l4 where d: "list_iterator_destroy st3 l3 a = (st4, l4)" by fastforce
  note iterator_destroy_is_list [OF r(2) d]
  then have "stands_for (st4, l4) (drop_first ?p ts)" using r(3) by (auto simp: stands_for_def)
  then show ?thesis using l(1) c f(1) d r(1) by (auto simp: jobacct_common_remove_task_def watched_def)
qed

text \<open>Calls on the table of tasks, on the lists of \<^verbatim>\<open>list.c\<close> and on a plain sequence.\<close>

datatype task_call = Add_task i32 jobacct_id | Stat_task i32 | Remove_task i32

datatype task_answer = Done bool | Usage "jobacctinfo option"

fun task_step :: "task_call \<Rightarrow> acct_state \<Rightarrow> (task_answer \<times> acct_state) option" where
  "task_step (Add_task pid i) s = map_option (map_prod Done id) (jobacct_common_add_task pid (Some i) s)"
| "task_step (Stat_task pid) s = map_option (map_prod Usage id) (jobacct_common_stat_task pid s)"
| "task_step (Remove_task pid) s = map_option (map_prod Usage id) (jobacct_common_remove_task pid s)"

fun table_step :: "task_call \<Rightarrow> jobacctinfo list \<Rightarrow> task_answer \<times> jobacctinfo list" where
  "table_step (Add_task pid i) ts = (Done (0 < sint pid), if 0 < sint pid then new_task pid i # ts else ts)"
| "table_step (Stat_task pid) ts = (Usage (find (\<lambda>j. ji_pid j = pid) ts), ts)"
| "table_step (Remove_task pid) ts = (Usage (find (\<lambda>j. ji_pid j = pid) ts), drop_first (\<lambda>j. ji_pid j = pid) ts)"

fun task_run :: "task_call list \<Rightarrow> acct_state \<Rightarrow> (task_answer list \<times> acct_state) option" where
  "task_run [] s = Some ([], s)"
| "task_run (c # cs) s = do { (r, s) \<leftarrow> task_step c s; (rs, s) \<leftarrow> task_run cs s; Some (r # rs, s) }"

fun table_run :: "task_call list \<Rightarrow> jobacctinfo list \<Rightarrow> task_answer list \<times> jobacctinfo list" where
  "table_run [] ts = ([], ts)"
| "table_run (c # cs) ts = (let (r, ts) = table_step c ts; (rs, ts) = table_run cs ts in (r # rs, ts))"

lemma task_step_simulates:
  assumes "watched s ts"
  shows "\<exists>s'. task_step c s = Some (fst (table_step c ts), s') \<and> watched s' (snd (table_step c ts))"
proof (cases c)
  case (Add_task pid i)
  then show ?thesis using add_task_watched [OF assms, of pid i] by auto
next
  case (Stat_task pid)
  then show ?thesis using stat_task_watched [OF assms, of pid] by auto
next
  case (Remove_task pid)
  then show ?thesis using remove_task_watched [OF assms, of pid] by auto
qed

lemma task_run_simulates:
  "watched s ts \<Longrightarrow> \<exists>s'. task_run cs s = Some (fst (table_run cs ts), s') \<and> watched s' (snd (table_run cs ts))"
proof (induction cs arbitrary: s ts)
  case (Cons c cs)
  obtain s1 where s1: "task_step c s = Some (fst (table_step c ts), s1)" "watched s1 (snd (table_step c ts))"
    using task_step_simulates [OF Cons(2)] by blast
  from Cons(1) [OF s1(2)] show ?case using s1(1) by (auto simp: split_def Let_def)
qed simp


section \<open>Setting and reading\<close>

definition fits_u32 :: "u64 \<times> u64 \<Rightarrow> bool" where
  "fits_u32 t \<longleftrightarrow> fst t < 2 ^ 32 \<and> snd t < 2 ^ 32"

lemma setinfo_returns: "jobacct_common_setinfo j type data = Some (ok, j') \<Longrightarrow> type \<noteq> JOBACCT_DATA_PIPE \<Longrightarrow> ok"
  by (cases type) (auto simp: jobacct_common_setinfo_def)

lemma narrow_u64: "t < 2 ^ 32 \<Longrightarrow> (ucast (ucast (t :: u64) :: u32) :: u64) = t"
proof -
  assume "t < 2 ^ 32"
  then have "unat t < 2 ^ 32" by (simp add: word_less_nat_alt)
  then have "unat (take_bit 32 t) = unat t" by (simp only: unsigned_take_bit_eq take_bit_nat_eq_self)
  then show ?thesis by (intro word_unat_eq_iff [THEN iffD2]) (simp add: unsigned_ucast_eq)
qed

lemma setinfo_same:
  assumes "jobacct_common_setinfo j type data = Some (ok, j')" and "type \<noteq> JOBACCT_DATA_PIPE"
    and "\<And>r. data = Rusage_data r \<Longrightarrow> fits_u32 (ru_utime r) \<and> fits_u32 (ru_stime r)"
  shows "jobacct_common_getinfo j' type data = Some (True, data, j')"
proof (cases data)
  case (Rusage_data r)
  have "fits_u32 (ru_utime r)" "fits_u32 (ru_stime r)" using assms(3) [OF Rusage_data] by simp_all
  then show ?thesis using assms(1,2) unfolding Rusage_data
    by (cases type) (auto simp: jobacct_common_setinfo_def jobacct_common_getinfo_def total_of_def word_of_def id_of_def rusage_of_def
        fits_u32_def narrow_u64)
qed (use assms(1,2) in \<open>cases type; auto simp: jobacct_common_setinfo_def jobacct_common_getinfo_def getinfo_word_def getinfo_id_def
      total_of_def word_of_def id_of_def rusage_of_def\<close>)+

lemma setinfo_other:
  assumes "jobacct_common_setinfo j type data = Some (ok, j')" and "type \<noteq> JOBACCT_DATA_PIPE" and "type \<noteq> JOBACCT_DATA_TOTAL"
    and "type' \<notin> {type, JOBACCT_DATA_TOTAL, JOBACCT_DATA_PIPE}"
  shows "jobacct_common_getinfo j' type' data' = map_option (\<lambda>(ok, d, _). (ok, d, j')) (jobacct_common_getinfo j type' data')"
  using assms
  by (cases type; cases type')
    (auto simp: jobacct_common_setinfo_def jobacct_common_getinfo_def getinfo_word_def getinfo_id_def option.map_comp comp_def)


section \<open>Summing up into a fresh structure\<close>

definition task_info_ok :: "jobacctinfo \<Rightarrow> bool" where
  "task_info_ok t \<longleftrightarrow> taskid (ji_max_vsize_id t) \<noteq> unset_task \<and> taskid (ji_max_rss_id t) \<noteq> unset_task \<and>
     taskid (ji_max_pages_id t) \<noteq> unset_task \<and> taskid (ji_min_cpu_id t) \<noteq> unset_task \<and> ji_min_cpu t \<noteq> NO_VAL \<and>
     unat (ji_user_cpu_usec t) < 1000000 \<and> unat (ji_sys_cpu_usec t) < 1000000"

definition user_usecs :: "jobacctinfo \<Rightarrow> nat" where
  "user_usecs j = usecs (ji_user_cpu_sec j) (ji_user_cpu_usec j)"

definition sys_usecs :: "jobacctinfo \<Rightarrow> nat" where
  "sys_usecs j = usecs (ji_sys_cpu_sec j) (ji_sys_cpu_usec j)"

lemma init_parts:
  "ji_max_vsize (jobacct_common_init_struct io) = 0" "ji_max_rss (jobacct_common_init_struct io) = 0"
  "ji_max_pages (jobacct_common_init_struct io) = 0" "ji_min_cpu (jobacct_common_init_struct io) = NO_VAL"
  "taskid (ji_max_vsize_id (jobacct_common_init_struct None)) = unset_task"
  "taskid (ji_max_rss_id (jobacct_common_init_struct None)) = unset_task"
  "taskid (ji_max_pages_id (jobacct_common_init_struct None)) = unset_task"
  "ji_tot_vsize (jobacct_common_init_struct io) = 0" "ji_tot_rss (jobacct_common_init_struct io) = 0"
  "ji_tot_pages (jobacct_common_init_struct io) = 0" "ji_tot_cpu (jobacct_common_init_struct io) = 0"
  "user_usecs (jobacct_common_init_struct io) = 0" "sys_usecs (jobacct_common_init_struct io) = 0"
  "unat (ji_user_cpu_usec (jobacct_common_init_struct io)) < 1000000"
  "unat (ji_sys_cpu_usec (jobacct_common_init_struct io)) < 1000000"
  by (simp_all add: jobacct_common_init_struct_def Let_def unset_task_def user_usecs_def sys_usecs_def usecs_def)

lemma sum_up_tots:
  "ji_tot_vsize (sum_up (jobacct_common_init_struct None) ts) = sum_list (map ji_tot_vsize ts)"
  "ji_tot_rss (sum_up (jobacct_common_init_struct None) ts) = sum_list (map ji_tot_rss ts)"
  "ji_tot_pages (sum_up (jobacct_common_init_struct None) ts) = sum_list (map ji_tot_pages ts)"
  "ji_tot_cpu (sum_up (jobacct_common_init_struct None) ts) = sum_list (map ji_tot_cpu ts)"
  using sum_up_part [of ji_tot_vsize "(+)" ji_tot_vsize] sum_up_part [of ji_tot_rss "(+)" ji_tot_rss]
    sum_up_part [of ji_tot_pages "(+)" ji_tot_pages] sum_up_part [of ji_tot_cpu "(+)" ji_tot_cpu]
  by (simp_all add: summed_tot foldl_words init_parts)

lemma sum_up_best:
  assumes "\<And>d f. (v (summed d f), i (summed d f)) = keep_max (v d, i d) (v f, i f)"
    and "v d = 0" and "taskid (i d) = unset_task" and "ts \<noteq> []" and "\<forall>t\<in>set ts. taskid (i t) \<noteq> unset_task"
  shows "(\<exists>t\<in>set ts. v t = v (sum_up d ts) \<and> i t = i (sum_up d ts)) \<and> (\<forall>t\<in>set ts. v t \<le> v (sum_up d ts))"
proof -
  have "(v (sum_up d ts), i (sum_up d ts)) = foldl keep_max (0, i d) (map (\<lambda>t. (v t, i t)) ts)"
    using sum_up_part [of "\<lambda>t. (v t, i t)" keep_max "\<lambda>t. (v t, i t)" d ts] assms(1,2) by simp
  with keep_max_fold [of "map (\<lambda>t. (v t, i t)) ts" "i d"] assms(3-5) show ?thesis by (auto dest: sym)
qed

lemma sum_up_maxes:
  assumes "ts \<noteq> []" and "\<forall>t\<in>set ts. task_info_ok t"
  shows "let D = sum_up (jobacct_common_init_struct None) ts in
    (\<exists>t\<in>set ts. ji_max_vsize t = ji_max_vsize D \<and> ji_max_vsize_id t = ji_max_vsize_id D) \<and>
    (\<exists>t\<in>set ts. ji_max_rss t = ji_max_rss D \<and> ji_max_rss_id t = ji_max_rss_id D) \<and>
    (\<exists>t\<in>set ts. ji_max_pages t = ji_max_pages D \<and> ji_max_pages_id t = ji_max_pages_id D) \<and>
    (\<forall>t\<in>set ts. ji_max_vsize t \<le> ji_max_vsize D \<and> ji_max_rss t \<le> ji_max_rss D \<and> ji_max_pages t \<le> ji_max_pages D)"
  using sum_up_best [OF summed_max(1), of "jobacct_common_init_struct None" ts]
    sum_up_best [OF summed_max(2), of "jobacct_common_init_struct None" ts]
    sum_up_best [OF summed_max(3), of "jobacct_common_init_struct None" ts] assms
  by (simp add: Let_def init_parts task_info_ok_def)

lemma sum_up_min:
  assumes "ts \<noteq> []" and "\<forall>t\<in>set ts. task_info_ok t"
  shows "let D = sum_up (jobacct_common_init_struct None) ts in
    (\<exists>t\<in>set ts. ji_min_cpu t = ji_min_cpu D \<and> ji_min_cpu_id t = ji_min_cpu_id D) \<and>
    (\<forall>t\<in>set ts. ji_min_cpu D \<le> ji_min_cpu t)"
proof -
  let ?p = "\<lambda>t. (ji_min_cpu t, ji_min_cpu_id t)" and ?d = "jobacct_common_init_struct None"
  have "?p (sum_up ?d ts) = foldl keep_min (NO_VAL, ji_min_cpu_id ?d) (map ?p ts)"
    using sum_up_part [of ?p keep_min ?p ?d ts] summed_min by (simp add: init_parts)
  with keep_min_fold [of "map ?p ts" "ji_min_cpu_id ?d"] assms show ?thesis
    by (auto simp: Let_def task_info_ok_def dest: sym)
qed

lemma sum_up_time:
  fixes s u :: "jobacctinfo \<Rightarrow> u32"
  assumes step: "\<And>d f. (s (summed d f), u (summed d f)) = carry_usec (s d + s f) (u d + u f)"
    and d: "usecs (s d) (u d) = 0" "unat (u d) < 1000000" and ts: "\<forall>t\<in>set ts. unat (u t) < 1000000"
    and le: "sum_list (map (\<lambda>t. usecs (s t) (u t)) ts) < 2 ^ 32 * 1000000"
  shows "usecs (s (sum_up d ts)) (u (sum_up d ts)) = sum_list (map (\<lambda>t. usecs (s t) (u t)) ts) \<and>
    unat (u (sum_up d ts)) < 1000000"
proof -
  let ?p = "\<lambda>t. (s t, u t)" and ?step = "\<lambda>(s, u) (s', u'). carry_usec (s + s') (u + u')"
  have f: "foldl ?step (?p d) (map ?p ts) = ?p (sum_up d ts)"
    using sum_up_part [of ?p ?step ?p d ts] step by simp
  have "let q = foldl ?step (?p d) (map ?p ts) in unat (snd q) < 1000000 \<and>
      usecs (fst q) (snd q) = usecs (fst (?p d)) (snd (?p d)) + sum_list (map (\<lambda>x. usecs (fst x) (snd x)) (map ?p ts))"
    by (rule carry_fold) (use d ts le in \<open>simp_all add: comp_def\<close>)
  then show ?thesis unfolding f using d(1) by (simp add: comp_def)
qed

lemma sum_up_user:
  assumes "\<forall>t\<in>set ts. task_info_ok t" and "sum_list (map user_usecs ts) < 2 ^ 32 * 1000000"
  shows "user_usecs (sum_up (jobacct_common_init_struct None) ts) = sum_list (map user_usecs ts) \<and>
    unat (ji_user_cpu_usec (sum_up (jobacct_common_init_struct None) ts)) < 1000000"
  using sum_up_time [OF summed_cpu(1), of "jobacct_common_init_struct None" ts] assms init_parts(12,14)
  by (simp add: user_usecs_def [abs_def] task_info_ok_def)

lemma sum_up_sys:
  assumes "\<forall>t\<in>set ts. task_info_ok t" and "sum_list (map sys_usecs ts) < 2 ^ 32 * 1000000"
  shows "sys_usecs (sum_up (jobacct_common_init_struct None) ts) = sum_list (map sys_usecs ts) \<and>
    unat (ji_sys_cpu_usec (sum_up (jobacct_common_init_struct None) ts)) < 1000000"
  using sum_up_time [OF summed_cpu(2), of "jobacct_common_init_struct None" ts] assms init_parts(13,15)
  by (simp add: sys_usecs_def [abs_def] task_info_ok_def)


section \<open>Nothing to pack\<close>

definition zero_info :: jobacctinfo where
  "zero_info = (jobacct_common_init_struct (Some zero_id))\<lparr>ji_min_cpu := 0\<rparr>"

lemma zero_info_pid: "zero_info\<lparr>ji_pid := 0\<rparr> = zero_info"
  by (simp add: zero_info_def jobacct_common_init_struct_def Let_def)

lemma pack_null_writes: "writes (jobacct_common_pack None) (enc_info zero_info) 72"
proof -
  have w: "writes (pack_all (ms @ ns)) (bs @ cs) (k + l)"
    if "writes (pack_all ms) bs k" "length bs \<le> k" "writes (pack_all ns) cs l" for ms ns bs cs k l
  proof -
    have "pack_all (ms @ ns) = thenM (pack_all ms) (pack_all ns)"
      by (induction ms) (auto simp: fun_eq_iff thenM_def bindM_def ret_def split: res.splits)
    then show ?thesis using writes_thenM [OF that(1,3,2)] by simp
  qed
  have "writes (jobacct_common_pack None) (concat (replicate 16 (be_bytes 4 (0 :: u32))) @ concat (replicate 4 (be_bytes 2 (0 :: u16))))
      (sum_list (replicate 16 4) + sum_list (replicate 4 2))"
    unfolding jobacct_common_pack_def option.case
    by (intro w writes_replicate s32.pk_writes s16.pk_writes) (simp_all add: length_concat sum_list_replicate)
  moreover have "concat (replicate 16 (be_bytes 4 (0 :: u32))) @ concat (replicate 4 (be_bytes 2 (0 :: u16))) = enc_info zero_info"
    by (simp add: enc_info_def zero_info_def jobacct_common_init_struct_def Let_def enc_id_def zero_id_def) (simp add: eval_nat_numeral)
  ultimately show ?thesis by (simp add: sum_list_replicate)
qed

text \<open>An empty table.\<close>

definition sample_tasks :: acct_state where
  "sample_tasks = \<lparr>jobacct_shutdown = False, jobacct_suspended = False, task_list = Some (list_create False), acct_store = empty_store,
     cont_id = NO_VAL, acct_job_id = 0, job_mem_limit = 0, pgid_plugin = False\<rparr>"

lemma sample_watched: "watched sample_tasks []"
  by (simp add: sample_tasks_def watched_def stands_for_create)

end
