(* ===== verification/Jobacct_Spec.thy ===== *)
theory Jobacct_Spec
  imports Jobacct_Laws
begin

text \<open>
  The properties of the accounting records on the wire: what survives packing and unpacking, that unpacking is safe
  on arbitrary bytes, where the code loses data, how the counters of tasks are summed up, and the table of watched
  tasks.
\<close>


section \<open>Safety of the readers\<close>

lemma robust_id [wire_safe]: "robust (unpack_jobacct_id i)"
  unfolding unpack_jobacct_id_def by (intro wire_safe)

lemma robust_fill_in [wire_safe]:
  "(\<And>t. robust (m t)) \<Longrightarrow> (\<And>s. robust (k s)) \<Longrightarrow> robust (fill_in m sel upd k s)"
  unfolding fill_in_def by (intro robust_bindM) (auto intro: wire_safe split: prod.splits)

lemma robust_sacct [wire_safe]: "robust (unpack_sacct s)"
  unfolding unpack_sacct_def by (intro wire_safe)

lemma robust_step [wire_safe]: "robust (unpack_jobacct_step_rec v)"
proof -
  have "robust unpack_step_v5" "robust unpack_step_old"
    unfolding unpack_step_v5_def unpack_step_old_def case_prod_beta by (intro wire_safe)+
  then show ?thesis by (simp add: unpack_jobacct_step_rec_def)
qed

lemma robust_steps [wire_safe]: "robust (unpack_steps v)"
  unfolding unpack_steps_def by (intro wire_safe)

lemma robust_zero_sacct [wire_safe]: "robust (pack_sacct (Some zero_sacct))"
proof -
  have zero: "pack_product 0 = pack32 0" "pack_converted 0 = pack32 0"
    by (simp_all add: pack_product_def pack_converted_def f2u_def)
  show ?thesis
    unfolding pack_sacct_def option.case
    by (rule robust_pack_all) (auto simp: zero_sacct_def zero pack_jobacct_id_def intro!: wire_safe)
qed

lemma robust_job: "robust (unpack_jobacct_job_rec v)"
proof -
  have "robust (unpack_job_v5 v)" unfolding unpack_job_v5_def by (intro wire_safe)
  moreover have "robust (unpack_job_v4 v)" unfolding unpack_job_v4_def by (intro wire_safe)
  moreover have "robust (unpack_job_old v)" unfolding unpack_job_old_def by (intro wire_safe)
  ultimately show ?thesis by (simp add: unpack_jobacct_job_rec_def)
qed


section \<open>Sizes and samples\<close>

lemma bits_between: "2 ^ k \<le> n \<Longrightarrow> n < 2 ^ Suc k \<Longrightarrow> bits n = Suc k"
proof (induction k arbitrary: n)
  case 0
  then have "n = 1" by simp
  then show ?case by (simp add: bits.simps)
next
  case (Suc k)
  then have "bits (n div 2) = Suc k" by (intro Suc.IH) simp_all
  then show ?case using Suc.prems by (subst bits.simps) (simp add: zero_less_iff_neq_zero [symmetric])
qed

lemma NO_VAL_float: "u2f NO_VAL = 4294967296"
proof -
  have b: "bits (4294967294 * 2 ^ 149) = 181" using bits_between [of 180 "4294967294 * 2 ^ 149"] by simp
  have fl: "nat \<lfloor>(4294967294 :: rat) * 2 ^ 149\<rfloor> = 4294967294 * 2 ^ 149"
    by (subst (1) of_nat_numeral [symmetric]) simp
  have q: "(4294967294 :: rat) * 2 ^ 149 / 2 ^ 157 = 4294967294 / 256" by simp
  have fl': "\<lfloor>4294967294 / 256 :: rat\<rfloor> = 16777215" by (rule floor_unique) simp_all
  have r: "round_even (4294967294 / 256) = 16777216" unfolding round_even_def fl' Let_def by simp
  have "u2f NO_VAL = fl32 4294967294" by (simp add: u2f_def NO_VAL_def)
  also have "\<dots> = of_int 16777216 * 2 ^ 157 / 2 ^ 149"
    using fl b q r by (simp only: fl32_def Let_def abs_numeral diff_numeral_special) simp
  finally show ?thesis by simp
qed

definition sample_step :: jobacct_step_rec where
  "sample_step = create_jobacct_step_rec\<lparr>st_nnodes := 3, st_ntasks := 12, st_task_dist := 1, st_stepname := Some [97, 0], st_state := 3,
     st_sacct := zero_sacct\<lparr>sa_max_rss := 77, sa_ave_vsize := 1000, sa_ave_rss := 7 / 2, sa_max_rss_id := \<lparr>taskid = 4, nodeid = 2\<rparr>\<rparr>\<rparr>"

definition sample_job :: jobacct_job_rec where
  "sample_job = create_jobacct_job_rec\<lparr>j_jobid := 17, j_user := Some [97, 0], j_alloc_nodes := 3, j_wckeyid := 9, j_steps := Some [sample_step],
     j_sacct := zero_sacct\<lparr>sa_max_rss := 77\<rparr>\<rparr>"

lemma sample_step_ok: "step_ok sample_step"
  by (simp add: sample_step_def create_jobacct_step_rec_def step_ok_def str_ok_def tight_cstr_def INT_MAX_def sacct_ok_def zero_sacct_def)

lemma sample_job_ok: "job_ok sample_job"
  using sample_step_ok
  by (simp add: sample_job_def create_jobacct_job_rec_def job_ok_def str_ok_def tight_cstr_def INT_MAX_def sacct_ok_def zero_sacct_def
      steps_ok_def steps_of_def)

lemma sample_step_budget: "budget_step v sample_step \<le> 150"
  by (simp add: budget_step_def budget_step_v5_def budget_step_old_def sample_step_def create_jobacct_step_rec_def str_budget_def
      str_len_def)

lemma sample_job_budget: "budget_job v sample_job \<le> 1000"
proof -
  have "budget_steps v (Some [sample_step]) \<le> 154"
    using sample_step_budget [of v] by (simp add: budget_steps_def steps_of_def)
  then show ?thesis
    by (simp add: budget_job_def budget_job_v5_def budget_job_v4_def budget_job_old_def sample_job_def create_jobacct_job_rec_def
        str_budget_def str_len_def)
qed


section \<open>Properties\<close>



text \<open>
  C19: A job record packed for any version and unpacked again keeps its jobs' steps and its own fields, except that in
  every version its usage is lost: the unpack functions call \<^verbatim>\<open>_pack_sacct\<close> instead of \<^verbatim>\<open>_unpack_sacct\<close>, so the
  record has zeros there.  Versions before 5 lose the number of nodes, the reservation and the time limit, those before 4
  also the workload key.
\<close>

theorem job_rec_loses_usage:
  assumes "wf_buf b" and "job_ok job" and "unat (processed b) + budget_job v job \<le> pack_limit"
  shows "\<exists>b' b''. pack_jobacct_job_rec v job b = Ok () b' \<and>
    unpack_jobacct_job_rec v (set_buf_offset (processed b) b') = Ok (job_of_wire v job) b'' \<and>
    j_sacct (job_of_wire v job) = zero_sacct"
proof -
  have "j_sacct (job_of_wire v job) = zero_sacct" by (simp add: job_of_wire_def Let_def)
  then show ?thesis
    using writes_then_consumes [OF pack_job_writes [OF assms(2)] unpack_job_consumes [OF assms(2)] assms(1,3)] by blast
qed

theorem job_rec_loses_usage_witness:
  "j_sacct sample_job \<noteq> zero_sacct \<and>
   (\<exists>b' b''. pack_jobacct_job_rec 5 sample_job fresh_buf = Ok () b' \<and>
     unpack_jobacct_job_rec 5 (set_buf_offset (processed fresh_buf) b') = Ok (job_of_wire 5 sample_job) b'' \<and>
     j_sacct (job_of_wire 5 sample_job) = zero_sacct)"
proof (intro conjI job_rec_loses_usage)
  show "unat (processed fresh_buf) + budget_job 5 sample_job \<le> pack_limit"
    using sample_job_budget [of 5] by (simp add: fresh_buf_def pack_limit_def)
qed (simp_all add: sample_job_ok, simp add: sample_job_def zero_sacct_def)

text \<open>
  C16: Unpacking a job record from a buffer with arbitrary contents and less than 2 GiB to come, in every version, returns a
  record or an error, with the buffer well-formed and no access outside of it, although the code writes into the buffer that it
  reads, and although the message says how many steps follow.
\<close>

theorem unpack_job_rec_safe:
  assumes "wf_buf b" and "unat (remaining_buf b) < 2 ^ 31"
  shows "case unpack_jobacct_job_rec v b of Ok _ b' \<Rightarrow> wf_buf b' | Err b' \<Rightarrow> wf_buf b' | Fault \<Rightarrow> False"
proof -
  have "legible b" using assms by (simp add: legible_def length_to_come INT_MAX_def)
  then show ?thesis using robustD [OF robust_job, of b v] by (cases "unpack_jobacct_job_rec v b") (simp_all add: legible_def)
qed

theorem unpack_job_rec_safe_witness:
  "case unpack_jobacct_job_rec 5 fresh_buf of Ok _ b' \<Rightarrow> wf_buf b' | Err b' \<Rightarrow> wf_buf b' | Fault \<Rightarrow> False"
  by (rule unpack_job_rec_safe) (simp_all add: remaining_buf_def)

text \<open>
  Packing a record whose least CPU time is still the one that \<^verbatim>\<open>create_jobacct_job_rec\<close> puts there is undefined:
  the float nearest to \<^verbatim>\<open>NO_VAL\<close> is 2^32, which no \<^verbatim>\<open>uint32_t\<close> holds, and \<^verbatim>\<open>_pack_sacct\<close> converts it.
\<close>

theorem pack_fresh_usage_undefined:
  assumes "wf_buf b" and "unat (processed b) + 28 \<le> pack_limit"
  shows "pack_sacct (Some (j_sacct create_jobacct_job_rec)) b = Fault"
proof -
  have f: "j_sacct create_jobacct_job_rec = zero_sacct\<lparr>sa_min_cpu := u2f NO_VAL\<rparr>"
    by (simp add: create_jobacct_job_rec_def)
  have zero: "pack_product 0 = pack32 0" "pack_converted 0 = pack32 0" "pack_converted (u2f NO_VAL) = fault"
    by (simp_all add: pack_product_def pack_converted_def f2u_def NO_VAL_float)
  have six: "replicate 6 (pack32 0) = [pack32 0, pack32 0, pack32 0, pack32 0, pack32 0, pack32 0]"
    by (simp add: eval_nat_numeral)
  have "writes (pack_all (replicate 6 (pack32 0))) (concat (replicate 6 (be_bytes 4 (0 :: u32)))) (sum_list (replicate 6 4))"
    by (intro writes_replicate s32.pk_writes) simp_all
  then obtain b' where b': "pack_all (replicate 6 (pack32 0)) b = Ok () b'"
    using assms unfolding writes_def by (auto simp: sum_list_replicate)
  show ?thesis
    using pack_all_fault [OF b', of "pack32 0 # [pack_jobacct_id zero_id, pack_jobacct_id zero_id, pack_jobacct_id zero_id, pack_jobacct_id zero_id]"] unfolding f six by (simp add: pack_sacct_def zero_sacct_def zero)
qed

theorem pack_fresh_usage_undefined_witness:
  "pack_sacct (Some (j_sacct create_jobacct_job_rec)) fresh_buf = Fault"
  by (rule pack_fresh_usage_undefined) (simp_all add: fresh_buf_def pack_limit_def wf_buf_def)

text \<open>
  The counters of a step survive packing and unpacking except for the process id, which is not sent; and packing NULL,
  a message of another shape, is unpacked as the structure with all counters zero.
\<close>

theorem jobacctinfo_roundtrip:
  assumes "wf_buf b" and "unat (processed b) + 72 \<le> pack_limit"
  shows "(\<exists>b'. jobacct_common_pack (Some j) b = Ok () b' \<and>
      jobacct_common_unpack (set_buf_offset (processed b) b') = Ok (j\<lparr>ji_pid := 0\<rparr>) b') \<and>
    (\<exists>b'. jobacct_common_pack None b = Ok () b' \<and>
      jobacct_common_unpack (set_buf_offset (processed b) b') =
        Ok ((jobacct_common_init_struct (Some zero_id))\<lparr>ji_min_cpu := 0\<rparr>) b')"
  using writes_then_reads [OF pack_info_writes unpack_info_reads assms, of j]
    writes_then_reads [OF pack_null_writes unpack_info_reads assms] zero_info_pid
  unfolding zero_info_def by auto

theorem jobacctinfo_roundtrip_witness:
  "(\<exists>b'. jobacct_common_pack (Some (jobacct_common_init_struct None)) fresh_buf = Ok () b' \<and>
      jobacct_common_unpack (set_buf_offset (processed fresh_buf) b') = Ok ((jobacct_common_init_struct None)\<lparr>ji_pid := 0\<rparr>) b') \<and>
   (\<exists>b'. jobacct_common_pack None fresh_buf = Ok () b' \<and>
      jobacct_common_unpack (set_buf_offset (processed fresh_buf) b') =
        Ok ((jobacct_common_init_struct (Some zero_id))\<lparr>ji_min_cpu := 0\<rparr>) b')"
  by (rule jobacctinfo_roundtrip) (simp_all add: fresh_buf_def pack_limit_def wf_buf_def)

text \<open>
  A counter that was set is read back, and no other counter has changed.  The times of an rusage are kept in 32 bits,
  so the seconds and microseconds have to fit.
\<close>

theorem setinfo_getinfo:
  assumes "jobacct_common_setinfo j type data = Some (ok, j')" and "type \<noteq> JOBACCT_DATA_PIPE"
    and "\<And>r. data = Rusage_data r \<Longrightarrow> fits_u32 (ru_utime r) \<and> fits_u32 (ru_stime r)"
  shows "ok \<and> jobacct_common_getinfo j' type data = Some (True, data, j') \<and>
    (type \<noteq> JOBACCT_DATA_TOTAL \<longrightarrow> type' \<notin> {type, JOBACCT_DATA_TOTAL, JOBACCT_DATA_PIPE} \<longrightarrow>
      jobacct_common_getinfo j' type' data' = map_option (\<lambda>(ok, d, _). (ok, d, j')) (jobacct_common_getinfo j type' data'))"
proof (intro conjI impI)
  show "ok" using setinfo_returns [OF assms(1,2)] .
  show "jobacct_common_getinfo j' type data = Some (True, data, j')" using setinfo_same [OF assms] .
next
  assume "type \<noteq> JOBACCT_DATA_TOTAL" "type' \<notin> {type, JOBACCT_DATA_TOTAL, JOBACCT_DATA_PIPE}"
  then show "jobacct_common_getinfo j' type' data' = map_option (\<lambda>(ok, d, _). (ok, d, j')) (jobacct_common_getinfo j type' data')"
    using setinfo_other [OF assms(1)] assms(2) by simp
qed

theorem setinfo_getinfo_witness:
  "jobacct_common_getinfo ((jobacct_common_init_struct None)\<lparr>ji_max_rss := 7\<rparr>) JOBACCT_DATA_MAX_RSS (Word_data 7) =
     Some (True, Word_data 7, (jobacct_common_init_struct None)\<lparr>ji_max_rss := 7\<rparr>)"
  by (rule setinfo_getinfo [of "jobacct_common_init_struct None" JOBACCT_DATA_MAX_RSS "Word_data 7" True, THEN conjunct2, THEN conjunct1])
    (simp_all add: jobacct_common_setinfo_def word_of_def)

text \<open>
  C20: Summing up any number of tasks into a fresh structure: every maximum and the least CPU time is that of a task, is
  the largest (least) of all and comes with the identifier of a task that has it; the totals are the sums modulo 2^32;
  and the CPU times in microseconds add up exactly, with less than a million microseconds left beside the seconds, as
  long as the seconds fit into 32 bits.
\<close>

theorem aggregate_tasks:
  assumes "ts \<noteq> []" and "\<forall>t\<in>set ts. task_info_ok t"
    and "sum_list (map user_usecs ts) < 2 ^ 32 * 1000000" and "sum_list (map sys_usecs ts) < 2 ^ 32 * 1000000"
  shows "let D = sum_up (jobacct_common_init_struct None) ts in
    (\<exists>t\<in>set ts. ji_max_vsize t = ji_max_vsize D \<and> ji_max_vsize_id t = ji_max_vsize_id D) \<and>
    (\<exists>t\<in>set ts. ji_max_rss t = ji_max_rss D \<and> ji_max_rss_id t = ji_max_rss_id D) \<and>
    (\<exists>t\<in>set ts. ji_max_pages t = ji_max_pages D \<and> ji_max_pages_id t = ji_max_pages_id D) \<and>
    (\<exists>t\<in>set ts. ji_min_cpu t = ji_min_cpu D \<and> ji_min_cpu_id t = ji_min_cpu_id D) \<and>
    (\<forall>t\<in>set ts. ji_max_vsize t \<le> ji_max_vsize D \<and> ji_max_rss t \<le> ji_max_rss D \<and> ji_max_pages t \<le> ji_max_pages D \<and>
       ji_min_cpu D \<le> ji_min_cpu t) \<and>
    ji_tot_vsize D = sum_list (map ji_tot_vsize ts) \<and> ji_tot_rss D = sum_list (map ji_tot_rss ts) \<and>
    ji_tot_pages D = sum_list (map ji_tot_pages ts) \<and> ji_tot_cpu D = sum_list (map ji_tot_cpu ts) \<and>
    user_usecs D = sum_list (map user_usecs ts) \<and> sys_usecs D = sum_list (map sys_usecs ts) \<and>
    unat (ji_user_cpu_usec D) < 1000000 \<and> unat (ji_sys_cpu_usec D) < 1000000"
  using sum_up_maxes [OF assms(1,2)] sum_up_min [OF assms(1,2)] sum_up_tots sum_up_user [OF assms(2,3)] sum_up_sys [OF assms(2,4)]
  unfolding Let_def by simp

theorem aggregate_tasks_witness:
  "let t = (new_task 5 \<lparr>taskid = 1, nodeid = 0\<rparr>)\<lparr>ji_max_rss := 9, ji_user_cpu_usec := 600000\<rparr>;
       D = sum_up (jobacct_common_init_struct None) [t, t] in
    ji_tot_rss D = 0 \<and> user_usecs D = 1200000 \<and> (\<exists>x\<in>set [t, t]. ji_max_rss x = ji_max_rss D \<and> ji_max_rss_id x = ji_max_rss_id D)"
proof -
  let ?t = "(new_task 5 \<lparr>taskid = 1, nodeid = 0\<rparr>)\<lparr>ji_max_rss := 9, ji_user_cpu_usec := 600000\<rparr>"
  have ok: "task_info_ok ?t" "user_usecs ?t = 600000" "sys_usecs ?t = 0" "ji_tot_rss ?t = 0"
    by (simp_all add: task_info_ok_def new_task_def jobacct_common_init_struct_def Let_def NO_VAL_def unset_task_def user_usecs_def
        sys_usecs_def usecs_def)
  from aggregate_tasks [of "[?t, ?t]"] ok show ?thesis unfolding Let_def by simp
qed

text \<open>
  C14: The table of watched tasks, kept in a linked list of \<^verbatim>\<open>list.c\<close> and searched with iterators, answers any sequence
  of adding, looking up and removing tasks as a plain sequence would: a new task is put in front, a process id is
  looked up as the first entry that has it, and removing takes just that entry out.
\<close>

theorem task_table_refines:
  assumes "watched s ts"
  shows "\<exists>s'. task_run cs s = Some (fst (table_run cs ts), s') \<and> watched s' (snd (table_run cs ts))"
  by (rule task_run_simulates [OF assms])

theorem task_table_refines_witness:
  "\<exists>s'. task_run [Add_task 5 zero_id, Add_task 6 zero_id, Remove_task 5, Stat_task 5] sample_tasks =
      Some ([Done True, Done True, Usage (Some (new_task 5 zero_id)), Usage None], s') \<and> watched s' [new_task 6 zero_id]"
  using task_table_refines [of sample_tasks "[]" "[Add_task 5 zero_id, Add_task 6 zero_id, Remove_task 5, Stat_task 5]"] sample_watched
  by (simp add: new_task_def Let_def)

end
