(* ===== verification/Parse_time.thy ===== *)
theory Parse_time
  imports Ctext Jobacct
begin

text \<open>
  \<^verbatim>\<open>src/src/common/parse_time.c\<close>: reading the times that users give to \<^verbatim>\<open>--starttime\<close> and
  \<^verbatim>\<open>--endtime\<close>, time limits, and printing times and durations.

  A string is the array that holds it, NUL included; \<^const>\<open>None\<close> is a read outside of it, an overflow of
  \<^verbatim>\<open>int\<close> or \<^verbatim>\<open>long\<close>, or the use of a NULL pointer.  Inside, \<^const>\<open>None\<close> is the \<^verbatim>\<open>goto prob\<close> of the
  parsers.  The clock and the time zone are a parameter: the current time and its local time, \<^verbatim>\<open>localtime\<close>, which is
  NULL (\<^const>\<open>None\<close>) for a time whose year is not an int, and \<^verbatim>\<open>mktime\<close>; \<open>tm_unset\<close> is what an automatic structure
  holds when \<^verbatim>\<open>localtime_r\<close> has failed to fill it.
\<close>

definition INFINITE :: u32 where "INFINITE = 0xffffffff"

record tm =
  tm_sec :: int
  tm_min :: int
  tm_hour :: int
  tm_mday :: int
  tm_mon :: int
  tm_year :: int
  tm_isdst :: int

record clock =
  time_now :: int
  now_tm :: tm
  localtime :: "int \<Rightarrow> tm option"
  tm_unset :: tm
  mktime :: "tm \<Rightarrow> int"

definition in_long :: "int \<Rightarrow> bool" where "in_long n \<longleftrightarrow> - 9223372036854775808 \<le> n \<and> n \<le> 9223372036854775807"

type_synonym 'a parsed = "'a option option"


section \<open>Parts of a time\<close>

definition digit_at :: "string \<Rightarrow> nat \<Rightarrow> (int \<Rightarrow> 'a parsed) \<Rightarrow> 'a parsed" where
  "digit_at a i k = do { c \<leftarrow> char_at a i; if is_digit c then k (digit_value c) else Some None }"

text \<open>A second digit that may be missing.\<close>

definition more_digit :: "string \<Rightarrow> nat \<Rightarrow> int \<Rightarrow> (nat \<Rightarrow> int \<Rightarrow> 'a parsed) \<Rightarrow> 'a parsed" where
  "more_digit a i v k = do { c \<leftarrow> char_at a i; if is_digit c then k (i + 1) (v * 10 + digit_value c) else k i v }"

definition skip_separator :: "string \<Rightarrow> nat \<Rightarrow> (nat \<Rightarrow> 'a parsed) \<Rightarrow> 'a parsed" where
  "skip_separator a i k = do { c \<leftarrow> char_at a i; if c = CHR ''.'' \<or> c = CHR ''/'' then k (i + 1) else k i }"

function skip_spaces :: "string \<Rightarrow> nat \<Rightarrow> nat option" where
  "skip_spaces a i = do { c \<leftarrow> char_at a i; if is_space c then skip_spaces a (i + 1) else Some i }"
  by pat_completeness auto
termination
  by (relation "measure (\<lambda>(a, i). length a - i)") (auto simp: char_at_def split: if_splits)

declare skip_spaces.simps [simp del]

text \<open>The count behind \<^verbatim>\<open>now+\<close> and its unit.\<close>

definition time_unit :: "string \<Rightarrow> nat \<Rightarrow> (nat \<times> int) option option" where
  "time_unit a offset = do {
     minutes \<leftarrow> prefix_at a offset ''minutes'';
     hours \<leftarrow> prefix_at a offset ''hours'';
     days \<leftarrow> prefix_at a offset ''days'';
     weeks \<leftarrow> prefix_at a offset ''weeks'';
     Some (if minutes then Some (7, 60) else if hours then Some (5, 60 * 60) else if days then Some (4, 24 * 60 * 60)
       else if weeks then Some (5, 7 * 24 * 60 * 60) else None)
   }"

function delta_loop :: "string \<Rightarrow> nat \<Rightarrow> int \<Rightarrow> nat \<Rightarrow> (nat \<times> int \<times> nat) parsed" where
  "delta_loop a offset cnt digit = do {
     c \<leftarrow> char_at a offset;
     if c = NUL \<or> c = CHR 0x0A then Some (Some (offset, cnt, digit))
     else if is_space c then delta_loop a (offset + 1) cnt digit
     else do {
       u \<leftarrow> time_unit a offset;
       case u of Some (len, factor) \<Rightarrow> do { assertC (in_long (cnt * factor)); Some (Some (offset + len, cnt * factor, digit)) }
       | None \<Rightarrow> if is_digit c then do {
             assertC (in_long (cnt * 10 + digit_value c));
             delta_loop a (offset + 1) (cnt * 10 + digit_value c) (digit + 1)
           } else Some None
     }
   }"
  by pat_completeness auto
termination
  by (relation "measure (\<lambda>(a, i, _). length a - i)") (auto simp: char_at_def split: if_splits)

declare delta_loop.simps [simp del]

definition get_delta :: "string \<Rightarrow> nat \<Rightarrow> (nat \<times> int) parsed" where
  "get_delta a pos = do {
     r \<leftarrow> delta_loop a (pos + 1) 0 0;
     Some (case r of None \<Rightarrow> None | Some (offset, cnt, digit) \<Rightarrow> if digit = 0 then None else Some (offset - 1, cnt))
   }"

definition get_ampm :: "string \<Rightarrow> nat \<Rightarrow> int \<Rightarrow> (nat \<times> int) parsed" where
  "get_ampm a offset hr = do {
     offset \<leftarrow> skip_spaces a offset;
     pm \<leftarrow> prefix_at a offset ''pm'';
     am \<leftarrow> prefix_at a offset ''am'';
     Some (if pm then
         if hr + 12 > 23 then if hr + 12 = 24 then Some (offset + 2, 12) else None else Some (offset + 2, hr + 12)
       else if am then
         if hr > 11 then if hr = 12 then Some (offset + 2, 0) else None else Some (offset + 2, hr)
       else Some (offset, hr))
   }"

definition finish_time :: "string \<Rightarrow> nat \<Rightarrow> int \<Rightarrow> int \<Rightarrow> int \<Rightarrow> (nat \<times> int \<times> int \<times> int) parsed" where
  "finish_time a offset hr mins sec = do {
     r \<leftarrow> get_ampm a offset hr;
     Some (case r of None \<Rightarrow> None | Some (offset, hr) \<Rightarrow> Some (offset - 1, hr, mins, sec))
   }"

definition get_time :: "string \<Rightarrow> nat \<Rightarrow> (nat \<times> int \<times> int \<times> int) parsed" where
  "get_time a offset =
     digit_at a offset (\<lambda>h1. digit_at a (offset + 1) (\<lambda>h2. let hr = h1 * 10 + h2 in
     if hr > 23 then Some None
     else do {
       c \<leftarrow> char_at a (offset + 2);
       if c \<noteq> CHR '':'' then Some None
       else digit_at a (offset + 3) (\<lambda>m1. digit_at a (offset + 4) (\<lambda>m2. let mins = m1 * 10 + m2 in
         if mins > 59 then Some None
         else do {
           c \<leftarrow> char_at a (offset + 5);
           if c = CHR '':''
           then digit_at a (offset + 6) (\<lambda>s1. digit_at a (offset + 7) (\<lambda>s2. let sec = s1 * 10 + s2 in
             if sec > 59 then Some None else finish_time a (offset + 8) hr mins sec))
           else finish_time a (offset + 5) hr mins 0
         }))
     }))"

definition is_iso :: "string \<Rightarrow> nat \<Rightarrow> bool option" where
  "is_iso a offset = do {
     c4 \<leftarrow> char_at a (offset + 4);
     if c4 \<noteq> CHR ''-'' then Some False else do { c7 \<leftarrow> char_at a (offset + 7); Some (c7 = CHR ''-'') }
   }"

text \<open>The month's first character is not checked to be a digit.\<close>

definition get_iso_date :: "string \<Rightarrow> nat \<Rightarrow> (nat \<times> int \<times> int \<times> int) parsed" where
  "get_iso_date a offset =
     digit_at a offset (\<lambda>y1. digit_at a (offset + 1) (\<lambda>y2. digit_at a (offset + 2) (\<lambda>y3. digit_at a (offset + 3) (\<lambda>y4.
     let yr = ((y1 * 10 + y2) * 10 + y3) * 10 + y4 in
     do {
       c \<leftarrow> char_at a (offset + 5);
       more_digit a (offset + 6) (digit_value c) (\<lambda>offset mon.
         if mon < 1 \<or> mon > 12 then Some None
         else digit_at a (offset + 1) (\<lambda>d1. more_digit a (offset + 2) d1 (\<lambda>offset day.
           if day < 1 \<or> day > 31 then Some None
           else Some (Some (offset - 1, mon - 1, day, yr - 1900)))))
     }))))"

definition get_us_date :: "string \<Rightarrow> nat \<Rightarrow> int \<Rightarrow> (nat \<times> int \<times> int \<times> int) parsed" where
  "get_us_date a offset year = do {
     c \<leftarrow> char_at a offset;
     more_digit a (offset + 1) (digit_value c) (\<lambda>offset mon.
       if mon < 1 \<or> mon > 12 then Some None
       else skip_separator a offset (\<lambda>offset. digit_at a offset (\<lambda>d1. more_digit a (offset + 1) d1 (\<lambda>offset day.
         if day < 1 \<or> day > 31 then Some None
         else skip_separator a offset (\<lambda>offset. do {
           c \<leftarrow> char_at a offset;
           if is_digit c
           then digit_at a (offset + 1) (\<lambda>y2. let yr = digit_value c * 10 + y2 in
             Some (Some (offset + 2 - 1, mon - 1, day, if yr \<noteq> 0 then yr + 100 else year)))
           else Some (Some (offset - 1, mon - 1, day, year))
         })))))
   }"

definition get_date :: "string \<Rightarrow> nat \<Rightarrow> int \<Rightarrow> (nat \<times> int \<times> int \<times> int) parsed" where
  "get_date a offset year = do {
     iso \<leftarrow> is_iso a offset;
     if iso then get_iso_date a offset else get_us_date a offset year
   }"


section \<open>The whole string\<close>

text \<open>
  The local variables of \<^verbatim>\<open>parse_time\<close>; \<open>- 1\<close> is what has not been given.  \<^verbatim>\<open>time_now_tm\<close> points to the one
  structure of \<^verbatim>\<open>localtime\<close>, \<open>g_static\<close>, which every later call of it overwrites.
\<close>

record given =
  g_hour :: int
  g_minute :: int
  g_second :: int
  g_month :: int
  g_mday :: int
  g_year :: int
  g_static :: tm

definition nothing_given :: "clock \<Rightarrow> given" where
  "nothing_given clk = \<lparr>g_hour = - 1, g_minute = - 1, g_second = 0, g_month = - 1, g_mday = - 1, g_year = - 1,
     g_static = now_tm clk\<rparr>"

definition give_day :: "tm \<Rightarrow> given \<Rightarrow> given" where
  "give_day d g = g\<lparr>g_month := tm_mon d, g_mday := tm_mday d, g_year := tm_year d\<rparr>"

definition give_time :: "tm \<Rightarrow> given \<Rightarrow> given" where
  "give_time d g = g\<lparr>g_hour := tm_hour d, g_minute := tm_min d, g_second := tm_sec d\<rparr>"

definition give_later :: "clock \<Rightarrow> int \<Rightarrow> given \<Rightarrow> given option" where
  "give_later clk delta g = do {
     assertC (in_long (time_now clk + delta));
     later \<leftarrow> localtime clk (time_now clk + delta);
     Some (give_day later (g\<lparr>g_static := later\<rparr>))
   }"

text \<open>
  What follows \<^verbatim>\<open>now\<close>: the position of a plus sign (\<^term>\<open>True\<close>) or of the end.
\<close>

function now_scan :: "string \<Rightarrow> nat \<Rightarrow> (bool \<times> nat) parsed" where
  "now_scan a i = do {
     c \<leftarrow> char_at a i;
     if c = CHR ''+'' then Some (Some (True, i))
     else if is_blank c then now_scan a (i + 1)
     else if c = NUL \<or> c = CHR 0x0A then Some (Some (False, i))
     else Some None
   }"
  by pat_completeness auto
termination
  by (relation "measure (\<lambda>(a, i). length a - i)") (auto simp: char_at_def split: if_splits)

declare now_scan.simps [simp del]

text \<open>The position found is added to the current one, as in the code.\<close>

definition parse_now :: "clock \<Rightarrow> string \<Rightarrow> nat \<Rightarrow> given \<Rightarrow> (nat \<times> given) parsed" where
  "parse_now clk a pos g = do {
     r \<leftarrow> now_scan a (pos + 3);
     case r of None \<Rightarrow> Some None
     | Some (counted, i) \<Rightarrow> do {
         d \<leftarrow> (if counted then get_delta a (pos + i) else Some (Some (pos + (i - 1), 0)));
         case d of None \<Rightarrow> Some None
         | Some (pos, delta) \<Rightarrow> do { g \<leftarrow> give_later clk delta g; Some (Some (pos, give_time (g_static g) g)) }
       }
   }"

definition parse_number :: "string \<Rightarrow> nat \<Rightarrow> given \<Rightarrow> (nat \<times> given) parsed" where
  "parse_number a pos g = do {
     c2 \<leftarrow> char_at a (pos + 2);
     if c2 = CHR '':'' then do {
       r \<leftarrow> get_time a pos;
       Some (map_option (\<lambda>(pos, hr, mins, sec). (pos, g\<lparr>g_hour := hr, g_minute := mins, g_second := sec\<rparr>)) r)
     } else do {
       r \<leftarrow> get_date a pos (g_year g);
       Some (map_option (\<lambda>(pos, mon, day, yr). (pos, g\<lparr>g_month := mon, g_mday := day, g_year := yr\<rparr>)) r)
     }
   }"

definition parse_item :: "clock \<Rightarrow> string \<Rightarrow> nat \<Rightarrow> given \<Rightarrow> (nat \<times> given) parsed" where
  "parse_item clk a pos g = do {
     c \<leftarrow> char_at a pos;
     if is_blank c \<or> c = CHR ''-'' \<or> c = CHR ''T'' then Some (Some (pos, g))
     else do {
       today \<leftarrow> prefix_at a pos ''today'';
       tomorrow \<leftarrow> prefix_at a pos ''tomorrow'';
       midnight \<leftarrow> prefix_at a pos ''midnight'';
       noon \<leftarrow> prefix_at a pos ''noon'';
       teatime \<leftarrow> prefix_at a pos ''teatime'';
       now \<leftarrow> prefix_at a pos ''now'';
       if today then Some (Some (pos + 4, give_day (g_static g) g))
       else if tomorrow then do { g \<leftarrow> give_later clk (24 * 60 * 60) g; Some (Some (pos + 7, g)) }
       else if midnight then Some (Some (pos + 7, g\<lparr>g_hour := 0, g_minute := 0, g_second := 0\<rparr>))
       else if noon then Some (Some (pos + 3, g\<lparr>g_hour := 12, g_minute := 0\<rparr>))
       else if teatime then Some (Some (pos + 6, g\<lparr>g_hour := 16, g_minute := 0\<rparr>))
       else if now then parse_now clk a pos g
       else if \<not> is_digit c then Some None
       else parse_number a pos g
     }
   }"


text \<open>Every item ends at or behind the position where it starts, so the loop of \<^verbatim>\<open>parse_time\<close> terminates.\<close>

lemma skip_spaces_ge: "skip_spaces a i = Some j \<Longrightarrow> i \<le> j"
proof (induction a i arbitrary: j rule: skip_spaces.induct)
  case (1 a i)
  from "1.prems" obtain c where c: "char_at a i = Some c" by (subst (asm) skip_spaces.simps) (auto simp: bind_eq_Some_conv)
  with "1.IH" [OF c, of j] "1.prems" show ?case by (subst (asm) skip_spaces.simps) (auto split: if_splits)
qed

lemma delta_loop_ge: "delta_loop a i n d = Some (Some (j, r)) \<Longrightarrow> i \<le> j"
proof (induction a i n d rule: delta_loop.induct)
  case (1 a i n d)
  from "1.prems" obtain c where c: "char_at a i = Some c" by (subst (asm) delta_loop.simps) (auto simp: bind_eq_Some_conv)
  show ?case
  proof (cases "c = NUL \<or> c = CHR 0x0A \<or> is_space c")
    case True
    then show ?thesis using "1.prems" "1.IH"(1) [OF c] c by (subst (asm) delta_loop.simps) (auto split: if_splits)
  next
    case False
    then obtain u where u: "time_unit a i = Some u"
      using "1.prems" c by (subst (asm) delta_loop.simps) (auto simp: bind_eq_Some_conv)
    show ?thesis
    proof (cases u)
      case None
      then have "\<exists>x. assertC x = Some () \<and> is_digit c \<and> delta_loop a (i + 1) (n * 10 + digit_value c) (d + 1) = Some (Some (j, r)) \<and>
          x = in_long (n * 10 + digit_value c)"
        using "1.prems" c u False by (subst (asm) delta_loop.simps) (auto simp: bind_eq_Some_conv split: if_splits)
      then show ?thesis using "1.IH"(2) [OF c _ _ u None] False by fastforce
    next
      case (Some p)
      then show ?thesis using "1.prems" c u False by (subst (asm) delta_loop.simps) (auto simp: bind_eq_Some_conv split: prod.splits)
    qed
  qed
qed

lemma now_scan_ge: "now_scan a i = Some (Some (b, j)) \<Longrightarrow> i \<le> j"
proof (induction a i rule: now_scan.induct)
  case (1 a i)
  from "1.prems" show ?case by (subst (asm) now_scan.simps) (auto simp: bind_eq_Some_conv split: if_splits dest: "1.IH")
qed

lemma get_delta_ge: "get_delta a pos = Some (Some (j, d)) \<Longrightarrow> pos \<le> j"
proof -
  assume g: "get_delta a pos = Some (Some (j, d))"
  then obtain r where r: "delta_loop a (pos + 1) 0 0 = Some r" by (auto simp: get_delta_def bind_eq_Some_conv)
  with g obtain i n where "r = Some (i, d, n)" "j = i - 1" by (cases r) (auto simp: get_delta_def split: if_splits)
  with r show ?thesis using delta_loop_ge by fastforce
qed

lemma digit_atD: "digit_at a i k = Some (Some x) \<Longrightarrow> \<exists>d. k d = Some (Some x)"
  by (auto simp: digit_at_def bind_eq_Some_conv split: if_splits)

lemma more_digitD:
  assumes "more_digit a i v k = Some (Some x)"
  shows "\<exists>j w. i \<le> j \<and> k j w = Some (Some x)"
proof -
  from assms obtain c where "k (i + 1) (v * 10 + digit_value c) = Some (Some x) \<or> k i v = Some (Some x)"
    by (auto simp: more_digit_def bind_eq_Some_conv split: if_splits)
  then show ?thesis by (metis le_add1 order_refl)
qed

lemma skip_separatorD:
  assumes "skip_separator a i k = Some (Some x)"
  shows "\<exists>j. i \<le> j \<and> k j = Some (Some x)"
proof -
  from assms have "k (i + 1) = Some (Some x) \<or> k i = Some (Some x)"
    by (auto simp: skip_separator_def bind_eq_Some_conv split: if_splits)
  then show ?thesis by (metis le_add1 order_refl)
qed

lemma finish_time_ge: "finish_time a i h m s = Some (Some (j, r)) \<Longrightarrow> i \<le> j + 1"
  by (auto simp: finish_time_def get_ampm_def bind_eq_Some_conv split: option.splits if_splits dest!: skip_spaces_ge)

lemma get_time_ge: "get_time a i = Some (Some (j, r)) \<Longrightarrow> i \<le> j"
  by (auto simp: get_time_def bind_eq_Some_conv Let_def split: if_splits dest!: digit_atD finish_time_ge)

lemma get_iso_date_ge: "get_iso_date a i = Some (Some (j, r)) \<Longrightarrow> i \<le> j"
  by (auto simp: get_iso_date_def bind_eq_Some_conv Let_def split: if_splits dest!: digit_atD more_digitD) linarith+

lemma get_us_date_ge: "get_us_date a i y = Some (Some (j, r)) \<Longrightarrow> i \<le> j"
  by (auto simp: get_us_date_def bind_eq_Some_conv Let_def split: if_splits dest!: digit_atD more_digitD skip_separatorD) linarith+

lemma get_date_ge: "get_date a i y = Some (Some (j, r)) \<Longrightarrow> i \<le> j"
  by (auto simp: get_date_def bind_eq_Some_conv split: if_splits dest: get_iso_date_ge get_us_date_ge)

lemma parse_now_ge:
  assumes "parse_now clk a pos g = Some (Some (j, h))"
  shows "pos \<le> j"
proof -
  from assms obtain counted i where i: "now_scan a (pos + 3) = Some (Some (counted, i))"
    by (auto simp: parse_now_def bind_eq_Some_conv split: option.splits)
  then have "pos + 3 \<le> i" by (rule now_scan_ge)
  then show ?thesis using assms i
    by (auto simp: parse_now_def bind_eq_Some_conv Let_def split: if_splits option.splits dest!: get_delta_ge)
qed

lemma parse_number_ge: "parse_number a pos g = Some (Some (j, h)) \<Longrightarrow> pos \<le> j"
  by (auto simp: parse_number_def bind_eq_Some_conv split: if_splits dest!: get_time_ge get_date_ge)

lemma parse_item_ge: "parse_item clk a pos g = Some (Some (j, h)) \<Longrightarrow> pos \<le> j"
  by (auto simp: parse_item_def bind_eq_Some_conv simp del: prefix_at.simps split: if_splits
      dest!: parse_now_ge parse_number_ge)

function parse_loop :: "clock \<Rightarrow> string \<Rightarrow> nat \<Rightarrow> given \<Rightarrow> given parsed" where
  "parse_loop clk a pos g = do {
     c \<leftarrow> char_at a pos;
     if c = NUL \<or> c = CHR 0x0A then Some (Some g)
     else do {
       r \<leftarrow> parse_item clk a pos g;
       case r of None \<Rightarrow> Some None | Some (pos, g) \<Rightarrow> parse_loop clk a (pos + 1) g
     }
   }"
  by pat_completeness auto
termination
  by (relation "measure (\<lambda>(_, a, i, _). length a - i)") (auto simp: char_at_def split: if_splits dest!: parse_item_ge)

declare parse_loop.simps [simp del]

text \<open>What was not given is filled in from the current time.\<close>

definition fill_day :: "clock \<Rightarrow> bool \<Rightarrow> given \<Rightarrow> given option" where
  "fill_day clk past g =
     (let now = g_static g in
      if g_hour g = - 1 then Some (g\<lparr>g_hour := 0, g_minute := 0\<rparr>)
      else if g_month g = - 1 then
        if past \<or> g_hour g > tm_hour now \<or> g_hour g = tm_hour now \<and> g_minute g > tm_min now then Some (give_day now g)
        else give_later clk (24 * 60 * 60) g
      else Some g)"

definition fill_year :: "bool \<Rightarrow> given \<Rightarrow> given" where
  "fill_year past g =
     (let now = g_static g in
      if g_year g \<noteq> - 1 then g
      else if past then if g_month g > tm_mon now then g\<lparr>g_year := tm_year now - 1\<rparr> else g\<lparr>g_year := tm_year now\<rparr>
      else if g_month g > tm_mon now \<or> g_month g = tm_mon now \<and> g_mday g > tm_mday now \<or>
          g_month g = tm_mon now \<and> g_mday g = tm_mday now \<and> g_hour g > tm_hour now \<or>
          g_month g = tm_mon now \<and> g_mday g = tm_mday now \<and> g_hour g = tm_hour now \<and> g_minute g > tm_min now
        then g\<lparr>g_year := tm_year now\<rparr>
      else g\<lparr>g_year := tm_year now + 1\<rparr>)"

definition given_tm :: "given \<Rightarrow> tm" where
  "given_tm g = \<lparr>tm_sec = g_second g, tm_min = g_minute g, tm_hour = g_hour g, tm_mday = g_mday g, tm_mon = g_month g,
     tm_year = g_year g, tm_isdst = - 1\<rparr>"

definition parse_time :: "clock \<Rightarrow> string \<Rightarrow> bool \<Rightarrow> int option" where
  "parse_time clk a past = do {
     r \<leftarrow> parse_loop clk a 0 (nothing_given clk);
     case r of None \<Rightarrow> Some 0
     | Some g \<Rightarrow> if g_hour g = - 1 \<and> g_month g = - 1 then Some 0
         else do { g \<leftarrow> fill_day clk past g; Some (mktime clk (given_tm (fill_year past g))) }
   }"


section \<open>Printing times\<close>

text \<open>\<^verbatim>\<open>%k.ku\<close> of an int.\<close>

definition unsigned_filled :: "nat \<Rightarrow> int \<Rightarrow> string" where
  "unsigned_filled k n = zero_filled k (nat (n mod 2 ^ 32))"

definition slurm_make_time_str :: "clock \<Rightarrow> int \<Rightarrow> nat \<Rightarrow> string" where
  "slurm_make_time_str clk t n =
     (let d = (case localtime clk t of None \<Rightarrow> tm_unset clk | Some d \<Rightarrow> d) in
      if t = 0 then printed n ''Unknown''
      else printed n (unsigned_filled 4 (tm_year d + 1900) @ ''-'' @ unsigned_filled 2 (tm_mon d + 1) @ ''-'' @
        unsigned_filled 2 (tm_mday d) @ ''T'' @ unsigned_filled 2 (tm_hour d) @ '':'' @ unsigned_filled 2 (tm_min d) @ '':'' @
        unsigned_filled 2 (tm_sec d)))"

definition days_text :: "nat \<Rightarrow> nat \<Rightarrow> nat \<Rightarrow> nat \<Rightarrow> string" where
  "days_text days hours minutes seconds =
     (if days \<noteq> 0 then decimal days @ ''-'' else []) @ zero_filled 2 hours @ '':'' @ zero_filled 2 minutes @ '':'' @
       zero_filled 2 seconds"

definition secs2time_str :: "nat \<Rightarrow> nat \<Rightarrow> string" where
  "secs2time_str t n =
     (if t = unat INFINITE then printed n ''UNLIMITED''
      else printed n (days_text (t div 86400) (t div 3600 mod 24) (t div 60 mod 60) (t mod 60)))"

definition mins2time_str :: "u32 \<Rightarrow> nat \<Rightarrow> string" where
  "mins2time_str t n =
     (if t = INFINITE then printed n ''UNLIMITED''
      else printed n (days_text (unat t div 1440) (unat t div 60 mod 24) (unat t mod 60) 0))"


section \<open>Time limits\<close>

record limit =
  lim_days :: int
  lim_hr :: int
  lim_min :: int
  lim_sec :: int

definition no_limit :: limit where "no_limit = \<lparr>lim_days = - 1, lim_hr = - 1, lim_min = - 1, lim_sec = - 1\<rparr>"

text \<open>A number that ends at a colon or at the end of the string.\<close>

definition put_number :: "int \<Rightarrow> limit \<Rightarrow> limit option" where
  "put_number tmp l =
     (if lim_min l = - 1 then Some (l\<lparr>lim_min := tmp\<rparr>)
      else if lim_sec l = - 1 then Some (l\<lparr>lim_sec := tmp\<rparr>)
      else if lim_hr l = - 1 then Some (l\<lparr>lim_hr := lim_min l, lim_min := lim_sec l, lim_sec := tmp\<rparr>)
      else None)"

function limit_loop :: "string \<Rightarrow> nat \<Rightarrow> int \<Rightarrow> limit \<Rightarrow> limit parsed" where
  "limit_loop a i tmp l = do {
     c \<leftarrow> char_at a i;
     if is_digit c then do { assertC (tmp * 10 + digit_value c < 2 ^ 31); limit_loop a (i + 1) (tmp * 10 + digit_value c) l }
     else if c = CHR ''-'' then if lim_days l \<noteq> - 1 then Some None else limit_loop a (i + 1) 0 (l\<lparr>lim_days := tmp\<rparr>)
     else if c = CHR '':'' \<or> c = NUL then (case put_number tmp l of None \<Rightarrow> Some None
       | Some l \<Rightarrow> if c = NUL then Some (Some l) else limit_loop a (i + 1) 0 l)
     else Some None
   }"
  by pat_completeness auto
termination
  by (relation "measure (\<lambda>(a, i, _). length a - i)") (auto simp: char_at_def split: if_splits)

declare limit_loop.simps [simp del]

definition limit_minutes :: "limit \<Rightarrow> int option" where
  "limit_minutes l =
     (let l = (if lim_days l \<noteq> - 1 \<and> lim_hr l = - 1 \<and> lim_min l \<noteq> 0 then l\<lparr>lim_hr := lim_min l, lim_min := lim_sec l, lim_sec := 0\<rparr> else l);
          d = (if lim_days l = - 1 then 0 else lim_days l);
          h = (if lim_hr l = - 1 then 0 else lim_hr l);
          m = (if lim_min l = - 1 then 0 else lim_min l);
          s = (if lim_sec l = - 1 then 0 else lim_sec l);
          res = (d * 24 + h) * 60 + m
      in if res + (if s > 0 then 1 else 0) < 2 ^ 31 then Some (res + (if s > 0 then 1 else 0)) else None)"

text \<open>\<^verbatim>\<open>strcasecmp(a, w) == 0\<close>\<close>

definition same_word :: "string \<Rightarrow> string \<Rightarrow> bool option" where
  "same_word a w = prefix_at a 0 (w @ [NUL])"

definition time_str2mins :: "string option \<Rightarrow> int option" where
  "time_str2mins s = (case s of None \<Rightarrow> Some (- 1)
     | Some a \<Rightarrow> do {
         c \<leftarrow> char_at a 0;
         if c = NUL then Some (- 1)
         else do {
           minus1 \<leftarrow> same_word a ''-1'';
           infinite \<leftarrow> same_word a ''infinite'';
           unlimited \<leftarrow> same_word a ''unlimited'';
           if minus1 \<or> infinite \<or> unlimited then Some (sint INFINITE)
           else do {
             r \<leftarrow> limit_loop a 0 0 no_limit;
             case r of None \<Rightarrow> Some (- 2) | Some l \<Rightarrow> limit_minutes l
           }
         }
       })"

definition mon_abbr :: "int \<Rightarrow> string" where
  "mon_abbr m = (if 0 \<le> m \<and> m < 12
     then [''Ja'', ''Fe'', ''Ma'', ''Ap'', ''Ma'', ''Ju'', ''Jl'', ''Au'', ''Se'', ''Oc'', ''No'', ''De''] ! nat m else ''Un'')"

end
