(* ===== verification/Parse_time_Spec.thy ===== *)
theory Parse_time_Spec
  imports Parse_time
begin

text \<open>
  What \<^verbatim>\<open>parse_time.c\<close> reads is what it prints: durations and time limits, dates in the ISO format; the fields it
  hands to \<^verbatim>\<open>mktime\<close> are in range; and the strings on which it goes wrong.
\<close>


section \<open>Durations\<close>

lemma limit_digit:
  assumes "char_at a i = Some (digit_char d)" and "d < 10" and "tmp * 10 + int d < 2 ^ 31"
  shows "limit_loop a i tmp l = limit_loop a (i + 1) (tmp * 10 + int d) l"
  using assms by (subst limit_loop.simps) simp

lemma limit_dash:
  "char_at a i = Some (CHR ''-'') \<Longrightarrow> lim_days l = - 1 \<Longrightarrow> limit_loop a i tmp l = limit_loop a (i + 1) 0 (l\<lparr>lim_days := tmp\<rparr>)"
  by (subst limit_loop.simps) simp

lemma limit_colon:
  "char_at a i = Some (CHR '':'') \<Longrightarrow> put_number tmp l = Some l' \<Longrightarrow> limit_loop a i tmp l = limit_loop a (i + 1) 0 l'"
  by (subst limit_loop.simps) simp

lemma limit_end: "char_at a i = Some NUL \<Longrightarrow> put_number tmp l = Some l' \<Longrightarrow> limit_loop a i tmp l = Some (Some l')"
  by (subst limit_loop.simps) simp

lemma limit_decimal:
  "int n < 2 ^ 31 \<Longrightarrow> limit_loop (pre @ decimal n @ rest) (length pre) 0 l =
    limit_loop (pre @ decimal n @ rest) (length pre + length (decimal n)) (int n) l"
proof (induction n arbitrary: rest rule: less_induct)
  case (less n)
  show ?case
  proof (cases "n < 10")
    case True
    then show ?thesis using limit_digit [of "pre @ decimal n @ rest" "length pre" n 0 l] by (simp add: decimal_small)
  next
    case False
    let ?m = "n div 10" and ?d = "n mod 10"
    have d: "decimal n = decimal ?m @ [digit_char ?d]" using False by (simp add: decimal_step)
    let ?a = "pre @ decimal ?m @ digit_char ?d # rest"
    have "limit_loop ?a (length pre) 0 l = limit_loop ?a (length pre + length (decimal ?m)) (int ?m) l"
      using less.IH [of ?m "digit_char ?d # rest"] less.prems False by simp
    also have "\<dots> = limit_loop ?a (length pre + length (decimal ?m) + 1) (int ?m * 10 + int ?d) l"
    proof (rule limit_digit)
      show "char_at ?a (length pre + length (decimal ?m)) = Some (digit_char ?d)"
        using char_at_end [of "pre @ decimal ?m" "digit_char ?d" rest] by simp
      show "int ?m * 10 + int ?d < 2 ^ 31" using less.prems by (simp only: int_digits)
    qed simp
    also have "int ?m * 10 + int ?d = int n" by (rule int_digits)
    finally show ?thesis by (simp add: d)
  qed
qed

lemma clock_loop:
  assumes "h < 100" and "m < 100" and "s < 100" and "lim_min l = - 1" and "lim_sec l = - 1" and "lim_hr l = - 1"
    and a: "a = pre @ zero_filled 2 h @ '':'' @ zero_filled 2 m @ '':'' @ zero_filled 2 s @ [NUL]"
  shows "limit_loop a (length pre) 0 l = Some (Some (l\<lparr>lim_hr := int h, lim_min := int m, lim_sec := int s\<rparr>))"
proof -
  let ?p = "length pre"
  have at: "char_at a (?p + i) = Some ([digit_char (h div 10), digit_char (h mod 10), CHR '':'', digit_char (m div 10),
      digit_char (m mod 10), CHR '':'', digit_char (s div 10), digit_char (s mod 10), NUL] ! i)" if "i < 9" for i
    using that assms(1-3) by (simp add: a two_digits char_at_def nth_append)
  have v: "int (n div 10) * 10 + int (n mod 10) = int n" for n by (rule int_digits)
  have two: "limit_loop a (?p + i) 0 l' = limit_loop a (?p + (i + 2)) (int n) l'"
    if "char_at a (?p + i) = Some (digit_char (n div 10))" "char_at a (?p + (i + 1)) = Some (digit_char (n mod 10))" "n < 100" for i n l'
    using limit_digit [OF that(1), of 0 l'] limit_digit [of a "?p + i + 1" "n mod 10" "int (n div 10)" l'] that v [of n]
    by (simp add: add.assoc)
  let ?l1 = "l\<lparr>lim_min := int h\<rparr>" and ?l2 = "l\<lparr>lim_min := int h, lim_sec := int m\<rparr>"
  have "limit_loop a ?p 0 l = limit_loop a (?p + 2) (int h) l"
    using two [of 0 h l] at [of 0] at [of 1] assms(1) by simp
  also have "\<dots> = limit_loop a (?p + 3) 0 ?l1"
    using limit_colon [of a "?p + 2" "int h" l ?l1] at [of 2] assms(4) by (simp add: put_number_def numeral_3_eq_3)
  also have "\<dots> = limit_loop a (?p + 5) (int m) ?l1"
    using two [of 3 m ?l1] at [of 3] at [of 4] assms(2) by simp
  also have "\<dots> = limit_loop a (?p + 6) 0 ?l2"
    using limit_colon [of a "?p + 5" "int m" ?l1 ?l2] at [of 5] assms(5) by (simp add: put_number_def add.commute)
  also have "\<dots> = limit_loop a (?p + 8) (int s) ?l2"
    using two [of 6 s ?l2] at [of 6] at [of 7] assms(3) by simp
  also have "\<dots> = Some (Some (l\<lparr>lim_hr := int h, lim_min := int m, lim_sec := int s\<rparr>))"
    using limit_end [of a "?p + 8" "int s" ?l2] at [of 8] assms(6) by (simp add: put_number_def)
  finally show ?thesis .
qed

lemma days_loop:
  assumes "d < 2 ^ 31" and "h < 24" and "m < 60" and "s < 60"
  shows "limit_loop (days_text d h m s @ [NUL]) 0 0 no_limit =
    Some (Some \<lparr>lim_days = (if d = 0 then - 1 else int d), lim_hr = int h, lim_min = int m, lim_sec = int s\<rparr>)"
proof (cases "d = 0")
  case True
  then show ?thesis using assms clock_loop [of h m s no_limit "days_text d h m s @ [NUL]" "[]"]
    by (simp add: no_limit_def days_text_def)
next
  case False
  let ?a = "days_text d h m s @ [NUL]"
  let ?t = "zero_filled 2 h @ '':'' @ zero_filled 2 m @ '':'' @ zero_filled 2 s @ [NUL]"
  have a: "?a = [] @ decimal d @ (CHR ''-'' # ?t)" using False by (simp add: days_text_def)
  have "limit_loop ?a 0 0 no_limit = limit_loop ?a (length (decimal d)) (int d) no_limit"
    unfolding a using limit_decimal [of d "[]" "CHR ''-'' # ?t" no_limit] assms(1) by simp
  also have "\<dots> = limit_loop ?a (length (decimal d) + 1) 0 (no_limit\<lparr>lim_days := int d\<rparr>)"
    by (rule limit_dash) (simp_all add: a no_limit_def)
  also have "\<dots> = Some (Some \<lparr>lim_days = int d, lim_hr = int h, lim_min = int m, lim_sec = int s\<rparr>)"
    using assms clock_loop [of h m s "no_limit\<lparr>lim_days := int d\<rparr>" ?a "decimal d @ ''-''"] False
    by (simp add: no_limit_def days_text_def)
  finally show ?thesis using False by simp
qed


lemma days_minutes:
  "limit_minutes \<lparr>lim_days = (if d = 0 then - 1 else int d), lim_hr = int h, lim_min = int m, lim_sec = int s\<rparr> =
    (let r = (int d * 24 + int h) * 60 + int m + (if s > 0 then 1 else 0) in if r < 2 ^ 31 then Some r else None)"
  by (simp add: limit_minutes_def Let_def)

lemma decimal_first: "\<exists>n r. n < 10 \<and> decimal k = digit_char n # r"
proof (induction k rule: less_induct)
  case (less k)
  show ?case
  proof (cases "k < 10")
    case False
    then obtain n r where "n < 10" "decimal (k div 10) = digit_char n # r" using less [of "k div 10"] by auto
    then show ?thesis using False by (auto simp: decimal_step)
  qed (auto simp: decimal_small)
qed

lemma days_text_first: "\<exists>n r. n < 10 \<and> days_text d h m s = digit_char n # r"
proof -
  obtain n r where n: "n < 10" "decimal h = digit_char n # r" using decimal_first by blast
  obtain n' r' where n': "n' < 10" "decimal d = digit_char n' # r'" using decimal_first by blast
  have "\<exists>n r. n < 10 \<and> zero_filled 2 h = digit_char n # r"
  proof (cases "2 - length (decimal h)")
    case 0
    then show ?thesis using n by (auto simp: zero_filled_def)
  next
    case (Suc k)
    then have "zero_filled 2 h = digit_char 0 # replicate k (CHR ''0'') @ decimal h" by (simp add: zero_filled_def zero_digit)
    then show ?thesis using zero_less_numeral by blast
  qed
  then show ?thesis using n' by (auto simp: days_text_def)
qed

lemma lower_digit: "n < 10 \<Longrightarrow> lower (digit_char n) = digit_char n"
  by (simp add: lower_def less_eq_char_def digit_char_def)

lemma not_word:
  assumes "n < 10" and "\<not> is_digit c"
  shows "same_word (digit_char n # r) (c # w) = Some False"
  using assms digit_char_neq [OF assms] by (simp add: same_word_def char_at_def lower_digit)

lemma read_days:
  assumes "d < 2 ^ 31" and "h < 24" and "m < 60" and "s < 60"
  shows "time_str2mins (Some (days_text d h m s @ [NUL])) =
    (let r = (int d * 24 + int h) * 60 + int m + (if s > 0 then 1 else 0) in if r < 2 ^ 31 then Some r else None)"
proof -
  obtain n r where n: "n < 10" "days_text d h m s @ [NUL] = digit_char n # r" using days_text_first [of d h m s] by force
  have "digit_char n \<noteq> NUL" using n(1) digit_char_neq by simp
  moreover have "\<not> is_digit (CHR ''i'')" "\<not> is_digit (CHR ''u'')" by (simp_all add: is_digit_code code_def)
  ultimately have "time_str2mins (Some (days_text d h m s @ [NUL])) =
      do { r \<leftarrow> limit_loop (days_text d h m s @ [NUL]) 0 0 no_limit; case r of None \<Rightarrow> Some (- 2) | Some l \<Rightarrow> limit_minutes l }"
    using n not_word [OF n(1)] unfolding time_str2mins_def n(2) by (simp add: char_at_def)
  then show ?thesis using days_loop [OF assms] days_minutes by simp
qed

lemma length_days_text: "d < 10 ^ 10 \<Longrightarrow> h < 100 \<Longrightarrow> m < 100 \<Longrightarrow> s < 100 \<Longrightarrow> length (days_text d h m s) < 20"
  using length_decimal [of d 9] by (simp add: days_text_def two_digits)


section \<open>Dates\<close>

lemma digit_at_digit: "char_at a i = Some (digit_char d) \<Longrightarrow> d < 10 \<Longrightarrow> digit_at a i k = k (int d)"
  by (simp add: digit_at_def)

lemma more_digit_digit:
  "char_at a i = Some (digit_char d) \<Longrightarrow> d < 10 \<Longrightarrow> more_digit a i v k = k (i + 1) (v * 10 + int d)"
  by (simp add: more_digit_def)

lemma year_digits:
  "((int (y div 1000) * 10 + int (y div 100 mod 10)) * 10 + int (y div 10 mod 10)) * 10 + int (y mod 10) = int y"
proof -
  have "y div 100 = y div 10 div 10" "y div 1000 = y div 10 div 10 div 10" by (simp_all add: div_mult2_eq [symmetric])
  then show ?thesis by (simp only: int_digits)
qed

text \<open>The array of a time in the ISO format.\<close>

definition iso_array :: "nat \<Rightarrow> nat \<Rightarrow> nat \<Rightarrow> nat \<Rightarrow> nat \<Rightarrow> nat \<Rightarrow> string" where
  "iso_array y mo d h m s = [digit_char (y div 1000), digit_char (y div 100 mod 10), digit_char (y div 10 mod 10), digit_char (y mod 10),
     CHR ''-'', digit_char (mo div 10), digit_char (mo mod 10), CHR ''-'', digit_char (d div 10), digit_char (d mod 10),
     CHR ''T'', digit_char (h div 10), digit_char (h mod 10), CHR '':'', digit_char (m div 10), digit_char (m mod 10),
     CHR '':'', digit_char (s div 10), digit_char (s mod 10), NUL]"

definition iso_ok :: "nat \<Rightarrow> nat \<Rightarrow> nat \<Rightarrow> nat \<Rightarrow> nat \<Rightarrow> nat \<Rightarrow> bool" where
  "iso_ok y mo d h m s \<longleftrightarrow> y < 10000 \<and> 1 \<le> mo \<and> mo \<le> 12 \<and> 1 \<le> d \<and> d \<le> 31 \<and> h < 24 \<and> m < 60 \<and> s < 60"

lemma iso_at:
  "char_at (iso_array y mo d h m s) 0 = Some (digit_char (y div 1000))"
  "char_at (iso_array y mo d h m s) (Suc 0) = Some (digit_char (y div 100 mod 10))"
  "char_at (iso_array y mo d h m s) 2 = Some (digit_char (y div 10 mod 10))"
  "char_at (iso_array y mo d h m s) 3 = Some (digit_char (y mod 10))"
  "char_at (iso_array y mo d h m s) 4 = Some (CHR ''-'')"
  "char_at (iso_array y mo d h m s) 5 = Some (digit_char (mo div 10))"
  "char_at (iso_array y mo d h m s) 6 = Some (digit_char (mo mod 10))"
  "char_at (iso_array y mo d h m s) 7 = Some (CHR ''-'')"
  "char_at (iso_array y mo d h m s) 8 = Some (digit_char (d div 10))"
  "char_at (iso_array y mo d h m s) 9 = Some (digit_char (d mod 10))"
  "char_at (iso_array y mo d h m s) 10 = Some (CHR ''T'')"
  "char_at (iso_array y mo d h m s) 11 = Some (digit_char (h div 10))"
  "char_at (iso_array y mo d h m s) 12 = Some (digit_char (h mod 10))"
  "char_at (iso_array y mo d h m s) 13 = Some (CHR '':'')"
  "char_at (iso_array y mo d h m s) 14 = Some (digit_char (m div 10))"
  "char_at (iso_array y mo d h m s) 15 = Some (digit_char (m mod 10))"
  "char_at (iso_array y mo d h m s) 16 = Some (CHR '':'')"
  "char_at (iso_array y mo d h m s) 17 = Some (digit_char (s div 10))"
  "char_at (iso_array y mo d h m s) 18 = Some (digit_char (s mod 10))"
  "char_at (iso_array y mo d h m s) 19 = Some NUL"
  by (simp_all add: iso_array_def char_at_def)

lemma iso_date:
  assumes "iso_ok y mo d h m s"
  shows "get_date (iso_array y mo d h m s) 0 yr = Some (Some (9, int mo - 1, int d, int y - 1900))"
proof -
  let ?a = "iso_array y mo d h m s"
  have lt: "y div 1000 < 10" "mo div 10 < 10" "d div 10 < 10" using assms by (auto simp: iso_ok_def)
  have mo: "int (mo div 10) * 10 + int (mo mod 10) = int mo" and d: "int (d div 10) * 10 + int (d mod 10) = int d"
    by (rule int_digits)+
  have "is_iso ?a 0 = Some True" by (simp add: is_iso_def iso_at)
  moreover have "get_iso_date ?a 0 = Some (Some (9, int mo - 1, int d, int y - 1900))"
    using assms lt mo d year_digits [of y]
    by (simp add: get_iso_date_def digit_at_digit more_digit_digit iso_at iso_at(3) [unfolded numeral_2_eq_2] iso_ok_def Let_def)
  ultimately show ?thesis by (simp add: get_date_def)
qed

lemma no_ampm: "char_at a i = Some NUL \<Longrightarrow> finish_time a i hr mi sc = Some (Some (i - 1, hr, mi, sc))"
  by (simp add: finish_time_def get_ampm_def skip_spaces.simps [of a i] is_space_def code_def lower_def)

lemma iso_time:
  assumes "iso_ok y mo d h m s"
  shows "get_time (iso_array y mo d h m s) 11 = Some (Some (18, int h, int m, int s))"
proof -
  let ?a = "iso_array y mo d h m s"
  have lt: "h div 10 < 10" "m div 10 < 10" "s div 10 < 10" using assms by (auto simp: iso_ok_def)
  have v: "int (h div 10) * 10 + int (h mod 10) = int h" "int (m div 10) * 10 + int (m mod 10) = int m"
    "int (s div 10) * 10 + int (s mod 10) = int s" by (rule int_digits)+
  show ?thesis
    using assms lt by (simp add: get_time_def digit_at_digit iso_at iso_ok_def Let_def v no_ampm)
qed


lemma not_named:
  assumes "char_at a i = Some (digit_char n)" and "n < 10"
  shows "prefix_at a i ''today'' = Some False" "prefix_at a i ''tomorrow'' = Some False" "prefix_at a i ''midnight'' = Some False"
    "prefix_at a i ''noon'' = Some False" "prefix_at a i ''teatime'' = Some False" "prefix_at a i ''now'' = Some False"
proof -
  have "\<not> is_digit (CHR ''t'')" "\<not> is_digit (CHR ''m'')" "\<not> is_digit (CHR ''n'')" by (simp_all add: is_digit_code code_def)
  then have "digit_char n \<noteq> CHR ''t''" "digit_char n \<noteq> CHR ''m''" "digit_char n \<noteq> CHR ''n''"
    using digit_char_neq [OF assms(2)] by auto
  then show "prefix_at a i ''today'' = Some False" "prefix_at a i ''tomorrow'' = Some False" "prefix_at a i ''midnight'' = Some False"
    "prefix_at a i ''noon'' = Some False" "prefix_at a i ''teatime'' = Some False" "prefix_at a i ''now'' = Some False"
    using assms by (simp_all add: lower_digit)
qed

lemma item_number:
  assumes "char_at a i = Some (digit_char n)" and "n < 10"
  shows "parse_item clk a i g = parse_number a i g"
proof -
  have "\<not> is_blank (digit_char n)" using assms(2) by (simp add: is_blank_def digit_char_neq)
  then show ?thesis using assms by (simp add: parse_item_def not_named [OF assms] digit_char_neq del: prefix_at.simps)
qed

lemma loop_item:
  assumes "char_at a i = Some c" and "c \<noteq> NUL" and "c \<noteq> CHR 0x0A" and "parse_item clk a i g = Some (Some (j, h))" and "k = j + 1"
  shows "parse_loop clk a i g = parse_loop clk a k h"
  using assms by (subst parse_loop.simps) simp

lemma iso_loop:
  assumes "iso_ok y mo d h m s"
  shows "parse_loop clk (iso_array y mo d h m s) 0 (nothing_given clk) =
    Some (Some \<lparr>g_hour = int h, g_minute = int m, g_second = int s, g_month = int mo - 1, g_mday = int d, g_year = int y - 1900,
      g_static = now_tm clk\<rparr>)"
proof -
  let ?a = "iso_array y mo d h m s"
  let ?g = "(nothing_given clk)\<lparr>g_month := int mo - 1, g_mday := int d, g_year := int y - 1900\<rparr>"
  let ?h = "?g\<lparr>g_hour := int h, g_minute := int m, g_second := int s\<rparr>"
  have lt: "y div 1000 < 10" "h div 10 < 10" "y div 10 mod 10 < 10" using assms by (auto simp: iso_ok_def)
  have nl: "digit_char n \<noteq> NUL" "digit_char n \<noteq> CHR 0x0A" if "n < 10" for n using digit_char_neq [OF that] by simp_all
  have n1: "parse_number ?a 0 (nothing_given clk) = Some (Some (9, ?g))"
    using iso_date [OF assms] lt(3)
    by (simp add: parse_number_def iso_at iso_at(3) [unfolded numeral_2_eq_2] digit_char_neq)
  have n2: "parse_number ?a 11 ?g = Some (Some (18, ?h))"
    using iso_time [OF assms] by (simp add: parse_number_def iso_at)
  have n3: "parse_item clk ?a 10 ?g = Some (Some (10, ?g))" by (simp add: parse_item_def iso_at)
  have "parse_loop clk ?a 0 (nothing_given clk) = parse_loop clk ?a 10 ?g"
    by (rule loop_item [OF iso_at(1) nl [OF lt(1)]]) (simp_all add: item_number [OF iso_at(1) lt(1)] n1)
  also have "\<dots> = parse_loop clk ?a 11 ?g"
    by (rule loop_item [OF iso_at(11)]) (simp_all add: n3)
  also have "\<dots> = parse_loop clk ?a 19 ?h"
    by (rule loop_item [OF iso_at(12) nl [OF lt(2)]]) (simp_all add: item_number [OF iso_at(12) lt(2)] n2)
  also have "\<dots> = Some (Some ?h)" by (subst parse_loop.simps) (simp add: iso_at)
  finally show ?thesis by (simp add: nothing_given_def)
qed


text \<open>The fields of a time that the ISO format can show: seconds are printed but not read when they are 60.\<close>

definition calendar :: "tm \<Rightarrow> bool" where
  "calendar d \<longleftrightarrow> 0 \<le> tm_sec d \<and> tm_sec d < 60 \<and> 0 \<le> tm_min d \<and> tm_min d < 60 \<and> 0 \<le> tm_hour d \<and> tm_hour d < 24 \<and>
     1 \<le> tm_mday d \<and> tm_mday d \<le> 31 \<and> 0 \<le> tm_mon d \<and> tm_mon d \<le> 11 \<and> - 1900 \<le> tm_year d \<and> tm_year d < 8100"

lemma filled_nat: "0 \<le> n \<Longrightarrow> n < 10000 \<Longrightarrow> unsigned_filled k n = zero_filled k (nat n)"
  by (simp add: unsigned_filled_def)

lemma make_time_str_iso:
  assumes "localtime clk t = Some d" and "calendar d" and "t \<noteq> 0" and "20 \<le> n"
  shows "slurm_make_time_str clk t n @ [NUL] =
    iso_array (nat (tm_year d + 1900)) (nat (tm_mon d + 1)) (nat (tm_mday d)) (nat (tm_hour d)) (nat (tm_min d)) (nat (tm_sec d))"
proof -
  let ?d = d
  have lt: "nat (tm_year ?d + 1900) < 10000" "nat (tm_mon ?d + 1) < 100" "nat (tm_mday ?d) < 100" "nat (tm_hour ?d) < 100"
    "nat (tm_min ?d) < 100" "nat (tm_sec ?d) < 100" using assms(2) by (auto simp: calendar_def)
  note digits = four_digits [OF lt(1)] two_digits [OF lt(2)] two_digits [OF lt(3)] two_digits [OF lt(4)] two_digits [OF lt(5)]
    two_digits [OF lt(6)]
  show ?thesis using assms
    by (simp add: slurm_make_time_str_def calendar_def filled_nat digits printed_def iso_array_def Let_def)
qed

lemma unknown_array: "parse_time clk (''Unknown'' @ [NUL]) past = Some 0"
proof -
  have "parse_item clk (''Unknown'' @ [NUL]) 0 (nothing_given clk) = Some None"
    by (simp add: parse_item_def char_at_def is_blank_def code_def lower_def is_digit_code)
  then show ?thesis by (simp add: parse_time_def parse_loop.simps [of clk _ 0] char_at_def)
qed

lemma given_tm_same:
  "given_tm \<lparr>g_hour = tm_hour d, g_minute = tm_min d, g_second = tm_sec d, g_month = tm_mon d, g_mday = tm_mday d,
    g_year = tm_year d, g_static = e\<rparr> = d\<lparr>tm_isdst := - 1\<rparr>"
  by (simp add: given_tm_def)

lemma parse_make_time_str:
  assumes "localtime clk t = Some d" and "calendar d" and "tm_year d \<noteq> - 1" and "t \<noteq> 0" and "20 \<le> n"
  shows "parse_time clk (slurm_make_time_str clk t n @ [NUL]) past = Some (mktime clk (d\<lparr>tm_isdst := - 1\<rparr>))"
proof -
  let ?d = d
  let ?y = "nat (tm_year ?d + 1900)" and ?mo = "nat (tm_mon ?d + 1)"
  have "iso_ok ?y ?mo (nat (tm_mday ?d)) (nat (tm_hour ?d)) (nat (tm_min ?d)) (nat (tm_sec ?d))"
    using assms(2) by (auto simp: calendar_def iso_ok_def)
  from iso_loop [OF this, of clk] have "parse_loop clk (slurm_make_time_str clk t n @ [NUL]) 0 (nothing_given clk) =
      Some (Some \<lparr>g_hour = tm_hour ?d, g_minute = tm_min ?d, g_second = tm_sec ?d, g_month = tm_mon ?d, g_mday = tm_mday ?d,
        g_year = tm_year ?d, g_static = now_tm clk\<rparr>)"
    using assms make_time_str_iso [OF assms(1,2,4,5)] by (simp add: Let_def calendar_def)
  then show ?thesis using assms(2,3)
    by (simp add: parse_time_def fill_day_def fill_year_def given_tm_same calendar_def Let_def)
qed


section \<open>The fields are in range\<close>

definition tm_ok :: "tm \<Rightarrow> bool" where
  "tm_ok d \<longleftrightarrow> 0 \<le> tm_sec d \<and> tm_sec d \<le> 60 \<and> 0 \<le> tm_min d \<and> tm_min d \<le> 59 \<and> 0 \<le> tm_hour d \<and> tm_hour d \<le> 23 \<and>
     1 \<le> tm_mday d \<and> tm_mday d \<le> 31 \<and> 0 \<le> tm_mon d \<and> tm_mon d \<le> 11"

definition given_ok :: "given \<Rightarrow> bool" where
  "given_ok g \<longleftrightarrow> tm_ok (g_static g) \<and> 0 \<le> g_second g \<and> g_second g \<le> 60 \<and>
     (g_hour g = - 1 \<or> 0 \<le> g_hour g \<and> g_hour g \<le> 23 \<and> 0 \<le> g_minute g \<and> g_minute g \<le> 59) \<and>
     (g_month g = - 1 \<or> 0 \<le> g_month g \<and> g_month g \<le> 11 \<and> 1 \<le> g_mday g \<and> g_mday g \<le> 31)"

lemma digit_range: "digit_at a i k = Some (Some x) \<Longrightarrow> \<exists>d. 0 \<le> d \<and> d \<le> 9 \<and> k d = Some (Some x)"
  by (rule exI [of _ "digit_value (a ! i)"]) (auto simp: digit_at_def bind_eq_Some_conv is_digit_code digit_value_def char_at_def split: if_splits)

lemma finish_time_range:
  assumes "finish_time a i hh mi sc = Some (Some (j, h, m, s))" and "0 \<le> hh" and "hh \<le> 23"
  shows "0 \<le> h \<and> h \<le> 23 \<and> m = mi \<and> s = sc"
  using assms by (auto simp: finish_time_def get_ampm_def bind_eq_Some_conv simp del: prefix_at.simps split: option.splits if_splits)

lemma get_time_range:
  assumes "get_time a i = Some (Some (j, h, m, s))"
  shows "0 \<le> h \<and> h \<le> 23 \<and> 0 \<le> m \<and> m \<le> 59 \<and> 0 \<le> s \<and> s \<le> 59"
  using assms
  by (auto simp: get_time_def bind_eq_Some_conv Let_def split: if_splits dest!: digit_range finish_time_range)

lemma get_date_range:
  assumes "get_date a i y = Some (Some (j, mo, d, yr))"
  shows "0 \<le> mo \<and> mo \<le> 11 \<and> 1 \<le> d \<and> d \<le> 31"
  using assms
  by (auto simp: get_date_def get_iso_date_def get_us_date_def bind_eq_Some_conv Let_def split: if_splits
      dest!: digit_atD more_digitD skip_separatorD)

lemma give_ok: "tm_ok d \<Longrightarrow> given_ok g \<Longrightarrow> given_ok (give_day d g)" "tm_ok d \<Longrightarrow> given_ok g \<Longrightarrow> given_ok (give_time d g)"
  by (auto simp: tm_ok_def given_ok_def give_day_def give_time_def)

lemma give_laterD:
  assumes "give_later clk delta g = Some h"
  shows "\<exists>d t. localtime clk t = Some d \<and> h = give_day d (g\<lparr>g_static := d\<rparr>)"
  using assms by (auto simp: give_later_def bind_eq_Some_conv)

lemma give_later_ok:
  assumes "\<And>t d. localtime clk t = Some d \<Longrightarrow> tm_ok d" and "given_ok g" and "give_later clk delta g = Some h"
  shows "given_ok h" and "g_hour h = g_hour g" and "g_month h \<noteq> - 1"
proof -
  obtain d t where d: "localtime clk t = Some d" "h = give_day d (g\<lparr>g_static := d\<rparr>)" using give_laterD [OF assms(3)] by blast
  have "tm_ok d" by (rule assms(1) [OF d(1)])
  then show "given_ok h" unfolding d(2) using assms(2) by (intro give_ok(1)) (simp_all add: given_ok_def)
  show "g_hour h = g_hour g" "g_month h \<noteq> - 1" using \<open>tm_ok d\<close> by (auto simp: d(2) give_day_def tm_ok_def)
qed

lemma given_static: "given_ok g \<Longrightarrow> tm_ok (g_static g)"
  by (simp add: given_ok_def)

lemma nothing_ok: "tm_ok (now_tm clk) \<Longrightarrow> given_ok (nothing_given clk)"
  by (simp add: given_ok_def nothing_given_def)

lemma parse_number_range:
  assumes "given_ok g" and "parse_number a i g = Some (Some (j, h))"
  shows "given_ok h"
proof -
  from assms(2) obtain c where c: "char_at a (i + 2) = Some c" by (auto simp: parse_number_def bind_eq_Some_conv)
  show ?thesis
  proof (cases "c = CHR '':''")
    case True
    then obtain hh m s where "get_time a i = Some (Some (j, hh, m, s))" "h = g\<lparr>g_hour := hh, g_minute := m, g_second := s\<rparr>"
      using assms(2) c by (auto simp: parse_number_def bind_eq_Some_conv)
    then show ?thesis using get_time_range assms(1) by (fastforce simp: given_ok_def)
  next
    case False
    then obtain mo d y where "get_date a i (g_year g) = Some (Some (j, mo, d, y))" "h = g\<lparr>g_month := mo, g_mday := d, g_year := y\<rparr>"
      using assms(2) c by (auto simp: parse_number_def bind_eq_Some_conv)
    then show ?thesis using get_date_range assms(1) by (fastforce simp: given_ok_def)
  qed
qed

lemma parse_now_range:
  assumes "\<And>t d. localtime clk t = Some d \<Longrightarrow> tm_ok d" and "given_ok g" and "parse_now clk a i g = Some (Some (j, h))"
  shows "given_ok h"
proof -
  from assms(3) obtain d k where h: "h = give_time (g_static k) k" and k: "give_later clk d g = Some k"
    by (auto simp: parse_now_def bind_eq_Some_conv Let_def split: option.splits if_splits)
  have "given_ok k" by (rule give_later_ok(1) [OF assms(1,2) k])
  then show ?thesis unfolding h by (intro give_ok(2)) (simp_all add: given_ok_def)
qed

lemma named_ok:
  assumes "given_ok g"
  shows "given_ok (g\<lparr>g_hour := 0, g_minute := 0, g_second := 0\<rparr>)" "given_ok (g\<lparr>g_hour := 12, g_minute := 0\<rparr>)"
    "given_ok (g\<lparr>g_hour := 16, g_minute := 0\<rparr>)"
  using assms by (auto simp: given_ok_def)

lemma parse_item_range:
  assumes "\<And>t d. localtime clk t = Some d \<Longrightarrow> tm_ok d" and "given_ok g" and "parse_item clk a i g = Some (Some (j, h))"
  shows "given_ok h"
proof -
  from assms(3) obtain c where c: "char_at a i = Some c" by (auto simp: parse_item_def bind_eq_Some_conv)
  show ?thesis
  proof (cases "is_blank c \<or> c = CHR ''-'' \<or> c = CHR ''T''")
    case True
    then show ?thesis using assms(2,3) c by (auto simp: parse_item_def)
  next
    case False
    then obtain b1 b2 b3 b4 b5 b6 where "prefix_at a i ''today'' = Some b1" "prefix_at a i ''tomorrow'' = Some b2"
        "prefix_at a i ''midnight'' = Some b3" "prefix_at a i ''noon'' = Some b4" "prefix_at a i ''teatime'' = Some b5"
        "prefix_at a i ''now'' = Some b6"
      using assms(3) c by (auto simp: parse_item_def bind_eq_Some_conv simp del: prefix_at.simps)
    then show ?thesis
      using assms(2,3) c False give_ok(1) [OF _ assms(2), of "g_static g"] give_later_ok(1) [OF assms(1,2)] given_static [OF assms(2)]
        named_ok [OF assms(2)] parse_now_range [OF assms(1,2)] parse_number_range [OF assms(2)]
      by (auto simp: parse_item_def bind_eq_Some_conv simp del: prefix_at.simps split: if_splits)
  qed
qed

lemma parse_loop_range:
  assumes "\<And>t d. localtime clk t = Some d \<Longrightarrow> tm_ok d" and "given_ok g" and "parse_loop clk a i g = Some (Some h)"
  shows "given_ok h"
  using assms
proof (induction clk a i g rule: parse_loop.induct)
  case (1 clk a i g)
  from "1.prems"(3) obtain c where c: "char_at a i = Some c" by (subst (asm) parse_loop.simps) (auto simp: bind_eq_Some_conv)
  show ?case
  proof (cases "c = NUL \<or> c = CHR 0x0A")
    case True
    then show ?thesis using "1.prems"(2,3) c by (subst (asm) parse_loop.simps) auto
  next
    case False
    then obtain j k where i: "parse_item clk a i g = Some (Some (j, k))"
      using "1.prems"(3) c by (subst (asm) parse_loop.simps) (auto simp: bind_eq_Some_conv split: option.splits)
    then have "parse_loop clk a (j + 1) k = Some (Some h)" using "1.prems"(3) c False by (subst (asm) parse_loop.simps) simp
    then show ?thesis using "1.IH" [OF c False i refl refl] "1.prems"(1) parse_item_range [OF "1.prems"(1,2) i] by simp
  qed
qed

lemma fill_year_keeps:
  "given_ok (fill_year past g) = given_ok g" "g_hour (fill_year past g) = g_hour g" "g_month (fill_year past g) = g_month g"
  by (simp_all add: fill_year_def given_ok_def Let_def)

lemma filled_in_range:
  assumes "\<And>t d. localtime clk t = Some d \<Longrightarrow> tm_ok d" and "given_ok g" and "\<not> (g_hour g = - 1 \<and> g_month g = - 1)"
    and "fill_day clk past g = Some h"
  shows "tm_ok (given_tm (fill_year past h))"
proof -
  note day = give_ok(1) [OF given_static [OF assms(2)] assms(2)]
  have "g_month (give_day (g_static g) g) \<noteq> - 1" "g_hour (give_day (g_static g) g) = g_hour g"
    using given_static [OF assms(2)] by (auto simp: give_day_def tm_ok_def)
  moreover have "given_ok (g\<lparr>g_hour := 0, g_minute := 0\<rparr>)" using assms(2) by (auto simp: given_ok_def)
  ultimately have "given_ok h \<and> g_hour h \<noteq> - 1 \<and> g_month h \<noteq> - 1"
    using assms(2-4) day give_later_ok [OF assms(1,2)] by (auto simp: fill_day_def Let_def split: if_splits)
  then have "given_ok (fill_year past h) \<and> g_hour (fill_year past h) \<noteq> - 1 \<and> g_month (fill_year past h) \<noteq> - 1"
    by (simp add: fill_year_keeps)
  then show ?thesis by (auto simp: given_tm_def tm_ok_def given_ok_def)
qed



section \<open>Limits\<close>

lemma read_number:
  assumes "n < 10" and "a = digit_char n # r"
  shows "time_str2mins (Some a) = do { r \<leftarrow> limit_loop a 0 0 no_limit; case r of None \<Rightarrow> Some (- 2) | Some l \<Rightarrow> limit_minutes l }"
proof -
  have "digit_char n \<noteq> NUL" using assms(1) digit_char_neq by simp
  moreover have "\<not> is_digit (CHR ''i'')" "\<not> is_digit (CHR ''u'')" by (simp_all add: is_digit_code code_def)
  ultimately show ?thesis using not_word [OF assms(1)] unfolding time_str2mins_def assms(2) by (simp add: char_at_def)
qed

lemma read_limit_loop:
  "time_str2mins (Some (decimal d @ t)) = do { r \<leftarrow> limit_loop (decimal d @ t) 0 0 no_limit; case r of None \<Rightarrow> Some (- 2) | Some l \<Rightarrow> limit_minutes l }"
  using decimal_first [of d] read_number by fastforce

lemma zero_hours_loop:
  assumes "int d < 2 ^ 31" and "m < 60"
  shows "limit_loop (decimal d @ ''-0:'' @ zero_filled 2 m @ [NUL]) 0 0 no_limit =
    Some (Some \<lparr>lim_days = int d, lim_hr = - 1, lim_min = 0, lim_sec = int m\<rparr>)"
proof -
  let ?a = "decimal d @ ''-0:'' @ zero_filled 2 m @ [NUL]" and ?p = "length (decimal d)"
  have at: "char_at ?a (?p + i) = Some ([CHR ''-'', digit_char 0, CHR '':'', digit_char (m div 10), digit_char (m mod 10), NUL] ! i)"
    if "i < 6" for i using that assms(2) by (simp add: two_digits zero_digit char_at_def nth_append)
  let ?l = "no_limit\<lparr>lim_days := int d\<rparr>"
  have "limit_loop ?a 0 0 no_limit = limit_loop ?a ?p (int d) no_limit"
    using limit_decimal [of d "[]" "''-0:'' @ zero_filled 2 m @ [NUL]" no_limit] assms(1) by simp
  also have "\<dots> = limit_loop ?a (?p + 1) 0 ?l"
    by (rule limit_dash) (use at [of 0] in \<open>simp_all add: no_limit_def\<close>)
  also have "\<dots> = limit_loop ?a (?p + 2) 0 ?l"
    using limit_digit [of ?a "?p + 1" 0 0 ?l] at [of 1] by simp
  also have "\<dots> = limit_loop ?a (?p + 3) 0 (?l\<lparr>lim_min := 0\<rparr>)"
    using limit_colon [of ?a "?p + 2" 0 ?l "?l\<lparr>lim_min := 0\<rparr>"] at [of 2] by (simp add: put_number_def no_limit_def numeral_3_eq_3)
  also have "\<dots> = limit_loop ?a (?p + 4) (int (m div 10)) (?l\<lparr>lim_min := 0\<rparr>)"
    using limit_digit [of ?a "?p + 3" "m div 10" 0 "?l\<lparr>lim_min := 0\<rparr>"] at [of 3] assms(2) by (simp add: add.commute)
  also have "\<dots> = limit_loop ?a (?p + 5) (int m) (?l\<lparr>lim_min := 0\<rparr>)"
    using limit_digit [of ?a "?p + 4" "m mod 10" "int (m div 10)" "?l\<lparr>lim_min := 0\<rparr>"] at [of 4] assms(2) int_digits [of m]
    by (simp add: add.commute)
  also have "\<dots> = Some (Some \<lparr>lim_days = int d, lim_hr = - 1, lim_min = 0, lim_sec = int m\<rparr>)"
    using limit_end [of ?a "?p + 5" "int m"] at [of 5] by (simp add: put_number_def no_limit_def)
  finally show ?thesis .
qed

lemma lower_unlimited: "map lower ''UNLIMITED'' = ''unlimited'' \<and> lower NUL = NUL"
  by (simp add: lower_def char_of_def bit_0 bit_iff_odd)

lemma read_unlimited: "10 \<le> n \<Longrightarrow> time_str2mins (Some (printed n ''UNLIMITED'' @ [NUL])) = Some (sint INFINITE)"
  using lower_unlimited by (simp add: printed_def time_str2mins_def same_word_def char_at_def)

lemma int_split: "int (n div k) * int k + int (n mod k) = int n"
  by (metis div_mult_mod_eq of_nat_add of_nat_mult)

lemma split_secs:
  "(int (t div 86400) * 24 + int (t div 3600 mod 24)) * 60 + int (t div 60 mod 60) + (if t mod 60 > 0 then 1 else 0) = int ((t + 59) div 60)"
proof -
  have "t div 86400 = t div 60 div 60 div 24" "t div 3600 = t div 60 div 60" by (simp_all add: div_mult2_eq [symmetric])
  then have "(int (t div 86400) * 24 + int (t div 3600 mod 24)) * 60 + int (t div 60 mod 60) = int (t div 60)"
    by (simp only: int_split [of _ 24, simplified] int_split [of _ 60, simplified])
  moreover have "(t + 59) div 60 = t div 60 + (if t mod 60 > 0 then 1 else 0)"
  proof -
    have "(t + 59) div 60 = (t mod 60 + 59 + t div 60 * 60) div 60" by simp
    also have "\<dots> = (t mod 60 + 59) div 60 + t div 60" by (subst div_mult_self1) simp_all
    also have "(t mod 60 + 59) div 60 = (if t mod 60 > 0 then 1 else 0)"
      using mod_less_divisor [of 60 t] by (auto simp: le_div_geq)
    finally show ?thesis by simp
  qed
  ultimately show ?thesis by (simp only: of_nat_add) (simp split: if_splits)
qed

lemma split_mins: "(int (k div 1440) * 24 + int (k div 60 mod 24)) * 60 + int (k mod 60) = int k"
proof -
  have "k div 1440 = k div 60 div 24" by (simp add: div_mult2_eq [symmetric])
  then show ?thesis by (simp only: int_split [of _ 24, simplified] int_split [of _ 60, simplified])
qed

lemma read_secs:
  assumes "t < 2 ^ 32" and "20 \<le> n"
  shows "if t = unat INFINITE then time_str2mins (Some (secs2time_str t n @ [NUL])) = Some (sint INFINITE)
      else time_str2mins (Some (secs2time_str t n @ [NUL])) = Some (int ((t + 59) div 60))"
proof (cases "t = unat INFINITE")
  case False
  let ?d = "t div 86400" and ?h = "t div 3600 mod 24" and ?m = "t div 60 mod 60" and ?s = "t mod 60"
  have d: "?d < 2 ^ 31" using assms(1) by simp
  have "length (days_text ?d ?h ?m ?s) < 20" using assms(1) by (intro length_days_text) simp_all
  then have "length (days_text ?d ?h ?m ?s) \<le> n - 1" using assms(2) by linarith
  then have "secs2time_str t n = days_text ?d ?h ?m ?s" using False by (simp add: secs2time_str_def printed_def)
  moreover have "(int ?d * 24 + int ?h) * 60 + int ?m + (if ?s > 0 then 1 else 0) = int ((t + 59) div 60)" by (rule split_secs)
  moreover have "int ((t + 59) div 60) < 2 ^ 31" using assms(1) by simp
  ultimately show ?thesis using False read_days [OF d, of ?h ?m ?s] by (simp add: Let_def)
qed (use assms read_unlimited in \<open>simp add: secs2time_str_def\<close>)

lemma int_less_limit: "k < 2 ^ 31 \<Longrightarrow> int k < 2 ^ 31"
  by simp

lemma sint_small: "unat (m :: u32) < 2 ^ 31 \<Longrightarrow> sint m = int (unat m)"
proof -
  assume "unat m < 2 ^ 31"
  then have "uint m < 2 ^ 31" unfolding uint_nat by (rule int_less_limit)
  moreover have "0 \<le> uint m" by simp
  ultimately have "signed_take_bit 31 (uint m) = uint m" by (intro signed_take_bit_int_eq_self) linarith+
  then show ?thesis by (simp add: sint_uint)
qed

lemma read_mins:
  assumes "unat m < 2 ^ 31 \<or> m = INFINITE" and "20 \<le> n"
  shows "time_str2mins (Some (mins2time_str m n @ [NUL])) = Some (sint m)"
proof (cases "m = INFINITE")
  case False
  let ?d = "unat m div 1440" and ?h = "unat m div 60 mod 24" and ?m = "unat m mod 60"
  have m: "unat m < 2 ^ 31" using assms(1) False by simp
  then have d: "?d < 2 ^ 31" by simp
  have "length (days_text ?d ?h ?m 0) < 20" using m by (intro length_days_text) simp_all
  then have "length (days_text ?d ?h ?m 0) \<le> n - 1" using assms(2) by linarith
  then have "mins2time_str m n = days_text ?d ?h ?m 0" using False by (simp add: mins2time_str_def printed_def)
  moreover have "(int ?d * 24 + int ?h) * 60 + int ?m = int (unat m)" by (rule split_mins)
  moreover have "sint m = int (unat m)" using m by (rule sint_small)
  ultimately show ?thesis using m sint_small [OF m] read_days [OF d, of ?h ?m 0] int_less_limit [OF m] by (simp add: Let_def)
qed (use assms read_unlimited in \<open>simp add: mins2time_str_def\<close>)


section \<open>Properties\<close>

text \<open>
  C15: A time that is printed in the ISO format, in any buffer that has room for it, is read back as that time, whatever
  the current time is and whichever side it is looked for on, where \<^verbatim>\<open>mktime\<close> finds it from its local time without
  being told about daylight saving.  Time 0 is printed as a word that is not understood and becomes 0 again.
\<close>

theorem parse_time_roundtrip:
  assumes "localtime clk t = Some d" and "calendar d" and "tm_year d \<noteq> - 1" and "20 \<le> n"
    and "mktime clk (d\<lparr>tm_isdst := - 1\<rparr>) = t"
  shows "parse_time clk (slurm_make_time_str clk t n @ [NUL]) past = Some t"
proof (cases "t = 0")
  case True
  then have "slurm_make_time_str clk t n = ''Unknown''" using assms(4) by (simp add: slurm_make_time_str_def printed_def)
  then show ?thesis using unknown_array True by simp
next
  case False
  then show ?thesis using parse_make_time_str [OF assms(1-3) False assms(4)] assms(5) by simp
qed

definition sample_tm :: "int \<Rightarrow> tm" where
  "sample_tm t = \<lparr>tm_sec = t mod 60, tm_min = 20, tm_hour = 10, tm_mday = 3, tm_mon = 4, tm_year = 109, tm_isdst = 0\<rparr>"

definition sample_clock :: clock where
  "sample_clock = \<lparr>time_now = 1241346030, now_tm = sample_tm 30, localtime = (\<lambda>t. if t < 2 ^ 55 then Some (sample_tm t) else None),
     tm_unset = sample_tm 0, mktime = (\<lambda>d. 1241346000 + tm_sec d)\<rparr>"

lemma sample_local: "localtime sample_clock 1241346030 = Some (sample_tm 1241346030)"
  by (simp add: sample_clock_def)

theorem parse_time_roundtrip_witness:
  "parse_time sample_clock (slurm_make_time_str sample_clock 1241346030 32 @ [NUL]) True = Some 1241346030"
  by (rule parse_time_roundtrip [OF sample_local]) (simp_all add: sample_clock_def sample_tm_def calendar_def)

text \<open>
  C39: Whatever is typed, if \<^verbatim>\<open>parse_time\<close> returns, its result is 0 or comes from a call of \<^verbatim>\<open>mktime\<close> whose fields are all
  within their calendar ranges, as long as \<^verbatim>\<open>localtime\<close> delivers such fields where it delivers any.
\<close>

theorem parse_time_in_range:
  assumes "tm_ok (now_tm clk)" and "\<And>t d. localtime clk t = Some d \<Longrightarrow> tm_ok d" and "parse_time clk a past = Some r"
  shows "r = 0 \<or> (\<exists>d. tm_ok d \<and> r = mktime clk d)"
proof -
  from assms(3) obtain g where g: "parse_loop clk a 0 (nothing_given clk) = Some g" by (auto simp: parse_time_def bind_eq_Some_conv)
  show ?thesis
  proof (cases g)
    case None
    then show ?thesis using assms(3) g by (simp add: parse_time_def)
  next
    case (Some h)
    have "parse_loop clk a 0 (nothing_given clk) = Some (Some h)" using g Some by simp
    from parse_loop_range [OF assms(2) nothing_ok [OF assms(1)] this] have "given_ok h" .
    show ?thesis
    proof (cases "g_hour h = - 1 \<and> g_month h = - 1")
      case True
      then show ?thesis using assms(3) g by (simp add: Some parse_time_def)
    next
      case False
      then obtain k where k: "fill_day clk past h = Some k" "r = mktime clk (given_tm (fill_year past k))"
        using assms(3) g by (auto simp: Some parse_time_def bind_eq_Some_conv)
      from filled_in_range [OF assms(2) \<open>given_ok h\<close> False k(1)] have "tm_ok (given_tm (fill_year past k))" .
      then show ?thesis using k(2) by blast
    qed
  qed
qed

lemma sample_parse: "parse_time sample_clock (slurm_make_time_str sample_clock 1241346030 32 @ [NUL]) True = Some 1241346030"
proof -
  have "parse_time sample_clock (slurm_make_time_str sample_clock 1241346030 32 @ [NUL]) True =
      Some (mktime sample_clock ((sample_tm 1241346030)\<lparr>tm_isdst := - 1\<rparr>))"
    by (rule parse_make_time_str [OF sample_local]) (simp_all add: sample_tm_def calendar_def)
  also have "\<dots> = Some 1241346030" by (simp add: sample_clock_def sample_tm_def)
  finally show ?thesis .
qed

theorem parse_time_in_range_witness:
  "(1241346030 :: int) = 0 \<or> (\<exists>d. tm_ok d \<and> 1241346030 = mktime sample_clock d)"
  by (rule parse_time_in_range [OF _ _ sample_parse]) (auto simp: sample_clock_def sample_tm_def tm_ok_def split: if_splits)

text \<open>
  \<^verbatim>\<open>parse_time\<close> can read past the end of what was typed: for a single digit it looks two characters ahead, and for
  \<^verbatim>\<open>now\<close> behind a blank it adds an absolute position to the current one and continues behind the final NUL.
\<close>

theorem parse_time_overread:
  "parse_time clk (''5'' @ [NUL]) past = None \<and> parse_time clk ('' now'' @ [NUL]) past = None"
proof
  have "parse_item clk (''5'' @ [NUL]) 0 (nothing_given clk) = None"
    by (simp add: parse_item_def parse_number_def char_at_def is_blank_def code_def lower_def is_digit_code)
  then show "parse_time clk (''5'' @ [NUL]) past = None"
    by (simp add: parse_time_def parse_loop.simps [of clk _ 0] char_at_def)
next
  let ?a = "'' now'' @ [NUL]"
  have scan: "now_scan ?a 4 = Some (Some (False, 4))"
    by (subst now_scan.simps) (simp add: char_at_def is_blank_def code_def)
  have blank: "parse_item clk ?a 0 (nothing_given clk) = Some (Some (0, nothing_given clk))"
    by (simp add: parse_item_def char_at_def is_blank_def)
  have item: "parse_item clk ?a 1 (nothing_given clk) =
      do { g \<leftarrow> give_later clk 0 (nothing_given clk); Some (Some (4, give_time (g_static g) g)) }"
    using scan by (simp add: parse_item_def parse_now_def char_at_def is_blank_def code_def lower_def Let_def)
  have "parse_loop clk ?a 5 g = None" for g by (subst parse_loop.simps) (simp add: char_at_def)
  then have "parse_loop clk ?a 1 (nothing_given clk) = None"
    by (subst parse_loop.simps) (cases "give_later clk 0 (nothing_given clk)"; simp add: item [simplified] char_at_def)
  moreover have "parse_loop clk ?a 0 (nothing_given clk) = parse_loop clk ?a 1 (nothing_given clk)"
    by (subst parse_loop.simps) (simp add: char_at_def blank [simplified])
  ultimately show "parse_time clk ?a past = None" by (simp add: parse_time_def)
qed

text \<open>
  C40: A duration in seconds that \<^verbatim>\<open>secs2time_str\<close> prints is read by \<^verbatim>\<open>time_str2mins\<close> as its minutes, rounded up, and a
  time limit in minutes that \<^verbatim>\<open>mins2time_str\<close> prints is read back exactly; unlimited stays unlimited.
\<close>

theorem durations_roundtrip:
  assumes "t < 2 ^ 32" and "unat m < 2 ^ 31 \<or> m = INFINITE" and "20 \<le> n"
  shows "(if t = unat INFINITE then time_str2mins (Some (secs2time_str t n @ [NUL])) = Some (sint INFINITE)
      else time_str2mins (Some (secs2time_str t n @ [NUL])) = Some (int ((t + 59) div 60))) \<and>
    time_str2mins (Some (mins2time_str m n @ [NUL])) = Some (sint m)"
  using read_secs [OF assms(1,3)] read_mins [OF assms(2,3)] by blast

theorem durations_roundtrip_witness:
  "(if 3661 = unat INFINITE then time_str2mins (Some (secs2time_str 3661 32 @ [NUL])) = Some (sint INFINITE)
      else time_str2mins (Some (secs2time_str 3661 32 @ [NUL])) = Some (int ((3661 + 59) div 60))) \<and>
    time_str2mins (Some (mins2time_str 90 32 @ [NUL])) = Some (sint (90 :: u32))"
  by (rule durations_roundtrip) simp_all

text \<open>
  The format of days, hours and minutes, \<^verbatim>\<open>days-hr:min\<close>, is misread when the hours are zero: its minutes are taken
  for seconds and rounded up to one minute.
\<close>

theorem zero_hours_misread:
  assumes "int d * 1440 + 1 < 2 ^ 31" and "0 < m" and "m < 60"
  shows "time_str2mins (Some (decimal d @ ''-0:'' @ zero_filled 2 m @ [NUL])) = Some (int d * 1440 + 1)"
proof -
  let ?a = "decimal d @ ''-0:'' @ zero_filled 2 m @ [NUL]"
  have "limit_loop ?a 0 0 no_limit = Some (Some \<lparr>lim_days = int d, lim_hr = - 1, lim_min = 0, lim_sec = int m\<rparr>)"
    using assms zero_hours_loop [of d m] by simp
  then show ?thesis using assms by (simp add: read_limit_loop limit_minutes_def)
qed

theorem zero_hours_misread_witness:
  "time_str2mins (Some (decimal 2 @ ''-0:'' @ zero_filled 2 30 @ [NUL])) = Some 2881"
  using zero_hours_misread [of 2 30] by simp

end
