(* ===== verification/Print_fields.thy ===== *)
theory Print_fields
  imports Parse_time "HOL-Library.List_Lexorder"
begin

text \<open>
  The columns of a table, \<^verbatim>\<open>src/src/common/print_fields.c\<close>.  Each routine is the text it writes to the standard
  output; \<^const>\<open>None\<close> is an access outside the memory of the program.  \<^verbatim>\<open>printf\<close> with a width and a precision
  is \<^const>\<open>pad_left\<close> or \<^const>\<open>pad_right\<close> of a prefix.
\<close>

datatype parsable = PARSABLE_NOT | PARSABLE_ENDING | PARSABLE_NO_ENDING

text \<open>The routines a field can be printed with, and the names of the columns of \<^verbatim>\<open>sacct\<close>.\<close>

datatype print_routine = Print_str | Print_int | Print_date | Print_time_from_secs

record 'ty print_field =
  pf_len :: int
  pf_name :: string
  pf_routine :: print_routine
  pf_type :: 'ty

definition abs_len :: "'ty print_field \<Rightarrow> nat" where
  "abs_len f = nat \<bar>pf_len f\<bar>"

text \<open>\<^verbatim>\<open>%*s\<close> or \<^verbatim>\<open>%-*s\<close>, and the blank behind the column.\<close>

definition column :: "'ty print_field \<Rightarrow> string \<Rightarrow> string" where
  "column f s = (if pf_len f = int (abs_len f) then pad_left (abs_len f) s else pad_right (abs_len f) s) @ '' ''"

text \<open>The three forms of a value, and of one that is not set.\<close>

definition print_value :: "parsable \<Rightarrow> 'ty print_field \<Rightarrow> bool \<Rightarrow> string \<Rightarrow> string" where
  "print_value par f final s =
     (if par = PARSABLE_NO_ENDING \<and> final then s
      else if par \<noteq> PARSABLE_NOT then s @ ''|''
      else column f s)"

definition print_unset :: "parsable \<Rightarrow> 'ty print_field \<Rightarrow> bool \<Rightarrow> string" where
  "print_unset par f final =
     (if par = PARSABLE_NO_ENDING \<and> final then ''''
      else if par \<noteq> PARSABLE_NOT then ''|''
      else pad_left (abs_len f) '' '' @ '' '')"


section \<open>The header\<close>

fun header_names :: "parsable \<Rightarrow> nat \<Rightarrow> nat \<Rightarrow> 'ty print_field list \<Rightarrow> string" where
  "header_names par curr_inx field_count [] = ''''"
| "header_names par curr_inx field_count (f # fs) =
     (if par = PARSABLE_NO_ENDING \<and> curr_inx = field_count then pf_name f
      else if par \<noteq> PARSABLE_NOT then pf_name f @ ''|''
      else pad_left (abs_len f) (take (abs_len f) (pf_name f)) @ '' '') @
     header_names par (curr_inx + 1) field_count fs"

definition dashes :: string where "dashes = replicate 53 (CHR ''-'')"

definition print_fields_header :: "parsable \<Rightarrow> bool \<Rightarrow> 'ty print_field list option \<Rightarrow> string" where
  "print_fields_header par have_header print_fields_list =
     (case print_fields_list of None \<Rightarrow> ''''
      | Some fs \<Rightarrow>
          if \<not> have_header then ''''
          else header_names par 1 (length fs) fs @ [CHR 0x0A] @
            (if par \<noteq> PARSABLE_NOT then ''''
             else concat (map (\<lambda>f. pad_left (abs_len f) (take (abs_len f) dashes) @ '' '') fs) @ [CHR 0x0A]))"


section \<open>The columns\<close>

definition print_fields_date :: "parsable \<Rightarrow> clock \<Rightarrow> 'ty print_field \<Rightarrow> int \<Rightarrow> bool \<Rightarrow> string" where
  "print_fields_date par clk f value final = print_value par f final (slurm_make_time_str clk value (abs_len f + 1))"

text \<open>
  A string is copied to a buffer of the width of the column, however long it is, and its last character there is
  replaced by a plus sign when it does not fit.
\<close>

definition print_fields_str :: "parsable \<Rightarrow> 'ty print_field \<Rightarrow> string option \<Rightarrow> bool \<Rightarrow> string option" where
  "print_fields_str par f value final =
     (if par \<noteq> PARSABLE_NOT then do {
        s \<leftarrow> (case value of None \<Rightarrow> Some '''' | Some m \<Rightarrow> c_text m);
        Some (print_value par f final s)
      } else case value of
        None \<Rightarrow> Some (column f (take (abs_len f) '' ''))
      | Some m \<Rightarrow> do {
          temp_char \<leftarrow> read_chars m (abs_len f);
          s \<leftarrow> c_text m;
          temp_char \<leftarrow> (if length s > abs_len f then (if abs_len f = 0 then None else Some (temp_char[abs_len f - 1 := CHR ''+'']))
                       else Some temp_char);
          Some (column f (take (abs_len f) (text_of temp_char)))
        })"

text \<open>The comparisons with \<^verbatim>\<open>NO_VAL\<close> and \<^verbatim>\<open>INFINITE\<close> are unsigned.\<close>

definition print_fields_int :: "parsable \<Rightarrow> 'ty print_field \<Rightarrow> int \<Rightarrow> bool \<Rightarrow> string" where
  "print_fields_int par f value final =
     (if word_of_int value = NO_VAL \<or> word_of_int value = INFINITE then print_unset par f final
      else print_value par f final (signed_decimal value))"

definition print_fields_uint32 :: "parsable \<Rightarrow> 'ty print_field \<Rightarrow> u32 \<Rightarrow> bool \<Rightarrow> string" where
  "print_fields_uint32 par f value final =
     (if value = NO_VAL \<or> value = INFINITE then print_unset par f final
      else print_value par f final (decimal (unat value)))"

definition print_fields_uint64 :: "parsable \<Rightarrow> 'ty print_field \<Rightarrow> u64 \<Rightarrow> bool \<Rightarrow> string" where
  "print_fields_uint64 par f value final =
     (if value = ucast NO_VAL \<or> value = ucast INFINITE then print_unset par f final
      else print_value par f final (decimal (unat value)))"

definition print_fields_time_from_mins :: "parsable \<Rightarrow> 'ty print_field \<Rightarrow> u32 \<Rightarrow> bool \<Rightarrow> string" where
  "print_fields_time_from_mins par f value final =
     (if value = NO_VAL \<or> value = INFINITE then print_unset par f final
      else print_value par f final (mins2time_str value 32))"

definition print_fields_time_from_secs :: "parsable \<Rightarrow> 'ty print_field \<Rightarrow> u32 \<Rightarrow> bool \<Rightarrow> string" where
  "print_fields_time_from_secs par f value final =
     (if value = NO_VAL \<or> value = INFINITE then print_unset par f final
      else print_value par f final (secs2time_str (unat value) 32))"

text \<open>
  A list of strings: sorted as by \<^verbatim>\<open>strcmp\<close>, which is the order of strings here, and separated by commas.  The list
  stays sorted.
\<close>

fun comma_separated :: "string list \<Rightarrow> string" where
  "comma_separated [] = ''''"
| "comma_separated [s] = s"
| "comma_separated (s # t # ss) = s @ '','' @ comma_separated (t # ss)"

lemma comma_separated_set: "c \<in> set (comma_separated ns) \<Longrightarrow> c = CHR '','' \<or> (\<exists>n\<in>set ns. c \<in> set n)"
  by (induction ns rule: comma_separated.induct) auto

definition print_fields_char_list ::
    "parsable \<Rightarrow> 'ty print_field \<Rightarrow> string list option \<Rightarrow> bool \<Rightarrow> (string \<times> string list option) option" where
  "print_fields_char_list par f value final = do {
     let sorted_value = map_option sort value;
     let print_this = (case sorted_value of
         None \<Rightarrow> if par \<noteq> PARSABLE_NOT then '''' else '' ''
       | Some ss \<Rightarrow> if ss = [] then (if par \<noteq> PARSABLE_NOT then '''' else '' '') else comma_separated ss);
     shown \<leftarrow> (if par = PARSABLE_NOT \<and> length print_this > abs_len f
               then (if abs_len f = 0 then None else Some (print_this[abs_len f - 1 := CHR ''+'']))
               else Some print_this);
     Some (if par \<noteq> PARSABLE_NOT then print_value par f final shown else column f (take (abs_len f) shown), sorted_value)
   }"

text \<open>
  \<^verbatim>\<open>print_routine\<close> is called through a pointer without a prototype: a string or an \<^verbatim>\<open>int\<close> is passed, and the routine
  takes it for a parameter of its own type: \<open>routine_param\<close>, from the prototypes in \<^verbatim>\<open>print_fields.h\<close>.  For
  \<^verbatim>\<open>print_fields_date\<close> C leaves the call undefined, because a 64-bit \<^verbatim>\<open>time_t\<close> is expected where an \<^verbatim>\<open>int\<close> was
  passed.  What the routine finds there, if it returns, is the parameter \<open>widen\<close>, \<^const>\<open>None\<close> if it does not.
\<close>

datatype print_arg = Arg_int int | Arg_str "string option"

datatype param_type = Param_int | Param_uint32 | Param_time_t | Param_string

fun routine_param :: "print_routine \<Rightarrow> param_type" where
  "routine_param Print_str = Param_string"
| "routine_param Print_int = Param_int"
| "routine_param Print_date = Param_time_t"
| "routine_param Print_time_from_secs = Param_uint32"

definition call_print_routine ::
    "parsable \<Rightarrow> clock \<Rightarrow> (int \<Rightarrow> int option) \<Rightarrow> 'ty print_field \<Rightarrow> print_arg \<Rightarrow> bool \<Rightarrow> string option" where
  "call_print_routine par clk widen f arg final =
     (case arg of
        Arg_str s \<Rightarrow> (case pf_routine f of Print_str \<Rightarrow> print_fields_str par f s final | _ \<Rightarrow> None)
      | Arg_int i \<Rightarrow> (case pf_routine f of
            Print_str \<Rightarrow> None
          | Print_int \<Rightarrow> Some (print_fields_int par f i final)
          | Print_date \<Rightarrow> map_option (\<lambda>t. print_fields_date par clk f t final) (widen i)
          | Print_time_from_secs \<Rightarrow> Some (print_fields_time_from_secs par f (word_of_int i) final)))"

end
