(* ===== verification/Protocol_text.thy ===== *)
theory Protocol_text
  imports Ctext
begin

text \<open>
  Texts of \<^verbatim>\<open>slurm_protocol_defs.c\<close> and \<^verbatim>\<open>slurm_protocol_api.c\<close>: job states, numbers with a unit, and lists of
  names that a user types, separated by commas.
\<close>


section \<open>Job states\<close>

definition JOB_PENDING :: int where "JOB_PENDING = 0"
definition JOB_RUNNING :: int where "JOB_RUNNING = 1"
definition JOB_SUSPENDED :: int where "JOB_SUSPENDED = 2"
definition JOB_COMPLETE :: int where "JOB_COMPLETE = 3"
definition JOB_CANCELLED :: int where "JOB_CANCELLED = 4"
definition JOB_FAILED :: int where "JOB_FAILED = 5"
definition JOB_TIMEOUT :: int where "JOB_TIMEOUT = 6"
definition JOB_NODE_FAIL :: int where "JOB_NODE_FAIL = 7"

lemmas job_state_defs = JOB_PENDING_def JOB_RUNNING_def JOB_SUSPENDED_def JOB_COMPLETE_def JOB_CANCELLED_def
  JOB_FAILED_def JOB_TIMEOUT_def JOB_NODE_FAIL_def

definition JOB_COMPLETING :: u32 where "JOB_COMPLETING = 0x8000"

definition job_state_string :: "u32 \<Rightarrow> string" where
  "job_state_string inx =
     (if and inx JOB_COMPLETING \<noteq> 0 then ''COMPLETING''
      else if uint inx = JOB_PENDING then ''PENDING''
      else if uint inx = JOB_RUNNING then ''RUNNING''
      else if uint inx = JOB_SUSPENDED then ''SUSPENDED''
      else if uint inx = JOB_COMPLETE then ''COMPLETED''
      else if uint inx = JOB_CANCELLED then ''CANCELLED''
      else if uint inx = JOB_FAILED then ''FAILED''
      else if uint inx = JOB_TIMEOUT then ''TIMEOUT''
      else if uint inx = JOB_NODE_FAIL then ''NODE_FAIL''
      else ''?'')"

definition job_state_string_compact :: "u32 \<Rightarrow> string" where
  "job_state_string_compact inx =
     (if and inx JOB_COMPLETING \<noteq> 0 then ''CG''
      else if uint inx = JOB_PENDING then ''PD''
      else if uint inx = JOB_RUNNING then ''R''
      else if uint inx = JOB_SUSPENDED then ''S''
      else if uint inx = JOB_COMPLETE then ''CD''
      else if uint inx = JOB_CANCELLED then ''CA''
      else if uint inx = JOB_FAILED then ''F''
      else if uint inx = JOB_TIMEOUT then ''TO''
      else if uint inx = JOB_NODE_FAIL then ''NF''
      else ''?'')"


section \<open>Numbers with a unit\<close>

definition UNIT_NONE :: int where "UNIT_NONE = 0"
definition UNIT_KILO :: int where "UNIT_KILO = 1"
definition UNIT_MEGA :: int where "UNIT_MEGA = 2"
definition UNIT_GIGA :: int where "UNIT_GIGA = 3"
definition UNIT_PETA :: int where "UNIT_PETA = 4"
definition UNIT_UNKNOWN :: int where "UNIT_UNKNOWN = 5"

lemmas unit_defs = UNIT_NONE_def UNIT_KILO_def UNIT_MEGA_def UNIT_GIGA_def UNIT_PETA_def UNIT_UNKNOWN_def

text \<open>The array \<^verbatim>\<open>unit\<close>; its first character is a NUL, so a number without unit is followed by one.\<close>

definition unit_chars :: string where "unit_chars = NUL # ''KMGP?'' @ [NUL]"

definition unit_char :: "int \<Rightarrow> string option" where
  "unit_char t = (if t < 0 then None else map_option (\<lambda>c. [c]) (char_at unit_chars (nat t)))"

text \<open>
  The number is a \<^verbatim>\<open>float\<close> that starts as a whole number; dividing it by 1024 is exact, and after \<open>k\<close> divisions it is
  \<open>num / 1024 ^ k\<close>.
\<close>

function scale_unit :: "int \<Rightarrow> nat \<Rightarrow> int \<Rightarrow> nat \<times> int" where
  "scale_unit num k t = (if num > 1024 * 1024 ^ k then scale_unit num (k + 1) (t + 1) else (k, t))"
  by pat_completeness auto
termination
proof (relation "measure (\<lambda>(num, k, t). nat (num - 1024 ^ k))")
  fix num t :: int and k :: nat
  assume "num > 1024 * 1024 ^ k"
  moreover have "(0::int) < 1024 ^ k" by simp
  ultimately have "1024 ^ k < num" "(1024 :: int) ^ k < 1024 * 1024 ^ k" by linarith+
  then show "((num, k + 1, t + 1), (num, k, t)) \<in> measure (\<lambda>(num, k, t). nat (num - 1024 ^ k))" by simp
qed simp

declare scale_unit.simps [simp del]

definition round_half_even :: "nat \<Rightarrow> nat \<Rightarrow> nat" where
  "round_half_even a b = (let q = a div b; r = a mod b in if 2 * r > b \<or> 2 * r = b \<and> odd q then q + 1 else q)"

text \<open>\<^verbatim>\<open>%.2f\<close> of a positive fraction.\<close>

definition two_decimals :: "nat \<Rightarrow> nat \<Rightarrow> string" where
  "two_decimals a b = (let h = round_half_even (100 * a) b in decimal (h div 100) @ ''.'' @ zero_filled 2 (h mod 100))"

definition convert_num_unit :: "int \<Rightarrow> nat \<Rightarrow> int \<Rightarrow> string option" where
  "convert_num_unit num buf_size orig_type =
     (if num \<ge> 2 ^ 31 \<or> num < - (2 ^ 31) then None
      else if num = 0 then Some (printed buf_size (signed_decimal num))
      else if num > 0 \<and> num mod 512 > 0 \<and> num < 1024 then
        do { u \<leftarrow> unit_char orig_type; Some (printed buf_size (signed_decimal num @ u)) }
      else
        (let (k, t) = scale_unit num 0 orig_type in
         let t = (if t < UNIT_NONE \<or> t > UNIT_PETA then UNIT_UNKNOWN else t) in
         let i = num div 1024 ^ k in
         do { u \<leftarrow> unit_char t;
              Some (printed buf_size ((if num = i * 1024 ^ k then signed_decimal i
                else two_decimals (nat num) (1024 ^ k)) @ u)) }))"


section \<open>Lists of names\<close>

text \<open>
  What a call does that need not return: an access outside its memory, \<^verbatim>\<open>exit\<close> with a status (\<^verbatim>\<open>fatal\<close> exits with 1),
  or a result.
\<close>

datatype 'a run = Undefined | Exited nat | Returned 'a

fun run_bind :: "'a run \<Rightarrow> ('a \<Rightarrow> 'b run) \<Rightarrow> 'b run" where
  "run_bind Undefined k = Undefined"
| "run_bind (Exited n) k = Exited n"
| "run_bind (Returned x) k = k x"

definition of_option :: "'a option \<Rightarrow> 'a run" where
  "of_option r = (case r of None \<Rightarrow> Undefined | Some x \<Rightarrow> Returned x)"

text \<open>\<^verbatim>\<open>strcasecmp\<close> and \<^verbatim>\<open>strncasecmp\<close> of strings.\<close>

definition same_nocase :: "string \<Rightarrow> string \<Rightarrow> bool" where
  "same_nocase s t \<longleftrightarrow> map lower s = map lower t"

definition same_start :: "string \<Rightarrow> string \<Rightarrow> nat \<Rightarrow> bool" where
  "same_start s t n \<longleftrightarrow> map lower (take n s) = map lower (take n t)"

definition is_quote :: "char \<Rightarrow> bool" where
  "is_quote c \<longleftrightarrow> c = CHR 0x22 \<or> c = CHR 0x27"

text \<open>What \<^verbatim>\<open>memcpy (name, names + start, i - start)\<close> copies.\<close>

definition piece :: "string \<Rightarrow> nat \<Rightarrow> nat \<Rightarrow> string" where
  "piece a start i = take (i - start) (drop start a)"

text \<open>
  The loop over a list of names.  The four functions that have it differ in what they do with a name, and in whether
  they look (\<open>check_end\<close>) for the end of the string behind a comma.  The character behind a comma is not looked at
  otherwise.  Quotes inside become backquotes, in the string itself; the quote it starts with ends it.
\<close>

function name_loop ::
    "bool \<Rightarrow> (string \<Rightarrow> 's \<Rightarrow> 's run) \<Rightarrow> char option \<Rightarrow> string \<Rightarrow> nat \<Rightarrow> nat \<Rightarrow> 's \<Rightarrow> (string \<times> nat \<times> nat \<times> 's) run" where
  "name_loop check_end add q a i start s =
     (case char_at a i of
        None \<Rightarrow> Undefined
      | Some c \<Rightarrow>
          if c = NUL \<or> q = Some c then Returned (a, i, start, s)
          else if is_quote c then name_loop check_end add q (a[i := CHR 0x60]) (i + 1) start s
          else if c = CHR '','' then
            run_bind (add (piece a start i) s) (\<lambda>s.
              if check_end then
                (case char_at a (i + 1) of
                   None \<Rightarrow> Undefined
                 | Some d \<Rightarrow> if d = NUL then Returned (a, i + 1, i + 1, s) else name_loop check_end add q a (i + 2) (i + 1) s)
              else name_loop check_end add q a (i + 2) (i + 1) s)
          else name_loop check_end add q a (i + 1) start s)"
  by pat_completeness auto
termination
  by (relation "measure (\<lambda>(_, _, _, a, i, _). length a - i)") (auto simp: char_at_def split: if_splits)

declare name_loop.simps [simp del]

text \<open>A call with a string: the opening quote, the loop, and the last name.\<close>

definition each_name :: "bool \<Rightarrow> (string \<Rightarrow> 's \<Rightarrow> 's run) \<Rightarrow> string \<Rightarrow> 's \<Rightarrow> (string \<times> 's) run" where
  "each_name check_end add names s =
     (case char_at names 0 of
        None \<Rightarrow> Undefined
      | Some c \<Rightarrow>
          (let i = (if is_quote c then 1 else 0) in
           run_bind (name_loop check_end add (if is_quote c then Some c else None) names i i s) (\<lambda>(a, i, start, s).
           run_bind (add (piece a start i) s) (\<lambda>s. Returned (a, s)))))"

definition make_lower :: "string \<Rightarrow> string" where
  "make_lower change = map lower change"

text \<open>
  A name that is there already, in upper or lower case, is taken out where it stands; the name goes to the end.
\<close>

fun delete_same :: "string \<Rightarrow> string list \<Rightarrow> string list option" where
  "delete_same name [] = None"
| "delete_same name (t # ts) = (if same_nocase t name then Some ts else map_option (Cons t) (delete_same name ts))"

definition add_name :: "string \<Rightarrow> nat \<times> string list \<Rightarrow> (nat \<times> string list) run" where
  "add_name raw s = (let name = text_of raw; (count, char_list) = s in
     case delete_same name char_list of
       Some ts \<Rightarrow> Returned (count, ts @ [make_lower name])
     | None \<Rightarrow> Returned (count + 1, char_list @ [make_lower name]))"

text \<open>The result is the count, the list, and what the call has made of the string.\<close>

definition slurm_addto_char_list :: "string list option \<Rightarrow> string option \<Rightarrow> (nat \<times> string list option \<times> string option) run" where
  "slurm_addto_char_list char_list names =
     (case char_list of
        None \<Rightarrow> Returned (0, None, names)
      | Some ts \<Rightarrow> (case names of
          None \<Rightarrow> Returned (0, Some ts, None)
        | Some a \<Rightarrow> run_bind (each_name True add_name a (0, ts)) (\<lambda>(a, count, ts). Returned (count, Some ts, Some a))))"

text \<open>\<^verbatim>\<open>strcmp\<close>, and the comparison functions built on it.\<close>

fun strcmp :: "string \<Rightarrow> string \<Rightarrow> int" where
  "strcmp [] [] = 0"
| "strcmp [] (d # t) = - code d"
| "strcmp (c # s) [] = code c"
| "strcmp (c # s) (d # t) = (if c = d then strcmp s t else code c - code d)"

definition slurm_sort_char_list_asc :: "string \<Rightarrow> string \<Rightarrow> int" where
  "slurm_sort_char_list_asc name_a name_b = sgn (strcmp name_a name_b)"

definition slurm_sort_char_list_desc :: "string \<Rightarrow> string \<Rightarrow> int" where
  "slurm_sort_char_list_desc name_a name_b = - sgn (strcmp name_a name_b)"

end
