(* ===== verification/Print.thy ===== *)
theory Print
  imports Print_fields Protocol_text
begin

text \<open>
  One row of the table of \<^verbatim>\<open>sacct\<close>, \<^verbatim>\<open>src/print.c\<close>, and \<^verbatim>\<open>find_hostname\<close> of \<^verbatim>\<open>src/process.c\<close>; without
  \<^verbatim>\<open>NEWQUERY\<close>, as the build has it.  Every column is a definition of its own, with the cases of the \<^verbatim>\<open>switch\<close>
  over what is printed: a job, a step of a job, or a record of the job completion log.

  What the code asks the system is in the record \<open>env\<close>: the clock, user and group names, host lists, the list of QOS
  records, and what lies in memory behind a string.
\<close>

datatype (plugins only: size) print_type =
    PRINT_ALLOC_CPUS | PRINT_ACCOUNT | PRINT_ASSOCID | PRINT_AVECPU | PRINT_AVEPAGES | PRINT_AVERSS | PRINT_AVEVSIZE
  | PRINT_BLOCKID | PRINT_CLUSTER | PRINT_CPU_TIME | PRINT_CPU_TIME_RAW | PRINT_ELAPSED | PRINT_ELIGIBLE | PRINT_END
  | PRINT_EXITCODE | PRINT_GID | PRINT_GROUP | PRINT_JOBID | PRINT_JOBNAME | PRINT_LAYOUT | PRINT_MAXPAGES
  | PRINT_MAXPAGESNODE | PRINT_MAXPAGESTASK | PRINT_MAXRSS | PRINT_MAXRSSNODE | PRINT_MAXRSSTASK | PRINT_MAXVSIZE
  | PRINT_MAXVSIZENODE | PRINT_MAXVSIZETASK | PRINT_MINCPU | PRINT_MINCPUNODE | PRINT_MINCPUTASK | PRINT_NODELIST
  | PRINT_NNODES | PRINT_NTASKS | PRINT_PRIO | PRINT_PARTITION | PRINT_QOS | PRINT_QOSRAW | PRINT_REQ_CPUS | PRINT_RESV
  | PRINT_RESV_CPU | PRINT_RESV_CPU_RAW | PRINT_START | PRINT_STATE | PRINT_SUBMIT | PRINT_SUSPENDED | PRINT_SYSTEMCPU
  | PRINT_TIMELIMIT | PRINT_TOTALCPU | PRINT_UID | PRINT_USER | PRINT_USERCPU | PRINT_WCKEY | PRINT_WCKEYID

type_synonym field = "print_type print_field"

record jobcomp_job_rec =
  jc_jobid :: u32
  jc_partition :: cptr
  jc_start_time :: cptr
  jc_end_time :: cptr
  jc_uid :: u32
  jc_uid_name :: cptr
  jc_gid :: u32
  jc_gid_name :: cptr
  jc_node_cnt :: u32
  jc_nodelist :: cptr
  jc_jobname :: cptr
  jc_state :: cptr
  jc_timelimit :: cptr
  jc_blockid :: cptr
  jc_connection :: cptr
  jc_reboot :: cptr
  jc_rotate :: cptr
  jc_max_procs :: u32
  jc_geo :: cptr
  jc_bg_start_point :: cptr

record qos_rec =
  qos_id :: u32
  qos_name :: cptr

record env =
  e_parsable :: parsable
  e_clock :: clock
  e_widen :: "int \<Rightarrow> int option"
  e_behind :: "string \<Rightarrow> string"
  e_hostlist_nth :: "string \<Rightarrow> u32 \<Rightarrow> string option"
  e_hostlist_count :: "string option \<Rightarrow> int"
  e_getpwnam :: "string \<Rightarrow> u32 option"
  e_getpwuid :: "u32 \<Rightarrow> string option"
  e_getgrgid :: "u32 \<Rightarrow> string option"
  e_get_qos :: "qos_rec list option"

text \<open>What is printed; for a job also \<^verbatim>\<open>step\<close>, its first step when it tracks none.\<close>

datatype object =
    Job jobacct_job_rec "jobacct_step_rec option"
  | Jobstep jobacct_step_rec jobacct_job_rec
  | Jobcomp jobcomp_job_rec


section \<open>Values\<close>

text \<open>Conversions to \<^verbatim>\<open>int\<close>; that of a float that does not fit is undefined.\<close>

definition int_of :: "u32 \<Rightarrow> int" where "int_of w = sint w"

definition int_of_time :: "u64 \<Rightarrow> int" where "int_of_time w = sint (ucast w :: u32)"

definition int_of_float :: "rat \<Rightarrow> int option" where
  "int_of_float v = (if - (2 ^ 31) - 1 < v \<and> v < 2 ^ 31 then Some (cut v) else None)"

definition no_int :: int where "no_int = sint NO_VAL"

text \<open>A pointer to a string: NULL, or the characters from there on.\<close>

definition mem :: "env \<Rightarrow> string \<Rightarrow> string" where "mem e a = a @ e_behind e a"

definition text_at :: "env \<Rightarrow> cptr \<Rightarrow> string option" where
  "text_at e p = map_option (\<lambda>bs. mem e (map (\<lambda>b. char_of (unat b)) bs)) p"

definition text_new :: "env \<Rightarrow> string \<Rightarrow> string option" where
  "text_new e s = Some (mem e (s @ [NUL]))"

text \<open>The seconds that whole microseconds carry over.\<close>

function carry_secs :: "int \<Rightarrow> int \<Rightarrow> int \<times> int" where
  "carry_secs secs usecs = (if usecs \<ge> 1000000 then carry_secs (secs + 1) (usecs - 1000000) else (secs, usecs))"
  by pat_completeness auto
termination
  by (relation "measure (\<lambda>(_, u). nat u)") auto

declare carry_secs.simps [simp del]

definition elapsed_time :: "int \<Rightarrow> int \<Rightarrow> string option" where
  "elapsed_time secs usecs =
     (if secs < 0 \<or> secs = uint NO_VAL then None
      else
        (let (secs, usecs) = carry_secs secs usecs;
             subsec = (if usecs > 0 then usecs div 1000 else 0);
             seconds = nat (secs mod 60); minutes = nat (secs div 60 mod 60);
             hours = nat (secs div 3600 mod 24); days = nat (secs div 86400) in
         if days \<noteq> 0 then Some (days_text days hours minutes seconds)
         else if hours \<noteq> 0 then Some (days_text 0 hours minutes seconds)
         else if subsec \<noteq> 0 then Some (zero_filled 2 minutes @ '':'' @ zero_filled 2 seconds @ ''.'' @ zero_filled 3 (nat subsec))
         else Some (''00:'' @ zero_filled 2 minutes @ '':'' @ zero_filled 2 seconds)))"

definition find_qos_name_from_list :: "env \<Rightarrow> qos_rec list option \<Rightarrow> int \<Rightarrow> string option" where
  "find_qos_name_from_list e qos_list qosid =
     (case qos_list of None \<Rightarrow> None
      | Some qs \<Rightarrow>
          if qosid = no_int then None
          else (case List.find (\<lambda>q. qos_id q = word_of_int qosid) qs of
              Some q \<Rightarrow> text_at e (qos_name q)
            | None \<Rightarrow> text_new e ''Unknown''))"

definition slurm_step_layout_type_name :: "u16 \<Rightarrow> string" where
  "slurm_step_layout_type_name task_dist =
     (if task_dist = 1 then ''Cyclic''
      else if task_dist = 2 then ''Block''
      else if task_dist = 3 then ''Arbitrary''
      else if task_dist = 4 then ''Plane''
      else if task_dist = 5 then ''CCyclic''
      else if task_dist = 6 then ''CBlock''
      else if task_dist = 7 then ''BCyclic''
      else if task_dist = 8 then ''BBlock''
      else ''Unknown'')"

definition find_hostname :: "env \<Rightarrow> u32 \<Rightarrow> cptr \<Rightarrow> string option option" where
  "find_hostname e pos hosts =
     (case text_at e hosts of None \<Rightarrow> Some None
      | Some m \<Rightarrow> if pos = NO_VAL then Some None
          else do { hs \<leftarrow> c_text m; Some (Option.bind (e_hostlist_nth e hs pos) (text_new e)) })"

text \<open>The buffer \<^verbatim>\<open>outbuf\<close> of \<^verbatim>\<open>FORMAT_STRING_SIZE\<close> characters keeps what a \<^verbatim>\<open>snprintf\<close> leaves in it.\<close>

definition FORMAT_STRING_SIZE :: nat where "FORMAT_STRING_SIZE = 34"

definition outbuf_store :: "string \<Rightarrow> string \<Rightarrow> string" where
  "outbuf_store outbuf s = (let t = printed FORMAT_STRING_SIZE s in t @ NUL # drop (length t + 1) outbuf)"

definition outbuf_convert :: "string \<Rightarrow> int \<Rightarrow> int \<Rightarrow> string option" where
  "outbuf_convert outbuf v orig_type = map_option (outbuf_store outbuf)
     (convert_num_unit (cut (fl32 (of_int v))) FORMAT_STRING_SIZE orig_type)"


section \<open>Columns\<close>

text \<open>
  In a \<^verbatim>\<open>switch\<close> the case of a job with a step falls through to that of the step in some columns.  A column that a
  case does not set keeps \<^verbatim>\<open>NO_VAL\<close> or NULL.
\<close>

definition print_alloc_cpus :: "object \<Rightarrow> print_arg" where
  "print_alloc_cpus ob = Arg_int (case ob of
       Job j None \<Rightarrow> int_of (j_alloc_cpus j) | Job j (Some s) \<Rightarrow> int_of (st_ncpus s)
     | Jobstep s j \<Rightarrow> int_of (st_ncpus s) | Jobcomp c \<Rightarrow> no_int)"

definition print_account :: "env \<Rightarrow> object \<Rightarrow> print_arg" where
  "print_account e ob = Arg_str (case ob of
       Job j s \<Rightarrow> text_at e (j_account j) | Jobstep s j \<Rightarrow> text_at e (j_account j) | Jobcomp c \<Rightarrow> text_new e ''n/a'')"

definition print_associd :: "object \<Rightarrow> print_arg" where
  "print_associd ob = Arg_int (case ob of
       Job j s \<Rightarrow> int_of (j_associd j) | Jobstep s j \<Rightarrow> int_of (j_associd j) | Jobcomp c \<Rightarrow> no_int)"

text \<open>A counter of the usage, of a step or of a job that tracks no steps.\<close>

definition usage_int :: "object \<Rightarrow> (sacct \<Rightarrow> int option) \<Rightarrow> int option" where
  "usage_int ob counter = (case ob of
       Job j s \<Rightarrow> (if j_track_steps j = 0 then counter (j_sacct j) else Some no_int)
     | Jobstep s j \<Rightarrow> counter (st_sacct s) | Jobcomp c \<Rightarrow> Some no_int)"

definition elapsed_arg :: "env \<Rightarrow> int \<Rightarrow> int \<Rightarrow> print_arg" where
  "elapsed_arg e secs usecs = Arg_str (Option.bind (elapsed_time secs usecs) (text_new e))"

definition print_avecpu :: "env \<Rightarrow> object \<Rightarrow> print_arg option" where
  "print_avecpu e ob = map_option (\<lambda>v. elapsed_arg e v 0) (usage_int ob (\<lambda>u. int_of_float (sa_ave_cpu u)))"

text \<open>
  Sizes are written to \<^verbatim>\<open>outbuf\<close>, unless there is none: then the buffer is printed as it is.
\<close>

definition size_arg :: "env \<Rightarrow> string \<Rightarrow> int \<Rightarrow> (print_arg \<times> string) option" where
  "size_arg e outbuf v = do {
     outbuf \<leftarrow> (if v \<noteq> no_int then outbuf_convert outbuf v UNIT_KILO else Some outbuf);
     Some (Arg_str (Some (mem e outbuf)), outbuf)
   }"

definition print_avepages :: "env \<Rightarrow> object \<Rightarrow> string \<Rightarrow> (print_arg \<times> string) option" where
  "print_avepages e ob outbuf = Option.bind (usage_int ob (\<lambda>u. int_of_float (sa_ave_pages u))) (size_arg e outbuf)"

definition print_averss :: "env \<Rightarrow> object \<Rightarrow> string \<Rightarrow> (print_arg \<times> string) option" where
  "print_averss e ob outbuf = Option.bind (usage_int ob (\<lambda>u. int_of_float (sa_ave_rss u))) (size_arg e outbuf)"

definition print_avevsize :: "env \<Rightarrow> object \<Rightarrow> string \<Rightarrow> (print_arg \<times> string) option" where
  "print_avevsize e ob outbuf = Option.bind (usage_int ob (\<lambda>u. int_of_float (sa_ave_vsize u))) (size_arg e outbuf)"

definition print_blockid :: "env \<Rightarrow> object \<Rightarrow> print_arg" where
  "print_blockid e ob = Arg_str (case ob of
       Job j s \<Rightarrow> text_at e (j_blockid j) | Jobstep s j \<Rightarrow> None | Jobcomp c \<Rightarrow> text_at e (jc_blockid c))"

definition print_cluster :: "env \<Rightarrow> object \<Rightarrow> print_arg" where
  "print_cluster e ob = Arg_str (case ob of
       Job j s \<Rightarrow> text_at e (j_cluster j) | Jobstep s j \<Rightarrow> text_at e (j_cluster j) | Jobcomp c \<Rightarrow> None)"

definition print_cpu_time :: "object \<Rightarrow> print_arg" where
  "print_cpu_time ob = Arg_int (case ob of
       Job j s \<Rightarrow> int_of (j_elapsed j * j_alloc_cpus j) | Jobstep s j \<Rightarrow> int_of (st_elapsed s * st_ncpus s)
     | Jobcomp c \<Rightarrow> no_int)"

definition print_cpu_time_raw :: "object \<Rightarrow> print_arg" where
  "print_cpu_time_raw ob = Arg_int (case ob of
       Job j s \<Rightarrow> int_of (j_elapsed j * j_alloc_cpus j) | Jobstep s j \<Rightarrow> int_of (st_elapsed s * st_ncpus s)
     | Jobcomp c \<Rightarrow> no_int)"

text \<open>For a record of the completion log two pointers to different strings are subtracted.\<close>

definition print_elapsed :: "object \<Rightarrow> print_arg option" where
  "print_elapsed ob = (case ob of
       Job j s \<Rightarrow> Some (Arg_int (int_of (j_elapsed j))) | Jobstep s j \<Rightarrow> Some (Arg_int (int_of (st_elapsed s)))
     | Jobcomp c \<Rightarrow> None)"

definition print_eligible :: "object \<Rightarrow> print_arg" where
  "print_eligible ob = Arg_int (case ob of
       Job j s \<Rightarrow> int_of_time (j_eligible j) | Jobstep s j \<Rightarrow> int_of_time (st_start s) | Jobcomp c \<Rightarrow> no_int)"

definition parsed_time :: "env \<Rightarrow> cptr \<Rightarrow> int option" where
  "parsed_time e p = do { m \<leftarrow> text_at e p; t \<leftarrow> parse_time (e_clock e) m True; Some (int_of (word_of_int t)) }"

definition print_end :: "env \<Rightarrow> object \<Rightarrow> print_arg option" where
  "print_end e ob = map_option Arg_int (case ob of
       Job j s \<Rightarrow> Some (int_of_time (j_end j)) | Jobstep s j \<Rightarrow> Some (int_of_time (st_end s))
     | Jobcomp c \<Rightarrow> parsed_time e (jc_end_time c))"

text \<open>The macros of \<^verbatim>\<open>sys/wait.h\<close>.\<close>

definition WTERMSIG :: "i32 \<Rightarrow> int" where "WTERMSIG status = uint (and status 0x7f)"

definition WIFSIGNALED :: "i32 \<Rightarrow> bool" where "WIFSIGNALED status \<longleftrightarrow> 0 < WTERMSIG status \<and> WTERMSIG status < 0x7f"

definition WEXITSTATUS :: "i32 \<Rightarrow> int" where "WEXITSTATUS status = uint (and status 0xff00) div 256"

definition print_exitcode :: "env \<Rightarrow> object \<Rightarrow> string \<Rightarrow> (print_arg \<times> string) option" where
  "print_exitcode e ob outbuf =
     (let status = (case ob of Job j s \<Rightarrow> j_exitcode j | Jobstep s j \<Rightarrow> st_exitcode s | Jobcomp c \<Rightarrow> 0);
          sig = (if WIFSIGNALED status then WTERMSIG status else 0);
          outbuf = outbuf_store outbuf (signed_decimal (WEXITSTATUS status) @ '':'' @ signed_decimal sig)
      in Some (Arg_str (Some (mem e outbuf)), outbuf))"

definition gid_of :: "object \<Rightarrow> u32" where
  "gid_of ob = (case ob of Job j s \<Rightarrow> j_gid j | Jobstep s j \<Rightarrow> NO_VAL | Jobcomp c \<Rightarrow> jc_gid c)"

definition print_gid :: "object \<Rightarrow> print_arg" where
  "print_gid ob = Arg_int (int_of (gid_of ob))"

definition print_group :: "env \<Rightarrow> object \<Rightarrow> print_arg" where
  "print_group e ob = Arg_str (Option.bind (e_getgrgid e (gid_of ob)) (text_new e))"

definition print_jobid :: "env \<Rightarrow> object \<Rightarrow> print_arg" where
  "print_jobid e ob = Arg_str (text_new e (case ob of
       Job j s \<Rightarrow> decimal (unat (j_jobid j))
     | Jobstep s j \<Rightarrow> decimal (unat (j_jobid j)) @ ''.'' @ decimal (unat (st_stepid s))
     | Jobcomp c \<Rightarrow> decimal (unat (jc_jobid c))))"

definition print_jobname :: "env \<Rightarrow> object \<Rightarrow> print_arg" where
  "print_jobname e ob = Arg_str (text_at e (case ob of
       Job j s \<Rightarrow> j_jobname j | Jobstep s j \<Rightarrow> st_stepname s | Jobcomp c \<Rightarrow> jc_jobname c))"

text \<open>A job that tracks no steps has the layout of its first step.\<close>

definition print_layout :: "env \<Rightarrow> object \<Rightarrow> print_arg option" where
  "print_layout e ob = map_option Arg_str (case ob of
       Job j s \<Rightarrow> (if j_track_steps j = 0 then map_option (\<lambda>s. text_new e (slurm_step_layout_type_name (st_task_dist s))) s
                 else Some None)
     | Jobstep s j \<Rightarrow> Some (text_new e (slurm_step_layout_type_name (st_task_dist s)))
     | Jobcomp c \<Rightarrow> Some None)"

text \<open>The host and the task of the largest and least counters.\<close>

definition usage_host :: "env \<Rightarrow> object \<Rightarrow> (sacct \<Rightarrow> jobacct_id) \<Rightarrow> print_arg option" where
  "usage_host e ob who = map_option Arg_str (case ob of
       Job j s \<Rightarrow> (if j_track_steps j = 0 then find_hostname e (nodeid (who (j_sacct j))) (j_nodes j) else Some None)
     | Jobstep s j \<Rightarrow> find_hostname e (nodeid (who (st_sacct s))) (st_nodes s)
     | Jobcomp c \<Rightarrow> Some None)"

definition usage_task :: "object \<Rightarrow> (sacct \<Rightarrow> jobacct_id) \<Rightarrow> print_arg" where
  "usage_task ob who = Arg_int (case ob of
       Job j s \<Rightarrow> (if j_track_steps j = 0 then uint (taskid (who (j_sacct j))) else no_int)
     | Jobstep s j \<Rightarrow> uint (taskid (who (st_sacct s)))
     | Jobcomp c \<Rightarrow> no_int)"

definition print_maxpages :: "env \<Rightarrow> object \<Rightarrow> string \<Rightarrow> (print_arg \<times> string) option" where
  "print_maxpages e ob outbuf = Option.bind (usage_int ob (\<lambda>u. Some (int_of (sa_max_pages u)))) (size_arg e outbuf)"

definition print_maxpagesnode :: "env \<Rightarrow> object \<Rightarrow> print_arg option" where
  "print_maxpagesnode e ob = usage_host e ob sa_max_pages_id"

definition print_maxpagestask :: "object \<Rightarrow> print_arg" where
  "print_maxpagestask ob = usage_task ob sa_max_pages_id"

definition print_maxrss :: "env \<Rightarrow> object \<Rightarrow> string \<Rightarrow> (print_arg \<times> string) option" where
  "print_maxrss e ob outbuf = Option.bind (usage_int ob (\<lambda>u. Some (int_of (sa_max_rss u)))) (size_arg e outbuf)"

definition print_maxrssnode :: "env \<Rightarrow> object \<Rightarrow> print_arg option" where
  "print_maxrssnode e ob = usage_host e ob sa_max_rss_id"

definition print_maxrsstask :: "object \<Rightarrow> print_arg" where
  "print_maxrsstask ob = usage_task ob sa_max_rss_id"

definition print_maxvsize :: "env \<Rightarrow> object \<Rightarrow> string \<Rightarrow> (print_arg \<times> string) option" where
  "print_maxvsize e ob outbuf = Option.bind (usage_int ob (\<lambda>u. Some (int_of (sa_max_vsize u)))) (size_arg e outbuf)"

definition print_maxvsizenode :: "env \<Rightarrow> object \<Rightarrow> print_arg option" where
  "print_maxvsizenode e ob = usage_host e ob sa_max_vsize_id"

definition print_maxvsizetask :: "object \<Rightarrow> print_arg" where
  "print_maxvsizetask ob = usage_task ob sa_max_vsize_id"

definition print_mincpu :: "env \<Rightarrow> object \<Rightarrow> print_arg option" where
  "print_mincpu e ob = map_option (\<lambda>v. elapsed_arg e v 0) (usage_int ob (\<lambda>u. int_of_float (sa_min_cpu u)))"

definition print_mincpunode :: "env \<Rightarrow> object \<Rightarrow> print_arg option" where
  "print_mincpunode e ob = usage_host e ob sa_min_cpu_id"

definition print_mincputask :: "object \<Rightarrow> print_arg" where
  "print_mincputask ob = usage_task ob sa_min_cpu_id"

definition print_nodelist :: "env \<Rightarrow> object \<Rightarrow> print_arg" where
  "print_nodelist e ob = Arg_str (text_at e (case ob of
       Job j s \<Rightarrow> j_nodes j | Jobstep s j \<Rightarrow> st_nodes s | Jobcomp c \<Rightarrow> jc_nodelist c))"

text \<open>When the number of nodes is not known, the hosts of the list are counted.\<close>

definition node_count :: "object \<Rightarrow> int \<times> cptr" where
  "node_count ob = (case ob of
       Job j s \<Rightarrow> (int_of (j_alloc_nodes j), j_nodes j) | Jobstep s j \<Rightarrow> (int_of (st_nnodes s), st_nodes s)
     | Jobcomp c \<Rightarrow> (int_of (jc_node_cnt c), jc_nodelist c))"

definition print_nnodes :: "env \<Rightarrow> object \<Rightarrow> string \<Rightarrow> (print_arg \<times> string) option" where
  "print_nnodes e ob outbuf = do {
     n \<leftarrow> (if fst (node_count ob) \<noteq> 0 then Some (fst (node_count ob))
          else case text_at e (snd (node_count ob)) of None \<Rightarrow> Some (e_hostlist_count e None)
            | Some m \<Rightarrow> do { hs \<leftarrow> c_text m; Some (e_hostlist_count e (Some hs)) });
     outbuf \<leftarrow> outbuf_convert outbuf n UNIT_NONE;
     Some (Arg_str (Some (mem e outbuf)), outbuf)
   }"

definition print_ntasks :: "object \<Rightarrow> print_arg" where
  "print_ntasks ob = Arg_int (case ob of
       Job j None \<Rightarrow> (if j_track_steps j = 0 then int_of (j_alloc_cpus j) else no_int)
     | Job j (Some s) \<Rightarrow> int_of (st_ntasks s) | Jobstep s j \<Rightarrow> int_of (st_ntasks s) | Jobcomp c \<Rightarrow> no_int)"

definition print_prio :: "object \<Rightarrow> print_arg" where
  "print_prio ob = Arg_int (case ob of Job j s \<Rightarrow> int_of (j_priority j) | _ \<Rightarrow> no_int)"

definition print_partition :: "env \<Rightarrow> object \<Rightarrow> print_arg" where
  "print_partition e ob = Arg_str (case ob of
       Job j s \<Rightarrow> text_at e (j_partition j) | Jobstep s j \<Rightarrow> None | Jobcomp c \<Rightarrow> text_at e (jc_partition c))"

definition qos_of :: "object \<Rightarrow> int" where
  "qos_of ob = (case ob of Job j s \<Rightarrow> uint (j_qos j) | _ \<Rightarrow> no_int)"

text \<open>The list of QOS records is asked for once.\<close>

definition print_qos :: "env \<Rightarrow> object \<Rightarrow> qos_rec list option \<Rightarrow> print_arg \<times> qos_rec list option" where
  "print_qos e ob qos_list =
     (let qos_list = (case qos_list of None \<Rightarrow> e_get_qos e | Some qs \<Rightarrow> Some qs)
      in (Arg_str (find_qos_name_from_list e qos_list (qos_of ob)), qos_list))"

definition print_qosraw :: "object \<Rightarrow> print_arg" where
  "print_qosraw ob = Arg_int (qos_of ob)"

definition print_req_cpus :: "object \<Rightarrow> print_arg" where
  "print_req_cpus ob = Arg_int (case ob of
       Job j s \<Rightarrow> int_of (j_req_cpus j) | Jobstep s j \<Rightarrow> int_of (st_ncpus s) | Jobcomp c \<Rightarrow> no_int)"

text \<open>The time a job waited, up to now when it has not started.\<close>

definition waited :: "env \<Rightarrow> jobacct_job_rec \<Rightarrow> u64" where
  "waited e j = (if j_start j \<noteq> 0 then j_start j else word_of_int (time_now (e_clock e))) - j_eligible j"

definition print_resv :: "env \<Rightarrow> object \<Rightarrow> print_arg" where
  "print_resv e ob = Arg_int (case ob of Job j s \<Rightarrow> int_of_time (waited e j) | _ \<Rightarrow> no_int)"

definition print_resv_cpu :: "env \<Rightarrow> object \<Rightarrow> print_arg" where
  "print_resv_cpu e ob = Arg_int (case ob of Job j s \<Rightarrow> int_of_time (waited e j * ucast (j_req_cpus j)) | _ \<Rightarrow> no_int)"

definition print_resv_cpu_raw :: "env \<Rightarrow> object \<Rightarrow> print_arg" where
  "print_resv_cpu_raw e ob = Arg_int (case ob of Job j s \<Rightarrow> int_of_time (waited e j * ucast (j_req_cpus j)) | _ \<Rightarrow> no_int)"

definition print_start :: "env \<Rightarrow> object \<Rightarrow> print_arg option" where
  "print_start e ob = map_option Arg_int (case ob of
       Job j s \<Rightarrow> Some (int_of_time (j_start j)) | Jobstep s j \<Rightarrow> Some (int_of_time (st_start s))
     | Jobcomp c \<Rightarrow> parsed_time e (jc_start_time c))"

text \<open>
  The state; a cancelled job also names who cancelled it, \<^verbatim>\<open>- 1\<close> when nobody did.
\<close>

definition state_of :: "env \<Rightarrow> object \<Rightarrow> int \<times> int \<times> string option" where
  "state_of e ob = (case ob of
       Job j s \<Rightarrow> (int_of (j_state j), int_of (j_requid j), None)
     | Jobstep s j \<Rightarrow> (int_of (st_state s), int_of (st_requid s), None)
     | Jobcomp c \<Rightarrow> (no_int, no_int, text_at e (jc_state c)))"

definition print_job_state :: "env \<Rightarrow> object \<Rightarrow> string \<Rightarrow> (print_arg \<times> string) option" where
  "print_job_state e ob outbuf = (case state_of e ob of (st, requid, name) \<Rightarrow> do {
     outbuf \<leftarrow>
       (if st = JOB_CANCELLED \<and> requid \<noteq> no_int
        then Some (outbuf_store outbuf (job_state_string (word_of_int st) @ '' by '' @ signed_decimal requid))
        else if st \<noteq> no_int then Some (outbuf_store outbuf (job_state_string (word_of_int st)))
        else case name of None \<Rightarrow> Some outbuf | Some m \<Rightarrow> map_option (outbuf_store outbuf) (c_text m));
     Some (Arg_str (Some (mem e outbuf)), outbuf)
   })"

definition print_submit :: "env \<Rightarrow> object \<Rightarrow> print_arg option" where
  "print_submit e ob = map_option Arg_int (case ob of
       Job j s \<Rightarrow> Some (int_of_time (j_submit j)) | Jobstep s j \<Rightarrow> Some (int_of_time (st_start s))
     | Jobcomp c \<Rightarrow> parsed_time e (jc_start_time c))"

definition print_suspended :: "object \<Rightarrow> print_arg" where
  "print_suspended ob = Arg_int (case ob of
       Job j s \<Rightarrow> int_of (j_suspended j) | Jobstep s j \<Rightarrow> int_of (st_suspended s) | Jobcomp c \<Rightarrow> no_int)"

definition print_systemcpu :: "env \<Rightarrow> object \<Rightarrow> print_arg" where
  "print_systemcpu e ob = (case ob of
       Job j s \<Rightarrow> elapsed_arg e (int_of (j_sys_cpu_sec j)) (int_of (j_sys_cpu_usec j))
     | Jobstep s j \<Rightarrow> elapsed_arg e (int_of (st_sys_cpu_sec s)) (int_of (st_sys_cpu_usec s))
     | Jobcomp c \<Rightarrow> elapsed_arg e no_int no_int)"

definition print_timelimit :: "env \<Rightarrow> object \<Rightarrow> print_arg" where
  "print_timelimit e ob = Arg_str (case ob of Jobcomp c \<Rightarrow> text_at e (jc_timelimit c) | _ \<Rightarrow> None)"

definition print_totalcpu :: "env \<Rightarrow> object \<Rightarrow> print_arg" where
  "print_totalcpu e ob = (case ob of
       Job j s \<Rightarrow> elapsed_arg e (int_of (j_tot_cpu_sec j)) (int_of (j_tot_cpu_usec j))
     | Jobstep s j \<Rightarrow> elapsed_arg e (int_of (st_tot_cpu_sec s)) (int_of (st_tot_cpu_usec s))
     | Jobcomp c \<Rightarrow> elapsed_arg e no_int no_int)"

definition print_uid :: "env \<Rightarrow> object \<Rightarrow> print_arg option" where
  "print_uid e ob = map_option Arg_int (case ob of
       Job j s \<Rightarrow> (case text_at e (j_user j) of
           None \<Rightarrow> Some (int_of (j_uid j))
         | Some m \<Rightarrow> do { name \<leftarrow> c_text m; Some (case e_getpwnam e name of None \<Rightarrow> no_int | Some u \<Rightarrow> int_of u) })
     | Jobstep s j \<Rightarrow> Some no_int | Jobcomp c \<Rightarrow> Some (int_of (jc_uid c)))"

definition print_user :: "env \<Rightarrow> object \<Rightarrow> print_arg" where
  "print_user e ob = Arg_str (case ob of
       Job j s \<Rightarrow> (case text_at e (j_user j) of
           Some m \<Rightarrow> Some m
         | None \<Rightarrow> if j_uid j \<noteq> - 1 then Option.bind (e_getpwuid e (j_uid j)) (text_new e) else None)
     | Jobstep s j \<Rightarrow> None | Jobcomp c \<Rightarrow> text_at e (jc_uid_name c))"

text \<open>For a job the microseconds are those of the total time.\<close>

definition print_usercpu :: "env \<Rightarrow> object \<Rightarrow> print_arg" where
  "print_usercpu e ob = (case ob of
       Job j s \<Rightarrow> elapsed_arg e (int_of (j_user_cpu_sec j)) (int_of (j_tot_cpu_usec j))
     | Jobstep s j \<Rightarrow> elapsed_arg e (int_of (st_user_cpu_sec s)) (int_of (st_user_cpu_usec s))
     | Jobcomp c \<Rightarrow> elapsed_arg e no_int no_int)"

definition print_wckey :: "env \<Rightarrow> object \<Rightarrow> print_arg" where
  "print_wckey e ob = Arg_str (case ob of Job j s \<Rightarrow> text_at e (j_wckey j) | _ \<Rightarrow> None)"

definition print_wckeyid :: "object \<Rightarrow> print_arg" where
  "print_wckeyid ob = Arg_int (case ob of Job j s \<Rightarrow> int_of (j_wckeyid j) | _ \<Rightarrow> no_int)"


section \<open>Rows\<close>

text \<open>What lives while a row is printed: \<^verbatim>\<open>outbuf\<close>, and the global list of QOS records.\<close>

record row_state =
  r_outbuf :: string
  r_qos :: "qos_rec list option"

definition with_outbuf :: "(print_arg \<times> string) option \<Rightarrow> row_state \<Rightarrow> (print_arg \<times> row_state) option" where
  "with_outbuf r st = map_option (\<lambda>(arg, outbuf). (arg, st\<lparr>r_outbuf := outbuf\<rparr>)) r"

definition plain :: "row_state \<Rightarrow> print_arg option \<Rightarrow> (print_arg \<times> row_state) option" where
  "plain st r = map_option (\<lambda>arg. (arg, st)) r"

fun field_arg :: "env \<Rightarrow> object \<Rightarrow> row_state \<Rightarrow> print_type \<Rightarrow> (print_arg \<times> row_state) option" where
  "field_arg e ob st PRINT_ALLOC_CPUS = plain st (Some (print_alloc_cpus ob))"
| "field_arg e ob st PRINT_ACCOUNT = plain st (Some (print_account e ob))"
| "field_arg e ob st PRINT_ASSOCID = plain st (Some (print_associd ob))"
| "field_arg e ob st PRINT_AVECPU = plain st (print_avecpu e ob)"
| "field_arg e ob st PRINT_AVEPAGES = with_outbuf (print_avepages e ob (r_outbuf st)) st"
| "field_arg e ob st PRINT_AVERSS = with_outbuf (print_averss e ob (r_outbuf st)) st"
| "field_arg e ob st PRINT_AVEVSIZE = with_outbuf (print_avevsize e ob (r_outbuf st)) st"
| "field_arg e ob st PRINT_BLOCKID = plain st (Some (print_blockid e ob))"
| "field_arg e ob st PRINT_CLUSTER = plain st (Some (print_cluster e ob))"
| "field_arg e ob st PRINT_CPU_TIME = plain st (Some (print_cpu_time ob))"
| "field_arg e ob st PRINT_CPU_TIME_RAW = plain st (Some (print_cpu_time_raw ob))"
| "field_arg e ob st PRINT_ELAPSED = plain st (print_elapsed ob)"
| "field_arg e ob st PRINT_ELIGIBLE = plain st (Some (print_eligible ob))"
| "field_arg e ob st PRINT_END = plain st (print_end e ob)"
| "field_arg e ob st PRINT_EXITCODE = with_outbuf (print_exitcode e ob (r_outbuf st)) st"
| "field_arg e ob st PRINT_GID = plain st (Some (print_gid ob))"
| "field_arg e ob st PRINT_GROUP = plain st (Some (print_group e ob))"
| "field_arg e ob st PRINT_JOBID = plain st (Some (print_jobid e ob))"
| "field_arg e ob st PRINT_JOBNAME = plain st (Some (print_jobname e ob))"
| "field_arg e ob st PRINT_LAYOUT = plain st (print_layout e ob)"
| "field_arg e ob st PRINT_MAXPAGES = with_outbuf (print_maxpages e ob (r_outbuf st)) st"
| "field_arg e ob st PRINT_MAXPAGESNODE = plain st (print_maxpagesnode e ob)"
| "field_arg e ob st PRINT_MAXPAGESTASK = plain st (Some (print_maxpagestask ob))"
| "field_arg e ob st PRINT_MAXRSS = with_outbuf (print_maxrss e ob (r_outbuf st)) st"
| "field_arg e ob st PRINT_MAXRSSNODE = plain st (print_maxrssnode e ob)"
| "field_arg e ob st PRINT_MAXRSSTASK = plain st (Some (print_maxrsstask ob))"
| "field_arg e ob st PRINT_MAXVSIZE = with_outbuf (print_maxvsize e ob (r_outbuf st)) st"
| "field_arg e ob st PRINT_MAXVSIZENODE = plain st (print_maxvsizenode e ob)"
| "field_arg e ob st PRINT_MAXVSIZETASK = plain st (Some (print_maxvsizetask ob))"
| "field_arg e ob st PRINT_MINCPU = plain st (print_mincpu e ob)"
| "field_arg e ob st PRINT_MINCPUNODE = plain st (print_mincpunode e ob)"
| "field_arg e ob st PRINT_MINCPUTASK = plain st (Some (print_mincputask ob))"
| "field_arg e ob st PRINT_NODELIST = plain st (Some (print_nodelist e ob))"
| "field_arg e ob st PRINT_NNODES = with_outbuf (print_nnodes e ob (r_outbuf st)) st"
| "field_arg e ob st PRINT_NTASKS = plain st (Some (print_ntasks ob))"
| "field_arg e ob st PRINT_PRIO = plain st (Some (print_prio ob))"
| "field_arg e ob st PRINT_PARTITION = plain st (Some (print_partition e ob))"
| "field_arg e ob st PRINT_QOS = (case print_qos e ob (r_qos st) of (arg, qs) \<Rightarrow> Some (arg, st\<lparr>r_qos := qs\<rparr>))"
| "field_arg e ob st PRINT_QOSRAW = plain st (Some (print_qosraw ob))"
| "field_arg e ob st PRINT_REQ_CPUS = plain st (Some (print_req_cpus ob))"
| "field_arg e ob st PRINT_RESV = plain st (Some (print_resv e ob))"
| "field_arg e ob st PRINT_RESV_CPU = plain st (Some (print_resv_cpu e ob))"
| "field_arg e ob st PRINT_RESV_CPU_RAW = plain st (Some (print_resv_cpu_raw e ob))"
| "field_arg e ob st PRINT_START = plain st (print_start e ob)"
| "field_arg e ob st PRINT_STATE = with_outbuf (print_job_state e ob (r_outbuf st)) st"
| "field_arg e ob st PRINT_SUBMIT = plain st (print_submit e ob)"
| "field_arg e ob st PRINT_SUSPENDED = plain st (Some (print_suspended ob))"
| "field_arg e ob st PRINT_SYSTEMCPU = plain st (Some (print_systemcpu e ob))"
| "field_arg e ob st PRINT_TIMELIMIT = plain st (Some (print_timelimit e ob))"
| "field_arg e ob st PRINT_TOTALCPU = plain st (Some (print_totalcpu e ob))"
| "field_arg e ob st PRINT_UID = plain st (print_uid e ob)"
| "field_arg e ob st PRINT_USER = plain st (Some (print_user e ob))"
| "field_arg e ob st PRINT_USERCPU = plain st (Some (print_usercpu e ob))"
| "field_arg e ob st PRINT_WCKEY = plain st (Some (print_wckey e ob))"
| "field_arg e ob st PRINT_WCKEYID = plain st (Some (print_wckeyid ob))"

definition print_column :: "env \<Rightarrow> object \<Rightarrow> field \<Rightarrow> bool \<Rightarrow> row_state \<Rightarrow> (string \<times> row_state) option" where
  "print_column e ob f final st = do {
     (arg, st) \<leftarrow> field_arg e ob st (pf_type f);
     s \<leftarrow> call_print_routine (e_parsable e) (e_clock e) (e_widen e) f arg final;
     Some (s, st)
   }"

fun print_columns :: "env \<Rightarrow> object \<Rightarrow> nat \<Rightarrow> nat \<Rightarrow> field list \<Rightarrow> row_state \<Rightarrow> (string \<times> row_state) option" where
  "print_columns e ob curr_inx field_count [] st = Some ([], st)"
| "print_columns e ob curr_inx field_count (f # fs) st = do {
     (s, st) \<leftarrow> print_column e ob f (curr_inx = field_count) st;
     (r, st) \<leftarrow> print_columns e ob (curr_inx + 1) field_count fs st;
     Some (s @ r, st)
   }"

text \<open>
  A job that tracks no steps and has a first step shows its values; one without a step is marked as tracking steps, so
  that nothing is shown that it cannot have.  \<open>junk\<close> is what \<^verbatim>\<open>outbuf\<close> holds at first.
\<close>

definition enter_job :: "jobacct_job_rec \<Rightarrow> jobacct_job_rec \<times> jobacct_step_rec option" where
  "enter_job j = (let step = (if j_track_steps j = 0 then j_first_step j else None)
     in (if step = None then j\<lparr>j_track_steps := 1\<rparr> else j, step))"

definition print_fields ::
    "env \<Rightarrow> object \<Rightarrow> nat \<Rightarrow> field list \<Rightarrow> string \<Rightarrow> qos_rec list option \<Rightarrow> (string \<times> qos_rec list option) option" where
  "print_fields e ob field_count fs junk qos_list = do {
     (s, st) \<leftarrow> print_columns e ob 1 field_count fs \<lparr>r_outbuf = junk, r_qos = qos_list\<rparr>;
     Some (s @ [CHR 0x0A], r_qos st)
   }"

end
