(* ===== verification/Options.thy ===== *)
theory Options
  imports Print
begin

text \<open>
  The lists a user types to select jobs, and the command line, \<^verbatim>\<open>src/options.c\<close>.  A \<^verbatim>\<open>List\<close> is the list of its
  data, as \<^verbatim>\<open>list.c\<close> keeps it; the iterators of these functions only run through a list from its start.
\<close>


section \<open>Lists of names\<close>

text \<open>
  A user or group: a number is kept as it is typed, a name is looked up (\<open>lookup\<close> is \<^verbatim>\<open>getgrnam\<close> or
  \<^verbatim>\<open>getpwnam\<close>) and becomes the number; an unknown name ends the program.
\<close>

definition convert_to_id :: "(string \<Rightarrow> u32 option) \<Rightarrow> string \<Rightarrow> string run" where
  "convert_to_id lookup name = (case lookup name of None \<Rightarrow> Exited 1 | Some n \<Rightarrow> Returned (signed_decimal (sint n)))"

definition add_new :: "string \<Rightarrow> nat \<times> string list \<Rightarrow> nat \<times> string list" where
  "add_new name s = (case s of (count, char_list) \<Rightarrow>
     if \<exists>t\<in>set char_list. same_nocase t name then s else (count + 1, char_list @ [name]))"

definition add_id :: "(string \<Rightarrow> u32 option) \<Rightarrow> string \<Rightarrow> nat \<times> string list \<Rightarrow> (nat \<times> string list) run" where
  "add_id lookup raw s =
     (if raw = [] then Returned s
      else run_bind (if is_digit (hd raw) then Returned (text_of raw) else convert_to_id lookup (text_of raw))
             (\<lambda>name. Returned (add_new name s)))"

definition addto_id_char_list ::
    "(string \<Rightarrow> u32 option) \<Rightarrow> string list option \<Rightarrow> string option \<Rightarrow> (nat \<times> string list option) run" where
  "addto_id_char_list lookup char_list names =
     (case (char_list, names) of
        (Some ts, Some a) \<Rightarrow> run_bind (each_name True (add_id lookup) a (0, ts)) (\<lambda>(_, count, ts). Returned (count, Some ts))
      | _ \<Rightarrow> Returned (0, char_list))"

text \<open>A job state by its first letters; \<^verbatim>\<open>su\<close>, \<^verbatim>\<open>to\<close> and \<^verbatim>\<open>nf\<close> are compared in their first letter only.\<close>

definition decode_state_char :: "string \<Rightarrow> int" where
  "decode_state_char state =
     (if same_start state ''p'' 1 then JOB_PENDING
      else if same_start state ''r'' 1 then JOB_RUNNING
      else if same_start state ''su'' 1 then JOB_SUSPENDED
      else if same_start state ''cd'' 2 then JOB_COMPLETE
      else if same_start state ''ca'' 2 then JOB_CANCELLED
      else if same_start state ''f'' 1 then JOB_FAILED
      else if same_start state ''to'' 1 then JOB_TIMEOUT
      else if same_start state ''nf'' 1 then JOB_NODE_FAIL
      else - 1)"

definition add_state :: "string \<Rightarrow> nat \<times> string list \<Rightarrow> (nat \<times> string list) run" where
  "add_state raw s =
     (if raw = [] then Returned s
      else if decode_state_char (text_of raw) = - 1 then Exited 1
      else Returned (add_new (signed_decimal (decode_state_char (text_of raw))) s))"

definition addto_state_char_list :: "string list option \<Rightarrow> string option \<Rightarrow> (nat \<times> string list option) run" where
  "addto_state_char_list char_list names =
     (case (char_list, names) of
        (Some ts, Some a) \<Rightarrow> run_bind (each_name True add_state a (0, ts)) (\<lambda>(_, count, ts). Returned (count, Some ts))
      | _ \<Rightarrow> Returned (0, char_list))"

text \<open>\<^verbatim>\<open>atoi\<close>: blanks, a sign, digits; the value is that of \<^verbatim>\<open>strtol\<close>, cut to an \<^verbatim>\<open>int\<close>.\<close>

definition digits_value :: "string \<Rightarrow> int" where
  "digits_value s = foldl (\<lambda>n c. n * 10 + digit_value c) 0 (takeWhile is_digit s)"

definition long_value :: "string \<Rightarrow> int" where
  "long_value s = (case dropWhile is_space s of
       [] \<Rightarrow> 0
     | c # r \<Rightarrow> if c = CHR ''-'' then - digits_value r
                else if c = CHR ''+'' then digits_value r
                else digits_value (c # r))"

definition atoi :: "string \<Rightarrow> int" where
  "atoi s = sint (word_of_int (max (- (2 ^ 63)) (min (2 ^ 63 - 1) (long_value s))) :: u32)"

text \<open>\<^verbatim>\<open>job.step\<close>, or a job with all its steps.\<close>

definition selected_of :: "string \<Rightarrow> jobacct_selected_step" where
  "selected_of name =
     \<lparr>sel_jobid = word_of_int (atoi (takeWhile (\<lambda>c. c \<noteq> CHR ''.'') name)),
      sel_stepid = (case dropWhile (\<lambda>c. c \<noteq> CHR ''.'') name of [] \<Rightarrow> NO_VAL | _ # dot \<Rightarrow> word_of_int (atoi dot))\<rparr>"

definition add_step :: "string \<Rightarrow> nat \<times> jobacct_selected_step list \<Rightarrow> (nat \<times> jobacct_selected_step list) run" where
  "add_step raw s =
     (if raw = [] then Returned s
      else (case s of (count, step_list) \<Rightarrow>
        if selected_of (text_of raw) \<in> set step_list then Returned s
        else Returned (count + 1, step_list @ [selected_of (text_of raw)])))"

definition addto_step_list ::
    "jobacct_selected_step list option \<Rightarrow> string option \<Rightarrow> (nat \<times> jobacct_selected_step list option) run" where
  "addto_step_list step_list names =
     (case (step_list, names) of
        (Some ss, Some a) \<Rightarrow> run_bind (each_name False add_step a (0, ss)) (\<lambda>(_, count, ss). Returned (count, Some ss))
      | _ \<Rightarrow> Returned (0, step_list))"


section \<open>The command line\<close>

record acct_job_cond =
  jcond_acct_list :: "string list option"
  jcond_cluster_list :: "string list option"
  jcond_duplicates :: u16
  jcond_groupid_list :: "string list option"
  jcond_partition_list :: "string list option"
  jcond_step_list :: "jobacct_selected_step list option"
  jcond_state_list :: "string list option"
  jcond_usage_end :: int
  jcond_usage_start :: int
  jcond_used_nodes :: "string option"
  jcond_userid_list :: "string list option"
  jcond_wckey_list :: "string list option"
  jcond_without_usage_truncation :: bool

text \<open>The parameters, the globals of \<^verbatim>\<open>print_fields.c\<close>, and the local variables of \<^verbatim>\<open>parse_command_line\<close>.\<close>

record sacct_parameters =
  job_cond :: acct_job_cond
  opt_completion :: bool
  opt_dump :: bool
  opt_dup :: u32
  opt_fdump :: bool
  opt_field_list :: "string option"
  opt_gid :: u32
  opt_help :: nat
  opt_filein :: "string option"
  opt_allocs :: bool
  opt_uid :: u32
  have_header :: bool
  parsable_print :: parsable
  brief_output :: bool
  long_output :: bool
  all_users :: bool
  all_clusters :: bool
  verbosity :: nat

text \<open>What the program asks the system and the configuration.\<close>

record sys =
  s_clock :: clock
  s_getuid :: u32
  s_getgid :: u32
  s_getgrnam :: "string \<Rightarrow> u32 option"
  s_getpwnam :: "string \<Rightarrow> u32 option"
  s_cluster_name :: "string option"
  s_jobcomp_type :: string
  s_storage_type :: string
  s_stat :: "string option \<Rightarrow> bool"

definition empty_job_cond :: acct_job_cond where
  "empty_job_cond = \<lparr>jcond_acct_list = None, jcond_cluster_list = None, jcond_duplicates = 0, jcond_groupid_list = None,
     jcond_partition_list = None, jcond_step_list = None, jcond_state_list = None, jcond_usage_end = 0, jcond_usage_start = 0,
     jcond_used_nodes = None, jcond_userid_list = None, jcond_wckey_list = None, jcond_without_usage_truncation = True\<rparr>"

definition init_params :: "sys \<Rightarrow> sacct_parameters" where
  "init_params sy = \<lparr>job_cond = empty_job_cond, opt_completion = False, opt_dump = False, opt_dup = 0, opt_fdump = False,
     opt_field_list = None, opt_gid = s_getgid sy, opt_help = 0, opt_filein = None, opt_allocs = False, opt_uid = s_getuid sy,
     have_header = True, parsable_print = PARSABLE_NOT, brief_output = False, long_output = False, all_users = False,
     all_clusters = False, verbosity = 0\<rparr>"

text \<open>
  What \<^verbatim>\<open>getopt_long\<close> delivers: a letter with its argument, or a long option that sets a variable by itself.
\<close>

datatype parsed_option = Letter char string | Sets_allocs | Sets_completion | Sets_dup | Sets_help nat

text \<open>A list of the condition, created when it is not there yet.\<close>

definition created :: "'a list option \<Rightarrow> 'a list option" where
  "created l = (case l of None \<Rightarrow> Some [] | Some xs \<Rightarrow> Some xs)"

definition set_cond :: "(acct_job_cond \<Rightarrow> acct_job_cond) \<Rightarrow> sacct_parameters \<Rightarrow> sacct_parameters" where
  "set_cond f p = p\<lparr>job_cond := f (job_cond p)\<rparr>"

definition strspn :: "string \<Rightarrow> string \<Rightarrow> nat" where
  "strspn s accept = length (takeWhile (\<lambda>c. c \<in> set accept) s)"

definition names_option ::
    "(acct_job_cond \<Rightarrow> string list option) \<Rightarrow> ((string list option \<Rightarrow> string list option) \<Rightarrow> acct_job_cond \<Rightarrow> acct_job_cond)
      \<Rightarrow> (string list option \<Rightarrow> (nat \<times> string list option) run) \<Rightarrow> sacct_parameters \<Rightarrow> sacct_parameters run" where
  "names_option sel upd addto p =
     run_bind (addto (created (sel (job_cond p)))) (\<lambda>(_, l). Returned (set_cond (upd (\<lambda>_. l)) p))"

definition char_names :: "string \<Rightarrow> string list option \<Rightarrow> (nat \<times> string list option) run" where
  "char_names arg l = run_bind (slurm_addto_char_list l (Some arg)) (\<lambda>(n, l, _). Returned (n, l))"

definition jobs_option :: "string \<Rightarrow> sacct_parameters \<Rightarrow> sacct_parameters run" where
  "jobs_option arg p = run_bind (of_option (c_text arg)) (\<lambda>s.
     if strspn s ''0123456789, '' < length s \<and> strspn s ''.0123456789, '' < length s then Exited 1
     else run_bind (addto_step_list (created (jcond_step_list (job_cond p))) (Some arg))
            (\<lambda>(_, l). Returned (set_cond (jcond_step_list_update (\<lambda>_. l)) p)))"

text \<open>The \<^verbatim>\<open>switch\<close> over the options; \<open>arg\<close> is \<^verbatim>\<open>optarg\<close>.\<close>

definition option_list :: "sys \<Rightarrow> char \<Rightarrow> string \<Rightarrow> sacct_parameters \<Rightarrow> sacct_parameters run" where
  "option_list sy c arg p =
     (if c = CHR ''A'' then names_option jcond_acct_list jcond_acct_list_update (char_names arg) p
      else if c = CHR ''C'' then run_bind (of_option (c_text arg)) (\<lambda>s.
        if same_nocase s ''-1'' then Returned (p\<lparr>all_clusters := True\<rparr>)
        else names_option jcond_cluster_list jcond_cluster_list_update (char_names arg) (p\<lparr>all_clusters := False\<rparr>))
      else if c = CHR ''g'' then
        names_option jcond_groupid_list jcond_groupid_list_update (\<lambda>l. addto_id_char_list (s_getgrnam sy) l (Some arg)) p
      else if c = CHR ''j'' then jobs_option arg p
      else if c = CHR ''r'' then names_option jcond_partition_list jcond_partition_list_update (char_names arg) p
      else if c = CHR ''s'' then
        names_option jcond_state_list jcond_state_list_update (\<lambda>l. addto_state_char_list l (Some arg)) p
      else if c = CHR ''u'' then run_bind (of_option (c_text arg)) (\<lambda>s.
        if s = ''-1'' then Returned (p\<lparr>all_users := True\<rparr>)
        else names_option jcond_userid_list jcond_userid_list_update (\<lambda>l. addto_id_char_list (s_getpwnam sy) l (Some arg))
               (p\<lparr>all_users := False\<rparr>))
      else if c = CHR ''W'' then names_option jcond_wckey_list jcond_wckey_list_update (char_names arg) p
      else Returned p)"

definition option_time :: "sys \<Rightarrow> string \<Rightarrow> (int \<Rightarrow> acct_job_cond \<Rightarrow> acct_job_cond) \<Rightarrow> sacct_parameters \<Rightarrow> sacct_parameters run" where
  "option_time sy arg upd p = run_bind (of_option (parse_time (s_clock sy) arg True)) (\<lambda>t. Returned (set_cond (upd t) p))"

definition parse_option :: "sys \<Rightarrow> char \<Rightarrow> string \<Rightarrow> sacct_parameters \<Rightarrow> sacct_parameters run" where
  "parse_option sy c arg p =
     (if c = CHR ''a'' then Returned (p\<lparr>all_users := True\<rparr>)
      else if c = CHR ''b'' then Returned (p\<lparr>brief_output := True\<rparr>)
      else if c = CHR ''c'' then Returned (p\<lparr>opt_completion := True\<rparr>)
      else if c = CHR ''d'' then Returned (p\<lparr>opt_dump := True\<rparr>)
      else if c = CHR ''D'' then Returned (p\<lparr>opt_dup := 1\<rparr>)
      else if c = CHR ''e'' then Returned (p\<lparr>opt_help := 2\<rparr>)
      else if c = CHR ''E'' then option_time sy arg (\<lambda>t. jcond_usage_end_update (\<lambda>_. t)) p
      else if c = CHR ''f'' then run_bind (of_option (c_text arg)) (\<lambda>s. Returned (p\<lparr>opt_filein := Some s\<rparr>))
      else if c = CHR ''h'' then Returned (p\<lparr>opt_help := 1\<rparr>)
      else if c = CHR ''L'' then Returned (p\<lparr>all_clusters := True\<rparr>)
      else if c = CHR ''l'' then Returned (p\<lparr>long_output := True\<rparr>)
      else if c = CHR ''o'' then run_bind (of_option (c_text arg)) (\<lambda>s.
        Returned (p\<lparr>opt_field_list := Some ((case opt_field_list p of None \<Rightarrow> [] | Some l \<Rightarrow> l) @ s @ '','')\<rparr>))
      else if c = CHR ''O'' then Returned (p\<lparr>opt_fdump := True\<rparr>)
      else if c = CHR ''n'' then Returned (p\<lparr>have_header := False\<rparr>)
      else if c = CHR ''N'' then run_bind (of_option (c_text arg)) (\<lambda>s.
        Returned (if jcond_used_nodes (job_cond p) \<noteq> None then p else set_cond (jcond_used_nodes_update (\<lambda>_. Some s)) p))
      else if c = CHR ''p'' then Returned (p\<lparr>parsable_print := PARSABLE_ENDING\<rparr>)
      else if c = CHR ''P'' then Returned (p\<lparr>parsable_print := PARSABLE_NO_ENDING\<rparr>)
      else if c = CHR ''S'' then option_time sy arg (\<lambda>t. jcond_usage_start_update (\<lambda>_. t)) p
      else if c = CHR ''T'' then Returned (set_cond (jcond_without_usage_truncation_update (\<lambda>_. False)) p)
      else if c = CHR ''U'' then Returned (p\<lparr>opt_help := 3\<rparr>)
      else if c = CHR ''v'' then Returned (p\<lparr>verbosity := verbosity p + 1\<rparr>)
      else if c = CHR ''V'' then Exited 0
      else if c = CHR ''t'' \<or> c = CHR ''X'' then Returned (p\<lparr>opt_allocs := True\<rparr>)
      else if c = CHR '':'' \<or> c = CHR ''?'' then Exited 1
      else option_list sy c arg p)"

fun parse_options :: "sys \<Rightarrow> parsed_option list \<Rightarrow> sacct_parameters \<Rightarrow> sacct_parameters run" where
  "parse_options sy [] p = Returned p"
| "parse_options sy (Letter c arg # os) p = run_bind (parse_option sy c arg p) (parse_options sy os)"
| "parse_options sy (Sets_allocs # os) p = parse_options sy os (p\<lparr>opt_allocs := True\<rparr>)"
| "parse_options sy (Sets_completion # os) p = parse_options sy os (p\<lparr>opt_completion := True\<rparr>)"
| "parse_options sy (Sets_dup # os) p = parse_options sy os (p\<lparr>opt_dup := 1\<rparr>)"
| "parse_options sy (Sets_help n # os) p = parse_options sy os (p\<lparr>opt_help := n\<rparr>)"

end
