(* ===== verification/Options_Laws.thy ===== *)
theory Options_Laws
  imports Options
begin

text \<open>
  What the functions over lists of names do: the loop hands every name of a plain list to the function that adds it, and
  keeps whatever that function keeps, for any string at all.
\<close>


section \<open>The loop\<close>

lemma run_bind_Returned: "run_bind m k = Returned y \<longleftrightarrow> (\<exists>x. m = Returned x \<and> k x = Returned y)"
  by (cases m) simp_all

lemma run_bind_assoc: "run_bind (run_bind m k) h = run_bind m (\<lambda>x. run_bind (k x) h)"
  by (cases m) simp_all

lemma name_loop_keeps:
  assumes keeps: "\<And>raw s s'. P s \<Longrightarrow> add raw s = Returned s' \<Longrightarrow> P s'"
    and "name_loop check_end add q a i start s = Returned (a', i', start', s')" and "P s"
  shows "P s'"
  using assms(2,3)
proof (induction "length a - i" arbitrary: a i start s rule: less_induct)
  case less
  obtain c where c: "char_at a i = Some c"
    using less.prems(1) [unfolded name_loop.simps [of check_end add q a i start s]] by (auto split: option.splits)
  then have i: "i < length a" by (simp add: char_at_def split: if_splits)
  note step = less.prems(1) [unfolded name_loop.simps [of check_end add q a i start s] c option.case]
  consider "c = NUL \<or> q = Some c" | "\<not> (c = NUL \<or> q = Some c)" "is_quote c" | "\<not> (c = NUL \<or> q = Some c)" "\<not> is_quote c" "c = CHR '',''"
    | "\<not> (c = NUL \<or> q = Some c)" "\<not> is_quote c" "c \<noteq> CHR '',''" by blast
  then show ?case
  proof cases
    case 1
    then show ?thesis using step less.prems(2) by simp
  next
    case 2
    then have "name_loop check_end add q (a[i := CHR 0x60]) (i + 1) start s = Returned (a', i', start', s')" using step by simp
    then show ?thesis using less.hyps [of "a[i := CHR 0x60]" "i + 1" start s] less.prems(2) i by simp
  next
    case 3
    then obtain t where t: "add (piece a start i) s = Returned t" using step by (auto simp: run_bind_Returned)
    then have "P t" using keeps less.prems(2) by blast
    moreover have "name_loop check_end add q a (i + 2) (i + 1) t = Returned (a', i', start', s') \<or> s' = t"
      using step 3 t by (auto split: if_splits option.splits)
    ultimately show ?thesis using less.hyps [of a "i + 2" "i + 1" t] i by auto
  next
    case 4
    then have "name_loop check_end add q a (i + 1) start s = Returned (a', i', start', s')" using step by simp
    then show ?thesis using less.hyps [of a "i + 1" start s] less.prems(2) i by simp
  qed
qed

lemma each_name_keeps:
  assumes "\<And>raw s s'. P s \<Longrightarrow> add raw s = Returned s' \<Longrightarrow> P s'"
    and "each_name check_end add a s = Returned (a', s')" and "P s"
  shows "P s'"
proof -
  from assms(2) obtain q b i start t j where "name_loop check_end add q a j j s = Returned (b, i, start, t)"
      "add (piece b start i) t = Returned s'"
    by (auto simp: each_name_def Let_def run_bind_Returned split: option.splits)
  then have "P t" using name_loop_keeps [where P = P and add = add] assms(1,3) by blast
  then show ?thesis using assms(1) \<open>add (piece b start i) t = Returned s'\<close> by blast
qed


text \<open>
  The contract of a function that adds a name: what it keeps (\<open>holds\<close>), every call with a list of names keeps.
\<close>

locale collector =
  fixes add :: "string \<Rightarrow> 's \<Rightarrow> 's run"
    and holds :: "'s \<Rightarrow> bool"
  assumes add_holds: "holds s \<Longrightarrow> add raw s = Returned s' \<Longrightarrow> holds s'"
begin

lemma collected_holds: "each_name check_end add a s = Returned (a', s') \<Longrightarrow> holds s \<Longrightarrow> holds s'"
  by (rule each_name_keeps [where P = holds, OF add_holds])

end


section \<open>Plain lists\<close>

definition plain_char :: "char \<Rightarrow> bool" where
  "plain_char c \<longleftrightarrow> c \<noteq> NUL \<and> c \<noteq> CHR '','' \<and> \<not> is_quote c"

definition plain_name :: "string \<Rightarrow> bool" where
  "plain_name n \<longleftrightarrow> n \<noteq> [] \<and> (\<forall>c\<in>set n. plain_char c)"

fun adds :: "(string \<Rightarrow> 's \<Rightarrow> 's run) \<Rightarrow> string list \<Rightarrow> 's \<Rightarrow> 's run" where
  "adds add [] s = Returned s"
| "adds add (n # ns) s = run_bind (add n s) (adds add ns)"

lemma name_loop_plain:
  assumes "\<forall>c\<in>set n. plain_char c"
  shows "name_loop check_end add None (pre @ n @ rest) (length pre) start s =
    name_loop check_end add None (pre @ n @ rest) (length pre + length n) start s"
  using assms
proof (induction n arbitrary: pre)
  case (Cons c n)
  have "name_loop check_end add None (pre @ c # n @ rest) (length pre) start s =
      name_loop check_end add None (pre @ c # n @ rest) (length pre + 1) start s"
    using Cons.prems by (subst name_loop.simps) (simp add: plain_char_def)
  also have "\<dots> = name_loop check_end add None (pre @ c # n @ rest) (length pre + 1 + length n) start s"
    using Cons.IH [of "pre @ [c]"] Cons.prems by simp
  finally show ?case by simp
qed simp

lemma plain_name_split: "plain_name m \<Longrightarrow> j \<le> 1 \<Longrightarrow> take j m @ drop j m = m \<and> length (take j m) = j"
  by (cases m; cases j) (auto simp: plain_name_def)

definition last_name :: "(string \<Rightarrow> 's \<Rightarrow> 's run) \<Rightarrow> string \<times> nat \<times> nat \<times> 's \<Rightarrow> (string \<times> 's) run" where
  "last_name add r = (case r of (a, i, start, s) \<Rightarrow> run_bind (add (piece a start i) s) (\<lambda>s. Returned (a, s)))"

lemma piece_middle: "piece (pre @ n @ rest) (length pre) (length pre + length n) = n"
  by (simp add: piece_def)

text \<open>The last names, where the first character of the first of them has been passed over or not.\<close>

lemma name_loop_names:
  assumes "\<forall>n\<in>set (m # ns). plain_name n" and "j \<le> 1" and "a = pre @ comma_separated (m # ns) @ [NUL]"
  shows "run_bind (name_loop check_end add None a (length pre + j) (length pre) s) (last_name add) =
    run_bind (adds add (m # ns) s) (\<lambda>s. Returned (a, s))"
  using assms
proof (induction ns arbitrary: m pre j s)
  case Nil
  have j: "take j m @ drop j m = m" "length (take j m) = j" using plain_name_split [of m j] Nil.prems(1,2) by auto
  have plain: "\<forall>c\<in>set (drop j m). plain_char c" using Nil.prems(1) by (auto simp: plain_name_def dest: in_set_dropD)
  have a: "a = (pre @ take j m) @ drop j m @ [NUL]" using Nil.prems(3) j by simp
  have "name_loop check_end add None a (length pre + j) (length pre) s =
      name_loop check_end add None a (length pre + length m) (length pre) s"
    using name_loop_plain [OF plain, of check_end add "pre @ take j m" "[NUL]" "length pre" s] j unfolding a by simp
  also have "\<dots> = Returned (a, length pre + length m, length pre, s)"
    using char_at_end [of "pre @ m" NUL "[]"] Nil.prems(3) by (subst name_loop.simps) simp
  finally show ?case using Nil.prems(3) piece_middle [of pre m "[NUL]"] by (simp add: last_name_def run_bind_assoc)
next
  case (Cons k ns)
  let ?rest = "comma_separated (k # ns) @ [NUL]"
  have j: "take j m @ drop j m = m" "length (take j m) = j" using plain_name_split [of m j] Cons.prems(1,2) by auto
  have plain: "\<forall>c\<in>set (drop j m). plain_char c" using Cons.prems(1) by (auto simp: plain_name_def dest: in_set_dropD)
  have a: "a = (pre @ take j m) @ drop j m @ CHR '','' # ?rest" using Cons.prems(3) j by simp
  have a2: "a = (pre @ m @ '','') @ ?rest" using Cons.prems(3) by simp
  obtain d r where d: "?rest = d # r" "d \<noteq> NUL"
    using Cons.prems(1) by (cases ns; cases k) (auto simp: plain_name_def plain_char_def)
  have "name_loop check_end add None a (length pre + j) (length pre) s =
      name_loop check_end add None a (length pre + length m) (length pre) s"
    using name_loop_plain [OF plain, of check_end add "pre @ take j m" "CHR '','' # ?rest" "length pre" s] j unfolding a by simp
  also have "\<dots> = run_bind (add m s) (name_loop check_end add None a (length pre + length m + 2) (length pre + length m + 1))"
  proof -
    have "char_at a (length pre + length m) = Some (CHR '','')"
      using char_at_end [of "pre @ m" "CHR '',''" ?rest] Cons.prems(3) by simp
    moreover have "char_at a (length pre + length m + 1) = Some d"
      using char_at_end [of "pre @ m @ '',''" d r] a2 d(1) by simp
    moreover have "piece a (length pre) (length pre + length m) = m"
      using piece_middle [of pre m "CHR '','' # ?rest"] Cons.prems(3) by simp
    ultimately show ?thesis using d(2) by (subst name_loop.simps; cases check_end) (simp_all add: is_quote_def)
  qed
  finally have "run_bind (name_loop check_end add None a (length pre + j) (length pre) s) (last_name add) =
      run_bind (add m s) (\<lambda>s. run_bind (name_loop check_end add None a (length (pre @ m @ '','') + 1) (length (pre @ m @ '','')) s)
        (last_name add))"
    by (simp add: run_bind_assoc)
  also have "\<dots> = run_bind (add m s) (\<lambda>s. run_bind (adds add (k # ns) s) (\<lambda>s. Returned (a, s)))"
    using Cons.IH [of k 1 "pre @ m @ '',''"] Cons.prems(1) a2 by simp
  finally show ?case by (simp add: run_bind_assoc)
qed

lemma each_name_names:
  assumes "\<forall>n\<in>set ns. plain_name n" and "ns \<noteq> []" and "a = comma_separated ns @ [NUL]"
  shows "each_name check_end add a s = run_bind (adds add ns s) (\<lambda>s. Returned (a, s))"
proof -
  obtain m ms where ns: "ns = m # ms" using assms(2) by (cases ns) auto
  obtain c r where c: "m = c # r" "\<not> is_quote c" using assms(1) by (cases m) (auto simp: ns plain_name_def plain_char_def)
  have "char_at a 0 = Some c" using c(1) by (cases ms) (simp_all add: assms(3) ns char_at_def)
  then have "each_name check_end add a s = run_bind (name_loop check_end add None a 0 0 s) (last_name add)"
    using c(2) by (simp add: each_name_def last_name_def [abs_def])
  then show ?thesis using name_loop_names [of m ms 0 a "[]" check_end add s] assms(1,3) ns by simp
qed

text \<open>
  Where the end is not looked for behind a comma, a list that ends with one is read behind its end.
\<close>

lemma name_loop_trailing:
  assumes "\<forall>c\<in>set n. plain_char c" and "add n s = Returned t"
  shows "name_loop False add None (n @ '','' @ [NUL]) 0 0 s = Undefined"
proof -
  let ?a = "n @ '','' @ [NUL]"
  have "name_loop False add None ?a 0 0 s = name_loop False add None ?a (length n) 0 s"
    using name_loop_plain [OF assms(1), of False add "[]" "'','' @ [NUL]" 0 s] by simp
  also have "\<dots> = name_loop False add None ?a (length n + 2) (length n + 1) t"
    using assms(2) piece_middle [of "[]" n] by (subst name_loop.simps) (simp add: is_quote_def)
  also have "\<dots> = Undefined" by (subst name_loop.simps) (simp add: char_at_def)
  finally show ?thesis .
qed

lemma each_name_trailing:
  assumes "plain_name n" and "add n s = Returned t"
  shows "each_name False add (n @ '','' @ [NUL]) s = Undefined"
proof -
  obtain c r where c: "n = c # r" "\<not> is_quote c" using assms(1) by (cases n) (auto simp: plain_name_def plain_char_def)
  then show ?thesis using name_loop_trailing [of n add s t] assms by (simp add: each_name_def plain_name_def char_at_def)
qed

end
