(* ===== verification/Options_Spec.thy ===== *)
theory Options_Spec
  imports Options_Laws
begin

text \<open>
  The lists of \<^verbatim>\<open>sacct\<close>'s options: job steps are read back as they are printed, a trailing comma is an overrun, names
  stay distinct, and the codes of the job states.
\<close>


section \<open>Numbers\<close>

lemma digits_value_snoc:
  "\<forall>c\<in>set s. is_digit c \<Longrightarrow> is_digit d \<Longrightarrow> digits_value (s @ [d]) = digits_value s * 10 + digit_value d"
  by (simp add: digits_value_def takeWhile_eq_all_conv [THEN iffD2])

lemma digits_value_decimal: "digits_value (decimal n) = int n"
proof (induction n rule: less_induct)
  case (less n)
  show ?case
  proof (cases "n < 10")
    case True
    then show ?thesis by (simp add: decimal_small digits_value_def)
  next
    case False
    have "digits_value (decimal n) = digits_value (decimal (n div 10)) * 10 + int (n mod 10)"
      using False digits_value_snoc [of "decimal (n div 10)" "digit_char (n mod 10)"] decimal_all_digits
      by (simp add: decimal_step)
    also have "\<dots> = int n" using less.IH [of "n div 10"] False by (simp add: int_digits)
    finally show ?thesis .
  qed
qed

lemma is_digit_not_special: "is_digit c \<Longrightarrow> \<not> is_space c \<and> c \<noteq> CHR ''-'' \<and> c \<noteq> CHR ''+'' \<and> c \<noteq> CHR ''.'' \<and> plain_char c"
  by (auto simp: is_digit_code is_space_def plain_char_def is_quote_def code_def)

lemma long_value_decimal: "long_value (decimal n) = int n"
proof -
  obtain c r where c: "decimal n = c # r" using decimal_nonempty [of n] by (cases "decimal n") auto
  then have "is_digit c" using decimal_all_digits [of c n] by simp
  then have "long_value (decimal n) = digits_value (decimal n)" using is_digit_not_special [of c] by (simp add: long_value_def c)
  then show ?thesis by (simp add: digits_value_decimal)
qed

lemma atoi_decimal:
  assumes "n < 2 ^ 32"
  shows "(word_of_int (atoi (decimal n)) :: u32) = of_nat n"
proof -
  have "max (- (2 ^ 63)) (min (2 ^ 63 - 1) (int n)) = int n" using assms by simp
  then have "atoi (decimal n) = sint (of_nat n :: u32)" by (simp add: atoi_def long_value_decimal)
  then show ?thesis by simp
qed


section \<open>Steps\<close>

definition step_text :: "jobacct_selected_step \<Rightarrow> string" where
  "step_text s = decimal (unat (sel_jobid s)) @ (if sel_stepid s = NO_VAL then [] else ''.'' @ decimal (unat (sel_stepid s)))"

lemma decimal_no_dot: "CHR ''.'' \<notin> set (decimal n)"
  using decimal_all_digits is_digit_not_special by blast

lemma selected_of_step_text: "selected_of (step_text s) = s"
proof -
  have no_dot: "takeWhile (\<lambda>c. c \<noteq> CHR ''.'') (decimal n @ CHR ''.'' # r) = decimal n"
    "dropWhile (\<lambda>c. c \<noteq> CHR ''.'') (decimal n @ CHR ''.'' # r) = CHR ''.'' # r"
    "takeWhile (\<lambda>c. c \<noteq> CHR ''.'') (decimal n) = decimal n" "dropWhile (\<lambda>c. c \<noteq> CHR ''.'') (decimal n) = []" for n r
    using decimal_no_dot [of n] by (auto simp: takeWhile_append dropWhile_append takeWhile_eq_all_conv dropWhile_eq_Nil_conv)
  have atoi: "(word_of_int (atoi (decimal (unat w))) :: u32) = w" for w :: u32 using atoi_decimal [of "unat w"] unsigned_less [of w] by simp
  show ?thesis by (cases s) (simp add: selected_of_def step_text_def no_dot atoi)
qed

lemma plain_step_text: "plain_name (step_text s)"
proof -
  have "plain_char (CHR ''.'')" by (simp add: plain_char_def is_quote_def)
  then show ?thesis
    using decimal_all_digits is_digit_not_special decimal_nonempty [of "unat (sel_jobid s)"]
    by (auto simp: plain_name_def step_text_def)
qed

lemma text_of_plain: "plain_name n \<Longrightarrow> text_of n = n"
  by (auto simp: plain_name_def plain_char_def text_of_def takeWhile_eq_all_conv)

lemma adds_steps:
  "distinct (ts @ ss) \<Longrightarrow> adds add_step (map step_text ss) (n, ts) = Returned (n + length ss, ts @ ss)"
proof (induction ss arbitrary: n ts)
  case (Cons s ss)
  have "step_text s \<noteq> []" using plain_step_text [of s] by (simp add: plain_name_def)
  then show ?case
    using Cons.IH [of "ts @ [s]" "n + 1"] Cons.prems text_of_plain [OF plain_step_text [of s]]
    by (simp add: add_step_def selected_of_step_text)
qed simp

definition job_char :: "char \<Rightarrow> bool" where "job_char c \<longleftrightarrow> c \<in> set ''.0123456789, ''"

lemma all_digits: "map digit_char [0..<10] = ''0123456789''"
  by (simp add: upt_rec digit_char_def char_of_def bit_0 bit_iff_odd)

lemma digit_job_char: "is_digit c \<Longrightarrow> job_char c"
proof -
  assume c: "is_digit c"
  then have "c = digit_char (of_char c - 48)" and "of_char c - 48 < (10::nat)"
    by (auto simp: is_digit_code code_def digit_char_def)
  then have "c \<in> set (map digit_char [0..<10])" by (metis atLeast0LessThan image_eqI lessThan_iff set_map set_upt)
  then have "c \<in> set ''0123456789''" by (simp only: all_digits)
  moreover have "set ''0123456789'' \<subseteq> set ''.0123456789, ''" by auto
  ultimately show "job_char c" by (auto simp only: job_char_def)
qed

lemma job_char_others: "job_char (CHR ''.'')" "job_char (CHR '','')" "\<not> job_char NUL"
  by (simp_all add: job_char_def)

lemma strspn_all: "\<forall>c\<in>set s. c \<in> set accept \<Longrightarrow> strspn s accept = length s"
  by (simp add: strspn_def takeWhile_eq_all_conv [THEN iffD2])

lemma step_text_chars: "c \<in> set (step_text s) \<Longrightarrow> job_char c"
proof -
  assume "c \<in> set (step_text s)"
  then have "is_digit c \<or> c = CHR ''.''" using decimal_all_digits by (auto simp: step_text_def split: if_splits)
  then show ?thesis using digit_job_char job_char_others by blast
qed

lemma job_list_text:
  "NUL \<notin> set (comma_separated (map step_text ss)) \<and> strspn (comma_separated (map step_text ss)) ''.0123456789, '' = length (comma_separated (map step_text ss))"
proof -
  have "job_char c" if "c \<in> set (comma_separated (map step_text ss))" for c
    using comma_separated_set [OF that] step_text_chars job_char_others by auto
  then show ?thesis using job_char_others(3) unfolding job_char_def by (blast intro: strspn_all)
qed


section \<open>Names\<close>

definition distinct_names :: "string list \<Rightarrow> bool" where
  "distinct_names ts \<longleftrightarrow> distinct (map make_lower ts)"

definition counted :: "nat \<Rightarrow> nat \<times> string list \<Rightarrow> bool" where
  "counted n s \<longleftrightarrow> distinct_names (snd s) \<and> length (snd s) = n + fst s"

lemma add_new_keeps: "counted n s \<Longrightarrow> counted n (add_new name s)"
  by (cases s) (auto simp: counted_def distinct_names_def add_new_def same_nocase_def make_lower_def)

lemma add_id_keeps: "counted n s \<Longrightarrow> add_id lookup raw s = Returned s' \<Longrightarrow> counted n s'"
  by (auto simp: add_id_def run_bind_Returned split: if_splits intro: add_new_keeps)

lemma add_state_keeps: "counted n s \<Longrightarrow> add_state raw s = Returned s' \<Longrightarrow> counted n s'"
  by (auto simp: add_state_def split: if_splits intro: add_new_keeps)

lemma delete_same_None: "delete_same name ts = None \<Longrightarrow> make_lower name \<notin> make_lower ` set ts"
  by (induction ts) (auto simp: same_nocase_def make_lower_def split: if_splits)

lemma delete_same_Some:
  "delete_same name ts = Some us \<Longrightarrow> distinct_names ts \<Longrightarrow>
    distinct_names us \<and> make_lower name \<notin> make_lower ` set us \<and> set us \<subseteq> set ts \<and> length ts = Suc (length us)"
proof (induction ts arbitrary: us)
  case (Cons t ts)
  show ?case
  proof (cases "same_nocase t name")
    case True
    then show ?thesis using Cons.prems by (auto simp: distinct_names_def same_nocase_def make_lower_def)
  next
    case False
    then obtain vs where vs: "delete_same name ts = Some vs" "us = t # vs" using Cons.prems(1) by auto
    have "distinct_names ts" using Cons.prems(2) by (simp add: distinct_names_def)
    from Cons.IH [OF vs(1) this] show ?thesis
      using False Cons.prems(2) by (auto simp: vs(2) distinct_names_def same_nocase_def make_lower_def)
  qed
qed simp

lemma make_lower_twice: "make_lower (make_lower s) = make_lower s"
  by (simp add: make_lower_def lower_lower)

lemma add_name_keeps: "counted n s \<Longrightarrow> add_name raw s = Returned s' \<Longrightarrow> counted n s'"
proof -
  assume s: "counted n s" and r: "add_name raw s = Returned s'"
  obtain k ts where st: "s = (k, ts)" by (cases s)
  show "counted n s'"
  proof (cases "delete_same (text_of raw) ts")
    case None
    then show ?thesis using s r delete_same_None [OF None]
      by (auto simp: st add_name_def counted_def distinct_names_def make_lower_twice)
  next
    case (Some us)
    then show ?thesis using s r delete_same_Some [OF Some]
      by (auto simp: st add_name_def counted_def distinct_names_def make_lower_twice)
  qed
qed


text \<open>The four functions that add names meet the contract of \<open>collector\<close>.\<close>

interpretation char_list: collector add_name "counted n" for n
  by unfold_locales (rule add_name_keeps)

interpretation id_list: collector "add_id lookup" "counted n" for lookup n
  by unfold_locales (rule add_id_keeps)

interpretation state_list: collector add_state "counted n" for n
  by unfold_locales (rule add_state_keeps)

interpretation step_list: collector add_step "\<lambda>s. distinct (snd s) \<and> length (snd s) = n + fst s" for n
  by unfold_locales (auto simp: add_step_def split: if_splits prod.splits)


section \<open>Properties\<close>

text \<open>
  C13: The option \<^verbatim>\<open>-j\<close> reads a list of jobs and steps as it is written, \<^verbatim>\<open>job\<close> or \<^verbatim>\<open>job.step\<close> between commas, for all
  32-bit numbers: exactly these steps, in this order, become the condition.
\<close>

theorem jobs_roundtrip:
  assumes "distinct ss" and "jcond_step_list (job_cond p) = None"
  shows "jobs_option (comma_separated (map step_text ss) @ [NUL]) p = Returned (set_cond (jcond_step_list_update (\<lambda>_. Some ss)) p)"
proof -
  let ?t = "comma_separated (map step_text ss)" and ?a = "comma_separated (map step_text ss) @ [NUL]"
  have "addto_step_list (Some []) (Some ?a) = Returned (length ss, Some ss)"
  proof (cases "ss = []")
    case True
    then show ?thesis
      by (simp add: addto_step_list_def each_name_def char_at_def name_loop.simps is_quote_def piece_def add_step_def)
  next
    case False
    have "each_name False add_step ?a (0, []) = run_bind (adds add_step (map step_text ss) (0, [])) (\<lambda>s. Returned (?a, s))"
      by (rule each_name_names) (use plain_step_text False in auto)
    then show ?thesis using adds_steps [of "[]" ss 0] assms(1) by (simp add: addto_step_list_def)
  qed
  moreover have "c_text ?a = Some ?t" using job_list_text [of ss] c_text_append [of ?t "[]"] by simp
  ultimately show ?thesis using job_list_text [of ss] assms(2) by (simp add: jobs_option_def of_option_def created_def)
qed

definition sample_params :: sacct_parameters where
  "sample_params = \<lparr>job_cond = empty_job_cond, opt_completion = False, opt_dump = False, opt_dup = 0, opt_fdump = False,
     opt_field_list = None, opt_gid = 0, opt_help = 0, opt_filein = None, opt_allocs = False, opt_uid = 0,
     have_header = True, parsable_print = PARSABLE_NOT, brief_output = False, long_output = False, all_users = False,
     all_clusters = False, verbosity = 0\<rparr>"

theorem jobs_roundtrip_witness:
  "jobs_option (comma_separated (map step_text [\<lparr>sel_jobid = 12, sel_stepid = 3\<rparr>, \<lparr>sel_jobid = 7, sel_stepid = NO_VAL\<rparr>]) @ [NUL])
      sample_params =
    Returned (set_cond (jcond_step_list_update (\<lambda>_. Some [\<lparr>sel_jobid = 12, sel_stepid = 3\<rparr>, \<lparr>sel_jobid = 7, sel_stepid = NO_VAL\<rparr>]))
      sample_params)"
  by (rule jobs_roundtrip) (simp_all add: sample_params_def empty_job_cond_def)

text \<open>
  C29: A list of jobs that ends with a comma makes \<^verbatim>\<open>sacct -j\<close> read past the end of the argument, whatever job stands
  before it.
\<close>

theorem jobs_trailing_comma: "jobs_option (step_text s @ '','' @ [NUL]) p = Undefined"
proof -
  let ?t = "step_text s @ '',''" and ?l = "jcond_step_list (job_cond p)"
  have ok: "job_char c" if "c \<in> set ?t" for c using that step_text_chars job_char_others by auto
  then have "NUL \<notin> set ?t" using job_char_others(3) by blast
  then have "c_text (step_text s @ '','' @ [NUL]) = Some ?t" using c_text_append [of ?t "[]"] by simp
  moreover have "strspn ?t ''.0123456789, '' = length ?t" using ok unfolding job_char_def by (blast intro: strspn_all)
  moreover have "addto_step_list (created ?l) (Some (step_text s @ '','' @ [NUL])) = Undefined"
  proof -
    obtain ts where ts: "created ?l = Some ts" by (cases ?l) (auto simp: created_def)
    have "\<exists>t. add_step (step_text s) (0, ts) = Returned t" by (simp add: add_step_def)
    then obtain t where "add_step (step_text s) (0, ts) = Returned t" ..
    from each_name_trailing [of "step_text s" add_step, OF plain_step_text this] show ?thesis
      by (simp add: addto_step_list_def ts)
  qed
  ultimately show ?thesis by (simp add: jobs_option_def of_option_def)
qed

text \<open>
  C21: Whatever is typed for accounts, clusters, partitions, users, groups or states: a list without duplicates, in upper or
  lower case, has none after the call, and the count returned is the number of names by which it has grown.
\<close>

theorem names_stay_distinct:
  assumes "distinct_names ts"
  shows "(slurm_addto_char_list (Some ts) names = Returned (n, Some us, b) \<longrightarrow> distinct_names us \<and> length us = length ts + n) \<and>
    (addto_id_char_list lookup (Some ts) names = Returned (n, Some us) \<longrightarrow> distinct_names us \<and> length us = length ts + n) \<and>
    (addto_state_char_list (Some ts) names = Returned (n, Some us) \<longrightarrow> distinct_names us \<and> length us = length ts + n)"
proof -
  have start: "counted (length ts) (0, ts)" using assms by (simp add: counted_def)
  have ends: "distinct_names us \<and> length us = length ts + n" if "counted (length ts) (n, us)"
    using that by (simp add: counted_def)
  have "distinct_names us \<and> length us = length ts + n" if "slurm_addto_char_list (Some ts) names = Returned (n, Some us, b)"
    using that assms
    by (cases names) (auto simp: slurm_addto_char_list_def run_bind_Returned split: prod.splits dest!: char_list.collected_holds [OF _ start] ends)
  moreover have "distinct_names us \<and> length us = length ts + n" if "addto_id_char_list lookup (Some ts) names = Returned (n, Some us)"
    using that assms
    by (cases names) (auto simp: addto_id_char_list_def run_bind_Returned split: prod.splits dest!: id_list.collected_holds [OF _ start] ends)
  moreover have "distinct_names us \<and> length us = length ts + n" if "addto_state_char_list (Some ts) names = Returned (n, Some us)"
    using that assms
    by (cases names) (auto simp: addto_state_char_list_def run_bind_Returned split: prod.splits dest!: state_list.collected_holds [OF _ start] ends)
  ultimately show ?thesis by blast
qed

lemma sample_names: "slurm_addto_char_list (Some [''a'']) (Some (''B'' @ [NUL])) = Returned (1, Some [''a'', ''b''], Some (''B'' @ [NUL]))"
  by (simp add: slurm_addto_char_list_def each_name_def char_at_def name_loop.simps is_quote_def piece_def add_name_def text_of_def
      same_nocase_def make_lower_def lower_letters)

theorem names_stay_distinct_witness:
  "distinct_names [''a'', ''b''] \<and> length [''a'', ''b''] = length [''a''] + 1"
  using names_stay_distinct [of "[''a'']" "Some (''B'' @ [NUL])" 1 "[''a'', ''b'']" "Some (''B'' @ [NUL])" "\<lambda>_. None"] sample_names
  by (simp add: distinct_names_def)

text \<open>
  Whatever is typed behind \<^verbatim>\<open>-j\<close>: no step is asked for twice, and the count returned is the number of steps by which the
  list has grown.
\<close>

theorem steps_stay_distinct:
  assumes "distinct ts" and "addto_step_list (Some ts) names = Returned (n, Some us)"
  shows "distinct us \<and> length us = length ts + n"
  using assms step_list.collected_holds [of False _ "(0, ts)" _ _ "length ts"]
  by (cases names) (auto simp: addto_step_list_def run_bind_Returned split: prod.splits)

theorem steps_stay_distinct_witness:
  "distinct [\<lparr>sel_jobid = 1, sel_stepid = 2\<rparr>] \<and> length [\<lparr>sel_jobid = 1, sel_stepid = 2\<rparr>] = length [\<lparr>sel_jobid = (1 :: u32), sel_stepid = 2\<rparr>] + 0"
  by (rule steps_stay_distinct [where names = None]) (simp_all add: addto_step_list_def)

lemma lower_mark: "lower (CHR ''?'') = CHR ''?''"
  by (simp add: lower_def less_eq_char_def)

lemma decode_names:
  "decode_state_char ''COMPLETING'' = - 1" "decode_state_char ''PENDING'' = 0" "decode_state_char ''RUNNING'' = 1"
  "decode_state_char ''SUSPENDED'' = 2" "decode_state_char ''COMPLETED'' = - 1" "decode_state_char ''CANCELLED'' = 4"
  "decode_state_char ''FAILED'' = 5" "decode_state_char ''TIMEOUT'' = 6" "decode_state_char ''NODE_FAIL'' = 7"
  "decode_state_char ''?'' = - 1"
  "decode_state_char ''CG'' = - 1" "decode_state_char ''PD'' = 0" "decode_state_char ''R'' = 1" "decode_state_char ''S'' = 2"
  "decode_state_char ''CD'' = 3" "decode_state_char ''CA'' = 4" "decode_state_char ''F'' = 5" "decode_state_char ''TO'' = 6"
  "decode_state_char ''NF'' = 7"
  by (simp_all add: decode_state_char_def job_state_defs same_start_def lower_letters lower_mark)

text \<open>
  C30: Which names of states the option \<^verbatim>\<open>-s\<close> understands, for every value of the state word: the short names of the eight
  states, and the long ones except \<^verbatim>\<open>COMPLETED\<close>, are read back as these states; the names that are printed with the flag
  for completing, \<^verbatim>\<open>CG\<close> and \<^verbatim>\<open>COMPLETING\<close>, and the question mark for all other values are no states for it.
\<close>

theorem state_codes_roundtrip:
  "decode_state_char (job_state_string_compact st) = (if and st JOB_COMPLETING = 0 \<and> st < 8 then uint st else - 1) \<and>
    decode_state_char (job_state_string st) = (if and st JOB_COMPLETING = 0 \<and> st < 8 \<and> st \<noteq> 3 then uint st else - 1)"
proof -
  have st: "st < 8 \<longleftrightarrow> uint st < 8" "st = 3 \<longleftrightarrow> uint st = 3" by (simp_all add: word_less_alt word_uint_eq_iff)
  consider "and st JOB_COMPLETING \<noteq> 0" | "and st JOB_COMPLETING = 0" "8 \<le> uint st" |
    "and st JOB_COMPLETING = 0" "uint st < 8"
    by linarith
  then show ?thesis
  proof cases
    case 3
    then have "uint st = 0 \<or> uint st = 1 \<or> uint st = 2 \<or> uint st = 3 \<or> uint st = 4 \<or> uint st = 5 \<or> uint st = 6 \<or> uint st = 7"
      using uint_nonnegative [of st] by linarith
    then show ?thesis using 3
      by (elim disjE) (simp_all add: job_state_string_def job_state_string_compact_def job_state_defs decode_names st)
  qed (auto simp: job_state_string_def job_state_string_compact_def job_state_defs decode_names st)
qed

end
