(* ===== verification/Sacct.thy ===== *)
theory Sacct
  imports Options Jobacct_Tasks
begin

text \<open>
  The rest of the command: the defaults for what was not typed, the choice of columns (\<^verbatim>\<open>src/options.c\<close>), the table of
  columns and \<^verbatim>\<open>main\<close> (\<^verbatim>\<open>src/sacct.c\<close>), the usage of jobs from that of their steps, and the listing.
\<close>


section \<open>Columns\<close>

definition field_entry :: "int \<Rightarrow> string \<Rightarrow> print_routine \<Rightarrow> print_type \<Rightarrow> field" where
  "field_entry len nm routine ty = \<lparr>pf_len = len, pf_name = nm, pf_routine = routine, pf_type = ty\<rparr>"

definition sacct_fields :: "field list" where
  "sacct_fields =
    [field_entry 10 ''AllocCPUS'' Print_int PRINT_ALLOC_CPUS, field_entry 10 ''Account'' Print_str PRINT_ACCOUNT,
     field_entry 7 ''AssocID'' Print_int PRINT_ASSOCID, field_entry 10 ''AveCPU'' Print_str PRINT_AVECPU,
     field_entry 10 ''AvePages'' Print_str PRINT_AVEPAGES, field_entry 10 ''AveRSS'' Print_str PRINT_AVERSS,
     field_entry 10 ''AveVMSize'' Print_str PRINT_AVEVSIZE, field_entry 16 ''BlockID'' Print_str PRINT_BLOCKID,
     field_entry 10 ''Cluster'' Print_str PRINT_CLUSTER,
     field_entry 10 ''CPUTime'' Print_time_from_secs PRINT_CPU_TIME,
     field_entry 10 ''CPUTimeRAW'' Print_int PRINT_CPU_TIME_RAW,
     field_entry 10 ''Elapsed'' Print_time_from_secs PRINT_ELAPSED,
     field_entry 19 ''Eligible'' Print_date PRINT_ELIGIBLE, field_entry 19 ''End'' Print_date PRINT_END,
     field_entry 8 ''ExitCode'' Print_str PRINT_EXITCODE, field_entry 6 ''GID'' Print_int PRINT_GID,
     field_entry 9 ''Group'' Print_str PRINT_GROUP, field_entry 10 ''JobID'' Print_str PRINT_JOBID,
     field_entry 10 ''JobName'' Print_str PRINT_JOBNAME, field_entry 9 ''Layout'' Print_str PRINT_LAYOUT,
     field_entry 8 ''MaxPages'' Print_str PRINT_MAXPAGES,
     field_entry 12 ''MaxPagesNode'' Print_str PRINT_MAXPAGESNODE,
     field_entry 14 ''MaxPagesTask'' Print_int PRINT_MAXPAGESTASK,
     field_entry 10 ''MaxRSS'' Print_str PRINT_MAXRSS, field_entry 10 ''MaxRSSNode'' Print_str PRINT_MAXRSSNODE,
     field_entry 10 ''MaxRSSTask'' Print_int PRINT_MAXRSSTASK,
     field_entry 10 ''MaxVMSize'' Print_str PRINT_MAXVSIZE,
     field_entry 14 ''MaxVMSizeNode'' Print_str PRINT_MAXVSIZENODE,
     field_entry 14 ''MaxVMSizeTask'' Print_int PRINT_MAXVSIZETASK,
     field_entry 10 ''MinCPU'' Print_str PRINT_MINCPU, field_entry 10 ''MinCPUNode'' Print_str PRINT_MINCPUNODE,
     field_entry 10 ''MinCPUTask'' Print_int PRINT_MINCPUTASK,
     field_entry 10 ''NCPUS'' Print_int PRINT_ALLOC_CPUS, field_entry 15 ''NodeList'' Print_str PRINT_NODELIST,
     field_entry 8 ''NNodes'' Print_str PRINT_NNODES, field_entry 8 ''NTasks'' Print_int PRINT_NTASKS,
     field_entry 10 ''Priority'' Print_int PRINT_PRIO, field_entry 10 ''Partition'' Print_str PRINT_PARTITION,
     field_entry 10 ''QOS'' Print_str PRINT_QOS, field_entry 6 ''QOSRAW'' Print_int PRINT_QOSRAW,
     field_entry 8 ''ReqCPUS'' Print_int PRINT_REQ_CPUS,
     field_entry 10 ''Reserved'' Print_time_from_secs PRINT_RESV,
     field_entry 10 ''ResvCPU'' Print_time_from_secs PRINT_RESV_CPU,
     field_entry 10 ''ResvCPURAW'' Print_int PRINT_RESV_CPU, field_entry 19 ''Start'' Print_date PRINT_START,
     field_entry 10 ''State'' Print_str PRINT_STATE, field_entry 19 ''Submit'' Print_date PRINT_SUBMIT,
     field_entry 10 ''Suspended'' Print_time_from_secs PRINT_SUSPENDED,
     field_entry 10 ''SystemCPU'' Print_str PRINT_SYSTEMCPU,
     field_entry 10 ''Timelimit'' Print_str PRINT_TIMELIMIT, field_entry 10 ''TotalCPU'' Print_str PRINT_TOTALCPU,
     field_entry 6 ''UID'' Print_int PRINT_UID, field_entry 9 ''User'' Print_str PRINT_USER,
     field_entry 10 ''UserCPU'' Print_str PRINT_USERCPU, field_entry 10 ''WCKey'' Print_str PRINT_WCKEY,
     field_entry 10 ''WCKeyID'' Print_int PRINT_WCKEYID]"

definition BRIEF_FIELDS :: string where "BRIEF_FIELDS = ''jobid,state,exitcode''"
definition BRIEF_COMP_FIELDS :: string where "BRIEF_COMP_FIELDS = ''jobid,uid,state''"
definition DEFAULT_FIELDS :: string where "DEFAULT_FIELDS = ''jobid,jobname,partition,account,alloccpus,state,exitcode''"
definition DEFAULT_COMP_FIELDS :: string where
  "DEFAULT_COMP_FIELDS = ''jobid,uid,jobname,partition,nnodes,nodes,state,end''"
definition LONG_FIELDS :: string where
  "LONG_FIELDS = ''jobid,jobname,partition,maxvmsize,maxvmsizenode,maxvmsizetask,avevmsize,maxrss,maxrssnode,maxrsstask,averss,'' @
     ''maxpages,maxpagesnode,maxpagestask,avepages,mincpu,mincpunode,mincputask,avecpu,ntasks,alloccpus,elapsed,state,exitcode''"
definition LONG_COMP_FIELDS :: string where
  "LONG_COMP_FIELDS = ''jobid,uid,jobname,partition,nnodes,nodelist,state,start,end,timelimit''"

text \<open>The list of columns holds pointers into the table, whose widths the user can change.\<close>

fun find_field :: "field list \<Rightarrow> string \<Rightarrow> nat \<Rightarrow> nat option" where
  "find_field [] start i = None"
| "find_field (f # fs) start i = (if same_start (pf_name f) start (length start) then Some i else find_field fs start (i + 1))"

text \<open>
  One item: what stands behind a percent sign is the width.
\<close>

definition select_field :: "string \<Rightarrow> field list \<times> nat list \<Rightarrow> (field list \<times> nat list) run" where
  "select_field item s = (case s of (table, print_fields_list) \<Rightarrow>
     (let newlen = (case dropWhile (\<lambda>c. c \<noteq> CHR ''%'') item of [] \<Rightarrow> 0 | _ # r \<Rightarrow> atoi r);
          start = takeWhile (\<lambda>c. c \<noteq> CHR ''%'') item
      in case find_field table start 0 of
           None \<Rightarrow> Exited 1
         | Some i \<Rightarrow> Returned (if newlen \<noteq> 0 then table[i := (table ! i)\<lparr>pf_len := newlen\<rparr>] else table, print_fields_list @ [i])))"

text \<open>
  The loop over the list: \<open>start\<close> is what is left of it.  An item that is empty, or only blanks, ends the loop: the
  comma behind it has been overwritten, and the next search starts there.
\<close>

function select_fields :: "string \<Rightarrow> field list \<times> nat list \<Rightarrow> (field list \<times> nat list) run" where
  "select_fields start s =
     (case dropWhile (\<lambda>c. c \<noteq> CHR '','') start of
        [] \<Rightarrow> Returned s
      | _ # r \<Rightarrow>
          (let item = dropWhile is_space (takeWhile (\<lambda>c. c \<noteq> CHR '','') start) in
           if item = [] then Returned s
           else run_bind (select_field item s) (select_fields r)))"
  by pat_completeness auto

text \<open>What follows a comma is shorter.\<close>

termination
proof (relation "measure (\<lambda>(start, _). length start)")
  fix start s and c :: char and r item x
  assume "dropWhile (\<lambda>c. c \<noteq> CHR '','') start = c # r"
  then have "length (c # r) \<le> length start" by (metis length_dropWhile_le)
  then show "((r, x), (start, s)) \<in> measure (\<lambda>(start, _). length start)" by simp
qed simp

declare select_fields.simps [simp del]

definition field_list_of :: "sacct_parameters \<Rightarrow> string option" where
  "field_list_of p =
     (let add = (\<lambda>l (dot :: string). Some ((case l of None \<Rightarrow> [] | Some t \<Rightarrow> t) @ dot @ '',''));
          l = opt_field_list p;
          l = (if brief_output p then add l (if opt_completion p then BRIEF_COMP_FIELDS else BRIEF_FIELDS) else l);
          l = (if long_output p then add l (if opt_completion p then LONG_COMP_FIELDS else LONG_FIELDS) else l)
      in if l = None \<and> \<not> opt_dump p then add l (if opt_completion p then DEFAULT_COMP_FIELDS else DEFAULT_FIELDS) else l)"

definition select_columns :: "sacct_parameters \<Rightarrow> (field list \<times> nat list) run" where
  "select_columns p = (case field_list_of p of None \<Rightarrow> Returned (sacct_fields, []) | Some l \<Rightarrow> select_fields l (sacct_fields, []))"


section \<open>The rest of the command line\<close>

definition FDUMP_FLAG :: u32 where "FDUMP_FLAG = 4"

definition midnight :: "clock \<Rightarrow> int" where
  "midnight clk = mktime clk ((now_tm clk)\<lparr>tm_sec := 0, tm_min := 0, tm_hour := 0, tm_isdst := - 1\<rparr>)"

definition set_defaults :: "sys \<Rightarrow> sacct_parameters \<Rightarrow> sacct_parameters" where
  "set_defaults sy p0 =
     (let p = (if opt_fdump p0 then p0\<lparr>opt_dup := or (opt_dup p0) FDUMP_FLAG\<rparr> else p0);
          p = set_cond (jcond_duplicates_update (\<lambda>_. ucast (opt_dup p))) p
      in if jcond_usage_start (job_cond p) = 0 then set_cond (jcond_usage_start_update (\<lambda>_. midnight (s_clock sy))) p else p)"

text \<open>Without a storage to ask and without the file the program ends.\<close>

definition storage_enabled :: "sys \<Rightarrow> sacct_parameters \<Rightarrow> bool" where
  "storage_enabled sy p \<longleftrightarrow>
     \<not> ((if opt_completion p then s_jobcomp_type sy = ''jobcomp/none'' else s_storage_type sy = ''accounting_storage/none'') \<and>
        \<not> s_stat sy (opt_filein p))"

definition some_in :: "'a list option \<Rightarrow> bool" where
  "some_in l \<longleftrightarrow> (case l of None \<Rightarrow> False | Some xs \<Rightarrow> xs \<noteq> [])"

definition choose_clusters :: "sys \<Rightarrow> sacct_parameters \<Rightarrow> sacct_parameters" where
  "choose_clusters sy p =
     (let l = jcond_cluster_list (job_cond p);
          l' = (if all_clusters p then (if some_in l then None else l)
                else if some_in l then l
                else case s_cluster_name sy of None \<Rightarrow> created l | Some nm \<Rightarrow> map_option (\<lambda>xs. xs @ [nm]) (created l))
      in set_cond (jcond_cluster_list_update (\<lambda>_. l')) p)"

definition choose_users :: "sacct_parameters \<Rightarrow> sacct_parameters" where
  "choose_users p =
     (let l = jcond_userid_list (job_cond p);
          every = (all_users p \<or> \<not> some_in l \<and> (some_in (jcond_step_list (job_cond p)) \<or> jcond_used_nodes (job_cond p) \<noteq> None));
          l' = (if every then (if some_in l then None else l)
                else if some_in l then l
                else map_option (\<lambda>xs. xs @ [decimal (unat (opt_uid p))]) (created l))
      in set_cond (jcond_userid_list_update (\<lambda>_. l')) (p\<lparr>all_users := every\<rparr>))"

text \<open>\<open>extra\<close> says whether arguments are left behind the options.\<close>

definition parse_command_line :: "sys \<Rightarrow> parsed_option list \<Rightarrow> bool \<Rightarrow> (sacct_parameters \<times> field list \<times> nat list) run" where
  "parse_command_line sy os extra =
     run_bind (parse_options sy os (init_params sy)) (\<lambda>p.
     let p = set_defaults sy p in
     if \<not> storage_enabled sy p then Exited 1
     else
       (let p = choose_users (choose_clusters sy p) in
        run_bind (select_columns p) (\<lambda>(table, l). if extra then Exited 1 else Returned (p, table, l))))"


section \<open>Jobs and their steps\<close>

text \<open>A step adds its times and usage to the job when it is no longer active.\<close>

definition add_step_usage :: "jobacct_step_rec \<Rightarrow> jobacct_job_rec \<Rightarrow> jobacct_job_rec" where
  "add_step_usage s j0 =
     (let j = j0\<lparr>j_alloc_cpus := max (j_alloc_cpus j0) (st_ncpus s)\<rparr>
      in if uint (st_state s) < JOB_COMPLETE then j
         else j\<lparr>j_tot_cpu_sec := j_tot_cpu_sec j + st_tot_cpu_sec s, j_tot_cpu_usec := j_tot_cpu_usec j + st_tot_cpu_usec s,
                j_user_cpu_sec := j_user_cpu_sec j + st_user_cpu_sec s, j_user_cpu_usec := j_user_cpu_usec j + st_user_cpu_usec s,
                j_sys_cpu_sec := j_sys_cpu_sec j + st_sys_cpu_sec s, j_sys_cpu_usec := j_sys_cpu_usec j + st_sys_cpu_usec s,
                j_sacct := aggregate_sacct (j_sacct j) (st_sacct s)\<rparr>)"

definition steps_of :: "jobacct_job_rec \<Rightarrow> jobacct_step_rec list" where
  "steps_of j = (case j_steps j of None \<Rightarrow> [] | Some ss \<Rightarrow> ss)"

definition job_uid :: "env \<Rightarrow> (string \<Rightarrow> u32 option) \<Rightarrow> jobacct_job_rec \<Rightarrow> jobacct_job_rec option" where
  "job_uid e getpwnam j = (case text_at e (j_user j) of
       None \<Rightarrow> Some j
     | Some m \<Rightarrow> do { name \<leftarrow> c_text m; Some (case getpwnam name of None \<Rightarrow> j | Some u \<Rightarrow> j\<lparr>j_uid := u\<rparr>) })"

definition gather_job :: "env \<Rightarrow> (string \<Rightarrow> u32 option) \<Rightarrow> jobacct_job_rec \<Rightarrow> jobacct_job_rec option" where
  "gather_job e getpwnam j = map_option (\<lambda>j. fold add_step_usage (steps_of j) j) (job_uid e getpwnam j)"

fun map_jobs :: "('a \<Rightarrow> 'b option) \<Rightarrow> 'a list \<Rightarrow> 'b list option" where
  "map_jobs f [] = Some []"
| "map_jobs f (x # xs) = do { y \<leftarrow> f x; ys \<leftarrow> map_jobs f xs; Some (y # ys) }"

text \<open>
  The jobs that the storage delivers for the condition (\<open>jobs\<close>, \<^const>\<open>None\<close> when it fails).  The result \<open>Inl False\<close> is
  \<^verbatim>\<open>SLURM_ERROR\<close>.
\<close>

definition get_data :: "env \<Rightarrow> (string \<Rightarrow> u32 option) \<Rightarrow> sacct_parameters \<Rightarrow> jobacct_job_rec list option
      \<Rightarrow> (bool \<times> jobacct_job_rec list option) option" where
  "get_data e getpwnam p jobs =
     (if opt_fdump p then Some (True, jobs)
      else case jobs of None \<Rightarrow> Some (False, None)
        | Some js \<Rightarrow> map_option (\<lambda>js. (True, Some js)) (map_jobs (gather_job e getpwnam) js))"

text \<open>A sum divided by the number of steps, an \<^verbatim>\<open>int\<close>, in single precision.\<close>

definition float_quotient :: "rat \<Rightarrow> nat \<Rightarrow> rat" where
  "float_quotient v n = fl32 (v / fl32 (of_nat n))"

definition average_usage :: "nat \<Rightarrow> sacct \<Rightarrow> sacct" where
  "average_usage n u = u\<lparr>sa_ave_cpu := float_quotient (sa_ave_cpu u) n, sa_ave_rss := float_quotient (sa_ave_rss u) n,
     sa_ave_vsize := float_quotient (sa_ave_vsize u) n, sa_ave_pages := float_quotient (sa_ave_pages u) n\<rparr>"

definition plain_min_cpu :: "sacct \<Rightarrow> sacct" where
  "plain_min_cpu u = (if sa_min_cpu u = u2f NO_VAL then u\<lparr>sa_min_cpu := 0\<rparr> else u)"

definition prepare_job :: "jobacct_job_rec \<Rightarrow> jobacct_job_rec option" where
  "prepare_job j = (case j_steps j of None \<Rightarrow> None
     | Some ss \<Rightarrow>
        (let u = plain_min_cpu (j_sacct j)
         in Some (j\<lparr>j_sacct := (if ss \<noteq> [] then average_usage (length ss) u else u)\<rparr>)))"

text \<open>
  The listing.  \<open>junk n\<close> is what \<^verbatim>\<open>outbuf\<close> holds on entry of the \<open>n\<close>-th call of \<^verbatim>\<open>print_fields\<close>.
\<close>

record listing =
  l_rows :: nat
  l_qos_list :: "qos_rec list option"

definition print_row :: "env \<Rightarrow> (nat \<Rightarrow> string) \<Rightarrow> field list \<Rightarrow> object \<Rightarrow> listing \<Rightarrow> (string \<times> listing) option" where
  "print_row e junk fs ob l = do {
     (s, qs) \<leftarrow> print_fields e ob (length fs) fs (junk (l_rows l)) (l_qos_list l);
     Some (s, \<lparr>l_rows = l_rows l + 1, l_qos_list = qs\<rparr>)
   }"

fun print_rows :: "env \<Rightarrow> (nat \<Rightarrow> string) \<Rightarrow> field list \<Rightarrow> object list \<Rightarrow> listing \<Rightarrow> (string \<times> listing) option" where
  "print_rows e junk fs [] l = Some ([], l)"
| "print_rows e junk fs (ob # obs) l = do {
     (s, l) \<leftarrow> print_row e junk fs ob l;
     (r, l) \<leftarrow> print_rows e junk fs obs l;
     Some (s @ r, l)
   }"

text \<open>
  A job is listed when it is to be shown in full; its steps unless only allocations are wanted or the job tracks none.
  The mark that \<^verbatim>\<open>print_fields\<close> leaves in the job counts.
\<close>

definition step_object :: "jobacct_job_rec \<Rightarrow> jobacct_step_rec \<Rightarrow> object" where
  "step_object j s = Jobstep (if st_end s = 0 then s\<lparr>st_end := j_end j\<rparr> else s) j"

definition rows_of_job :: "bool \<Rightarrow> jobacct_job_rec \<Rightarrow> object list option" where
  "rows_of_job allocs j0 = do {
     j \<leftarrow> prepare_job j0;
     let (jp, step) = (if j_show_full j \<noteq> 0 then enter_job j else (j, None));
     Some ((if j_show_full jp \<noteq> 0 then [Job jp step] else []) @
       (if \<not> allocs \<and> (j_track_steps jp \<noteq> 0 \<or> j_show_full jp = 0) then map (step_object jp) (steps_of jp) else []))
   }"

definition do_list :: "env \<Rightarrow> (nat \<Rightarrow> string) \<Rightarrow> field list \<Rightarrow> bool \<Rightarrow> jobacct_job_rec list option \<Rightarrow> string option" where
  "do_list e junk fs allocs jobs =
     (case jobs of None \<Rightarrow> Some []
      | Some js \<Rightarrow> do {
          obs \<leftarrow> map_jobs (rows_of_job allocs) js;
          (s, _) \<leftarrow> print_rows e junk fs (concat obs) \<lparr>l_rows = 0, l_qos_list = None\<rparr>;
          Some s })"

definition do_list_completion :: "env \<Rightarrow> (nat \<Rightarrow> string) \<Rightarrow> field list \<Rightarrow> jobcomp_job_rec list option \<Rightarrow> string option" where
  "do_list_completion e junk fs jobs =
     (case jobs of None \<Rightarrow> Some []
      | Some js \<Rightarrow> map_option fst (print_rows e junk fs (map Jobcomp js) \<lparr>l_rows = 0, l_qos_list = None\<rparr>))"

text \<open>The names of the columns, four to a line.\<close>

fun help_fields :: "nat \<Rightarrow> field list \<Rightarrow> string" where
  "help_fields i [] = [CHR 0x0A]"
| "help_fields i (f # fs) =
     (if i mod 4 \<noteq> 0 then '' '' else if i \<noteq> 0 then [CHR 0x0A] else []) @ pad_right 13 (pf_name f) @ help_fields (i + 1) fs"

definition usage :: string where
  "usage = ''Usage: sacct [options]'' @ [CHR 0x0A, CHR 0x09] @ ''Use --help for help'' @ [CHR 0x0A]"

end
