(* ===== verification/Sacct_main.thy ===== *)
theory Sacct_main
  imports Sacct
begin

text \<open>
  The dump of the raw records and \<^verbatim>\<open>main\<close>.  The text of \<^verbatim>\<open>--help\<close>, a constant, is a parameter.
\<close>


section \<open>The dump\<close>

text \<open>\<^verbatim>\<open>%s\<close> of a pointer, \<^verbatim>\<open>%0kd\<close>, and a time in digits.\<close>

definition show_ptr :: "env \<Rightarrow> cptr \<Rightarrow> string option" where
  "show_ptr e p = (case text_at e p of None \<Rightarrow> Some ''(null)'' | Some m \<Rightarrow> c_text m)"

definition zero_padded :: "nat \<Rightarrow> int \<Rightarrow> string" where
  "zero_padded k n = (if n < 0 then ''-'' @ zero_filled (k - 1) (nat (- n)) else zero_filled k (nat n))"

definition digits_of_time :: "tm \<Rightarrow> string" where
  "digits_of_time ts = zero_padded 4 (1900 + tm_year ts) @ zero_padded 2 (1 + tm_mon ts) @ zero_padded 2 (tm_mday ts) @
     zero_padded 2 (tm_hour ts) @ zero_padded 2 (tm_min ts) @ zero_padded 2 (tm_sec ts)"

definition gm :: "(int \<Rightarrow> tm) \<Rightarrow> u64 \<Rightarrow> string" where
  "gm gmtime t = digits_of_time (gmtime (sint t))"

fun spaced :: "string list \<Rightarrow> string" where
  "spaced [] = []"
| "spaced [s] = s"
| "spaced (s # t # ss) = s @ '' '' @ spaced (t # ss)"

definition show_u :: "u32 \<Rightarrow> string" where "show_u w = decimal (unat w)"

definition show_d :: "u32 \<Rightarrow> string" where "show_d w = signed_decimal (int_of w)"

text \<open>The usage.  \<^verbatim>\<open>%.2f\<close> of a float; the averages of the memory are divided by 1024 as floats.\<close>

definition show_float :: "rat \<Rightarrow> string" where
  "show_float v = (case quotient_of v of (a, b) \<Rightarrow> (if a < 0 then ''-'' else []) @ two_decimals (nat \<bar>a\<bar>) (nat b))"

definition show_kilo :: "rat \<Rightarrow> string" where
  "show_kilo v = show_float (fl32 (v / 1024))"

definition id_words :: "jobacct_id \<Rightarrow> string list" where
  "id_words i = [show_u (nodeid i), decimal (unat (taskid i))]"

definition usage_words :: "sacct \<Rightarrow> string list" where
  "usage_words u =
     id_words (sa_max_vsize_id u) @ [show_kilo (sa_ave_vsize u)] @ id_words (sa_max_rss_id u) @ [show_kilo (sa_ave_rss u)] @
     [show_d (sa_max_pages u)] @ id_words (sa_max_pages_id u) @ [show_float (sa_ave_pages u), show_float (sa_min_cpu u)] @
     id_words (sa_min_cpu_id u) @ [show_float (sa_ave_cpu u)]"

definition dump_head :: "env \<Rightarrow> (int \<Rightarrow> tm) \<Rightarrow> jobacct_job_rec \<Rightarrow> u64 \<Rightarrow> string list option" where
  "dump_head e gmtime j start = do {
     partition \<leftarrow> show_ptr e (j_partition j);
     blockid \<leftarrow> show_ptr e (j_blockid j);
     Some [show_u (j_jobid j), partition, gm gmtime start, signed_decimal (int_of_time (j_submit j)), blockid, ''-'']
   }"

definition newline :: string where "newline = [CHR 0x0A]"

definition dump_job_start :: "env \<Rightarrow> (int \<Rightarrow> tm) \<Rightarrow> jobacct_job_rec \<Rightarrow> string option" where
  "dump_job_start e gmtime j = do {
     h \<leftarrow> dump_head e gmtime j (j_start j);
     jobname \<leftarrow> show_ptr e (j_jobname j);
     nodes \<leftarrow> show_ptr e (j_nodes j);
     account \<leftarrow> show_ptr e (j_account j);
     Some (spaced (h @ [''JOB_START'', ''1'', ''16'', show_d (j_uid j), show_d (j_gid j), jobname, signed_decimal (uint (j_track_steps j)),
       show_d (j_priority j), show_d (j_alloc_cpus j), nodes, account]) @ newline)
   }"

text \<open>The words \<^verbatim>\<open>%d %d %d %d %d %d %d %d\<close> are followed by the next format without a blank.\<close>

definition dump_job_step :: "env \<Rightarrow> (int \<Rightarrow> tm) \<Rightarrow> jobacct_job_rec \<Rightarrow> jobacct_step_rec \<Rightarrow> string option" where
  "dump_job_step e gmtime j s0 = do {
     h \<leftarrow> dump_head e gmtime j (st_start s0);
     let s = (if st_end s0 = 0 then s0\<lparr>st_end := j_end j\<rparr> else s0);
     stepname \<leftarrow> show_ptr e (st_stepname s);
     nodes \<leftarrow> show_ptr e (st_nodes s);
     account \<leftarrow> show_ptr e (j_account j);
     Some (spaced (h @ [''JOB_STEP'', ''1'', ''50'', show_u (st_stepid s), gm gmtime (st_end s),
         job_state_string_compact (st_state s), show_d (st_exitcode s), show_d (st_ncpus s), show_d (st_ncpus s), show_d (st_elapsed s),
         show_d (st_tot_cpu_sec s), show_d (st_tot_cpu_usec s), show_d (st_user_cpu_sec s), show_d (st_user_cpu_usec s),
         show_d (st_sys_cpu_sec s), show_d (st_sys_cpu_usec s), show_d (sa_max_vsize (st_sacct s) div 1024),
         show_d (sa_max_rss (st_sacct s) div 1024)]) @
       spaced (usage_words (st_sacct s) @ [stepname, nodes, account]) @ newline)
   }"

definition dump_job_terminated :: "env \<Rightarrow> (int \<Rightarrow> tm) \<Rightarrow> jobacct_job_rec \<Rightarrow> string option" where
  "dump_job_terminated e gmtime j = do {
     h \<leftarrow> dump_head e gmtime j (j_start j);
     nodes \<leftarrow> show_ptr e (j_nodes j);
     account \<leftarrow> show_ptr e (j_account j);
     Some (spaced (h @ [''JOB_TERMINATED'', ''1'', ''50'', show_d (j_elapsed j), gm gmtime (j_end j),
         job_state_string_compact (j_state j), show_d (j_exitcode j), show_d (j_alloc_cpus j), show_d (j_alloc_cpus j), show_d (j_elapsed j),
         show_d (j_tot_cpu_sec j), show_d (j_tot_cpu_usec j), show_d (j_user_cpu_sec j), show_d (j_user_cpu_usec j),
         show_d (j_sys_cpu_sec j), show_d (j_sys_cpu_usec j), show_d (sa_max_vsize (j_sacct j) div 1024),
         show_d (sa_max_rss (j_sacct j) div 1024)]) @
       spaced (usage_words (j_sacct j) @ [''-'', nodes, account, show_d (j_requid j)]) @ newline)
   }"

definition dump_job :: "env \<Rightarrow> (int \<Rightarrow> tm) \<Rightarrow> jobacct_job_rec \<Rightarrow> string option" where
  "dump_job e gmtime j0 = do {
     steps \<leftarrow> j_steps j0;
     j \<leftarrow> prepare_job j0;
     first \<leftarrow> (if j_show_full j \<noteq> 0 then dump_job_start e gmtime j else Some []);
     middle \<leftarrow> map_jobs (dump_job_step e gmtime j) steps;
     final \<leftarrow> (if j_show_full j \<noteq> 0 then dump_job_terminated e gmtime j else Some []);
     Some (first @ concat middle @ final)
   }"

definition do_dump :: "env \<Rightarrow> (int \<Rightarrow> tm) \<Rightarrow> jobacct_job_rec list option \<Rightarrow> string option" where
  "do_dump e gmtime jobs = do { js \<leftarrow> jobs; ls \<leftarrow> map_jobs (dump_job e gmtime) js; Some (concat ls) }"


definition dump_block :: "env \<Rightarrow> jobcomp_job_rec \<Rightarrow> string option" where
  "dump_block e c = (case jc_blockid c of None \<Rightarrow> Some [] | Some _ \<Rightarrow> do {
     words \<leftarrow> map_jobs (show_ptr e) [jc_blockid c, jc_connection c, jc_reboot c, jc_rotate c];
     places \<leftarrow> map_jobs (show_ptr e) [jc_geo c, jc_bg_start_point c];
     Some ('' '' @ spaced (words @ [show_u (jc_max_procs c)] @ places))
   })"

definition dump_completion :: "env \<Rightarrow> jobcomp_job_rec \<Rightarrow> string option" where
  "dump_completion e c = do {
     times \<leftarrow> map_jobs (show_ptr e) [jc_partition c, jc_start_time c, jc_end_time c];
     user \<leftarrow> show_ptr e (jc_uid_name c);
     group \<leftarrow> show_ptr e (jc_gid_name c);
     names \<leftarrow> map_jobs (show_ptr e) [jc_nodelist c, jc_jobname c, jc_state c, jc_timelimit c];
     block \<leftarrow> dump_block e c;
     Some (spaced ([''JOB'', show_u (jc_jobid c)] @ times @
       [user @ ''('' @ show_u (jc_uid c) @ '')'', show_u (jc_gid c) @ ''('' @ group @ '')'', show_u (jc_node_cnt c)] @ names) @
       block @ newline)
   }"

definition do_dump_completion :: "env \<Rightarrow> jobcomp_job_rec list option \<Rightarrow> string option" where
  "do_dump_completion e jobs = do { js \<leftarrow> jobs; ls \<leftarrow> map_jobs (dump_completion e) js; Some (concat ls) }"


section \<open>The program\<close>

text \<open>What the storage delivers for a condition, and \<^verbatim>\<open>errno\<close> when it does not.\<close>

record storage =
  sg_jobs :: "acct_job_cond \<Rightarrow> jobacct_job_rec list option"
  sg_completions :: "acct_job_cond \<Rightarrow> jobcomp_job_rec list option"
  sg_gmtime :: "int \<Rightarrow> tm"
  sg_errno :: nat

definition do_help :: "string \<Rightarrow> field list \<Rightarrow> nat \<Rightarrow> string" where
  "do_help help_msg table n =
     (if n = 1 then help_msg else if n = 2 then help_fields 0 table else if n = 3 then usage else [])"

text \<open>The environment of the printing routines, with the form of output that was asked for.\<close>

definition with_parsable :: "env \<Rightarrow> sacct_parameters \<Rightarrow> env" where
  "with_parsable e p = e\<lparr>e_parsable := parsable_print p\<rparr>"

definition chosen :: "field list \<Rightarrow> nat list \<Rightarrow> field list" where
  "chosen table l = map (\<lambda>i. table ! i) l"

text \<open>The output and the exit status.\<close>

definition list_op :: "env \<Rightarrow> (nat \<Rightarrow> string) \<Rightarrow> storage \<Rightarrow> (string \<Rightarrow> u32 option) \<Rightarrow> sacct_parameters \<Rightarrow> field list
      \<Rightarrow> (string \<times> nat) option" where
  "list_op e junk sg getpwnam p fs =
     (let header = print_fields_header (parsable_print p) (have_header p) (Some fs) in
      if opt_completion p then do {
        out \<leftarrow> do_list_completion e junk fs (sg_completions sg (job_cond p));
        Some (header @ out, 0)
      } else do {
        (ok, jobs) \<leftarrow> get_data e getpwnam p (sg_jobs sg (job_cond p));
        if \<not> ok then Some (header, sg_errno sg)
        else do { out \<leftarrow> do_list e junk fs (opt_allocs p) jobs; Some (header @ out, 0) }
      })"

definition dump_op :: "env \<Rightarrow> storage \<Rightarrow> (string \<Rightarrow> u32 option) \<Rightarrow> sacct_parameters \<Rightarrow> (string \<times> nat) option" where
  "dump_op e sg getpwnam p =
     (if opt_completion p then map_option (\<lambda>out. (out, 0)) (do_dump_completion e (sg_completions sg (job_cond p)))
      else do {
        (ok, jobs) \<leftarrow> get_data e getpwnam p (sg_jobs sg (job_cond p));
        if \<not> ok then Some ([], sg_errno sg) else do { out \<leftarrow> do_dump e (sg_gmtime sg) jobs; Some (out, 0) }
      })"

definition sacct_main ::
    "env \<Rightarrow> sys \<Rightarrow> storage \<Rightarrow> (nat \<Rightarrow> string) \<Rightarrow> string \<Rightarrow> parsed_option list \<Rightarrow> bool \<Rightarrow> (string \<times> nat) run" where
  "sacct_main e0 sy sg junk help_msg os extra =
     run_bind (parse_command_line sy os extra) (\<lambda>(p, table, l).
       let e = with_parsable e0 p in
       if opt_help p \<noteq> 0 then Returned (do_help help_msg table (opt_help p), 0)
       else if opt_dump p then of_option (dump_op e sg (s_getpwnam sy) p)
       else if opt_fdump p then
         of_option (map_option (\<lambda>_. ([], 0)) (if opt_completion p then Some (True, None) else get_data e (s_getpwnam sy) p (sg_jobs sg (job_cond p))))
       else of_option (list_op e junk sg (s_getpwnam sy) p (chosen table l)))"

end
