(* ===== verification/Sacct_Laws.thy ===== *)
theory Sacct_Laws
  imports Sacct_main Options_Laws
begin

text \<open>
  What the parts of the listing do: the columns a user selects, the width and the text of columns, rows as cells, and
  sums over steps.
\<close>


section \<open>Columns of the table\<close>

text \<open>Two tables that differ in the widths only.\<close>

definition same_columns :: "field list \<Rightarrow> field list \<Rightarrow> bool" where
  "same_columns t u \<longleftrightarrow> list_all2 (\<lambda>f g. pf_name f = pf_name g \<and> pf_routine f = pf_routine g \<and> pf_type f = pf_type g) t u"

lemma same_columns_refl: "same_columns t t"
  by (simp add: same_columns_def list_all2_refl)

lemma same_columns_width:
  "same_columns t u \<Longrightarrow> i < length t \<Longrightarrow> same_columns (t[i := (t ! i)\<lparr>pf_len := n\<rparr>]) u"
  by (auto simp: same_columns_def list_all2_conv_all_nth nth_list_update)

lemma same_columns_nth:
  "same_columns t u \<Longrightarrow> i < length t \<Longrightarrow>
    i < length u \<and> pf_name (t ! i) = pf_name (u ! i) \<and> pf_routine (t ! i) = pf_routine (u ! i) \<and> pf_type (t ! i) = pf_type (u ! i)"
  by (auto simp: same_columns_def list_all2_conv_all_nth)

lemma find_field_Some:
  "find_field t start i = Some k \<Longrightarrow>
    i \<le> k \<and> k < i + length t \<and> same_start (pf_name (t ! (k - i))) start (length start) \<and>
    (\<forall>j<k - i. \<not> same_start (pf_name (t ! j)) start (length start))"
proof (induction t start i rule: find_field.induct)
  case (2 f fs start i)
  show ?case
  proof (cases "same_start (pf_name f) start (length start)")
    case True
    then show ?thesis using 2 by simp
  next
    case False
    then have r: "find_field fs start (i + 1) = Some k" using 2 by simp
    note ih = 2(1) [OF False r]
    then have "k - i = Suc (k - (i + 1))" by linarith
    then show ?thesis using ih False by (auto simp: nth_Cons' less_Suc_eq_0_disj)
  qed
qed simp

lemma find_field_None: "find_field t start i = None \<Longrightarrow> f \<in> set t \<Longrightarrow> \<not> same_start (pf_name f) start (length start)"
  by (induction t start i rule: find_field.induct) (auto split: if_splits)

text \<open>What selecting keeps: the columns but for the widths, and that every choice is one of them.\<close>

definition columns_ok :: "field list \<times> nat list \<Rightarrow> bool" where
  "columns_ok s \<longleftrightarrow> same_columns (fst s) sacct_fields \<and> (\<forall>i\<in>set (snd s). i < length (fst s))"

lemma select_field_keeps: "columns_ok s \<Longrightarrow> select_field item s = Returned s' \<Longrightarrow> columns_ok s'"
  by (cases s) (auto simp: select_field_def columns_ok_def Let_def same_columns_width split: option.splits if_splits dest!: find_field_Some)

lemma select_fields_end: "CHR '','' \<notin> set start \<Longrightarrow> select_fields start s = Returned s"
proof -
  assume "CHR '','' \<notin> set start"
  then have "dropWhile (\<lambda>c. c \<noteq> CHR '','') start = []" by (auto simp: dropWhile_eq_Nil_conv)
  then show ?thesis by (subst select_fields.simps) (simp only: list.case)
qed

lemma select_fields_item:
  assumes "CHR '','' \<notin> set t"
  shows "select_fields (t @ CHR '','' # r) s =
    (if dropWhile is_space t = [] then Returned s else run_bind (select_field (dropWhile is_space t) s) (select_fields r))"
proof -
  have "takeWhile (\<lambda>c. c \<noteq> CHR '','') (t @ CHR '','' # r) = t" "dropWhile (\<lambda>c. c \<noteq> CHR '','') (t @ CHR '','' # r) = CHR '','' # r"
    using assms by (auto simp: takeWhile_append dropWhile_append dropWhile_eq_Nil_conv takeWhile_eq_all_conv)
  then show ?thesis by (subst select_fields.simps) (simp add: Let_def)
qed

lemma first_comma: "CHR '','' \<notin> set start \<or> (\<exists>t r. start = t @ CHR '','' # r \<and> CHR '','' \<notin> set t)"
  by (metis split_list_first)

lemma select_fields_keeps: "columns_ok s \<Longrightarrow> select_fields start s = Returned s' \<Longrightarrow> columns_ok s'"
proof (induction "length start" arbitrary: start s rule: less_induct)
  case less
  consider "CHR '','' \<notin> set start" | t r where "start = t @ CHR '','' # r" "CHR '','' \<notin> set t" using first_comma [of start] by blast
  then show ?case
  proof cases
    case 1
    then show ?thesis using less.prems by (simp add: select_fields_end)
  next
    case 2
    show ?thesis
    proof (cases "dropWhile is_space t = []")
      case True
      have "s' = s" using less.prems(2) select_fields_item [OF 2(2), of r s] unfolding 2(1) if_P [OF True] by simp
      then show ?thesis using less.prems(1) by simp
    next
      case False
      obtain u where u: "select_field (dropWhile is_space t) s = Returned u" "select_fields r u = Returned s'"
        using less.prems(2) select_fields_item [OF 2(2), of r s] unfolding 2(1) if_not_P [OF False] by (auto simp: run_bind_Returned)
      show ?thesis using less.hyps [of r u] less.prems(1) 2(1) select_field_keeps u by auto
    qed
  qed
qed

lemma select_columns_keeps: "select_columns p = Returned s \<Longrightarrow> columns_ok s"
  using select_fields_keeps [of "(sacct_fields, [])"]
  by (auto simp: select_columns_def columns_ok_def same_columns_refl split: option.splits)

lemma parse_command_line_keeps: "parse_command_line sy os extra = Returned (p, table, l) \<Longrightarrow> columns_ok (table, l)"
  by (auto simp: parse_command_line_def Let_def run_bind_Returned split: if_splits dest!: select_columns_keeps)


section \<open>Types\<close>

text \<open>The columns that hand an \<^verbatim>\<open>int\<close> to their routine.\<close>

definition int_columns :: "print_type list" where
  "int_columns = [PRINT_ALLOC_CPUS, PRINT_ASSOCID, PRINT_CPU_TIME, PRINT_CPU_TIME_RAW, PRINT_ELAPSED, PRINT_ELIGIBLE, PRINT_END,
     PRINT_GID, PRINT_MAXPAGESTASK, PRINT_MAXRSSTASK, PRINT_MAXVSIZETASK, PRINT_MINCPUTASK, PRINT_NTASKS, PRINT_PRIO, PRINT_QOSRAW,
     PRINT_REQ_CPUS, PRINT_RESV, PRINT_RESV_CPU, PRINT_RESV_CPU_RAW, PRINT_START, PRINT_SUBMIT, PRINT_SUSPENDED, PRINT_UID,
     PRINT_WCKEYID]"

definition holds_int :: "print_arg \<Rightarrow> bool" where
  "holds_int arg = (case arg of Arg_int i \<Rightarrow> True | Arg_str s \<Rightarrow> False)"

lemma holds_int_simps [simp]: "holds_int (Arg_int i)" "\<not> holds_int (Arg_str s)"
  by (simp_all add: holds_int_def)

lemma plain_Some: "plain st r = Some (arg, st') \<longleftrightarrow> r = Some arg \<and> st' = st"
  by (auto simp: plain_def)

lemma with_outbuf_Some: "with_outbuf r st = Some (arg, st') \<longleftrightarrow> (\<exists>b. r = Some (arg, b) \<and> st' = st\<lparr>r_outbuf := b\<rparr>)"
  by (auto simp: with_outbuf_def)

lemma size_arg_text: "size_arg e outbuf v = Some (arg, b) \<Longrightarrow> \<not> holds_int arg"
  by (auto simp: size_arg_def bind_eq_Some_conv)

lemma elapsed_arg_text: "\<not> holds_int (elapsed_arg e s u)"
  by (simp add: elapsed_arg_def)

lemma usage_host_text: "usage_host e ob who = Some arg \<Longrightarrow> \<not> holds_int arg"
  by (auto simp: usage_host_def)

lemma usage_task_int: "holds_int (usage_task ob who)"
  by (simp add: usage_task_def)

lemmas column_args = print_alloc_cpus_def print_account_def print_associd_def print_avecpu_def print_avepages_def print_averss_def
  print_avevsize_def print_blockid_def print_cluster_def print_cpu_time_def print_cpu_time_raw_def print_elapsed_def
  print_eligible_def print_end_def print_exitcode_def print_gid_def print_group_def print_jobid_def print_jobname_def
  print_layout_def print_maxpages_def print_maxpagesnode_def print_maxpagestask_def print_maxrss_def print_maxrssnode_def
  print_maxrsstask_def print_maxvsize_def print_maxvsizenode_def print_maxvsizetask_def print_mincpu_def print_mincpunode_def
  print_mincputask_def print_nodelist_def print_nnodes_def print_ntasks_def print_prio_def print_partition_def print_qos_def
  print_qosraw_def print_req_cpus_def print_resv_def print_resv_cpu_def print_resv_cpu_raw_def print_start_def
  print_job_state_def print_submit_def print_suspended_def print_systemcpu_def print_timelimit_def print_totalcpu_def
  print_uid_def print_user_def print_usercpu_def print_wckey_def print_wckeyid_def

lemma field_arg_kind: "field_arg e ob st ty = Some (arg, st') \<Longrightarrow> holds_int arg \<longleftrightarrow> ty \<in> set int_columns"
  by (cases ty)
    (auto simp: int_columns_def plain_Some with_outbuf_Some column_args bind_eq_Some_conv usage_task_int elapsed_arg_text
        Let_def simp del: not_None_eq dest!: size_arg_text usage_host_text split: object.splits prod.splits)

lemma columns_kind: "\<forall>f\<in>set sacct_fields. pf_routine f \<noteq> Print_str \<longleftrightarrow> pf_type f \<in> set int_columns"
  by (simp add: sacct_fields_def field_entry_def int_columns_def)

lemma routine_string: "routine_param r = Param_string \<longleftrightarrow> r = Print_str" and routine_time: "routine_param r = Param_time_t \<longleftrightarrow> r = Print_date"
  by (cases r; simp)+

lemma date_columns:
  "\<forall>f\<in>set sacct_fields. pf_routine f = Print_date \<longleftrightarrow> pf_type f \<in> {PRINT_ELIGIBLE, PRINT_END, PRINT_START, PRINT_SUBMIT}"
  by (simp add: sacct_fields_def field_entry_def)


section \<open>Rows\<close>

text \<open>The cells of a row are its columns as they are printed at the end of a row.\<close>

fun row_cells :: "env \<Rightarrow> object \<Rightarrow> field list \<Rightarrow> row_state \<Rightarrow> (string list \<times> row_state) option" where
  "row_cells e ob [] st = Some ([], st)"
| "row_cells e ob (f # fs) st = do {
     (s, st) \<leftarrow> print_column e ob f True st;
     (r, st) \<leftarrow> row_cells e ob fs st;
     Some (s # r, st)
   }"

lemma length_row_cells: "row_cells e ob fs st = Some (cs, st') \<Longrightarrow> length cs = length fs"
proof (induction fs arbitrary: st cs)
  case (Cons f fs)
  then show ?case by (auto simp: bind_eq_Some_conv split: prod.splits)
qed simp

fun joined :: "char \<Rightarrow> string list \<Rightarrow> string" where
  "joined c [] = []"
| "joined c [s] = s"
| "joined c (s # t # ss) = s @ c # joined c (t # ss)"

function split_at_char :: "char \<Rightarrow> string \<Rightarrow> string list" where
  "split_at_char c s = (case dropWhile (\<lambda>d. d \<noteq> c) s of [] \<Rightarrow> [s] | _ # r \<Rightarrow> takeWhile (\<lambda>d. d \<noteq> c) s # split_at_char c r)"
  by pat_completeness auto
termination
proof (relation "measure (\<lambda>(_, s). length s)")
  fix c s and x :: char and r
  assume "dropWhile (\<lambda>d. d \<noteq> c) s = x # r"
  then have "length (x # r) \<le> length s" by (metis length_dropWhile_le)
  then show "((c, r), (c, s)) \<in> measure (\<lambda>(_, s). length s)" by simp
qed simp

declare split_at_char.simps [simp del]

lemma split_at_char_none: "c \<notin> set s \<Longrightarrow> split_at_char c s = [s]"
proof -
  assume "c \<notin> set s"
  then have "dropWhile (\<lambda>d. d \<noteq> c) s = []" by (auto simp: dropWhile_eq_Nil_conv)
  then show ?thesis by (subst split_at_char.simps) (simp only: list.case)
qed

lemma split_at_char_some: "c \<notin> set s \<Longrightarrow> split_at_char c (s @ c # r) = s # split_at_char c r"
proof -
  assume "c \<notin> set s"
  then have "takeWhile (\<lambda>d. d \<noteq> c) (s @ c # r) = s" "dropWhile (\<lambda>d. d \<noteq> c) (s @ c # r) = c # r"
    by (auto simp: takeWhile_append dropWhile_append dropWhile_eq_Nil_conv takeWhile_eq_all_conv)
  then show ?thesis by (subst split_at_char.simps) simp
qed

lemma split_joined: "cs \<noteq> [] \<Longrightarrow> \<forall>s\<in>set cs. c \<notin> set s \<Longrightarrow> split_at_char c (joined c cs) = cs"
  by (induction c cs rule: joined.induct) (simp_all add: split_at_char_none split_at_char_some)

lemma bind_map_option: "Option.bind m (\<lambda>s. Some (g s)) = map_option g m"
  by (cases m) simp_all

lemma call_print_routine_final:
  "call_print_routine PARSABLE_NO_ENDING clk w f arg final =
    map_option (\<lambda>s. if final then s else s @ ''|'') (call_print_routine PARSABLE_NO_ENDING clk w f arg True)"
  by (auto simp: call_print_routine_def print_fields_str_def print_fields_int_def print_fields_date_def
      print_fields_time_from_secs_def print_value_def print_unset_def bind_map_option option.map_ident option.map_comp comp_def
      split: print_arg.splits print_routine.splits option.splits)

lemma print_column_final:
  assumes "e_parsable e = PARSABLE_NO_ENDING"
  shows "print_column e ob f final st = map_option (\<lambda>(s, st). (if final then s else s @ ''|'', st)) (print_column e ob f True st)"
proof (cases "field_arg e ob st (pf_type f)")
  case None
  then show ?thesis by (simp add: print_column_def)
next
  case (Some r)
  obtain arg st' where r: "r = (arg, st')" by (cases r)
  show ?thesis
    using Some r assms call_print_routine_final [of "e_clock e" "e_widen e" f arg final]
    by (simp add: print_column_def bind_map_option option.map_comp comp_def)
qed

lemma print_columns_joined:
  assumes "e_parsable e = PARSABLE_NO_ENDING"
  shows "i + length fs = n + 1 \<Longrightarrow>
    print_columns e ob i n fs st = map_option (\<lambda>(cs, st). (joined (CHR ''|'') cs, st)) (row_cells e ob fs st)"
proof (induction fs arbitrary: i st)
  case (Cons f fs)
  show ?case
  proof (cases "print_column e ob f True st")
    case None
    then show ?thesis using print_column_final [OF assms, of ob f "i = n" st] by simp
  next
    case (Some r)
    obtain s st' where r: "r = (s, st')" by (cases r)
    have f: "print_column e ob f (i = n) st = Some (if i = n then s else s @ ''|'', st')"
      using print_column_final [OF assms, of ob f "i = n" st] Some r by simp
    have ih: "print_columns e ob (i + 1) n fs st' = map_option (\<lambda>(cs, st). (joined (CHR ''|'') cs, st)) (row_cells e ob fs st')"
      using Cons.IH [of "i + 1" st'] Cons.prems by simp
    show ?thesis
    proof (cases fs)
      case Nil
      then show ?thesis using f Some r Cons.prems by simp
    next
      case (Cons g gs)
      then have "i \<noteq> n" using Cons.prems by auto
      have "cs \<noteq> []" if "row_cells e ob fs st' = Some (cs, st'')" for cs st'' using length_row_cells [OF that] Cons by auto
      then show ?thesis using f Some r ih \<open>i \<noteq> n\<close>
        by (cases "row_cells e ob fs st'") (auto simp: neq_Nil_conv)
    qed
  qed
qed simp

lemma header_names_joined:
  "i + length fs = n + 1 \<Longrightarrow> header_names PARSABLE_NO_ENDING i n fs = joined (CHR ''|'') (map pf_name fs)"
proof (induction fs arbitrary: i)
  case (Cons f fs)
  then show ?case by (cases fs) auto
qed simp


section \<open>Durations\<close>

lemma zero_two_digits: "zero_filled 2 0 = ''00''"
  by (simp add: two_digits digit_char_def char_of_def bit_0 bit_iff_odd)

lemma days_text_cases:
  "(if d \<noteq> 0 then days_text d h m s else if h \<noteq> 0 then days_text 0 h m s else ''00:'' @ zero_filled 2 m @ '':'' @ zero_filled 2 s) =
    days_text d h m s"
  by (simp add: days_text_def zero_two_digits)

lemma days_text_fits: "d < 10 ^ 5 \<Longrightarrow> h < 100 \<Longrightarrow> m < 100 \<Longrightarrow> s < 100 \<Longrightarrow> length (days_text d h m s) \<le> 31"
  using length_decimal [of d 4] by (simp add: days_text_def two_digits)


section \<open>Widths\<close>

lemma length_pad [simp]: "length (pad_left k s) = max k (length s)" "length (pad_right k s) = max k (length s)"
  by (simp_all add: pad_left_def pad_right_def)

lemma length_column: "length (column f s) = max (abs_len f) (length s) + 1"
  by (simp add: column_def)

lemma length_printed: "length (printed (Suc n) s) \<le> n"
  by (simp add: printed_def)

lemma length_make_time_str: "length (slurm_make_time_str clk t (Suc n)) \<le> n"
  by (simp only: slurm_make_time_str_def Let_def) (simp add: length_printed)

lemma length_str_column:
  "print_fields_str PARSABLE_NOT f v final = Some s \<Longrightarrow> length s = Suc (abs_len f)"
  by (auto simp: print_fields_str_def length_column max_def bind_eq_Some_conv split: option.splits)

lemma length_date_column: "length (print_fields_date PARSABLE_NOT clk f t final) = Suc (abs_len f)"
  using length_make_time_str [of clk t "abs_len f"] by (simp add: print_fields_date_def print_value_def length_column)

lemma length_int_column: "0 < abs_len f \<Longrightarrow> Suc (abs_len f) \<le> length (print_fields_int PARSABLE_NOT f i final)"
  by (simp add: print_fields_int_def print_value_def print_unset_def length_column)

lemma length_secs_column: "0 < abs_len f \<Longrightarrow> Suc (abs_len f) \<le> length (print_fields_time_from_secs PARSABLE_NOT f t final)"
  by (simp add: print_fields_time_from_secs_def print_value_def print_unset_def length_column)

definition fixed_width :: "field \<Rightarrow> bool" where
  "fixed_width f \<longleftrightarrow> pf_routine f = Print_str \<or> pf_routine f = Print_date"

lemma length_print_column:
  assumes "e_parsable e = PARSABLE_NOT" "0 < abs_len f" "print_column e ob f final st = Some (s, st')"
  shows "abs_len f + 1 \<le> length s" and "fixed_width f \<Longrightarrow> length s = abs_len f + 1"
proof -
  obtain arg u where c: "call_print_routine PARSABLE_NOT (e_clock e) (e_widen e) f arg final = Some s"
    using assms(1,3) by (auto simp: print_column_def bind_eq_Some_conv)
  show "abs_len f + 1 \<le> length s"
    using c assms(2)
    by (cases arg; cases "pf_routine f")
      (auto simp: call_print_routine_def length_date_column dest!: length_str_column intro: length_int_column length_secs_column)
  show "length s = abs_len f + 1" if "fixed_width f"
    using c that
    by (cases arg; cases "pf_routine f") (auto simp: call_print_routine_def fixed_width_def length_date_column dest!: length_str_column)
qed

definition row_width :: "field list \<Rightarrow> nat" where
  "row_width fs = sum_list (map (\<lambda>f. abs_len f + 1) fs)"

lemma length_print_columns:
  assumes "e_parsable e = PARSABLE_NOT" and "\<forall>f\<in>set fs. 0 < abs_len f" and "print_columns e ob i n fs st = Some (s, st')"
  shows "row_width fs \<le> length s \<and> ((\<forall>f\<in>set fs. fixed_width f) \<longrightarrow> length s = row_width fs)"
  using assms(2,3)
proof (induction fs arbitrary: i st s)
  case (Cons f fs)
  obtain a u b where f: "print_column e ob f (i = n) st = Some (a, u)" and r: "print_columns e ob (i + 1) n fs u = Some (b, st')"
    and s: "s = a @ b"
    using Cons.prems(2) by (auto simp: bind_eq_Some_conv)
  have ih: "row_width fs \<le> length b \<and> ((\<forall>f\<in>set fs. fixed_width f) \<longrightarrow> length b = row_width fs)"
    using Cons.IH [OF _ r] Cons.prems(1) by simp
  show ?case using ih length_print_column [OF assms(1) _ f] Cons.prems(1) s by (auto simp: row_width_def)
qed (simp add: row_width_def)

lemma length_header_names: "length (header_names PARSABLE_NOT i n fs) = row_width fs"
proof (induction fs arbitrary: i)
  case (Cons f fs)
  then show ?case by (simp add: row_width_def)
qed (simp add: row_width_def)

lemma length_dashes: "length (concat (map (\<lambda>f. pad_left (abs_len f) (take (abs_len f) dashes) @ '' '') fs)) = row_width fs"
  by (induction fs) (simp_all add: row_width_def)


section \<open>Sums over steps\<close>

definition finished :: "jobacct_step_rec \<Rightarrow> bool" where
  "finished s \<longleftrightarrow> JOB_COMPLETE \<le> uint (st_state s)"

lemma aggregate_max: "sa_max_vsize (aggregate_sacct u v) = max (sa_max_vsize u) (sa_max_vsize v)"
  "sa_max_rss (aggregate_sacct u v) = max (sa_max_rss u) (sa_max_rss v)"
  "sa_max_pages (aggregate_sacct u v) = max (sa_max_pages u) (sa_max_pages v)"
  by (auto simp: aggregate_sacct_def Let_def max_def)

lemma add_step_usage_parts:
  "j_alloc_cpus (add_step_usage s j) = max (j_alloc_cpus j) (st_ncpus s)"
  "j_tot_cpu_sec (add_step_usage s j) = j_tot_cpu_sec j + (if finished s then st_tot_cpu_sec s else 0)"
  "j_tot_cpu_usec (add_step_usage s j) = j_tot_cpu_usec j + (if finished s then st_tot_cpu_usec s else 0)"
  "j_user_cpu_usec (add_step_usage s j) = j_user_cpu_usec j + (if finished s then st_user_cpu_usec s else 0)"
  "j_sys_cpu_usec (add_step_usage s j) = j_sys_cpu_usec j + (if finished s then st_sys_cpu_usec s else 0)"
  "sa_max_rss (j_sacct (add_step_usage s j)) =
     (if finished s then max (sa_max_rss (j_sacct j)) (sa_max_rss (st_sacct s)) else sa_max_rss (j_sacct j))"
  "sa_max_pages (j_sacct (add_step_usage s j)) =
     (if finished s then max (sa_max_pages (j_sacct j)) (sa_max_pages (st_sacct s)) else sa_max_pages (j_sacct j))"
  "j_user_cpu_sec (add_step_usage s j) = j_user_cpu_sec j + (if finished s then st_user_cpu_sec s else 0)"
  "j_sys_cpu_sec (add_step_usage s j) = j_sys_cpu_sec j + (if finished s then st_sys_cpu_sec s else 0)"
  "sa_max_vsize (j_sacct (add_step_usage s j)) =
     (if finished s then max (sa_max_vsize (j_sacct j)) (sa_max_vsize (st_sacct s)) else sa_max_vsize (j_sacct j))"
  "j_steps (add_step_usage s j) = j_steps j"
  by (simp_all add: add_step_usage_def finished_def Let_def aggregate_max not_less)

lemma job_uid_same:
  "job_uid e getpwnam j = Some k \<Longrightarrow> j_tot_cpu_sec k = j_tot_cpu_sec j \<and> j_tot_cpu_usec k = j_tot_cpu_usec j \<and>
    j_user_cpu_sec k = j_user_cpu_sec j \<and> j_sys_cpu_sec k = j_sys_cpu_sec j \<and>
    j_user_cpu_usec k = j_user_cpu_usec j \<and> j_sys_cpu_usec k = j_sys_cpu_usec j \<and> j_alloc_cpus k = j_alloc_cpus j \<and>
    j_sacct k = j_sacct j \<and> steps_of k = steps_of j"
  by (auto simp: job_uid_def steps_of_def bind_eq_Some_conv split: option.splits)

lemma Max_step: "Max (insert (max (a :: 'a :: linorder) b) (set xs)) = Max (insert a (insert b (set xs)))"
  by (cases "xs = []") (simp_all add: max.assoc)

lemma fold_add_steps:
  "j_tot_cpu_sec (fold add_step_usage ss j) = j_tot_cpu_sec j + sum_list (map st_tot_cpu_sec (filter finished ss)) \<and>
    j_tot_cpu_usec (fold add_step_usage ss j) = j_tot_cpu_usec j + sum_list (map st_tot_cpu_usec (filter finished ss)) \<and>
    j_user_cpu_sec (fold add_step_usage ss j) = j_user_cpu_sec j + sum_list (map st_user_cpu_sec (filter finished ss)) \<and>
    j_sys_cpu_sec (fold add_step_usage ss j) = j_sys_cpu_sec j + sum_list (map st_sys_cpu_sec (filter finished ss)) \<and>
    j_user_cpu_usec (fold add_step_usage ss j) = j_user_cpu_usec j + sum_list (map st_user_cpu_usec (filter finished ss)) \<and>
    j_sys_cpu_usec (fold add_step_usage ss j) = j_sys_cpu_usec j + sum_list (map st_sys_cpu_usec (filter finished ss)) \<and>
    j_alloc_cpus (fold add_step_usage ss j) = Max (set (j_alloc_cpus j # map st_ncpus ss)) \<and>
    sa_max_vsize (j_sacct (fold add_step_usage ss j)) =
      Max (set (sa_max_vsize (j_sacct j) # map (\<lambda>s. sa_max_vsize (st_sacct s)) (filter finished ss))) \<and>
    sa_max_rss (j_sacct (fold add_step_usage ss j)) =
      Max (set (sa_max_rss (j_sacct j) # map (\<lambda>s. sa_max_rss (st_sacct s)) (filter finished ss))) \<and>
    sa_max_pages (j_sacct (fold add_step_usage ss j)) =
      Max (set (sa_max_pages (j_sacct j) # map (\<lambda>s. sa_max_pages (st_sacct s)) (filter finished ss)))"
proof (induction ss arbitrary: j)
  case (Cons s ss)
  have m: "Max (insert (max a b) (f ` A)) = Max (insert a (insert b (f ` A)))" if "finite A" for a b :: u32 and f and A :: "jobacct_step_rec set"
    using that by (cases "A = {}") (simp_all add: max.assoc)
  show ?case using Cons.IH [of "add_step_usage s j"] by (simp add: add_step_usage_parts m add.assoc)
qed simp

end
