(* ===== verification/Sacct_Spec.thy ===== *)
theory Sacct_Spec
  imports Sacct_Laws Options_Spec
begin

text \<open>
  Properties of the command: types and selection of columns, the alignment and the cells of rows, the sums over steps, which
  rows a job has, and the options and columns with which it goes wrong.
\<close>


section \<open>Samples\<close>

definition sample_zone :: clock where
  "sample_zone = (let d = \<lparr>tm_sec = 0, tm_min = 0, tm_hour = 0, tm_mday = 1, tm_mon = 0, tm_year = 70, tm_isdst = 0\<rparr>
     in \<lparr>time_now = 0, now_tm = d, localtime = (\<lambda>_. Some d), tm_unset = d, mktime = (\<lambda>_. 0)\<rparr>)"

definition sample_sys :: sys where
  "sample_sys = \<lparr>s_clock = sample_zone, s_getuid = 0, s_getgid = 0, s_getgrnam = (\<lambda>_. None), s_getpwnam = (\<lambda>_. None),
     s_cluster_name = None, s_jobcomp_type = [], s_storage_type = [], s_stat = (\<lambda>_. False)\<rparr>"

definition sample_env :: "parsable \<Rightarrow> env" where
  "sample_env par = \<lparr>e_parsable = par, e_clock = sample_zone, e_widen = Some, e_behind = (\<lambda>_. ''xxxxxxxxxx''), e_hostlist_nth = (\<lambda>_ _. None),
     e_hostlist_count = (\<lambda>_. 0), e_getpwnam = (\<lambda>_. None), e_getpwuid = (\<lambda>_. None), e_getgrgid = (\<lambda>_. None), e_get_qos = None\<rparr>"

definition done_step :: jobacct_step_rec where
  "done_step = create_jobacct_step_rec\<lparr>st_state := 3, st_ncpus := 8, st_tot_cpu_sec := 5\<rparr>"

definition listed_job :: jobacct_job_rec where
  "listed_job = create_jobacct_job_rec\<lparr>j_jobid := 12, j_steps := Some [done_step], j_show_full := 1, j_track_steps := 1, j_alloc_cpus := 4,
     j_tot_cpu_sec := 1, j_state := 3, j_requid := NO_VAL\<rparr>"


section \<open>Selection\<close>

text \<open>The columns are written one after the other, each with a comma behind it, as the options are put together.\<close>

definition field_items :: "string list \<Rightarrow> string" where
  "field_items ns = concat (map (\<lambda>n. n @ '','') ns)"

definition plain_item :: "string \<Rightarrow> bool" where
  "plain_item n \<longleftrightarrow> n \<noteq> [] \<and> \<not> is_space (hd n) \<and> CHR '','' \<notin> set n \<and> CHR ''%'' \<notin> set n"

definition first_column :: "string \<Rightarrow> nat option" where
  "first_column n = (case filter (\<lambda>i. same_start (pf_name (sacct_fields ! i)) n (length n)) [0..<length sacct_fields] of
     [] \<Rightarrow> None | i # _ \<Rightarrow> Some i)"

lemma find_field_first:
  "find_field t n i = (case filter (\<lambda>k. same_start (pf_name (t ! (k - i))) n (length n)) [i..<i + length t] of [] \<Rightarrow> None | k # _ \<Rightarrow> Some k)"
proof (induction t n i rule: find_field.induct)
  case (2 f fs start i)
  have up: "[i..<i + length (f # fs)] = i # [i + 1..<i + 1 + length fs]"
    using upt_conv_Cons [of i "i + length (f # fs)"] by simp
  have nth: "filter (\<lambda>k. same_start (pf_name ((f # fs) ! (k - i))) start (length start)) [i + 1..<i + 1 + length fs] =
      filter (\<lambda>k. same_start (pf_name (fs ! (k - (i + 1)))) start (length start)) [i + 1..<i + 1 + length fs]"
    by (rule filter_cong [OF refl]) (auto simp: nth_Cons' )
  show ?case using 2 by (simp only: up filter.simps nth find_field.simps) simp
qed simp

lemma first_column_find: "find_field sacct_fields n 0 = first_column n"
  by (simp add: find_field_first first_column_def)

lemma select_field_plain:
  "plain_item n \<Longrightarrow> select_field n (sacct_fields, l) = (case first_column n of None \<Rightarrow> Exited 1 | Some i \<Rightarrow> Returned (sacct_fields, l @ [i]))"
proof -
  assume n: "plain_item n"
  then have "takeWhile (\<lambda>c. c \<noteq> CHR ''%'') n = n" "dropWhile (\<lambda>c. c \<noteq> CHR ''%'') n = []"
    by (auto simp: plain_item_def takeWhile_eq_all_conv dropWhile_eq_Nil_conv)
  then show ?thesis
    by (cases "first_column n") (simp_all add: select_field_def Let_def first_column_find del: takeWhile_eq_all_conv dropWhile_eq_Nil_conv)
qed

lemma select_fields_plain:
  assumes "\<forall>n\<in>set ns. plain_item n"
  shows "select_fields (field_items ns @ rest) (sacct_fields, l) =
    (if \<exists>n\<in>set ns. first_column n = None then Exited 1
     else select_fields rest (sacct_fields, l @ map (\<lambda>n. the (first_column n)) ns))"
  using assms
proof (induction ns arbitrary: l)
  case (Cons n ns)
  have n: "plain_item n" "CHR '','' \<notin> set n" "dropWhile is_space n = n" "n \<noteq> []"
    using Cons.prems by (auto simp: plain_item_def intro: dropWhile_eq_self_iff [THEN iffD2])
  have "field_items (n # ns) @ rest = n @ CHR '','' # (field_items ns @ rest)" by (simp add: field_items_def)
  then have "select_fields (field_items (n # ns) @ rest) (sacct_fields, l) =
      run_bind (select_field n (sacct_fields, l)) (select_fields (field_items ns @ rest))"
    using select_fields_item [OF n(2), of "field_items ns @ rest" "(sacct_fields, l)"] n(3,4) by simp
  then show ?case using Cons.IH Cons.prems by (cases "first_column n") (auto simp: select_field_plain [OF n(1)])
qed (simp add: field_items_def)


section \<open>Properties\<close>

text \<open>The C type of what is handed over.\<close>

definition arg_type :: "print_arg \<Rightarrow> param_type" where
  "arg_type arg = (case arg of Arg_str s \<Rightarrow> Param_string | Arg_int i \<Rightarrow> Param_int)"

text \<open>
  C7: What the columns that can be chosen on the command line hand to their routines, and what these take: a string is handed
  over exactly when the routine takes one; all other columns hand over an \<^verbatim>\<open>int\<close>, and the routine takes 32 bits, signed or
  unsigned, except in the four columns Eligible, End, Start and Submit, whose routine takes a \<^verbatim>\<open>time_t\<close>: there the types
  never match.
\<close>

theorem columns_well_typed:
  assumes "parse_command_line sy os extra = Returned (p, table, l)" and "f \<in> set (chosen table l)"
    and "field_arg e ob st (pf_type f) = Some (arg, st')"
  shows "(case routine_param (pf_routine f) of
      Param_string \<Rightarrow> arg_type arg = Param_string
    | Param_int \<Rightarrow> arg_type arg = Param_int
    | Param_uint32 \<Rightarrow> arg_type arg = Param_int
    | Param_time_t \<Rightarrow> arg_type arg = Param_int) \<and>
    (routine_param (pf_routine f) = Param_time_t \<longleftrightarrow> pf_type f \<in> {PRINT_ELIGIBLE, PRINT_END, PRINT_START, PRINT_SUBMIT})"
proof -
  obtain i where i: "f = table ! i" "i < length table" and ok: "same_columns table sacct_fields"
    using parse_command_line_keeps [OF assms(1)] assms(2) by (auto simp: columns_ok_def chosen_def)
  have f: "i < length sacct_fields" "pf_routine f = pf_routine (sacct_fields ! i)" "pf_type f = pf_type (sacct_fields ! i)"
    using same_columns_nth [OF ok i(2)] i(1) by simp_all
  then have "pf_routine f \<noteq> Print_str \<longleftrightarrow> pf_type f \<in> set int_columns" using columns_kind by simp
  then have "arg_type arg = (if pf_routine f = Print_str then Param_string else Param_int)"
    using field_arg_kind [OF assms(3)] by (auto simp: holds_int_def arg_type_def split: print_arg.splits)
  moreover have "pf_routine f = Print_date \<longleftrightarrow> pf_type f \<in> {PRINT_ELIGIBLE, PRINT_END, PRINT_START, PRINT_SUBMIT}"
    using f date_columns by (metis nth_mem)
  ultimately show ?thesis by (cases "pf_routine f") simp_all
qed

text \<open>
  C18: A list of column names chooses, for each, the first column of the table that starts with it in upper or lower case; a
  name with which no column starts ends the program with status 1.
\<close>

theorem format_selects:
  assumes "\<forall>n\<in>set ns. plain_item n"
  shows "select_fields (field_items ns) (sacct_fields, []) =
    (if \<forall>n\<in>set ns. first_column n \<noteq> None then Returned (sacct_fields, map (\<lambda>n. the (first_column n)) ns) else Exited 1)"
  using select_fields_plain [OF assms, of "[]" "[]"] by (auto simp: select_fields_end)

theorem format_selects_witness:
  "select_fields (field_items [''jobid'']) (sacct_fields, []) =
    (if \<forall>n\<in>set [''jobid'']. first_column n \<noteq> None then Returned (sacct_fields, map (\<lambda>n. the (first_column n)) [''jobid'']) else Exited 1)"
  by (rule format_selects) (simp add: plain_item_def is_space_def code_def)

text \<open>
  An empty name between two commas, or one of blanks only, silently drops all the columns that are named behind it.
\<close>

theorem empty_item_drops:
  assumes "\<forall>n\<in>set ns. plain_item n" and "\<forall>c\<in>set blanks. is_space c"
  shows "select_fields (field_items ns @ blanks @ '','' @ rest) (sacct_fields, []) = select_fields (field_items ns) (sacct_fields, [])"
proof -
  have comma: "\<not> is_space (CHR '','')" by (simp add: is_space_def code_def)
  have b: "CHR '','' \<notin> set blanks" "dropWhile is_space blanks = []"
    using assms(2) comma by (blast, simp add: dropWhile_eq_Nil_conv)
  have ends: "select_fields (blanks @ '','' @ rest) s = Returned s" "select_fields [] s = Returned s" for s
    using select_fields_item [OF b(1), of rest s] select_fields_end [of "[]" s] unfolding if_P [OF b(2)] by simp_all
  have both: "select_fields (field_items ns @ tail) (sacct_fields, []) = select_fields (field_items ns) (sacct_fields, [])"
    if "\<And>s. select_fields tail s = Returned s" for tail
    using select_fields_plain [OF assms(1), of "[]" "[]"] unfolding select_fields_plain [OF assms(1), of tail "[]"] append_Nil2 that ends(2)
    by (rule sym)
  show ?thesis by (rule both) (rule ends(1))
qed

theorem empty_item_drops_witness:
  "select_fields (field_items [''jobid''] @ [] @ '','' @ ''state,'') (sacct_fields, []) = select_fields (field_items [''jobid'']) (sacct_fields, [])"
  by (rule empty_item_drops) (simp_all add: plain_item_def is_space_def code_def)



text \<open>
  C12: In the form without a bar at the end a row is its cells with bars between them: a reader who splits the line at the bars
  gets back exactly the cells, one for each column, as long as no cell has a bar in it; the header splits likewise into
  the names.
\<close>

theorem parsable_row_splits:
  assumes "e_parsable e = PARSABLE_NO_ENDING" and "fs \<noteq> []"
    and "row_cells e ob fs \<lparr>r_outbuf = junk, r_qos = qs\<rparr> = Some (cells, st)" and "\<forall>c\<in>set cells. CHR ''|'' \<notin> set c"
    and "\<forall>f\<in>set fs. CHR ''|'' \<notin> set (pf_name f)"
  shows "\<exists>row names. print_fields e ob (length fs) fs junk qs = Some (row @ [CHR 0x0A], r_qos st) \<and> split_at_char (CHR ''|'') row = cells \<and>
    length cells = length fs \<and>
    print_fields_header PARSABLE_NO_ENDING True (Some fs) = names @ [CHR 0x0A] \<and> split_at_char (CHR ''|'') names = map pf_name fs"
proof -
  have cells: "length cells = length fs" using length_row_cells [OF assms(3)] .
  then have "cells \<noteq> []" using assms(2) by auto
  then have "split_at_char (CHR ''|'') (joined (CHR ''|'') cells) = cells" using assms(4) by (rule split_joined)
  moreover have "split_at_char (CHR ''|'') (joined (CHR ''|'') (map pf_name fs)) = map pf_name fs"
    using split_joined [of "map pf_name fs" "CHR ''|''"] assms(2,5) by auto
  moreover have "print_fields e ob (length fs) fs junk qs = Some (joined (CHR ''|'') cells @ [CHR 0x0A], r_qos st)"
    using print_columns_joined [OF assms(1), of 1 fs "length fs" ob] assms(3) by (simp add: print_fields_def)
  moreover have "print_fields_header PARSABLE_NO_ENDING True (Some fs) = joined (CHR ''|'') (map pf_name fs) @ [CHR 0x0A]"
    using header_names_joined [of 1 fs "length fs"] by (simp add: print_fields_header_def)
  ultimately show ?thesis using cells by blast
qed

definition two_columns :: "field list" where
  "two_columns = [field_entry 10 ''JobID'' Print_str PRINT_JOBID, field_entry 10 ''AllocCPUS'' Print_int PRINT_ALLOC_CPUS]"

lemma two_cells:
  "row_cells (sample_env PARSABLE_NO_ENDING) (Job listed_job None) two_columns \<lparr>r_outbuf = [], r_qos = None\<rparr> =
    Some ([''12'', ''4''], \<lparr>r_outbuf = [], r_qos = None\<rparr>)"
proof -
  have "decimal 12 = ''12''" "decimal 4 = ''4''" by (simp_all add: decimal.simps char_of_def bit_0 bit_iff_odd)
  moreover have "(4::u32) \<noteq> NO_VAL" "(4::u32) \<noteq> INFINITE" "(12::u32) \<noteq> NO_VAL" by (simp_all add: NO_VAL_def INFINITE_def)
  ultimately show ?thesis
    by (simp add: two_columns_def field_entry_def print_column_def plain_def print_jobid_def print_alloc_cpus_def call_print_routine_def
        sample_env_def print_fields_str_def print_fields_int_def print_value_def text_new_def mem_def listed_job_def
        create_jobacct_job_rec_def int_of_def signed_decimal_def c_text_def text_of_def)
qed

theorem parsable_row_splits_witness:
  "\<exists>row names. print_fields (sample_env PARSABLE_NO_ENDING) (Job listed_job None) (length two_columns) two_columns [] None =
      Some (row @ [CHR 0x0A], r_qos \<lparr>r_outbuf = [], r_qos = None\<rparr>) \<and>
    split_at_char (CHR ''|'') row = [''12'', ''4''] \<and> length [''12'', ''4''] = length two_columns \<and>
    print_fields_header PARSABLE_NO_ENDING True (Some two_columns) = names @ [CHR 0x0A] \<and>
    split_at_char (CHR ''|'') names = map pf_name two_columns"
  by (rule parsable_row_splits [OF _ _ two_cells]) (simp_all add: sample_env_def two_columns_def field_entry_def)

text \<open>
  C24: In the form for people the lines are aligned: the header, its dashes and every row are at least as long as the widths
  demand, and all have exactly that length when the columns hold strings and dates, whatever values are in them.
\<close>

theorem columns_aligned:
  assumes "e_parsable e = PARSABLE_NOT" and "\<forall>f\<in>set fs. 0 < abs_len f"
    and "print_fields e ob n fs junk qs = Some (row, qs')"
  shows "row_width fs + 1 \<le> length row \<and> ((\<forall>f\<in>set fs. fixed_width f) \<longrightarrow> length row = row_width fs + 1) \<and>
    (\<exists>names dash. print_fields_header PARSABLE_NOT True (Some fs) = names @ [CHR 0x0A] @ dash @ [CHR 0x0A] \<and>
      length names = row_width fs \<and> length dash = row_width fs)"
proof -
  obtain s st where s: "print_columns e ob 1 n fs \<lparr>r_outbuf = junk, r_qos = qs\<rparr> = Some (s, st)" and row: "row = s @ [CHR 0x0A]"
    using assms(3) by (auto simp: print_fields_def bind_eq_Some_conv)
  have "print_fields_header PARSABLE_NOT True (Some fs) = header_names PARSABLE_NOT 1 (length fs) fs @ [CHR 0x0A] @
      concat (map (\<lambda>f. pad_left (abs_len f) (take (abs_len f) dashes) @ '' '') fs) @ [CHR 0x0A]"
    by (simp add: print_fields_header_def)
  then show ?thesis
    using length_print_columns [OF assms(1,2) s] length_header_names [of 1 "length fs" fs] length_dashes [of fs] row
    by (simp del: append_assoc) blast
qed

lemma blanks: "replicate 8 (CHR '' '') = ''        ''"
  by (simp add: numeral_eq_Suc)

definition job_column :: "field list" where
  "job_column = [field_entry 10 ''JobID'' Print_str PRINT_JOBID]"

lemma job_column_row:
  "print_fields (sample_env PARSABLE_NOT) (Job listed_job None) 1 job_column [] None = Some (''        12 '' @ [CHR 0x0A], None)"
proof -
  have "decimal 12 = ''12''" by (simp add: decimal.simps char_of_def bit_0 bit_iff_odd)
  then show ?thesis
    by (simp add: job_column_def field_entry_def print_fields_def print_column_def plain_def print_jobid_def call_print_routine_def
        sample_env_def print_fields_str_def text_new_def mem_def listed_job_def create_jobacct_job_rec_def c_text_def text_of_def
        read_chars_def column_def abs_len_def pad_left_def blanks)
qed

theorem columns_aligned_witness:
  "length (''        12 '' @ [CHR 0x0A]) = row_width job_column + 1 \<and>
    (\<exists>names dash. print_fields_header PARSABLE_NOT True (Some job_column) = names @ [CHR 0x0A] @ dash @ [CHR 0x0A] \<and>
      length names = row_width job_column \<and> length dash = row_width job_column)"
proof -
  have "\<forall>f\<in>set job_column. fixed_width f" "e_parsable (sample_env PARSABLE_NOT) = PARSABLE_NOT" "\<forall>f\<in>set job_column. 0 < abs_len f"
    by (simp_all add: job_column_def field_entry_def fixed_width_def sample_env_def abs_len_def)
  then show ?thesis using columns_aligned [OF _ _ job_column_row] by blast
qed

text \<open>
  C17: The six CPU times of a job (total, user and system, seconds and microseconds) are what the storage has recorded for it
  plus those of its finished steps, each modulo \<^verbatim>\<open>2 ^ 32\<close>; the CPUs of the job are the largest number among its own and
  those of all steps, and the maxima of the virtual memory, the resident memory and the pages are the largest among its own and
  those of the finished steps.
\<close>

theorem gather_totals:
  assumes "gather_job e getpwnam j = Some j'"
  shows "j_tot_cpu_sec j' = j_tot_cpu_sec j + sum_list (map st_tot_cpu_sec (filter finished (steps_of j))) \<and>
    j_tot_cpu_usec j' = j_tot_cpu_usec j + sum_list (map st_tot_cpu_usec (filter finished (steps_of j))) \<and>
    j_user_cpu_sec j' = j_user_cpu_sec j + sum_list (map st_user_cpu_sec (filter finished (steps_of j))) \<and>
    j_sys_cpu_sec j' = j_sys_cpu_sec j + sum_list (map st_sys_cpu_sec (filter finished (steps_of j))) \<and>
    j_user_cpu_usec j' = j_user_cpu_usec j + sum_list (map st_user_cpu_usec (filter finished (steps_of j))) \<and>
    j_sys_cpu_usec j' = j_sys_cpu_usec j + sum_list (map st_sys_cpu_usec (filter finished (steps_of j))) \<and>
    j_alloc_cpus j' = Max (set (j_alloc_cpus j # map st_ncpus (steps_of j))) \<and>
    sa_max_vsize (j_sacct j') = Max (set (sa_max_vsize (j_sacct j) # map (\<lambda>s. sa_max_vsize (st_sacct s)) (filter finished (steps_of j)))) \<and>
    sa_max_rss (j_sacct j') = Max (set (sa_max_rss (j_sacct j) # map (\<lambda>s. sa_max_rss (st_sacct s)) (filter finished (steps_of j)))) \<and>
    sa_max_pages (j_sacct j') = Max (set (sa_max_pages (j_sacct j) # map (\<lambda>s. sa_max_pages (st_sacct s)) (filter finished (steps_of j))))"
proof -
  obtain k where k: "job_uid e getpwnam j = Some k" and j': "j' = fold add_step_usage (steps_of k) k"
    using assms by (auto simp: gather_job_def)
  have same: "j_tot_cpu_sec k = j_tot_cpu_sec j" "j_tot_cpu_usec k = j_tot_cpu_usec j" "j_user_cpu_sec k = j_user_cpu_sec j"
      "j_sys_cpu_sec k = j_sys_cpu_sec j" "j_user_cpu_usec k = j_user_cpu_usec j" "j_sys_cpu_usec k = j_sys_cpu_usec j" "j_alloc_cpus k = j_alloc_cpus j" "j_sacct k = j_sacct j" "steps_of k = steps_of j"
    using job_uid_same [OF k] by simp_all
  show ?thesis using fold_add_steps [of "steps_of k" k] by (simp only: j' same)
qed

text \<open>
  What is listed as the job: the job with its usage averaged over the steps, marked as tracking its steps when it is shown and
  has no first step to take values from.
\<close>

definition listed_usage :: "jobacct_step_rec list \<Rightarrow> sacct \<Rightarrow> sacct" where
  "listed_usage ss u = (if ss = [] then plain_min_cpu u else average_usage (length ss) (plain_min_cpu u))"


text \<open>
  C31: A column for a size that has no value, as for a job with steps, does not stay empty: it prints once more what the column
  for the state has printed before it.
\<close>

theorem sizes_repeat_state:
  assumes "j_track_steps j \<noteq> 0" and "ty \<in> {PRINT_AVEPAGES, PRINT_AVERSS, PRINT_AVEVSIZE, PRINT_MAXPAGES, PRINT_MAXRSS, PRINT_MAXVSIZE}"
    and "field_arg e (Job j s) st PRINT_STATE = Some (arg, st')"
  shows "field_arg e (Job j s) st' ty = Some (arg, st')"
proof -
  obtain b where "arg = Arg_str (Some (mem e b))" "r_outbuf st' = b"
    using assms(3) by (auto simp: with_outbuf_Some print_job_state_def bind_eq_Some_conv split: prod.splits)
  then show ?thesis using assms(1,2)
    by (auto simp: with_outbuf_def column_args usage_int_def size_arg_def)
qed

text \<open>
  C32: A CPU time of whole seconds is printed as a duration is, so that it is read back as these.
\<close>

theorem elapsed_time_agrees:
  assumes "secs < 2 ^ 32 - 2" and "0 \<le> usecs" and "usecs < 1000"
  shows "elapsed_time (int secs) usecs = Some (secs2time_str secs 32)"
proof -
  let ?d = "secs div 86400" and ?h = "secs div 3600 mod 24" and ?m = "secs div 60 mod 60" and ?s = "secs mod 60"
  have nats: "nat (int secs div 86400) = ?d" "nat (int secs div 3600 mod 24) = ?h" "nat (int secs div 60 mod 60) = ?m"
      "nat (int secs mod 60) = ?s"
    by (simp_all add: nat_div_distrib nat_mod_distrib)
  have no: "\<not> (int secs < 0 \<or> int secs = uint NO_VAL)" "secs \<noteq> unat INFINITE"
    using assms(1) by (simp_all add: NO_VAL_def INFINITE_def)
  have carry: "carry_secs (int secs) usecs = (int secs, usecs)" using assms(3) by (subst carry_secs.simps) simp
  have sub: "(if usecs > 0 then usecs div 1000 else 0) = 0" using assms(2,3) by (simp add: div_pos_pos_trivial)
  have "elapsed_time (int secs) usecs = Some (if ?d \<noteq> 0 then days_text ?d ?h ?m ?s else if ?h \<noteq> 0 then days_text 0 ?h ?m ?s
      else ''00:'' @ zero_filled 2 ?m @ '':'' @ zero_filled 2 ?s)"
    unfolding elapsed_time_def if_not_P [OF no(1)] carry Let_def prod.case sub nats by (simp only: if_False simp_thms if_distrib [of Some])
  also have "\<dots> = Some (days_text ?d ?h ?m ?s)" by (simp only: days_text_cases)
  finally have e: "elapsed_time (int secs) usecs = Some (days_text ?d ?h ?m ?s)" .
  have "?d < 10 ^ 5" using assms(1) by simp
  then have "length (days_text ?d ?h ?m ?s) \<le> 31" by (rule days_text_fits) simp_all
  then have "secs2time_str secs 32 = days_text ?d ?h ?m ?s" unfolding secs2time_str_def if_not_P [OF no(2)] printed_def by simp
  then show ?thesis by (simp only: e)
qed

theorem elapsed_time_agrees_witness: "elapsed_time (int 93784) 500 = Some (secs2time_str 93784 32)"
  by (rule elapsed_time_agrees) simp_all

theorem gather_totals_witness:
  "\<exists>j'. gather_job (sample_env PARSABLE_NOT) (\<lambda>_. None) listed_job = Some j' \<and> j_tot_cpu_sec j' = 1 + 5 \<and> j_alloc_cpus j' = Max (set [4, 8])"
proof -
  have f: "filter finished [done_step] = [done_step]" by (simp add: finished_def done_step_def JOB_COMPLETE_def)
  have s: "steps_of listed_job = [done_step]" by (simp add: steps_of_def listed_job_def)
  obtain j' where j': "gather_job (sample_env PARSABLE_NOT) (\<lambda>_. None) listed_job = Some j'"
    by (simp add: gather_job_def job_uid_def text_at_def listed_job_def create_jobacct_job_rec_def)
  have v: "j_tot_cpu_sec listed_job = 1" "st_tot_cpu_sec done_step = 5" "j_alloc_cpus listed_job = 4" "st_ncpus done_step = 8"
    by (simp_all add: listed_job_def done_step_def)
  from gather_totals [OF j', unfolded s f] have "j_tot_cpu_sec j' = 1 + 5 \<and> j_alloc_cpus j' = Max (set [4, 8])"
    by (simp only: v list.map sum_list.Cons sum_list.Nil add_0_right)
  then show ?thesis using j' by blast
qed


theorem sizes_repeat_state_witness:
  "\<exists>arg st'. field_arg (sample_env PARSABLE_NOT) (Job listed_job None) \<lparr>r_outbuf = [], r_qos = None\<rparr> PRINT_STATE = Some (arg, st') \<and>
    field_arg (sample_env PARSABLE_NOT) (Job listed_job None) st' PRINT_MAXRSS = Some (arg, st')"
proof -
  obtain arg st' where a: "field_arg (sample_env PARSABLE_NOT) (Job listed_job None) \<lparr>r_outbuf = [], r_qos = None\<rparr> PRINT_STATE = Some (arg, st')"
    by (simp add: with_outbuf_def print_job_state_def state_of_def listed_job_def no_int_def JOB_CANCELLED_def int_of_def NO_VAL_def)
  show ?thesis using a sizes_repeat_state [OF _ _ a, of PRINT_MAXRSS] by (auto simp: listed_job_def)
qed

lemma sample_choice:
  "\<exists>p. parse_command_line sample_sys [Letter (CHR ''o'') (''jobid'' @ [NUL])] False = Returned (p, sacct_fields, [17])"
proof -
  have "first_column ''jobid'' = Some 17"
    by (simp add: first_column_find [symmetric] sacct_fields_def field_entry_def same_start_def lower_letters)
  then have "select_fields (field_items [''jobid''] @ []) (sacct_fields, []) = Returned (sacct_fields, [17])"
    using select_fields_plain [of "[''jobid'']" "[]" "[]"] by (simp add: plain_item_def is_space_def code_def select_fields_end)
  then have sel: "select_fields ''jobid,'' (sacct_fields, []) = Returned (sacct_fields, [17])" by (simp add: field_items_def)
  have arg: "c_text (''jobid'' @ [NUL]) = Some ''jobid''" by (simp add: c_text_def text_of_def)
  have "\<exists>p. parse_options sample_sys [Letter (CHR ''o'') (''jobid'' @ [NUL])] (init_params sample_sys) = Returned p \<and>
      opt_field_list p = Some ''jobid,'' \<and> \<not> brief_output p \<and> \<not> long_output p"
    using arg by (simp add: parse_option_def of_option_def init_params_def)
  then obtain p where p: "parse_options sample_sys [Letter (CHR ''o'') (''jobid'' @ [NUL])] (init_params sample_sys) = Returned p"
    "opt_field_list p = Some ''jobid,''" "\<not> brief_output p" "\<not> long_output p" by blast
  have "field_list_of (choose_users (choose_clusters sample_sys (set_defaults sample_sys p))) = Some ''jobid,''"
    using p by (simp add: field_list_of_def choose_users_def choose_clusters_def set_defaults_def set_cond_def Let_def)
  moreover have "storage_enabled sample_sys (set_defaults sample_sys p)"
    by (simp add: storage_enabled_def sample_sys_def)
  ultimately show ?thesis using p(1) sel by (simp add: parse_command_line_def select_columns_def Let_def)
qed

theorem columns_well_typed_witness:
  "arg_type (print_jobid (sample_env PARSABLE_NOT) (Job listed_job None)) = Param_string"
proof -
  obtain p where p: "parse_command_line sample_sys [Letter (CHR ''o'') (''jobid'' @ [NUL])] False = Returned (p, sacct_fields, [17])"
    using sample_choice by blast
  have fa: "field_arg (sample_env PARSABLE_NOT) (Job listed_job None) \<lparr>r_outbuf = [], r_qos = None\<rparr> (pf_type (sacct_fields ! 17)) =
      Some (print_jobid (sample_env PARSABLE_NOT) (Job listed_job None), \<lparr>r_outbuf = [], r_qos = None\<rparr>)"
    by (simp add: sacct_fields_def field_entry_def plain_def)
  have "pf_routine (sacct_fields ! 17) = Print_str" by (simp add: sacct_fields_def field_entry_def)
  then show ?thesis using columns_well_typed [OF p _ fa] by (simp add: chosen_def)
qed

end
