(* ===== verification/Spec2Isabelle.thy ===== *)
theory Spec2Isabelle
  imports Pack Bitops Bitformat_Laws Bitmasks Bitranges Clist_Spec Cbuf_Spec Jobacct_Spec Parse_time_Spec Options_Spec Sacct_Spec
begin

text \<open>
  A verification library for the code under \<^verbatim>\<open>src/\<close>: the \<^verbatim>\<open>sacct\<close> accounting command and the parts of
  SLURM it is built with.

  \<^bold>\<open>The program.\<close>  \<^verbatim>\<open>sacct\<close> (\<^verbatim>\<open>src/sacct.c\<close>, \<^verbatim>\<open>options.c\<close>, \<^verbatim>\<open>print.c\<close>, \<^verbatim>\<open>process.c\<close>) asks an accounting storage plugin for
  job records, aggregates the usage of job steps and prints a table.  Everything it exchanges with daemons is
  packed by \<^verbatim>\<open>src/src/common/pack.c\<close>; records travel in the lists of \<^verbatim>\<open>list.c\<close>; sets of nodes and cores are
  the bit strings of \<^verbatim>\<open>bitstring.c\<close>; the input and output of job steps pass through the circular buffers of
  \<^verbatim>\<open>cbuf.c\<close>.  These are the base that all other code calls, and they hold the algorithms whose
  correctness is not obvious, so they come first; the accounting
  records of \<^verbatim>\<open>jobacct_common.c\<close> are built on them.

  \<^bold>\<open>Prelude and Fifo.\<close>  The prelude has the assertion of the C code as a partial operation (a failed assertion is
  \<^const>\<open>None\<close>), block copies between byte arrays, C strings, and big-endian words.  \<open>Fifo\<close> states, as a
  locale, the contract of a container that is filled at one end and emptied at the front; it is interpreted for the
  pointer lists of \<^verbatim>\<open>list.c\<close> (queue and stack) and for the ring of \<^verbatim>\<open>cbuf.c\<close>.

  \<^bold>\<open>pack.c (theory Pack).\<close>  The record \<open>slurm_buf\<close> is \<^verbatim>\<open>struct slurm_buf\<close>; every routine is an operation of a
  small state-and-error monad whose errors are the early returns, and a \<^verbatim>\<open>fatal\<close> is a separate result.
  Integers have their C width, so the guards wrap as the code's do.  Memory comes from \<^verbatim>\<open>xmalloc\<close>, which aborts for
  more than \<^verbatim>\<open>INT_MAX\<close> bytes, and from \<^verbatim>\<open>xrealloc\<close>, which clears at most that much.  Round trips, bounds of reading
  arbitrary bytes, error returns on truncated input, the guard that wraps and the array whose size wraps are proved.

  \<^bold>\<open>bitstring.c (Bitstring to Bitranges).\<close>  A bit string is the list of its 32-bit words, header included, as in the
  code.  \<open>Bitstring\<close>, \<open>Bitsearch\<close>, \<open>Bitcount\<close>, \<open>Bitops\<close> and \<open>Bitformat\<close> hold the operations
  and, against the list of bits \<open>bits_of\<close>, what they compute; \<open>Bitmasks\<close> and \<open>Bitranges\<close> show that printing
  and reading masks and range lists are inverse.

  \<^bold>\<open>list.c (Clist to Clist_Spec).\<close>  A \<open>store\<close> maps addresses to nodes; a list has a head, the slot its tail
  pointer points to, and its registered iterators.  \<open>Clist\<close> has the operations, \<open>Clist_Laws\<close> the invariant of
  the chain, \<open>Clist_Ops\<close>, \<open>Clist_Iter\<close>, \<open>Clist_Loops\<close>, \<open>Clist_Pairs\<close> and \<open>Clist_Sort\<close> the effect of each
  operation on the sequence of data and on the positions of the iterators, and \<open>Clist_Spec\<close> the properties.

  \<^bold>\<open>cbuf.c (Cbuf to Cbuf_Spec).\<close>  The record \<open>cbuf\<close> is \<^verbatim>\<open>struct cbuf\<close>.  \<open>Cbuf\<close> has the data movers and
  \<open>Cbuf_Calls\<close> the calls of the interface.  \<open>Cbuf_Laws\<close> reads the array as the sequence of unread and of
  replayable bytes; \<open>Cbuf_Io\<close> states the contracts of the input and output functions as locales, interpreted for
  memory, and \<open>Cbuf_Fd\<close> derives them for descriptors from the documented behaviour of \<^verbatim>\<open>read\<close> and
  \<^verbatim>\<open>write\<close>.  \<open>Cbuf_Moves\<close>, \<open>Cbuf_Movers\<close>, \<open>Cbuf_Copy\<close>, \<open>Cbuf_Lines\<close>, \<open>Cbuf_Effects\<close> and
  \<open>Cbuf_Linecalls\<close> give the effect of every operation on these sequences; \<open>Cbuf_Runs\<close> puts the calls
  together, and \<open>Cbuf_Spec\<close> has the properties.

  \<^bold>\<open>jobacct_common.c and process.c (Wire, Jobacct to Jobacct_Spec).\<close>  \<open>Wire\<close> composes the contracts of the fields
  of \<open>Pack\<close> to those of messages.  \<open>Jobacct\<close> has the records of jobs and steps and their pack and unpack functions
  for the three protocol versions, \<open>Jobacct_Wire\<close> what they look like in the buffer.  \<open>Jobacct_Tasks\<close> has the
  usage counters of tasks, their aggregation, and the table of watched tasks, which is a list of \<open>Clist\<close>;
  \<open>Jobacct_Laws\<close> has the effect of these operations, and \<open>Jobacct_Spec\<close> the properties.  A finite
  \<^verbatim>\<open>float\<close> is a rational number: products and quotients are rounded to 24 bits, ties to even, and a conversion to an
  integer type cuts the fraction, or is undefined (a fault) where the value does not fit.

  \<^bold>\<open>parse_time.c (Ctext, Parse_time, Parse_time_Spec).\<close>  \<open>Ctext\<close> has the C strings and the printing of numbers that
  the text handling of the program shares: a string is the list of the characters of its array, NUL included, and
  reading behind the array is \<^const>\<open>None\<close>.  \<open>Parse_time\<close> has the parser of dates and times with its position and its
  half-filled fields, the printing of times, and the durations; the clock and \<^verbatim>\<open>localtime\<close> and \<^verbatim>\<open>mktime\<close> are
  parameters, and \<^verbatim>\<open>localtime\<close> can fail.  \<open>Parse_time_Spec\<close> has the round trips, the ranges, and the inputs on which the parser goes wrong.

  \<^bold>\<open>sacct: print_fields.c, print.c, options.c, sacct.c (Print_fields to Sacct_Spec).\<close>  \<open>Print_fields\<close> has the routines
  that print a value in a column, \<open>Protocol_text\<close> the texts of \<^verbatim>\<open>slurm_protocol_defs.c\<close> and
  \<^verbatim>\<open>slurm_protocol_api.c\<close> that the command uses: states, sizes with a unit, and the loop over lists of names.
  \<open>Print\<close> has one definition for every column of \<^verbatim>\<open>print.c\<close>, and the row; the buffer \<^verbatim>\<open>outbuf\<close> is part of the
  state, with what it holds at first as a parameter.  \<open>Options\<close> has the option parser, \<open>Sacct\<close> the table of columns,
  their selection, the defaults, the sums over steps and the listing, \<open>Sacct_main\<close> the dump and \<^verbatim>\<open>main\<close>.
  An exit with a status and an access outside the memory are results of their own (type \<open>run\<close>).  User names, host lists
  and the storage are parameters.  \<open>Options_Laws\<close> and \<open>Sacct_Laws\<close> have the lemmas; the contract of a function that
  adds a name is the locale \<open>collector\<close>, interpreted for the four of the program.  \<open>Options_Spec\<close> and \<open>Sacct_Spec\<close>
  have the properties.

  \<^bold>\<open>Loops and fuel.\<close>  No model uses fuel.  Loops over a counter are recursive functions with a measure; loops over
  pointers or driven by a callback are partial functions whose result \<^const>\<open>None\<close> is also that of an endless loop, and
  the properties state that they return.

  \<^bold>\<open>Bounds.\<close>  \<open>pack.c\<close>, \<open>bitstring.c\<close> and the records of \<open>jobacct_common.c\<close> are modelled at the width of the C
  types.  \<open>cbuf.c\<close> computes with ints: a sum that can leave them is checked where the code adds, and
  an overflow is \<^const>\<open>None\<close>.  The properties of \<open>Cbuf_Spec\<close> that need it state the bound \<open>size_limit\<close>, \<open>10 ^ 9\<close>, on
  the maximal size of a buffer and on the length of a write; \<open>cbuf_grow_overflows\<close> shows that a bound is needed.  In
  \<open>parse_time.c\<close> an overflow of an int or a long is \<^const>\<open>None\<close> too.  The counters of \<open>list.c\<close> are natural numbers.

  \<^bold>\<open>Calls without a prototype.\<close>  \<^verbatim>\<open>print.c\<close> calls the routines of \<^verbatim>\<open>print_fields.c\<close> through a pointer without parameter
  types.  \<open>routine_param\<close> has the types the routines declare; where a \<^verbatim>\<open>time_t\<close> is declared and an \<^verbatim>\<open>int\<close> is passed, the
  call is undefined in C, and the value that arrives, if any, is the parameter \<open>e_widen\<close>.

  \<^bold>\<open>Not modelled.\<close>  Threads (calls on one object are serialised by its mutex), \<^verbatim>\<open>errno\<close>, logging, and deallocation where
  nothing else happens; \<^verbatim>\<open>packdouble\<close>, which reinterprets the bits of a floating-point number, and the printing of
  \<^verbatim>\<open>double\<close>s; the text of \<^verbatim>\<open>sacct --help\<close>, and its debugging output.  The remaining files
  are traversals of records that end in a call to a daemon, a database or the terminal that is not part of the
  repository; they are listed with their reasons in the manifest.
\<close>

end
